(* ===== verification/Wslay_Prelude.thy ===== *)
theory Wslay_Prelude
  imports Main "HOL-Library.Word"
begin

unbundle bit_operations_syntax

text \<open>
  What every component shares: the machine types, memory faults, the outcomes of
  allocation, arrays written in place, and network byte order.

  \<^item> Bytes are \<open>8 word\<close>; \<open>size_t\<close> and \<open>uint64_t\<close> fields that the wire controls are
    \<open>64 word\<close> and wrap; pointers into a fixed array are offsets (\<open>nat\<close>) into a list.
  \<^item> A pointer to a \<open>talloc\<close> block is \<open>Null\<close>, \<open>Live v\<close> or \<open>Freed\<close>; using a pointer that
    is not live is a \<open>fault\<close>, a value of the model and never an unspecified term.
  \<^item> \<open>talloc\<close>, \<open>talloc_zero\<close>, \<open>talloc_set_destructor\<close> (the submodule \<open>talloc2\<close>, not part
    of the sources) and \<open>malloc\<close> are known only through whether each call succeeds: the
    n-th call of a context succeeds iff \<open>mem_ok m n\<close>, an arbitrary function.
\<close>

type_synonym byte = "8 word"
type_synonym uint16 = "16 word"
type_synonym uint32 = "32 word"
type_synonym uint64 = "64 word"

datatype fault = NullDereference | UseAfterFree | DoubleFree | BufferOverflow

datatype 'a tptr = Null | Live 'a | Freed

named_theorems wslay_defs \<open>definitions that symbolic execution unfolds\<close>

section \<open>Allocation\<close>

record allocator =
  mem_calls :: nat
  mem_ok :: "nat \<Rightarrow> bool"

definition mem_alloc :: "allocator \<Rightarrow> bool \<times> allocator" where
  "mem_alloc m = (mem_ok m (mem_calls m), m\<lparr>mem_calls := Suc (mem_calls m)\<rparr>)"

definition mem_unlimited :: allocator where
  "mem_unlimited = \<lparr>mem_calls = 0, mem_ok = (\<lambda>_. True)\<rparr>"

lemma mem_alloc_ok [simp]: "mem_ok (snd (mem_alloc m)) = mem_ok m"
  by (simp add: mem_alloc_def)

section \<open>Arrays\<close>

text \<open>\<open>arr_slice xs i j\<close> is \<open>xs[i..j)\<close>; \<open>write_at xs i ys\<close> stores \<open>ys\<close> from offset \<open>i\<close> on, as
  \<open>memcpy\<close> into an array does.\<close>

definition arr_slice :: "'a list \<Rightarrow> nat \<Rightarrow> nat \<Rightarrow> 'a list" where
  "arr_slice xs i j = take (j - i) (drop i xs)"

definition write_at :: "'a list \<Rightarrow> nat \<Rightarrow> 'a list \<Rightarrow> 'a list" where
  "write_at xs i ys = take i xs @ ys @ drop (i + length ys) xs"

lemma length_slice [simp]: "i \<le> j \<Longrightarrow> j \<le> length xs \<Longrightarrow> length (arr_slice xs i j) = j - i"
  by (simp add: arr_slice_def)

lemma length_write_at [simp]: "i + length ys \<le> length xs \<Longrightarrow> length (write_at xs i ys) = length xs"
  by (simp add: write_at_def)

lemma slice_empty [simp]: "arr_slice xs i i = []"
  by (simp add: arr_slice_def)

lemma slice_nth: "i + k < j \<Longrightarrow> j \<le> length xs \<Longrightarrow> arr_slice xs i j ! k = xs ! (i + k)"
  by (simp add: arr_slice_def)

lemma slice_append: "i \<le> j \<Longrightarrow> j \<le> k \<Longrightarrow> k \<le> length xs \<Longrightarrow> arr_slice xs i j @ arr_slice xs j k = arr_slice xs i k"
  by (rule nth_equalityI) (auto simp: nth_append slice_nth add.commute)

lemma drop_slice: "i + n \<le> j \<Longrightarrow> drop n (arr_slice xs i j) = arr_slice xs (i + n) j"
  by (simp add: arr_slice_def drop_take add.commute)

lemma take_slice: "i + n \<le> j \<Longrightarrow> take n (arr_slice xs i j) = arr_slice xs i (i + n)"
  by (simp add: arr_slice_def min_def)

lemma slice_write_at_same:
  "i + length ys \<le> length xs \<Longrightarrow> arr_slice (write_at xs i ys) i (i + length ys) = ys"
  by (simp add: arr_slice_def write_at_def)

lemma slice_write_at_below:
  "i \<le> j \<Longrightarrow> j \<le> k \<Longrightarrow> k \<le> length xs \<Longrightarrow> arr_slice (write_at xs k ys) i j = arr_slice xs i j"
  by (simp add: arr_slice_def write_at_def take_drop)

lemma slice_Cons: "i < j \<Longrightarrow> j \<le> length xs \<Longrightarrow> arr_slice xs i j = xs ! i # arr_slice xs (Suc i) j"
  by (rule nth_equalityI) (auto simp: slice_nth nth_Cons split: nat.splits)

lemma slice_update_below [simp]: "k < i \<Longrightarrow> arr_slice (xs[k := v]) i j = arr_slice xs i j"
  by (simp add: arr_slice_def)

lemma append_prefix_split:
  assumes "xs @ s = ys @ zs" "length ys \<le> length xs"
  shows "take (length ys) xs = ys" "drop (length ys) xs @ s = zs"
  using arg_cong [OF assms(1), of "take (length ys)"] arg_cong [OF assms(1), of "drop (length ys)"] assms(2)
  by simp_all

section \<open>Widening\<close>

lemma unat_ucast_widen:
  fixes b :: "'a::len word"
  assumes "LENGTH('a) \<le> LENGTH('b::len)"
  shows "unat (ucast b :: 'b word) = unat b"
proof -
  have "unat b < 2 ^ LENGTH('b)"
    using unsigned_less [of b] assms by (meson less_le_trans one_le_numeral power_increasing)
  then show ?thesis
    by (simp add: unsigned_ucast_eq take_bit_nat_eq_self)
qed

lemma unat_byte_less [simp]: "unat (b :: byte) < 256"
  using unsigned_less [of b] by simp

lemma unat_byte_to_32 [simp]: "unat (ucast (b :: byte) :: uint32) = unat b"
  by (simp add: unat_ucast_widen)

lemma unat_byte_to_64 [simp]: "unat (ucast (b :: byte) :: uint64) = unat b"
  by (simp add: unat_ucast_widen)

section \<open>Network byte order\<close>

text \<open>\<open>htons_bytes x\<close> is the memory image of \<open>htons (x)\<close>, the two bytes that \<open>memcpy\<close> copies
  out of it, whatever the order of the host; \<open>ntohs_bytes\<close>, \<open>htobe64_bytes\<close> and
  \<open>be64toh_bytes\<close> likewise.\<close>

definition htons_bytes :: "uint16 \<Rightarrow> byte list" where
  "htons_bytes x = [ucast (drop_bit 8 x), ucast x]"

definition ntohs_bytes :: "byte list \<Rightarrow> uint16" where
  "ntohs_bytes bs = push_bit 8 (ucast (bs ! 0)) OR ucast (bs ! 1)"

definition htobe64_bytes :: "uint64 \<Rightarrow> byte list" where
  "htobe64_bytes x =
     [ucast (drop_bit 56 x), ucast (drop_bit 48 x), ucast (drop_bit 40 x), ucast (drop_bit 32 x),
      ucast (drop_bit 24 x), ucast (drop_bit 16 x), ucast (drop_bit 8 x), ucast x]"

definition be64toh_bytes :: "byte list \<Rightarrow> uint64" where
  "be64toh_bytes bs = foldl (\<lambda>acc b. push_bit 8 acc OR ucast b) 0 bs"

lemma length_htons_bytes [simp]: "length (htons_bytes x) = 2"
  by (simp add: htons_bytes_def)

lemma length_htobe64_bytes [simp]: "length (htobe64_bytes x) = 8"
  by (simp add: htobe64_bytes_def)

lemma ntohs_htons: "ntohs_bytes (htons_bytes x @ bs) = x"
  unfolding ntohs_bytes_def htons_bytes_def
  by (rule bit_word_eqI) (auto simp: bit_simps)

lemma be_shift_step:
  "push_bit 8 (drop_bit (n + 8) x) OR ucast (ucast (drop_bit n x) :: byte) = drop_bit n x"
  for x :: uint64
  by (rule bit_word_eqI) (auto simp: bit_simps add.commute)

lemma be_shift_top: "ucast (ucast (drop_bit 56 x) :: byte) = drop_bit 56 x" for x :: uint64
  by (rule bit_word_eqI) (auto simp: bit_simps dest: bit_imp_le_length)

lemma be64toh_htobe64: "be64toh_bytes (htobe64_bytes x) = x"
  using be_shift_step [of 48 x] be_shift_step [of 40 x] be_shift_step [of 32 x]
    be_shift_step [of 24 x] be_shift_step [of 16 x] be_shift_step [of 8 x] be_shift_step [of 0 x]
  by (simp add: be64toh_bytes_def htobe64_bytes_def be_shift_top del: push_bit_numeral_minus_1)

lemma be64toh_zeros: "be64toh_bytes (replicate n 0 @ bs) = be64toh_bytes bs"
  by (induction n) (simp_all add: be64toh_bytes_def)

lemma be64toh_htons: "be64toh_bytes (replicate n 0 @ htons_bytes x) = ucast x"
proof -
  have "push_bit 8 (ucast (ucast (drop_bit 8 x) :: byte)) OR ucast (ucast x :: byte) = (ucast x :: uint64)"
    by (rule bit_word_eqI) (auto simp: bit_simps dest: bit_imp_le_length)
  then show ?thesis
    unfolding be64toh_zeros by (simp add: be64toh_bytes_def htons_bytes_def)
qed

end
