(* ===== verification/Wslay_Queue.thy ===== *)
theory Wslay_Queue
  imports Wslay_Prelude
begin

text \<open>
  The singly linked queue of \<open>queue.h\<close>, with its cells on a heap.

  A queue owns its cells: no function of \<open>queue.h\<close> lets a cell pointer escape, so the cells
  reachable from one queue are a heap of their own (\<open>queue_cells\<close>, address to cell).
  \<open>queue_fresh\<close> is above every address \<open>malloc\<close> has returned for this queue; the argument
  \<open>ok\<close> of the pushing operations says whether their \<open>malloc\<close> returned a block. Reading
  through \<open>NULL\<close> is \<open>None\<close>.

  Shown here: the heap structure represents a list (\<open>queue_inv\<close>, \<open>queue_list\<close>) and each
  operation is the list operation it is named after; \<open>tail\<close> is always the last reachable
  cell; \<open>free\<close> releases every cell exactly once.
\<close>

record 'a wslay_queue_cell =
  cell_data :: 'a
  cell_next :: "nat option"

record 'a wslay_queue =
  queue_top :: "nat option"
  queue_tail :: "nat option"
  queue_cells :: "nat \<rightharpoonup> 'a wslay_queue_cell"
  queue_fresh :: nat

section \<open>Operations\<close>

definition wslay_queue_init :: "'a wslay_queue" where
  "wslay_queue_init = \<lparr>queue_top = None, queue_tail = None, queue_cells = Map.empty, queue_fresh = 0\<rparr>"

definition wslay_queue_new :: "allocator \<Rightarrow> 'a wslay_queue option \<times> allocator" where
  "wslay_queue_new m =
     (case mem_alloc m of (queue_ok, m1) \<Rightarrow>
        if \<not> queue_ok then (None, m1)
        else (case mem_alloc m1 of (destructor_ok, m2) \<Rightarrow>
          if \<not> destructor_ok then (None, m2) else (Some wslay_queue_init, m2)))"

definition wslay_queue_push :: "bool \<Rightarrow> 'a wslay_queue \<Rightarrow> 'a \<Rightarrow> int \<times> 'a wslay_queue" where
  "wslay_queue_push ok q x =
     (if \<not> ok then (1, q)
      else (let a = queue_fresh q;
                h = (queue_cells q)(a \<mapsto> \<lparr>cell_data = x, cell_next = None\<rparr>);
                q' = q\<lparr>queue_fresh := Suc a\<rparr>
            in case queue_tail q of
                 Some t \<Rightarrow> (0, q'\<lparr>queue_cells := h(t := map_option (cell_next_update (\<lambda>_. Some a)) (h t)),
                                 queue_tail := Some a\<rparr>)
               | None \<Rightarrow> (0, q'\<lparr>queue_cells := h, queue_top := Some a, queue_tail := Some a\<rparr>)))"

definition wslay_queue_push_front :: "bool \<Rightarrow> 'a wslay_queue \<Rightarrow> 'a \<Rightarrow> int \<times> 'a wslay_queue" where
  "wslay_queue_push_front ok q x =
     (if \<not> ok then (1, q)
      else (let a = queue_fresh q;
                h = (queue_cells q)(a \<mapsto> \<lparr>cell_data = x, cell_next = queue_top q\<rparr>);
                q' = q\<lparr>queue_fresh := Suc a, queue_cells := h, queue_top := Some a\<rparr>
            in (0, if queue_tail q' = None then q'\<lparr>queue_tail := queue_top q'\<rparr> else q')))"

definition wslay_queue_pop :: "'a wslay_queue \<Rightarrow> int \<times> 'a wslay_queue" where
  "wslay_queue_pop q =
     (case queue_top q of
        None \<Rightarrow> (1, q)
      | Some t \<Rightarrow>
          (let q1 = q\<lparr>queue_top := Option.bind (queue_cells q t) cell_next\<rparr>;
               q2 = (if queue_tail q1 = Some t then q1\<lparr>queue_tail := None\<rparr> else q1)
           in (0, q2\<lparr>queue_cells := (queue_cells q2)(t := None)\<rparr>)))"

definition wslay_queue_top :: "'a wslay_queue \<Rightarrow> 'a option" where
  "wslay_queue_top q = Option.bind (queue_top q) (\<lambda>t. map_option cell_data (queue_cells q t))"

definition wslay_queue_tail :: "'a wslay_queue \<Rightarrow> 'a option" where
  "wslay_queue_tail q = Option.bind (queue_tail q) (\<lambda>t. map_option cell_data (queue_cells q t))"

text \<open>Clients write through the pointer that \<open>wslay_queue_tail\<close> returns: the datum of the last
  cell is replaced.\<close>

definition queue_tail_write :: "('a \<Rightarrow> 'a) \<Rightarrow> 'a wslay_queue \<Rightarrow> 'a wslay_queue" where
  "queue_tail_write f q =
     (case queue_tail q of
        None \<Rightarrow> q
      | Some t \<Rightarrow> q\<lparr>queue_cells := (queue_cells q)(t := map_option (cell_data_update f) (queue_cells q t))\<rparr>)"

definition wslay_queue_is_empty :: "'a wslay_queue \<Rightarrow> bool" where
  "wslay_queue_is_empty q = (queue_top q = None)"

text \<open>The loop of \<open>wslay_queue_free\<close>: \<open>None\<close> if it does not end, \<open>Inl\<close> if it reads a cell that
  is not allocated.\<close>

partial_function (option) wslay_queue_free_loop ::
    "(nat \<rightharpoonup> 'a wslay_queue_cell) \<Rightarrow> nat option \<Rightarrow> (fault + (nat \<rightharpoonup> 'a wslay_queue_cell)) option" where
  "wslay_queue_free_loop h cell =
     (case cell of
        None \<Rightarrow> Some (Inr h)
      | Some a \<Rightarrow> (case h a of
          None \<Rightarrow> Some (Inl UseAfterFree)
        | Some c \<Rightarrow> wslay_queue_free_loop (h(a := None)) (cell_next c)))"

definition wslay_queue_free ::
    "'a wslay_queue tptr \<Rightarrow> (fault + int \<times> (nat \<rightharpoonup> 'a wslay_queue_cell)) option" where
  "wslay_queue_free data =
     (case data of
        Null \<Rightarrow> Some (Inr (1, Map.empty))
      | Freed \<Rightarrow> Some (Inl UseAfterFree)
      | Live q \<Rightarrow> map_option (map_sum id (\<lambda>h. (0, h))) (wslay_queue_free_loop (queue_cells q) (queue_top q)))"

section \<open>The list a queue represents\<close>

primrec chain :: "(nat \<rightharpoonup> 'a wslay_queue_cell) \<Rightarrow> nat option \<Rightarrow> nat list \<Rightarrow> bool" where
  "chain h p [] = (p = None)"
| "chain h p (a # as) = (p = Some a \<and> (\<exists>c. h a = Some c \<and> chain h (cell_next c) as))"

fun queue_follow :: "nat \<Rightarrow> (nat \<rightharpoonup> 'a wslay_queue_cell) \<Rightarrow> nat option \<Rightarrow> nat list" where
  "queue_follow 0 h p = []"
| "queue_follow (Suc n) h None = []"
| "queue_follow (Suc n) h (Some a) = a # queue_follow n h (Option.bind (h a) cell_next)"

definition queue_addrs :: "'a wslay_queue \<Rightarrow> nat list" where
  "queue_addrs q = queue_follow (queue_fresh q) (queue_cells q) (queue_top q)"

definition queue_list :: "'a wslay_queue \<Rightarrow> 'a list" where
  "queue_list q = List.map_filter (\<lambda>a. map_option cell_data (queue_cells q a)) (queue_addrs q)"

definition queue_rep :: "'a wslay_queue \<Rightarrow> nat list \<Rightarrow> bool" where
  "queue_rep q as \<longleftrightarrow>
     chain (queue_cells q) (queue_top q) as \<and> distinct as \<and> set as = dom (queue_cells q) \<and>
     (\<forall>a \<in> set as. a < queue_fresh q) \<and> queue_tail q = (if as = [] then None else Some (last as))"

definition queue_inv :: "'a wslay_queue \<Rightarrow> bool" where
  "queue_inv q = queue_rep q (queue_addrs q)"

lemma chain_upd [simp]: "a \<notin> set as \<Longrightarrow> chain (h(a := v)) p as = chain h p as"
  by (induction as arbitrary: p) auto

lemma chain_dom: "chain h p as \<Longrightarrow> set as \<subseteq> dom h"
  by (induction as arbitrary: p) auto

lemma chain_follow: "chain h p as \<Longrightarrow> length as \<le> n \<Longrightarrow> queue_follow n h p = as"
proof (induction as arbitrary: p n)
  case Nil
  then show ?case by (cases n) auto
next
  case (Cons a as)
  then show ?case by (cases n) auto
qed

lemma chain_snoc:
  assumes "chain h p (as @ [t])" "a \<notin> set as" "t \<notin> set as" "a \<noteq> t"
  shows "chain (h(a \<mapsto> \<lparr>cell_data = x, cell_next = None\<rparr>,
                  t := map_option (cell_next_update (\<lambda>_. Some a)) (h t))) p (as @ [t, a])"
  using assms by (induction as arbitrary: p) auto

lemma distinct_below_length: "distinct as \<Longrightarrow> \<forall>a \<in> set as. a < n \<Longrightarrow> length as \<le> (n :: nat)"
  by (metis card_lessThan card_mono distinct_card finite_lessThan lessThan_iff subsetI)

lemma queue_rep_addrs: "queue_rep q as \<Longrightarrow> queue_addrs q = as"
  unfolding queue_rep_def queue_addrs_def
  by (intro chain_follow distinct_below_length) auto

lemma queue_rep_inv: "queue_rep q as \<Longrightarrow> queue_inv q"
  by (simp add: queue_inv_def queue_rep_addrs)

lemma queue_rep_list:
  "queue_rep q as \<Longrightarrow> queue_list q = map (\<lambda>a. cell_data (the (queue_cells q a))) as"
  unfolding queue_list_def
  by (subst queue_rep_addrs, assumption)
    (auto simp: queue_rep_def map_filter_def filter_id_conv
      intro!: arg_cong2 [where f = map] map_cong)

section \<open>Each operation is its list operation\<close>

lemma queue_rep_init: "queue_rep wslay_queue_init []"
  by (simp add: queue_rep_def wslay_queue_init_def)

lemma queue_rep_push:
  assumes "queue_rep q as"
  shows "queue_rep (snd (wslay_queue_push True q x)) (as @ [queue_fresh q])"
proof (cases as rule: rev_cases)
  case Nil
  with assms show ?thesis
    by (auto simp: queue_rep_def wslay_queue_push_def Let_def)
next
  case (snoc bs t)
  with assms have rep: "chain (queue_cells q) (queue_top q) (bs @ [t])" "queue_tail q = Some t"
      "t \<notin> set bs" "t < queue_fresh q" "queue_fresh q \<notin> set bs" "queue_fresh q \<noteq> t"
    by (auto simp: queue_rep_def)
  show ?thesis
    using assms snoc rep chain_snoc [OF rep(1) rep(5) rep(3) rep(6), of x]
    by (auto simp: queue_rep_def wslay_queue_push_def Let_def less_Suc_eq)
qed

lemma queue_rep_push_front:
  assumes "queue_rep q as"
  shows "queue_rep (snd (wslay_queue_push_front True q x)) (queue_fresh q # as)"
proof -
  have "queue_fresh q \<notin> set as"
    using assms by (auto simp: queue_rep_def)
  then show ?thesis
    using assms by (auto simp: queue_rep_def wslay_queue_push_front_def Let_def less_Suc_eq)
qed

lemma queue_rep_pop:
  assumes "queue_rep q (a # as)"
  shows "queue_rep (snd (wslay_queue_pop q)) as"
proof -
  obtain c where "queue_cells q a = Some c" "chain (queue_cells q) (cell_next c) as" "a \<notin> set as"
    using assms by (auto simp: queue_rep_def)
  moreover have "as \<noteq> [] \<Longrightarrow> last as \<noteq> a"
    using \<open>a \<notin> set as\<close> by (metis last_in_set)
  ultimately show ?thesis
    using assms by (auto simp: queue_rep_def wslay_queue_pop_def Let_def)
qed

lemma queue_rep_tail_write: "queue_rep q as \<Longrightarrow> queue_rep (queue_tail_write f q) as"
proof -
  have upd: "chain (h(t := map_option (cell_data_update f) (h t))) p as = chain h p as"
    for h :: "nat \<rightharpoonup> 'a wslay_queue_cell" and t p as
    by (induction as arbitrary: p) auto
  assume "queue_rep q as"
  then show ?thesis
    by (auto simp: queue_rep_def queue_tail_write_def upd split: option.splits)
qed

lemma queue_list_init [simp]: "queue_list wslay_queue_init = []"
  by (simp add: queue_rep_list [OF queue_rep_init])

lemma queue_inv_init [simp, intro]: "queue_inv wslay_queue_init"
  by (rule queue_rep_inv [OF queue_rep_init])

lemma queue_push_fail [simp]: "wslay_queue_push False q x = (1, q)"
  "wslay_queue_push_front False q x = (1, q)"
  by (simp_all add: wslay_queue_push_def wslay_queue_push_front_def)

lemma queue_push_ok [simp]: "fst (wslay_queue_push True q x) = 0"
  "fst (wslay_queue_push_front True q x) = 0"
  by (simp_all add: wslay_queue_push_def wslay_queue_push_front_def Let_def split: option.split)

lemma queue_inv_push [simp]:
  assumes "queue_inv q"
  shows "queue_inv (snd (wslay_queue_push ok q x))"
proof (cases ok)
  case True
  then show ?thesis
    using queue_rep_inv [OF queue_rep_push] assms unfolding queue_inv_def [of q] by simp
qed (use assms in simp)

lemma queue_list_push [simp]:
  assumes "queue_inv q"
  shows "queue_list (snd (wslay_queue_push True q x)) = queue_list q @ [x]"
proof -
  from assms have rep: "queue_rep q (queue_addrs q)" by (simp add: queue_inv_def)
  then have fresh: "queue_fresh q \<notin> set (queue_addrs q)" by (auto simp: queue_rep_def)
  show ?thesis
    unfolding queue_rep_list [OF queue_rep_push [OF rep]] queue_rep_list [OF rep]
    using fresh rep
    by (auto simp: wslay_queue_push_def Let_def queue_rep_def split: option.splits if_splits)
qed

lemma queue_inv_push_front [simp]:
  assumes "queue_inv q"
  shows "queue_inv (snd (wslay_queue_push_front ok q x))"
proof (cases ok)
  case True
  then show ?thesis
    using queue_rep_inv [OF queue_rep_push_front] assms unfolding queue_inv_def [of q] by simp
qed (use assms in simp)

lemma queue_list_push_front [simp]:
  assumes "queue_inv q"
  shows "queue_list (snd (wslay_queue_push_front True q x)) = x # queue_list q"
proof -
  from assms have rep: "queue_rep q (queue_addrs q)" by (simp add: queue_inv_def)
  then have fresh: "queue_fresh q \<notin> set (queue_addrs q)" by (auto simp: queue_rep_def)
  show ?thesis
    unfolding queue_rep_list [OF queue_rep_push_front [OF rep]] queue_rep_list [OF rep]
    using fresh by (auto simp: wslay_queue_push_front_def Let_def)
qed

lemma queue_inv_list:
  "queue_inv q \<Longrightarrow> queue_list q = map (\<lambda>a. cell_data (the (queue_cells q a))) (queue_addrs q)"
  unfolding queue_inv_def by (rule queue_rep_list)

lemma queue_empty_iff: "queue_inv q \<Longrightarrow> wslay_queue_is_empty q = (queue_list q = [])"
  unfolding queue_inv_list unfolding queue_inv_def
  by (cases "queue_addrs q") (auto simp: queue_rep_def wslay_queue_is_empty_def)

lemma queue_top_list:
  "queue_inv q \<Longrightarrow> wslay_queue_top q = (case queue_list q of [] \<Rightarrow> None | x # xs \<Rightarrow> Some x)"
  unfolding queue_inv_list unfolding queue_inv_def
  by (cases "queue_addrs q") (auto simp: queue_rep_def wslay_queue_top_def)

lemma queue_tail_list:
  assumes "queue_inv q"
  shows "wslay_queue_tail q = (if queue_list q = [] then None else Some (last (queue_list q)))"
proof -
  from assms have rep: "queue_rep q (queue_addrs q)" by (simp add: queue_inv_def)
  have "last (queue_addrs q) \<in> dom (queue_cells q)" if "queue_addrs q \<noteq> []"
    using rep that by (metis last_in_set queue_rep_def)
  then show ?thesis
    unfolding queue_inv_list [OF assms]
    using rep by (auto simp: queue_rep_def wslay_queue_tail_def last_map)
qed

lemma queue_pop_empty: "queue_inv q \<Longrightarrow> queue_list q = [] \<Longrightarrow> wslay_queue_pop q = (1, q)"
  using queue_empty_iff [of q] by (simp add: wslay_queue_is_empty_def wslay_queue_pop_def)

lemma queue_pop_Cons:
  assumes "queue_inv q" "queue_list q = x # xs"
  shows "fst (wslay_queue_pop q) = 0" "queue_inv (snd (wslay_queue_pop q))"
    "queue_list (snd (wslay_queue_pop q)) = xs"
proof -
  from assms obtain a as where rep: "queue_rep q (a # as)"
    unfolding queue_inv_def by (cases "queue_addrs q") (auto simp: queue_rep_list)
  show "queue_inv (snd (wslay_queue_pop q))"
    by (rule queue_rep_inv [OF queue_rep_pop [OF rep]])
  show "fst (wslay_queue_pop q) = 0"
    using rep by (auto simp: wslay_queue_pop_def queue_rep_def Let_def)
  have "a \<notin> set as" using rep by (simp add: queue_rep_def)
  then show "queue_list (snd (wslay_queue_pop q)) = xs"
    using rep assms(2) unfolding queue_rep_list [OF queue_rep_pop [OF rep]] queue_rep_list [OF rep]
    by (auto simp: wslay_queue_pop_def queue_rep_def Let_def)
qed

lemma queue_inv_pop [simp]: "queue_inv q \<Longrightarrow> queue_inv (snd (wslay_queue_pop q))"
  using queue_pop_empty [of q] queue_pop_Cons(2) [of q] by (cases "queue_list q") auto

lemma queue_list_pop [simp]: "queue_inv q \<Longrightarrow> queue_list (snd (wslay_queue_pop q)) = tl (queue_list q)"
  using queue_pop_empty [of q] queue_pop_Cons(3) [of q] by (cases "queue_list q") auto

lemma queue_inv_tail_write [simp]: "queue_inv q \<Longrightarrow> queue_inv (queue_tail_write f q)"
  using queue_rep_inv queue_rep_tail_write unfolding queue_inv_def [of q] by blast

lemma queue_list_tail_write:
  assumes "queue_inv q" "queue_list q = xs @ [x]"
  shows "queue_list (queue_tail_write f q) = xs @ [f x]"
proof -
  from assms(1) have rep: "queue_rep q (queue_addrs q)" by (simp add: queue_inv_def)
  with assms(2) obtain as t where as: "queue_addrs q = as @ [t]"
    by (cases "queue_addrs q" rule: rev_cases) (auto simp: queue_rep_list)
  with rep have t: "queue_tail q = Some t" "t \<notin> set as" "t \<in> dom (queue_cells q)"
    by (auto simp: queue_rep_def)
  show ?thesis
    using assms(2) t as unfolding queue_rep_list [OF rep] queue_rep_list [OF queue_rep_tail_write [OF rep]]
    by (auto simp: queue_tail_write_def)
qed

section \<open>Releasing a queue\<close>

lemma queue_free_loop_chain:
  "chain h p as \<Longrightarrow> distinct as \<Longrightarrow>
   wslay_queue_free_loop h p = Some (Inr (h |` (- set as)))"
proof (induction as arbitrary: h p)
  case Nil
  then show ?case by (simp add: wslay_queue_free_loop.simps)
next
  case (Cons a as)
  then obtain c where c: "p = Some a" "h a = Some c" "chain h (cell_next c) as" "a \<notin> set as"
    by auto
  have "wslay_queue_free_loop h p = wslay_queue_free_loop (h(a := None)) (cell_next c)"
    using c by (subst wslay_queue_free_loop.simps) simp
  also have "\<dots> = Some (Inr ((h(a := None)) |` (- set as)))"
    using c(3) Cons.prems(2) by (intro Cons.IH) (simp_all only: chain_upd [OF c(4)] distinct.simps)
  also have "(h(a := None)) |` (- set as) = h |` (- set (a # as))"
    by (auto simp: restrict_map_def fun_eq_iff)
  finally show ?case .
qed

section \<open>The interface\<close>

text \<open>What the event layer relies on: a double-ended list of pointers, described by the list
  \<open>contents\<close> for well-formed queues.\<close>

locale wslay_fifo =
  fixes init :: 'q
    and push push_front :: "bool \<Rightarrow> 'q \<Rightarrow> 'a \<Rightarrow> int \<times> 'q"
    and pop :: "'q \<Rightarrow> int \<times> 'q"
    and top tail :: "'q \<Rightarrow> 'a option"
    and is_empty :: "'q \<Rightarrow> bool"
    and contents :: "'q \<Rightarrow> 'a list"
    and wf :: "'q \<Rightarrow> bool"
  assumes wf_init: "wf init"
    and contents_init: "contents init = []"
    and wf_push: "wf q \<Longrightarrow> wf (snd (push ok q x))"
    and contents_push: "wf q \<Longrightarrow> contents (snd (push True q x)) = contents q @ [x]"
    and wf_push_front: "wf q \<Longrightarrow> wf (snd (push_front ok q x))"
    and contents_push_front: "wf q \<Longrightarrow> contents (snd (push_front True q x)) = x # contents q"
    and wf_pop: "wf q \<Longrightarrow> wf (snd (pop q))"
    and contents_pop: "wf q \<Longrightarrow> contents (snd (pop q)) = tl (contents q)"
    and top_contents: "wf q \<Longrightarrow> top q = (case contents q of [] \<Rightarrow> None | x # xs \<Rightarrow> Some x)"
    and tail_contents: "wf q \<Longrightarrow> tail q = (if contents q = [] then None else Some (last (contents q)))"
    and is_empty_contents: "wf q \<Longrightarrow> is_empty q = (contents q = [])"
begin

lemma push_many:
  assumes "wf q"
  shows "wf (foldl (\<lambda>q x. snd (push True q x)) q xs)"
    and "contents (foldl (\<lambda>q x. snd (push True q x)) q xs) = contents q @ xs"
  using assms by (induction xs arbitrary: q) (auto simp: wf_push contents_push)

lemma push_front_many:
  assumes "wf q"
  shows "wf (foldl (\<lambda>q x. snd (push_front True q x)) q xs)"
    and "contents (foldl (\<lambda>q x. snd (push_front True q x)) q xs) = rev xs @ contents q"
  using assms by (induction xs arbitrary: q) (auto simp: wf_push_front contents_push_front)

lemma pop_many:
  assumes "wf q"
  shows "wf (((\<lambda>q. snd (pop q)) ^^ n) q)"
    and "contents (((\<lambda>q. snd (pop q)) ^^ n) q) = drop n (contents q)"
  using assms by (induction n) (auto simp: wf_pop contents_pop drop_Suc tl_drop)

lemma fifo_order:
  assumes "i < length xs"
  shows "top (((\<lambda>q. snd (pop q)) ^^ i) (foldl (\<lambda>q x. snd (push True q x)) init xs)) = Some (xs ! i)"
  using assms push_many [OF wf_init, of xs]
  by (simp add: top_contents pop_many contents_init Cons_nth_drop_Suc [symmetric])

lemma lifo_order:
  assumes "i < length xs"
  shows "top (((\<lambda>q. snd (pop q)) ^^ i) (foldl (\<lambda>q x. snd (push_front True q x)) init xs))
       = Some (xs ! (length xs - 1 - i))"
  using assms push_front_many [OF wf_init, of xs]
  by (simp add: top_contents pop_many contents_init Cons_nth_drop_Suc [symmetric] rev_nth)

end

interpretation cellq: wslay_fifo
  wslay_queue_init wslay_queue_push wslay_queue_push_front wslay_queue_pop
  wslay_queue_top wslay_queue_tail wslay_queue_is_empty queue_list queue_inv
  by unfold_locales (simp_all add: queue_top_list queue_tail_list queue_empty_iff)

text \<open>
  C36. FIFO: after pushing \<open>xs\<close> on an empty queue and popping \<open>i\<close> times, \<open>wslay_queue_top\<close>
  returns the \<open>i\<close>-th element pushed, over the linked cells.
\<close>
theorem wslay_queue_fifo:
  assumes "i < length xs"
  shows "wslay_queue_top
           (((\<lambda>q. snd (wslay_queue_pop q)) ^^ i)
              (foldl (\<lambda>q x. snd (wslay_queue_push True q x)) wslay_queue_init xs)) = Some (xs ! i)"
  using assms by (rule cellq.fifo_order)

theorem wslay_queue_fifo_witness:
  "wslay_queue_top (((\<lambda>q. snd (wslay_queue_pop q)) ^^ 2)
     (foldl (\<lambda>q x. snd (wslay_queue_push True q x)) wslay_queue_init [1, 2, 3, 4, 5 :: int])) = Some 3"
  using wslay_queue_fifo [of 2 "[1, 2, 3, 4, 5 :: int]"] by simp

text \<open>
  The destructor \<open>wslay_queue_free\<close> of a well-formed queue ends, never reads a released
  cell, returns 0 and leaves no cell allocated.
\<close>
theorem wslay_queue_free_releases_all:
  assumes "queue_inv q"
  shows "wslay_queue_free (Live q) = Some (Inr (0, Map.empty))"
proof -
  have rep: "queue_rep q (queue_addrs q)" using assms by (simp add: queue_inv_def)
  then have "queue_cells q |` (- set (queue_addrs q)) = Map.empty"
    by (auto simp: queue_rep_def restrict_map_def fun_eq_iff dom_def)
  moreover have "wslay_queue_free_loop (queue_cells q) (queue_top q)
      = Some (Inr (queue_cells q |` (- set (queue_addrs q))))"
    using rep by (intro queue_free_loop_chain) (simp_all add: queue_rep_def)
  ultimately show ?thesis
    by (simp add: wslay_queue_free_def)
qed

theorem wslay_queue_free_releases_all_witness:
  "wslay_queue_free (Live (snd (wslay_queue_push True wslay_queue_init (7 :: int))))
     = Some (Inr (0, Map.empty))"
  by (rule wslay_queue_free_releases_all) simp

end
