(* ===== verification/Wslay_Utf8.thy ===== *)
theory Wslay_Utf8
  imports Wslay_Prelude
begin

text \<open>
  The UTF-8 automaton of \<open>utf8.c\<close>/\<open>utf8.h\<close>: a table of byte classes and transitions and the
  function \<open>decode\<close> that feeds it one byte.

  The reference is RFC 3629: a text is valid iff it is the concatenation of the encodings of
  Unicode scalar values (\<open>utf8_encode\<close>). Shown here: the automaton ends in
  \<open>UTF8_ACCEPT\<close> on exactly the valid texts, computes the scalar value of each encoding, is
  stuck once it rejects, and never indexes outside its table.
\<close>

abbreviation (input) UTF8_ACCEPT :: uint32 where "UTF8_ACCEPT \<equiv> 0"
abbreviation (input) UTF8_REJECT :: uint32 where "UTF8_REJECT \<equiv> 12"

definition wslay_utf8d :: "byte list" where
  "wslay_utf8d = [
    0, 0, 0, 0, 0, 0, 0, 0, 0, 0, 0, 0, 0, 0, 0, 0, 0, 0, 0, 0, 0, 0, 0, 0, 0, 0, 0, 0, 0, 0, 0, 0,
    0, 0, 0, 0, 0, 0, 0, 0, 0, 0, 0, 0, 0, 0, 0, 0, 0, 0, 0, 0, 0, 0, 0, 0, 0, 0, 0, 0, 0, 0, 0, 0,
    0, 0, 0, 0, 0, 0, 0, 0, 0, 0, 0, 0, 0, 0, 0, 0, 0, 0, 0, 0, 0, 0, 0, 0, 0, 0, 0, 0, 0, 0, 0, 0,
    0, 0, 0, 0, 0, 0, 0, 0, 0, 0, 0, 0, 0, 0, 0, 0, 0, 0, 0, 0, 0, 0, 0, 0, 0, 0, 0, 0, 0, 0, 0, 0,
    1, 1, 1, 1, 1, 1, 1, 1, 1, 1, 1, 1, 1, 1, 1, 1, 9, 9, 9, 9, 9, 9, 9, 9, 9, 9, 9, 9, 9, 9, 9, 9,
    7, 7, 7, 7, 7, 7, 7, 7, 7, 7, 7, 7, 7, 7, 7, 7, 7, 7, 7, 7, 7, 7, 7, 7, 7, 7, 7, 7, 7, 7, 7, 7,
    8, 8, 2, 2, 2, 2, 2, 2, 2, 2, 2, 2, 2, 2, 2, 2, 2, 2, 2, 2, 2, 2, 2, 2, 2, 2, 2, 2, 2, 2, 2, 2,
    10, 3, 3, 3, 3, 3, 3, 3, 3, 3, 3, 3, 3, 4, 3, 3, 11, 6, 6, 6, 5, 8, 8, 8, 8, 8, 8, 8, 8, 8, 8, 8,
    0, 12, 24, 36, 60, 96, 84, 12, 12, 12, 48, 72, 12, 12, 12, 12, 12, 12, 12, 12, 12, 12, 12, 12,
    12, 0, 12, 12, 12, 12, 12, 0, 12, 0, 12, 12, 12, 24, 12, 12, 12, 12, 12, 24, 12, 24, 12, 12,
    12, 12, 12, 12, 12, 12, 12, 24, 12, 12, 12, 12, 12, 24, 12, 12, 12, 12, 12, 12, 12, 24, 12, 12,
    12, 12, 12, 12, 12, 12, 12, 36, 12, 36, 12, 12, 12, 36, 12, 12, 12, 12, 12, 36, 12, 36, 12, 12,
    12, 36, 12, 12, 12, 12, 12, 12, 12, 12, 12, 12]"

text \<open>\<open>decode state codep byte\<close> is \<open>(*state_ptr, *codep_ptr)\<close> after the call; the C function
  returns the new state.\<close>

definition decode :: "uint32 \<Rightarrow> uint32 \<Rightarrow> uint32 \<Rightarrow> uint32 \<times> uint32" where
  "decode state codep b =
     (let type = (ucast (wslay_utf8d ! unat b) :: uint32);
          codep' = (if state \<noteq> UTF8_ACCEPT then (b AND 0x3f) OR push_bit 6 codep
                    else drop_bit (unat type) 0xff AND b)
      in (ucast (wslay_utf8d ! unat (256 + state + type)), codep'))"

text \<open>Feeding bytes one after the other, as the loop of \<open>wslay_event_recv\<close> does.\<close>

fun utf8_run :: "uint32 \<times> uint32 \<Rightarrow> byte list \<Rightarrow> uint32 \<times> uint32" where
  "utf8_run sc [] = sc"
| "utf8_run (s, c) (b # bs) = utf8_run (decode s c (ucast b)) bs"

section \<open>The table\<close>

definition utf8_class :: "nat \<Rightarrow> nat" where
  "utf8_class n =
     (if n < 0x80 then 0 else if n < 0x90 then 1 else if n < 0xA0 then 9 else if n < 0xC0 then 7
      else if n < 0xC2 then 8 else if n < 0xE0 then 2 else if n = 0xE0 then 10
      else if n < 0xED then 3 else if n = 0xED then 4 else if n < 0xF0 then 3
      else if n = 0xF0 then 11 else if n < 0xF4 then 6 else if n = 0xF4 then 5 else 8)"

definition utf8_states :: "uint32 set" where
  "utf8_states = {0, 12, 24, 36, 48, 60, 72, 84, 96}"

lemma length_utf8d [simp]: "length wslay_utf8d = 364"
  by (simp add: wslay_utf8d_def)

lemma utf8d_class_all: "take 256 wslay_utf8d = map (\<lambda>n. of_nat (utf8_class n)) [0..<256]"
  by code_simp

lemma utf8d_class: "n < 256 \<Longrightarrow> wslay_utf8d ! n = of_nat (utf8_class n)"
  using arg_cong [OF utf8d_class_all, of "\<lambda>xs. xs ! n"] by simp

lemma utf8_class_le: "utf8_class n \<le> 11"
  by (simp add: utf8_class_def)

text \<open>The transition on a byte, by its value.\<close>

definition utf8_delta :: "uint32 \<Rightarrow> nat \<Rightarrow> uint32" where
  "utf8_delta s n =
     (if s = 0 then
        (if n < 0x80 then 0 else if n < 0xC2 then 12 else if n < 0xE0 then 24
         else if n = 0xE0 then 48 else if n < 0xED then 36 else if n = 0xED then 60
         else if n < 0xF0 then 36 else if n = 0xF0 then 72 else if n < 0xF4 then 84
         else if n = 0xF4 then 96 else 12)
      else if s = 24 then (if 0x80 \<le> n \<and> n < 0xC0 then 0 else 12)
      else if s = 36 then (if 0x80 \<le> n \<and> n < 0xC0 then 24 else 12)
      else if s = 48 then (if 0xA0 \<le> n \<and> n < 0xC0 then 24 else 12)
      else if s = 60 then (if 0x80 \<le> n \<and> n < 0xA0 then 24 else 12)
      else if s = 72 then (if 0x90 \<le> n \<and> n < 0xC0 then 36 else 12)
      else if s = 84 then (if 0x80 \<le> n \<and> n < 0xC0 then 36 else 12)
      else if s = 96 then (if 0x80 \<le> n \<and> n < 0x90 then 36 else 12)
      else 12)"

lemma utf8_delta_rows:
  "list_all (\<lambda>s. list_all (\<lambda>n. wslay_utf8d ! (256 + s + utf8_class n) = ucast (utf8_delta (of_nat s) n))
       [0x7F, 0x80, 0x90, 0xA0, 0xC0, 0xC2, 0xE0, 0xE1, 0xED, 0xF0, 0xF1, 0xF4])
     [0, 12, 24, 36, 48, 60, 72, 84, 96]"
  by code_simp

text \<open>One byte for each class.\<close>

definition utf8_rep :: "nat \<Rightarrow> nat" where
  "utf8_rep n =
     (if n < 0x80 then 0x7F else if n < 0x90 then 0x80 else if n < 0xA0 then 0x90 else if n < 0xC0 then 0xA0
      else if n < 0xC2 then 0xC0 else if n < 0xE0 then 0xC2 else if n = 0xE0 then 0xE0
      else if n < 0xED then 0xE1 else if n = 0xED then 0xED else if n < 0xF0 then 0xE1
      else if n = 0xF0 then 0xF0 else if n < 0xF4 then 0xF1 else if n = 0xF4 then 0xF4 else 0xC0)"

lemma utf8_class_rep: "utf8_class (utf8_rep n) = utf8_class n"
  by (simp add: utf8_class_def utf8_rep_def)

lemma utf8_delta_rep: "utf8_delta s (utf8_rep n) = utf8_delta s n"
  by (simp add: utf8_delta_def utf8_rep_def)

lemma utf8_rep_mem:
  "utf8_rep n \<in> set [0x7F, 0x80, 0x90, 0xA0, 0xC0, 0xC2, 0xE0, 0xE1, 0xED, 0xF0, 0xF1, 0xF4]"
  by (simp add: utf8_rep_def)

lemma utf8d_delta:
  assumes "s \<in> set [0, 12, 24, 36, 48, 60, 72, 84, 96]"
  shows "wslay_utf8d ! (256 + s + utf8_class n) = ucast (utf8_delta (of_nat s) n)"
  using utf8_delta_rows assms utf8_rep_mem [of n]
  unfolding list_all_iff by (metis utf8_class_rep utf8_delta_rep)

lemma utf8_delta_states: "utf8_delta s n \<in> utf8_states"
  by (simp add: utf8_delta_def utf8_states_def)

lemma utf8_delta_small: "ucast (ucast (utf8_delta s n) :: byte) = utf8_delta s n"
  by (simp add: utf8_delta_def)

lemma utf8_index:
  fixes b :: byte
  assumes "s \<in> utf8_states"
  shows "unat (256 + s + ucast (wslay_utf8d ! unat b)) = 256 + unat s + utf8_class (unat b)"
    and "unat s \<in> set [0, 12, 24, 36, 48, 60, 72, 84, 96]"
proof -
  have cls: "unat (of_nat (utf8_class (unat b)) :: byte) = utf8_class (unat b)"
    using utf8_class_le [of "unat b"] by (simp add: unat_of_nat)
  show s: "unat s \<in> set [0, 12, 24, 36, 48, 60, 72, 84, 96]"
    using assms by (auto simp: utf8_states_def)
  show "unat (256 + s + ucast (wslay_utf8d ! unat b)) = 256 + unat s + utf8_class (unat b)"
    using s utf8_class_le [of "unat b"] by (simp add: utf8d_class unat_word_ariths cls) auto
qed

lemma decode_state:
  fixes b :: byte
  assumes "s \<in> utf8_states"
  shows "fst (decode s c (ucast b)) = utf8_delta s (unat b)"
  using utf8_index(1) [OF assms, of b] assms
  by (simp add: decode_def Let_def utf8d_delta [OF utf8_index(2)] utf8_delta_small)

lemma utf8_run_state:
  "s \<in> utf8_states \<Longrightarrow> fst (utf8_run (s, c) bs) = foldl (\<lambda>s b. utf8_delta s (unat b)) s bs"
proof (induction bs arbitrary: s c)
  case (Cons b bs)
  obtain s' c' where d: "decode s c (ucast b) = (s', c')" by fastforce
  then have "s' = utf8_delta s (unat b)" using decode_state [OF Cons.prems, of c b] by simp
  then show ?case using Cons.IH [of s' c'] d utf8_delta_states by simp
qed simp

text \<open>Transitions from a known state only, so that the others stay folded.\<close>

lemmas utf8_delta_from =
  utf8_delta_def [of 0, simplified] utf8_delta_def [of 12, simplified] utf8_delta_def [of 24, simplified]
  utf8_delta_def [of 36, simplified] utf8_delta_def [of 48, simplified] utf8_delta_def [of 60, simplified]
  utf8_delta_def [of 72, simplified] utf8_delta_def [of 84, simplified] utf8_delta_def [of 96, simplified]

lemma utf8_run_append: "utf8_run sc (xs @ ys) = utf8_run (utf8_run sc xs) ys"
  by (induction sc xs rule: utf8_run.induct) auto

abbreviation utf8_states_run :: "uint32 \<Rightarrow> byte list \<Rightarrow> uint32" where
  "utf8_states_run \<equiv> foldl (\<lambda>s b. utf8_delta s (unat b))"

lemma utf8_reject_stuck: "utf8_states_run 12 bs = 12"
  by (induction bs) (simp_all add: utf8_delta_from)

section \<open>RFC 3629\<close>

definition utf8_scalar :: "nat \<Rightarrow> bool" where
  "utf8_scalar n \<longleftrightarrow> n < 0xD800 \<or> 0xE000 \<le> n \<and> n < 0x110000"

definition utf8_encode :: "nat \<Rightarrow> byte list" where
  "utf8_encode n =
     (if n < 0x80 then [of_nat n]
      else if n < 0x800 then [of_nat (0xC0 + n div 64), of_nat (0x80 + n mod 64)]
      else if n < 0x10000 then
        [of_nat (0xE0 + n div 4096), of_nat (0x80 + n div 64 mod 64), of_nat (0x80 + n mod 64)]
      else [of_nat (0xF0 + n div 262144), of_nat (0x80 + n div 4096 mod 64),
            of_nat (0x80 + n div 64 mod 64), of_nat (0x80 + n mod 64)])"

definition utf8_text :: "byte list \<Rightarrow> bool" where
  "utf8_text bs \<longleftrightarrow> (\<exists>cps. (\<forall>cp \<in> set cps. utf8_scalar cp) \<and> bs = concat (map utf8_encode cps))"

lemma unat_of_nat_byte [simp]: "n < 256 \<Longrightarrow> unat (of_nat n :: byte) = n"
  by (simp add: unat_of_nat)

lemma unat_plus_of_nat_byte [simp]:
  "numeral v + n < 256 \<Longrightarrow> unat (numeral v + of_nat n :: byte) = numeral v + n"
  using unat_of_nat_byte [of "numeral v + n"] by simp

lemma utf8_encode_accepted:
  assumes "utf8_scalar n"
  shows "utf8_states_run 0 (utf8_encode n) = 0"
proof -
  have "n < 0x80 \<or> 0x80 \<le> n \<and> n < 0x800 \<or> 0x800 \<le> n \<and> n < 0x10000 \<and> (n < 0xD800 \<or> 0xE000 \<le> n)
      \<or> 0x10000 \<le> n \<and> n < 0x110000"
    using assms unfolding utf8_scalar_def by linarith
  then consider "n < 0x80" | "0x80 \<le> n" "n < 0x800"
    | "0x800 \<le> n" "n < 0x10000" "n < 0xD800 \<or> 0xE000 \<le> n" | "0x10000 \<le> n" "n < 0x110000"
    by blast
  then show ?thesis
  proof cases
    case 1
    then show ?thesis by (simp add: utf8_encode_def utf8_delta_from)
  next
    case 2
    then have "2 \<le> n div 64" "n div 64 < 32" by auto
    with 2 show ?thesis by (simp add: utf8_encode_def utf8_delta_from)
  next
    case 3
    define h where "h = n div 4096"
    define m where "m = n div 64 mod 64"
    have "m < 32" if "h = 13"
    proof -
      have "n div 64 < 864" using that 3(3) by (auto simp: h_def)
      moreover have "n div 64 div 64 = 13" using that by (simp add: h_def div_mult2_eq [symmetric])
      ultimately show ?thesis
        unfolding m_def minus_mult_div_eq_mod [of "n div 64" 64, symmetric] by simp
    qed
    moreover have "h < 16" "m < 64" "h = 0 \<Longrightarrow> 32 \<le> m"
      using 3 by (auto simp: h_def m_def)
    ultimately show ?thesis using 3
      by (simp add: utf8_encode_def flip: h_def m_def) (auto simp: utf8_delta_from)
  next
    case 4
    define h where "h = n div 262144"
    define m where "m = n div 4096 mod 64"
    have "m < 16" if "h = 4"
    proof -
      have "n div 4096 < 272" using 4 by auto
      moreover have "n div 4096 div 64 = 4" using that by (simp add: h_def div_mult2_eq [symmetric])
      ultimately show ?thesis
        unfolding m_def minus_mult_div_eq_mod [of "n div 4096" 64, symmetric] by simp
    qed
    moreover have "h \<le> 4" "m < 64" "h = 0 \<Longrightarrow> 16 \<le> m"
      using 4 by (auto simp: h_def m_def)
    ultimately show ?thesis using 4
      by (simp add: utf8_encode_def flip: h_def m_def) (auto simp: utf8_delta_from)
  qed
qed

lemma utf8_texts_accepted: "\<forall>cp \<in> set cps. utf8_scalar cp \<Longrightarrow> utf8_states_run 0 (concat (map utf8_encode cps)) = 0"
  by (induction cps) (simp_all add: utf8_encode_accepted)

text \<open>Reading the accepted texts backwards, state by state.\<close>

definition utf8_cont :: "byte \<Rightarrow> bool" where
  "utf8_cont b \<longleftrightarrow> 0x80 \<le> unat b \<and> unat b < 0xC0"

lemma utf8_accept_24:
  "utf8_states_run 24 bs = 0 \<Longrightarrow> \<exists>b r. bs = b # r \<and> utf8_cont b \<and> utf8_states_run 0 r = 0"
  by (cases bs) (auto simp: utf8_delta_from utf8_cont_def utf8_reject_stuck split: if_splits)

lemma utf8_accept_36:
  "utf8_states_run 36 bs = 0 \<Longrightarrow>
   \<exists>b1 b2 r. bs = b1 # b2 # r \<and> utf8_cont b1 \<and> utf8_cont b2 \<and> utf8_states_run 0 r = 0"
  by (cases bs)
    (auto simp: utf8_delta_from utf8_cont_def utf8_reject_stuck split: if_splits dest!: utf8_accept_24)

lemma utf8_accept_second:
  assumes "utf8_states_run s bs = 0" "s \<in> {48, 60}"
  shows "\<exists>b1 b2 r. bs = b1 # b2 # r \<and> utf8_cont b1 \<and> (if s = 48 then 0xA0 \<le> unat b1 else unat b1 < 0xA0) \<and>
    utf8_cont b2 \<and> utf8_states_run 0 r = 0"
  using assms by (cases bs)
    (auto simp: utf8_delta_from utf8_cont_def utf8_reject_stuck split: if_splits dest!: utf8_accept_24)

lemma utf8_accept_four:
  assumes "utf8_states_run s bs = 0" "s \<in> {72, 84, 96}"
  shows "\<exists>b1 b2 b3 r. bs = b1 # b2 # b3 # r \<and> utf8_cont b1 \<and> (s = 72 \<longrightarrow> 0x90 \<le> unat b1) \<and>
    (s = 96 \<longrightarrow> unat b1 < 0x90) \<and> utf8_cont b2 \<and> utf8_cont b3 \<and> utf8_states_run 0 r = 0"
  using assms by (cases bs)
    (auto simp: utf8_delta_from utf8_cont_def utf8_reject_stuck split: if_splits dest!: utf8_accept_36)

text \<open>An accepted non-empty text starts with the encoding of a scalar value.\<close>

lemma byte_offset: "k \<le> unat b \<Longrightarrow> \<exists>x. b = of_nat (k + x) \<and> unat b = k + x" for b :: byte
  by (intro exI [of _ "unat b - k"]) simp

lemma utf8_cont_offset: "utf8_cont b \<Longrightarrow> \<exists>x. b = of_nat (0x80 + x) \<and> unat b = 0x80 + x \<and> x < 64"
  using byte_offset [of "0x80" b] by (auto simp: utf8_cont_def)

lemma base64_digits:
  fixes x y :: nat
  assumes "y < 64"
  shows "(64 * x + y) div 64 = x" "(64 * x + y) mod 64 = y"
  using assms by auto

lemma utf8_two:
  assumes "0xC2 \<le> unat b0" "unat b0 < 0xE0" "utf8_cont b1"
  shows "\<exists>cp. utf8_scalar cp \<and> [b0, b1] = utf8_encode cp"
proof -
  obtain x where x: "b0 = of_nat (0xC0 + x)" "unat b0 = 0xC0 + x"
    using assms(1) byte_offset [of "0xC0" b0] by auto
  obtain y where y: "b1 = of_nat (0x80 + y)" "unat b1 = 0x80 + y" "y < 64"
    using utf8_cont_offset [OF assms(3)] by blast
  have "2 \<le> x" "x < 32" using assms x by simp_all
  then have "0x80 \<le> 64 * x + y" "64 * x + y < 0x800" using y by simp_all
  then have "utf8_scalar (64 * x + y)" "[b0, b1] = utf8_encode (64 * x + y)"
    unfolding x(1) y(1) using y(3)
    by (simp_all add: utf8_scalar_def utf8_encode_def base64_digits)
  then show ?thesis by blast
qed

lemma utf8_three:
  assumes "0xE0 \<le> unat b0" "unat b0 < 0xF0" "utf8_cont b1" "utf8_cont b2"
    and "unat b0 = 0xE0 \<Longrightarrow> 0xA0 \<le> unat b1" "unat b0 = 0xED \<Longrightarrow> unat b1 < 0xA0"
  shows "\<exists>cp. utf8_scalar cp \<and> [b0, b1, b2] = utf8_encode cp"
proof -
  obtain x where x: "b0 = of_nat (0xE0 + x)" "unat b0 = 0xE0 + x"
    using assms(1) byte_offset [of "0xE0" b0] by auto
  obtain y where y: "b1 = of_nat (0x80 + y)" "unat b1 = 0x80 + y" "y < 64"
    using utf8_cont_offset [OF assms(3)] by blast
  obtain z where z: "b2 = of_nat (0x80 + z)" "unat b2 = 0x80 + z" "z < 64"
    using utf8_cont_offset [OF assms(4)] by blast
  define k where "k = 64 * x + y"
  have xy: "x < 16" "x = 0 \<Longrightarrow> 32 \<le> y" "x = 13 \<Longrightarrow> y < 32" using assms x y by simp_all
  then have "32 \<le> k" "k < 1024" "k < 864 \<or> 896 \<le> k"
    using y(3) unfolding k_def by (cases "x = 0"; cases "x = 13"; linarith)+
  then have cp: "0x800 \<le> 64 * k + z" "64 * k + z < 0x10000" "64 * k + z < 0xD800 \<or> 0xE000 \<le> 64 * k + z"
    using z(3) by auto
  have d: "(64 * k + z) div 64 = k" "k div 64 = x" "k mod 64 = y"
    by (simp_all only: k_def base64_digits y(3) z(3))
  then have "(64 * k + z) div 4096 = x"
    using div_mult2_eq [of "64 * k + z" 64 64] by simp
  with cp d have "utf8_scalar (64 * k + z)" "[b0, b1, b2] = utf8_encode (64 * k + z)"
    unfolding x(1) y(1) z(1) using z(3)
    by (auto simp: utf8_scalar_def utf8_encode_def base64_digits)
  then show ?thesis by blast
qed

lemma utf8_four:
  assumes "0xF0 \<le> unat b0" "unat b0 \<le> 0xF4" "utf8_cont b1" "utf8_cont b2" "utf8_cont b3"
    and "unat b0 = 0xF0 \<Longrightarrow> 0x90 \<le> unat b1" "unat b0 = 0xF4 \<Longrightarrow> unat b1 < 0x90"
  shows "\<exists>cp. utf8_scalar cp \<and> [b0, b1, b2, b3] = utf8_encode cp"
proof -
  obtain x where x: "b0 = of_nat (0xF0 + x)" "unat b0 = 0xF0 + x"
    using assms(1) byte_offset [of "0xF0" b0] by auto
  obtain y where y: "b1 = of_nat (0x80 + y)" "unat b1 = 0x80 + y" "y < 64"
    using utf8_cont_offset [OF assms(3)] by blast
  obtain z where z: "b2 = of_nat (0x80 + z)" "unat b2 = 0x80 + z" "z < 64"
    using utf8_cont_offset [OF assms(4)] by blast
  obtain v where v: "b3 = of_nat (0x80 + v)" "unat b3 = 0x80 + v" "v < 64"
    using utf8_cont_offset [OF assms(5)] by blast
  define k where "k = 64 * x + y"
  define m where "m = 64 * k + z"
  have "x \<le> 4" "x = 0 \<Longrightarrow> 16 \<le> y" "x = 4 \<Longrightarrow> y < 16" using assms x y by simp_all
  then have k: "16 \<le> k" "k < 272" using y(3) unfolding k_def by (cases "x = 0"; cases "x = 4"; linarith)+
  then have cp: "0x10000 \<le> 64 * m + v" "64 * m + v < 0x110000"
    using z(3) v(3) by (auto simp: m_def)
  have d: "(64 * m + v) div 64 = m" "m div 64 = k" "k div 64 = x" "m mod 64 = z" "k mod 64 = y"
    by (simp_all only: m_def k_def base64_digits y(3) z(3) v(3))
  have "(64 * m + v) div 4096 = k"
    using div_mult2_eq [of "64 * m + v" 64 64] d by simp
  moreover have "(64 * m + v) div 262144 = x"
    using div_mult2_eq [of "64 * m + v" 64 "64 * 64"] div_mult2_eq [of m 64 64] d by simp
  ultimately have "utf8_scalar (64 * m + v)" "[b0, b1, b2, b3] = utf8_encode (64 * m + v)"
    unfolding x(1) y(1) z(1) v(1) using cp d v(3)
    by (auto simp: utf8_scalar_def utf8_encode_def base64_digits)
  then show ?thesis by blast
qed

lemma utf8_accept_prefix:
  assumes "utf8_states_run 0 (b # bs) = 0"
  shows "\<exists>cp r. utf8_scalar cp \<and> b # bs = utf8_encode cp @ r \<and> utf8_states_run 0 r = 0"
proof -
  let ?n = "unat b"
  have one: ?thesis if "?n < 0x80"
    using that assms
    by (intro exI [of _ ?n] exI [of _ bs]) (simp add: utf8_scalar_def utf8_encode_def utf8_delta_from)
  have two: ?thesis if "0xC2 \<le> ?n" "?n < 0xE0"
  proof -
    have "utf8_states_run 24 bs = 0" using that assms by (simp add: utf8_delta_from)
    then obtain b1 r where "bs = b1 # r" "utf8_cont b1" "utf8_states_run 0 r = 0"
      using utf8_accept_24 by blast
    then show ?thesis using utf8_two [OF that, of b1] by (metis append_Cons append_Nil)
  qed
  have three: ?thesis if "0xE0 \<le> ?n" "?n < 0xF0"
  proof -
    have "utf8_states_run (if ?n = 0xE0 then 48 else if ?n = 0xED then 60 else 36) bs = 0"
      using that assms by (auto simp: utf8_delta_from split: if_splits)
    then obtain b1 b2 r where "bs = b1 # b2 # r" "utf8_cont b1" "utf8_cont b2" "utf8_states_run 0 r = 0"
      "?n = 0xE0 \<Longrightarrow> 0xA0 \<le> unat b1" "?n = 0xED \<Longrightarrow> unat b1 < 0xA0"
      using utf8_accept_36 [of bs] utf8_accept_second [of 48 bs] utf8_accept_second [of 60 bs]
      by (fastforce split: if_splits)
    then show ?thesis using utf8_three [OF that, of b1 b2] by (metis append_Cons append_Nil)
  qed
  have four: ?thesis if "0xF0 \<le> ?n" "?n \<le> 0xF4"
  proof -
    have "utf8_states_run (if ?n = 0xF0 then 72 else if ?n = 0xF4 then 96 else 84) bs = 0"
      using that assms by (auto simp: utf8_delta_from split: if_splits)
    then obtain b1 b2 b3 r where "bs = b1 # b2 # b3 # r" "utf8_cont b1" "utf8_cont b2" "utf8_cont b3"
      "utf8_states_run 0 r = 0" "?n = 0xF0 \<Longrightarrow> 0x90 \<le> unat b1" "?n = 0xF4 \<Longrightarrow> unat b1 < 0x90"
      using utf8_accept_four [of 72 bs] utf8_accept_four [of 84 bs] utf8_accept_four [of 96 bs]
      by (fastforce split: if_splits)
    then show ?thesis using utf8_four [OF that, of b1 b2 b3] by (metis append_Cons append_Nil)
  qed
  have "\<not> (0x80 \<le> ?n \<and> ?n < 0xC2 \<or> 0xF4 < ?n)"
    using assms by (auto simp: utf8_delta_from utf8_reject_stuck split: if_splits)
  then have "?n < 0x80 \<or> 0xC2 \<le> ?n \<and> ?n < 0xE0 \<or> 0xE0 \<le> ?n \<and> ?n < 0xF0 \<or> 0xF0 \<le> ?n \<and> ?n \<le> 0xF4"
    by linarith
  then show ?thesis using one two three four by blast
qed

lemma utf8_encode_nonempty: "utf8_encode cp \<noteq> []"
  by (simp add: utf8_encode_def)

lemma utf8_accepted_texts: "utf8_states_run 0 bs = 0 \<Longrightarrow> utf8_text bs"
proof (induction bs rule: length_induct)
  case (1 bs)
  show ?case
  proof (cases bs)
    case Nil
    then show ?thesis by (auto simp: utf8_text_def intro: exI [of _ "[]"])
  next
    case (Cons b bs')
    then obtain cp r where cp: "utf8_scalar cp" "bs = utf8_encode cp @ r" "utf8_states_run 0 r = 0"
      using utf8_accept_prefix 1(2) by metis
    then have "length r < length bs" using utf8_encode_nonempty by simp
    with 1 cp(3) obtain cps where "\<forall>cp \<in> set cps. utf8_scalar cp" "r = concat (map utf8_encode cps)"
      unfolding utf8_text_def by blast
    with cp show ?thesis
      unfolding utf8_text_def by (intro exI [of _ "cp # cps"]) simp
  qed
qed

lemma utf8_run_states: "s \<in> utf8_states \<Longrightarrow> fst (utf8_run (s, c) bs) \<in> utf8_states"
proof -
  have "foldl (\<lambda>s b. utf8_delta s (unat b)) s bs \<in> utf8_states" if "s \<in> utf8_states"
    using that by (induction bs arbitrary: s) (simp_all add: utf8_delta_states)
  then show "s \<in> utf8_states \<Longrightarrow> fst (utf8_run (s, c) bs) \<in> utf8_states"
    by (simp add: utf8_run_state)
qed

text \<open>
  C27. The automaton accepts exactly UTF-8: fed a text from \<open>UTF8_ACCEPT\<close> it ends in
  \<open>UTF8_ACCEPT\<close> iff the text is a sequence of encoded Unicode scalar values (no surrogates, no
  overlong forms, nothing above U+10FFFF).
\<close>
theorem decode_accepts_exactly_utf8:
  "fst (utf8_run (UTF8_ACCEPT, c) bs) = UTF8_ACCEPT \<longleftrightarrow> utf8_text bs"
proof
  assume "fst (utf8_run (UTF8_ACCEPT, c) bs) = UTF8_ACCEPT"
  then show "utf8_text bs"
    by (intro utf8_accepted_texts) (simp add: utf8_run_state utf8_states_def)
next
  assume "utf8_text bs"
  then show "fst (utf8_run (UTF8_ACCEPT, c) bs) = UTF8_ACCEPT"
    by (auto simp: utf8_text_def utf8_run_state utf8_states_def utf8_texts_accepted)
qed

text \<open>
  Rejection is permanent and depends only on a prefix: once some prefix drove the automaton
  to \<open>UTF8_REJECT\<close>, every longer text is rejected too, so the event layer may stop at the first
  rejected byte.
\<close>
theorem decode_reject_is_final:
  assumes "fst (utf8_run (UTF8_ACCEPT, c) xs) = UTF8_REJECT"
  shows "fst (utf8_run (UTF8_ACCEPT, c) (xs @ ys)) = UTF8_REJECT"
  using assms by (simp add: utf8_run_state utf8_states_def utf8_reject_stuck)

theorem decode_reject_is_final_witness:
  "fst (utf8_run (UTF8_ACCEPT, 0) ([0xC0] @ [0x41])) = UTF8_REJECT"
  by (rule decode_reject_is_final) code_simp

text \<open>
  C37. Both table lookups of \<open>decode\<close> stay inside \<open>wslay_utf8d\<close> for every byte, in every state
  that any sequence of bytes can lead to.
\<close>
theorem decode_index_in_table:
  fixes b :: byte
  shows "unat (ucast b :: uint32) < length wslay_utf8d \<and>
    unat (256 + fst (utf8_run (UTF8_ACCEPT, c) bs) + ucast (wslay_utf8d ! unat (ucast b :: uint32)))
      < length wslay_utf8d"
proof -
  have st: "fst (utf8_run (UTF8_ACCEPT, c) bs) \<in> utf8_states"
    by (rule utf8_run_states) (simp add: utf8_states_def)
  have "unat b < 256" by simp
  then have "unat b < 364" by linarith
  moreover have "unat (fst (utf8_run (UTF8_ACCEPT, c) bs)) \<le> 96" using utf8_index(2) [OF st] by auto
  ultimately show ?thesis using utf8_index(1) [OF st, of b] utf8_class_le [of "unat b"] by simp
qed

end
