(* ===== verification/Wslay_Api.thy ===== *)
theory Wslay_Api
  imports Wslay_Prelude
begin

text \<open>
  The public vocabulary of the library (\<open>wslay.h\<close>): error and status codes, opcodes and the
  macros on them, the frame-level callbacks and the control block of one frame.

  The callbacks are the application's code: \<open>'w\<close> is everything they can read and change
  through \<open>user_data\<close>, and they are threaded through the model as state transformers.
\<close>

datatype wslay_error =
    WSLAY_ERR_WANT_READ
  | WSLAY_ERR_WANT_WRITE
  | WSLAY_ERR_PROTO
  | WSLAY_ERR_INVALID_ARGUMENT
  | WSLAY_ERR_INVALID_CALLBACK
  | WSLAY_ERR_NO_MORE_MSG
  | WSLAY_ERR_CALLBACK_FAILURE
  | WSLAY_ERR_WOULDBLOCK
  | WSLAY_ERR_NOMEM

fun wslay_error_code :: "wslay_error \<Rightarrow> int" where
  "wslay_error_code WSLAY_ERR_WANT_READ = -100"
| "wslay_error_code WSLAY_ERR_WANT_WRITE = -101"
| "wslay_error_code WSLAY_ERR_PROTO = -200"
| "wslay_error_code WSLAY_ERR_INVALID_ARGUMENT = -300"
| "wslay_error_code WSLAY_ERR_INVALID_CALLBACK = -301"
| "wslay_error_code WSLAY_ERR_NO_MORE_MSG = -302"
| "wslay_error_code WSLAY_ERR_CALLBACK_FAILURE = -400"
| "wslay_error_code WSLAY_ERR_WOULDBLOCK = -401"
| "wslay_error_code WSLAY_ERR_NOMEM = -500"

abbreviation (input) WSLAY_CODE_NORMAL_CLOSURE :: uint16 where "WSLAY_CODE_NORMAL_CLOSURE \<equiv> 1000"
abbreviation (input) WSLAY_CODE_PROTOCOL_ERROR :: uint16 where "WSLAY_CODE_PROTOCOL_ERROR \<equiv> 1002"
abbreviation (input) WSLAY_CODE_NO_STATUS_RCVD :: uint16 where "WSLAY_CODE_NO_STATUS_RCVD \<equiv> 1005"
abbreviation (input) WSLAY_CODE_ABNORMAL_CLOSURE :: uint16 where "WSLAY_CODE_ABNORMAL_CLOSURE \<equiv> 1006"
abbreviation (input) WSLAY_CODE_INVALID_FRAME_PAYLOAD_DATA :: uint16
  where "WSLAY_CODE_INVALID_FRAME_PAYLOAD_DATA \<equiv> 1007"
abbreviation (input) WSLAY_CODE_MESSAGE_TOO_BIG :: uint16 where "WSLAY_CODE_MESSAGE_TOO_BIG \<equiv> 1009"

abbreviation (input) WSLAY_MSG_MORE :: int where "WSLAY_MSG_MORE \<equiv> 1"

abbreviation (input) WSLAY_CONTINUATION_FRAME :: byte where "WSLAY_CONTINUATION_FRAME \<equiv> 0x0"
abbreviation (input) WSLAY_TEXT_FRAME :: byte where "WSLAY_TEXT_FRAME \<equiv> 0x1"
abbreviation (input) WSLAY_BINARY_FRAME :: byte where "WSLAY_BINARY_FRAME \<equiv> 0x2"
abbreviation (input) WSLAY_CONNECTION_CLOSE :: byte where "WSLAY_CONNECTION_CLOSE \<equiv> 0x8"
abbreviation (input) WSLAY_PING :: byte where "WSLAY_PING \<equiv> 0x9"
abbreviation (input) WSLAY_PONG :: byte where "WSLAY_PONG \<equiv> 0xa"

definition wslay_is_ctrl_frame :: "byte \<Rightarrow> bool" where
  "wslay_is_ctrl_frame op = (drop_bit 3 op AND 1 \<noteq> 0)"

definition wslay_get_rsv1 :: "byte \<Rightarrow> byte" where
  "wslay_get_rsv1 rsv = drop_bit 2 rsv AND 1"

definition wslay_get_rsv2 :: "byte \<Rightarrow> byte" where
  "wslay_get_rsv2 rsv = drop_bit 1 rsv AND 1"

definition wslay_get_rsv3 :: "byte \<Rightarrow> byte" where
  "wslay_get_rsv3 rsv = rsv AND 1"

text \<open>\<open>send_callback data flags user_data_sending\<close> returns the callback's result;
  \<open>recv_callback len flags\<close> and \<open>genmask_callback len\<close> return the result and the bytes they
  stored from \<open>buf\<close> on.\<close>

record 'w wslay_frame_callbacks =
  send_callback :: "byte list \<Rightarrow> int \<Rightarrow> bool \<Rightarrow> 'w \<Rightarrow> int \<times> 'w"
  recv_callback :: "nat \<Rightarrow> int \<Rightarrow> 'w \<Rightarrow> int \<times> byte list \<times> 'w"
  genmask_callback :: "nat \<Rightarrow> 'w \<Rightarrow> int \<times> byte list \<times> 'w"

text \<open>\<open>iocb_data\<close> is the memory that \<open>iocb->data\<close> points to; the frame layer reads its first
  \<open>iocb_data_length\<close> bytes.\<close>

record wslay_frame_iocb =
  iocb_fin :: byte
  iocb_rsv :: byte
  iocb_opcode :: byte
  iocb_payload_length :: uint64
  iocb_mask :: bool
  iocb_data :: "byte list"
  iocb_data_length :: uint64

lemma wslay_is_ctrl_frame_bit: "wslay_is_ctrl_frame op = bit op 3"
  by (simp add: wslay_is_ctrl_frame_def bit_iff_odd_drop_bit and_one_eq odd_iff_mod_2_eq_one)

lemma wslay_get_rsv_bit:
  "wslay_get_rsv1 rsv = of_bool (bit rsv 2)"
  "wslay_get_rsv2 rsv = of_bool (bit rsv 1)"
  "wslay_get_rsv3 rsv = of_bool (bit rsv 0)"
  by (simp_all add: wslay_get_rsv1_def wslay_get_rsv2_def wslay_get_rsv3_def bit_iff_odd_drop_bit
      and_one_eq mod_2_eq_odd)

end
