(* ===== verification/Wslay_Frame.thy ===== *)
theory Wslay_Frame
  imports Wslay_Api
begin

text \<open>
  The frame layer (\<open>frame.h\<close>, \<open>frame.c\<close>): the context, \<open>wslay_frame_send\<close> and
  \<open>wslay_frame_recv\<close>. This theory holds the definitions only.

  \<^item> \<open>ctx->callbacks\<close> and \<open>ctx->user_data\<close> are set once by \<open>wslay_frame_context_new\<close>; the
    model passes the callbacks as the argument \<open>cbs\<close> and threads the state they act on as
    \<open>w\<close>.
  \<^item> Pointers into \<open>ibuf\<close> and \<open>oheader\<close> are offsets. The initial \<open>NULL\<close> of \<open>oheadermark\<close> and
    \<open>oheaderlimit\<close> is offset 0; both are set before they are read.
  \<^item> The three \<open>if (ctx->ostate == ..)\<close> blocks of \<open>wslay_frame_send\<close> and the four of
    \<open>wslay_frame_recv\<close> are one definition each, run one after the other with the state tested
    again, as in the C text. A block returns \<open>Some e\<close> where the C function returns the error
    \<open>e\<close>, and \<open>None\<close> where control reaches the end of the block.
\<close>

datatype wslay_frame_state =
    PREP_HEADER
  | SEND_HEADER
  | SEND_PAYLOAD
  | RECV_HEADER1
  | RECV_PAYLOADLEN
  | RECV_EXT_PAYLOADLEN
  | RECV_MASKKEY
  | RECV_PAYLOAD

record wslay_frame_opcode_memo =
  iom_fin :: byte
  iom_opcode :: byte
  iom_rsv :: byte

record wslay_frame_context =
  fc_ibuf :: "byte list"
  fc_ibufmark :: nat
  fc_ibuflimit :: nat
  fc_iom :: wslay_frame_opcode_memo
  fc_ipayloadlen :: uint64
  fc_ipayloadoff :: uint64
  fc_imask :: byte
  fc_imaskkey :: "byte list"
  fc_istate :: wslay_frame_state
  fc_ireqread :: nat
  fc_oheader :: "byte list"
  fc_oheadermark :: nat
  fc_oheaderlimit :: nat
  fc_opayloadlen :: uint64
  fc_opayloadoff :: uint64
  fc_omask :: byte
  fc_omaskkey :: "byte list"
  fc_ostate :: wslay_frame_state

abbreviation (input) IBUF_SIZE :: nat where "IBUF_SIZE \<equiv> 4096"
abbreviation (input) OHEADER_SIZE :: nat where "OHEADER_SIZE \<equiv> 14"
abbreviation (input) TEMP_SIZE :: nat where "TEMP_SIZE \<equiv> 4096"

definition wslay_frame_context_init :: wslay_frame_context where
  "wslay_frame_context_init =
     \<lparr>fc_ibuf = replicate IBUF_SIZE 0, fc_ibufmark = 0, fc_ibuflimit = 0,
      fc_iom = \<lparr>iom_fin = 0, iom_opcode = 0, iom_rsv = 0\<rparr>,
      fc_ipayloadlen = 0, fc_ipayloadoff = 0, fc_imask = 0, fc_imaskkey = replicate 4 0,
      fc_istate = RECV_HEADER1, fc_ireqread = 2,
      fc_oheader = replicate OHEADER_SIZE 0, fc_oheadermark = 0, fc_oheaderlimit = 0,
      fc_opayloadlen = 0, fc_opayloadoff = 0, fc_omask = 0, fc_omaskkey = replicate 4 0,
      fc_ostate = PREP_HEADER\<rparr>"

definition wslay_frame_context_new :: "allocator \<Rightarrow> wslay_frame_context option \<times> allocator" where
  "wslay_frame_context_new m =
     (case mem_alloc m of (ok, m') \<Rightarrow> (if ok then Some wslay_frame_context_init else None, m'))"

type_synonym 'w frame_block = "wslay_error option \<times> wslay_frame_context \<times> 'w"

section \<open>Sending\<close>

text \<open>The length field: the header and the offset after it, \<open>None\<close> where the payload is too
  long for any encoding.\<close>

definition wslay_frame_put_length :: "byte list \<Rightarrow> uint64 \<Rightarrow> (byte list \<times> nat) option" where
  "wslay_frame_put_length oh plen =
     (if plen < 126 then Some (oh[1 := oh ! 1 OR ucast plen], 2)
      else if plen < 2 ^ 16 then Some (write_at (oh[1 := oh ! 1 OR 126]) 2 (htons_bytes (ucast plen)), 4)
      else if plen < 2 ^ 63 then Some (write_at (oh[1 := oh ! 1 OR 127]) 2 (htobe64_bytes plen), 10)
      else None)"

definition wslay_frame_prep_header ::
    "'w wslay_frame_callbacks \<Rightarrow> wslay_frame_context \<Rightarrow> wslay_frame_iocb \<Rightarrow> 'w \<Rightarrow> 'w frame_block" where
  "wslay_frame_prep_header cbs ctx iocb w =
     (let oh0 = replicate OHEADER_SIZE 0;
          b0 = (push_bit 7 (iocb_fin iocb) AND 0x80) OR (push_bit 4 (iocb_rsv iocb) AND 0x70)
               OR (iocb_opcode iocb AND 0xf);
          oh1 = oh0[0 := oh0 ! 0 OR b0];
          oh2 = oh1[1 := oh1 ! 1 OR (push_bit 7 (of_bool (iocb_mask iocb)) AND 0x80)]
      in if wslay_is_ctrl_frame (iocb_opcode iocb) \<and> iocb_payload_length iocb > 125
         then (Some WSLAY_ERR_INVALID_ARGUMENT, ctx\<lparr>fc_oheader := oh2\<rparr>, w)
         else case wslay_frame_put_length oh2 (iocb_payload_length iocb) of
           None \<Rightarrow> (Some WSLAY_ERR_INVALID_ARGUMENT, ctx\<lparr>fc_oheader := oh2\<rparr>, w)
         | Some (oh3, hdptr) \<Rightarrow>
             (let ready = (\<lambda>c oh h. c\<lparr>fc_oheader := oh, fc_ostate := SEND_HEADER, fc_oheadermark := 0,
                             fc_oheaderlimit := h, fc_opayloadlen := iocb_payload_length iocb,
                             fc_opayloadoff := 0\<rparr>)
              in if iocb_mask iocb then
                   (case genmask_callback cbs 4 w of (r, key, w') \<Rightarrow>
                      (let omaskkey = write_at (fc_omaskkey ctx) 0 key
                       in if r \<noteq> 0
                          then (Some WSLAY_ERR_INVALID_CALLBACK, ctx\<lparr>fc_oheader := oh3, fc_omaskkey := omaskkey\<rparr>, w')
                          else (None, ready (ctx\<lparr>fc_omaskkey := omaskkey, fc_omask := 1\<rparr>)
                                        (write_at oh3 hdptr (take 4 omaskkey)) (hdptr + 4), w')))
                 else (None, ready ctx oh3 hdptr, w)))"

definition wslay_frame_send_header ::
    "'w wslay_frame_callbacks \<Rightarrow> wslay_frame_context \<Rightarrow> wslay_frame_iocb \<Rightarrow> 'w \<Rightarrow> 'w frame_block" where
  "wslay_frame_send_header cbs ctx iocb w =
     (let len = int (fc_oheaderlimit ctx) - int (fc_oheadermark ctx);
          flags = (if iocb_data_length iocb > 0 then WSLAY_MSG_MORE else 0)
      in case send_callback cbs (arr_slice (fc_oheader ctx) (fc_oheadermark ctx) (fc_oheaderlimit ctx)) flags False w of
           (r, w') \<Rightarrow>
             if r > 0 then
               if r > len then (Some WSLAY_ERR_INVALID_CALLBACK, ctx, w')
               else (let ctx' = ctx\<lparr>fc_oheadermark := fc_oheadermark ctx + nat r\<rparr>
                     in if fc_oheadermark ctx' = fc_oheaderlimit ctx'
                        then (None, ctx'\<lparr>fc_ostate := SEND_PAYLOAD\<rparr>, w')
                        else (Some WSLAY_ERR_WANT_WRITE, ctx', w'))
             else (Some WSLAY_ERR_WANT_WRITE, ctx, w'))"

text \<open>\<open>mask_bytes key off ds\<close>: the \<open>for\<close> loop that fills \<open>temp\<close>.\<close>

definition mask_bytes :: "byte list \<Rightarrow> uint64 \<Rightarrow> byte list \<Rightarrow> byte list" where
  "mask_bytes key off ds = map (\<lambda>i. (ds ! i) XOR (key ! unat ((off + of_nat i) mod 4))) [0..<length ds]"

text \<open>The \<open>while\<close> loop over \<open>datamark\<close>: \<open>ds\<close> is the data from \<open>datamark\<close> to \<open>datalimit\<close>.\<close>

function wslay_frame_send_masked ::
    "'w wslay_frame_callbacks \<Rightarrow> wslay_frame_context \<Rightarrow> byte list \<Rightarrow> nat \<Rightarrow> 'w
       \<Rightarrow> (wslay_error + nat) \<times> wslay_frame_context \<times> 'w" where
  "wslay_frame_send_masked cbs ctx ds totallen w =
     (if ds = [] then (Inr totallen, ctx, w)
      else (let temp = mask_bytes (fc_omaskkey ctx) (fc_opayloadoff ctx) (take TEMP_SIZE ds)
            in case send_callback cbs temp 0 False w of
                 (r, w') \<Rightarrow>
                   if r > 0 then
                     if r > int (length temp) then (Inl WSLAY_ERR_INVALID_CALLBACK, ctx, w')
                     else wslay_frame_send_masked cbs
                            (ctx\<lparr>fc_opayloadoff := fc_opayloadoff ctx + of_int r\<rparr>)
                            (drop (nat r) ds) (totallen + nat r) w'
                   else if totallen > 0 then (Inr totallen, ctx, w')
                   else (Inl WSLAY_ERR_WANT_WRITE, ctx, w')))"
  by pat_completeness auto
termination
  by (relation "measure (\<lambda>(cbs, ctx, ds, t, w). length ds)") auto

declare wslay_frame_send_masked.simps [simp del]

text \<open>The bytes of one call, masked into \<open>temp\<close> or straight from the caller: how many went out.\<close>

definition wslay_frame_send_data ::
    "'w wslay_frame_callbacks \<Rightarrow> wslay_frame_context \<Rightarrow> wslay_frame_iocb \<Rightarrow> 'w
       \<Rightarrow> (wslay_error + nat) \<times> wslay_frame_context \<times> 'w" where
  "wslay_frame_send_data cbs ctx iocb w =
     (let ds = take (unat (iocb_data_length iocb)) (iocb_data iocb)
      in if iocb_data_length iocb > 0 then
           if fc_omask ctx \<noteq> 0 then wslay_frame_send_masked cbs ctx ds 0 w
           else (case send_callback cbs ds 0 True w of
                   (r, w') \<Rightarrow>
                     if r > 0 then
                       if nat r > unat (iocb_data_length iocb)
                       then (Inl WSLAY_ERR_INVALID_CALLBACK, ctx, w')
                       else (Inr (nat r), ctx\<lparr>fc_opayloadoff := fc_opayloadoff ctx + of_int r\<rparr>, w')
                     else (Inl WSLAY_ERR_WANT_WRITE, ctx, w'))
         else (Inr 0, ctx, w))"

definition wslay_frame_send_payload ::
    "'w wslay_frame_callbacks \<Rightarrow> wslay_frame_context \<Rightarrow> wslay_frame_iocb \<Rightarrow> 'w
       \<Rightarrow> (wslay_error + nat) \<times> wslay_frame_context \<times> 'w" where
  "wslay_frame_send_payload cbs ctx iocb w =
     (case wslay_frame_send_data cbs ctx iocb w of
        (Inl e, ctx', w') \<Rightarrow> (Inl e, ctx', w')
      | (Inr totallen, ctx', w') \<Rightarrow>
          (Inr totallen,
           if fc_opayloadoff ctx' = fc_opayloadlen ctx' then ctx'\<lparr>fc_ostate := PREP_HEADER\<rparr> else ctx', w'))"

text \<open>The result is \<open>Inl\<close> the error returned, or \<open>Inr *length\<close> where 0 is returned.\<close>

definition wslay_frame_send ::
    "'w wslay_frame_callbacks \<Rightarrow> wslay_frame_context \<Rightarrow> wslay_frame_iocb \<Rightarrow> 'w
       \<Rightarrow> (wslay_error + nat) \<times> wslay_frame_context \<times> 'w" where
  "wslay_frame_send cbs ctx iocb w =
     (if iocb_data_length iocb > iocb_payload_length iocb then (Inl WSLAY_ERR_INVALID_ARGUMENT, ctx, w)
      else case (if fc_ostate ctx = PREP_HEADER then wslay_frame_prep_header cbs ctx iocb w else (None, ctx, w)) of
        (Some e, ctx1, w1) \<Rightarrow> (Inl e, ctx1, w1)
      | (None, ctx1, w1) \<Rightarrow>
          (case (if fc_ostate ctx1 = SEND_HEADER then wslay_frame_send_header cbs ctx1 iocb w1 else (None, ctx1, w1)) of
             (Some e, ctx2, w2) \<Rightarrow> (Inl e, ctx2, w2)
           | (None, ctx2, w2) \<Rightarrow>
               if fc_ostate ctx2 = SEND_PAYLOAD then wslay_frame_send_payload cbs ctx2 iocb w2
               else (Inl WSLAY_ERR_INVALID_ARGUMENT, ctx2, w2)))"

section \<open>Receiving\<close>

definition wslay_shift_ibuf :: "wslay_frame_context \<Rightarrow> wslay_frame_context" where
  "wslay_shift_ibuf ctx =
     (let len = fc_ibuflimit ctx - fc_ibufmark ctx
      in ctx\<lparr>fc_ibuf := write_at (fc_ibuf ctx) 0 (arr_slice (fc_ibuf ctx) (fc_ibufmark ctx) (fc_ibuflimit ctx)),
             fc_ibuflimit := len, fc_ibufmark := 0\<rparr>)"

text \<open>The callback writes into \<open>ibuf\<close> from \<open>ibuflimit\<close> on; its result is added to
  \<open>ibuflimit\<close> unchecked.\<close>

definition wslay_recv ::
    "'w wslay_frame_callbacks \<Rightarrow> wslay_frame_context \<Rightarrow> 'w \<Rightarrow> 'w frame_block" where
  "wslay_recv cbs ctx w =
     (let ctx1 = (if fc_ibufmark ctx \<noteq> 0 then wslay_shift_ibuf ctx else ctx)
      in case recv_callback cbs (IBUF_SIZE - fc_ibuflimit ctx1) 0 w of
           (result, bs, w') \<Rightarrow>
             (let ctx2 = ctx1\<lparr>fc_ibuf := write_at (fc_ibuf ctx1) (fc_ibuflimit ctx1) bs\<rparr>
              in if result > 0 then (None, ctx2\<lparr>fc_ibuflimit := fc_ibuflimit ctx2 + nat result\<rparr>, w')
                 else (Some WSLAY_ERR_WANT_READ, ctx2, w')))"

definition WSLAY_AVAIL_IBUF :: "wslay_frame_context \<Rightarrow> nat" where
  "WSLAY_AVAIL_IBUF ctx = fc_ibuflimit ctx - fc_ibufmark ctx"

text \<open>The test that opens the first three blocks: enough bytes for the field, or one read.\<close>

definition wslay_frame_fill ::
    "'w wslay_frame_callbacks \<Rightarrow> wslay_frame_context \<Rightarrow> 'w \<Rightarrow> 'w frame_block" where
  "wslay_frame_fill cbs ctx w =
     (if WSLAY_AVAIL_IBUF ctx < fc_ireqread ctx then
        (case wslay_recv cbs ctx w of
           (Some e, ctx1, w1) \<Rightarrow> (Some e, ctx1, w1)
         | (None, ctx1, w1) \<Rightarrow>
             if WSLAY_AVAIL_IBUF ctx1 < fc_ireqread ctx1 then (Some WSLAY_ERR_WANT_READ, ctx1, w1)
             else (None, ctx1, w1))
      else (None, ctx, w))"

definition wslay_frame_after_length :: "wslay_frame_context \<Rightarrow> wslay_frame_context" where
  "wslay_frame_after_length ctx =
     (if fc_imask ctx \<noteq> 0 then ctx\<lparr>fc_istate := RECV_MASKKEY, fc_ireqread := 4\<rparr>
      else ctx\<lparr>fc_istate := RECV_PAYLOAD\<rparr>)"

definition wslay_frame_parse_header1 :: "wslay_frame_context \<Rightarrow> wslay_error option \<times> wslay_frame_context" where
  "wslay_frame_parse_header1 ctx =
     (let b0 = fc_ibuf ctx ! fc_ibufmark ctx;
          b1 = fc_ibuf ctx ! (fc_ibufmark ctx + 1);
          fin = drop_bit 7 b0 AND 1;
          rsv = drop_bit 4 b0 AND 7;
          opcode = b0 AND 0xf;
          payloadlen = b1 AND 0x7f;
          ctx1 = ctx\<lparr>fc_iom := \<lparr>iom_fin = fin, iom_opcode = opcode, iom_rsv = rsv\<rparr>,
                     fc_imask := drop_bit 7 b1 AND 1, fc_ibufmark := fc_ibufmark ctx + 2\<rparr>
      in if wslay_is_ctrl_frame opcode \<and> (payloadlen > 125 \<or> fin = 0) then (Some WSLAY_ERR_PROTO, ctx1)
         else if payloadlen = 126 then (None, ctx1\<lparr>fc_istate := RECV_EXT_PAYLOADLEN, fc_ireqread := 2\<rparr>)
         else if payloadlen = 127 then (None, ctx1\<lparr>fc_istate := RECV_EXT_PAYLOADLEN, fc_ireqread := 8\<rparr>)
         else (None, wslay_frame_after_length (ctx1\<lparr>fc_ipayloadlen := ucast payloadlen, fc_ipayloadoff := 0\<rparr>)))"

definition wslay_frame_parse_ext :: "wslay_frame_context \<Rightarrow> wslay_error option \<times> wslay_frame_context" where
  "wslay_frame_parse_ext ctx =
     (let n = fc_ireqread ctx;
          len = be64toh_bytes (replicate (8 - n) 0 @ arr_slice (fc_ibuf ctx) (fc_ibufmark ctx) (fc_ibufmark ctx + n));
          ctx1 = ctx\<lparr>fc_ipayloadlen := len, fc_ipayloadoff := 0, fc_ibufmark := fc_ibufmark ctx + n\<rparr>
      in if n = 8 \<and> (len < 2 ^ 16 \<or> len AND 2 ^ 63 \<noteq> 0) then (Some WSLAY_ERR_PROTO, ctx1)
         else if n \<noteq> 8 \<and> len < 126 then (Some WSLAY_ERR_PROTO, ctx1)
         else (None, wslay_frame_after_length ctx1))"

definition wslay_frame_parse_maskkey :: "wslay_frame_context \<Rightarrow> wslay_error option \<times> wslay_frame_context" where
  "wslay_frame_parse_maskkey ctx =
     (None, ctx\<lparr>fc_imaskkey := arr_slice (fc_ibuf ctx) (fc_ibufmark ctx) (fc_ibufmark ctx + 4),
                fc_ibufmark := fc_ibufmark ctx + 4, fc_istate := RECV_PAYLOAD\<rparr>)"

text \<open>A header block of \<open>wslay_frame_recv\<close>: skipped unless the context is in its state, then the
  bytes it needs, then its parser.\<close>

definition wslay_frame_block ::
    "wslay_frame_state \<Rightarrow> (wslay_frame_context \<Rightarrow> wslay_error option \<times> wslay_frame_context)
       \<Rightarrow> 'w wslay_frame_callbacks \<Rightarrow> wslay_frame_context \<Rightarrow> 'w \<Rightarrow> 'w frame_block" where
  "wslay_frame_block st parse cbs ctx w =
     (if fc_istate ctx = st then
        (case wslay_frame_fill cbs ctx w of
           (Some e, ctx1, w1) \<Rightarrow> (Some e, ctx1, w1)
         | (None, ctx1, w1) \<Rightarrow> (case parse ctx1 of (e, ctx2) \<Rightarrow> (e, ctx2, w1)))
      else (None, ctx, w))"

text \<open>The unmasking \<open>for\<close> loop, \<open>n\<close> iterations.\<close>

fun wslay_frame_unmask :: "nat \<Rightarrow> wslay_frame_context \<Rightarrow> wslay_frame_context" where
  "wslay_frame_unmask 0 ctx = ctx"
| "wslay_frame_unmask (Suc n) ctx =
     wslay_frame_unmask n
       (ctx\<lparr>fc_ibuf := (fc_ibuf ctx)[fc_ibufmark ctx :=
              (fc_ibuf ctx ! fc_ibufmark ctx) XOR (fc_imaskkey ctx ! unat (fc_ipayloadoff ctx mod 4))],
            fc_ibufmark := fc_ibufmark ctx + 1, fc_ipayloadoff := fc_ipayloadoff ctx + 1\<rparr>)"

definition wslay_frame_take_payload :: "wslay_frame_context \<Rightarrow> wslay_frame_iocb \<times> wslay_frame_context" where
  "wslay_frame_take_payload ctx =
     (let rempayloadlen = fc_ipayloadlen ctx - fc_ipayloadoff ctx;
          readmark = fc_ibufmark ctx;
          readlimit = (if of_nat (WSLAY_AVAIL_IBUF ctx) < rempayloadlen then fc_ibuflimit ctx
                       else fc_ibufmark ctx + unat rempayloadlen);
          ctx1 = (if fc_imask ctx \<noteq> 0 then wslay_frame_unmask (readlimit - readmark) ctx
                  else ctx\<lparr>fc_ibufmark := readlimit,
                           fc_ipayloadoff := fc_ipayloadoff ctx + of_nat (readlimit - readmark)\<rparr>);
          iocb = \<lparr>iocb_fin = iom_fin (fc_iom ctx1), iocb_rsv = iom_rsv (fc_iom ctx1),
                  iocb_opcode = iom_opcode (fc_iom ctx1), iocb_payload_length = fc_ipayloadlen ctx1,
                  iocb_mask = (fc_imask ctx1 \<noteq> 0),
                  iocb_data = arr_slice (fc_ibuf ctx1) readmark (fc_ibufmark ctx1),
                  iocb_data_length = of_nat (fc_ibufmark ctx1 - readmark)\<rparr>
      in (iocb, if fc_ipayloadlen ctx1 = fc_ipayloadoff ctx1
                then ctx1\<lparr>fc_istate := RECV_HEADER1, fc_ireqread := 2\<rparr> else ctx1))"

definition wslay_frame_recv_payload ::
    "'w wslay_frame_callbacks \<Rightarrow> wslay_frame_context \<Rightarrow> 'w
       \<Rightarrow> (wslay_error + wslay_frame_iocb) \<times> wslay_frame_context \<times> 'w" where
  "wslay_frame_recv_payload cbs ctx w =
     (case (if WSLAY_AVAIL_IBUF ctx = 0 \<and> fc_ipayloadlen ctx - fc_ipayloadoff ctx > 0
            then wslay_recv cbs ctx w else (None, ctx, w)) of
        (Some e, ctx1, w1) \<Rightarrow> (Inl e, ctx1, w1)
      | (None, ctx1, w1) \<Rightarrow> (case wslay_frame_take_payload ctx1 of (iocb, ctx2) \<Rightarrow> (Inr iocb, ctx2, w1)))"

text \<open>The result is \<open>Inl\<close> the error returned, or \<open>Inr *iocb\<close> where 0 is returned
  (\<open>*data_length_ptr\<close> is \<open>iocb->data_length\<close>).\<close>

definition wslay_frame_recv ::
    "'w wslay_frame_callbacks \<Rightarrow> wslay_frame_context \<Rightarrow> 'w
       \<Rightarrow> (wslay_error + wslay_frame_iocb) \<times> wslay_frame_context \<times> 'w" where
  "wslay_frame_recv cbs ctx w =
     (case wslay_frame_block RECV_HEADER1 wslay_frame_parse_header1 cbs ctx w of
        (Some e, ctx1, w1) \<Rightarrow> (Inl e, ctx1, w1)
      | (None, ctx1, w1) \<Rightarrow>
     (case wslay_frame_block RECV_EXT_PAYLOADLEN wslay_frame_parse_ext cbs ctx1 w1 of
        (Some e, ctx2, w2) \<Rightarrow> (Inl e, ctx2, w2)
      | (None, ctx2, w2) \<Rightarrow>
     (case wslay_frame_block RECV_MASKKEY wslay_frame_parse_maskkey cbs ctx2 w2 of
        (Some e, ctx3, w3) \<Rightarrow> (Inl e, ctx3, w3)
      | (None, ctx3, w3) \<Rightarrow>
          if fc_istate ctx3 = RECV_PAYLOAD then wslay_frame_recv_payload cbs ctx3 w3
          else (Inl WSLAY_ERR_INVALID_ARGUMENT, ctx3, w3))))"

end
