(* ===== verification/Wslay_Event.thy ===== *)
theory Wslay_Event
  imports Wslay_Queue Wslay_Utf8 Wslay_Frame
begin

text \<open>
  The event layer (\<open>event.h\<close>, \<open>event.c\<close>): its data, the queueing of messages and the
  accessors. The two loops, \<open>wslay_event_recv\<close> and \<open>wslay_event_send\<close>, are in
  \<open>Wslay_Event_Recv\<close> and \<open>Wslay_Event_Send\<close>.

  \<^item> \<open>ctx->callbacks\<close> is set once when the context is made; the model passes it as
    \<open>cbs\<close>. Every callback receives the whole context and returns it, as the C callbacks may
    call the library. The context that a receive, send or mask callback returns has its
    \<open>frame_ctx\<close> overwritten by the frame operation in progress: those callbacks do not call
    \<open>wslay_event_recv\<close> or \<open>wslay_event_send\<close> again.
  \<^item> \<open>imsgs[0]\<close> and \<open>imsgs[1]\<close> are the values of \<open>ec_imsgs\<close> at \<open>Imsg0\<close> and \<open>Imsg1\<close>, and the
    pointer \<open>imsg\<close> is one of the two names.
  \<^item> \<open>chunks\<close> is a pointer that \<open>wslay_event_imsg_reset\<close> frees, so it is a \<open>tptr\<close>; an
    operation through it when it is not live is a \<open>fault\<close>.
  \<^item> A \<open>read_callback\<close> is a name that \<open>ev_read_callback\<close> resolves.
  \<^item> The memory \<open>talloc\<close> returns for a chunk is zero here; it is written before it is read.
\<close>

section \<open>Data\<close>

record wslay_event_byte_chunk =
  chunk_data :: "byte list"
  chunk_data_length :: uint64

record wslay_event_imsg =
  im_fin :: byte
  im_rsv :: byte
  im_opcode :: byte
  im_utf8state :: uint32
  im_chunks :: "wslay_event_byte_chunk wslay_queue tptr"
  im_msg_length :: uint64

datatype wslay_event_msg_type = WSLAY_NON_FRAGMENTED | WSLAY_FRAGMENTED

abbreviation (input) WSLAY_CLOSE_RECEIVED :: byte where "WSLAY_CLOSE_RECEIVED \<equiv> 1"
abbreviation (input) WSLAY_CLOSE_QUEUED :: byte where "WSLAY_CLOSE_QUEUED \<equiv> 2"
abbreviation (input) WSLAY_CLOSE_SENT :: byte where "WSLAY_CLOSE_SENT \<equiv> 4"

abbreviation (input) WSLAY_CONFIG_NO_BUFFERING :: uint32 where "WSLAY_CONFIG_NO_BUFFERING \<equiv> 1"

record wslay_event_on_msg_recv_arg =
  mr_rsv :: byte
  mr_opcode :: byte
  mr_msg :: "byte list option"
  mr_msg_length :: uint64
  mr_status_code :: uint16

record wslay_event_on_frame_recv_start_arg =
  fs_fin :: byte
  fs_rsv :: byte
  fs_opcode :: byte
  fs_payload_length :: uint64

record wslay_event_on_frame_recv_chunk_arg =
  fk_data :: "byte list"
  fk_data_length :: uint64

datatype wslay_event_msg_source = SourceFd int | SourceData nat

record wslay_event_msg =
  em_opcode :: byte
  em_msg :: "byte list"
  em_msg_length :: uint64

record wslay_event_omsg =
  om_fin :: byte
  om_opcode :: byte
  om_type :: wslay_event_msg_type
  om_data :: "byte list"
  om_data_length :: uint64
  om_source :: "wslay_event_msg_source option"
  om_read_callback :: "nat option"

record wslay_event_fragmented_msg =
  ef_opcode :: byte
  ef_source :: wslay_event_msg_source
  ef_read_callback :: nat

record 'c wslay_event_callbacks =
  ev_recv_callback :: "nat \<Rightarrow> int \<Rightarrow> 'c \<Rightarrow> int \<times> byte list \<times> 'c"
  ev_send_callback :: "byte list \<Rightarrow> int \<Rightarrow> bool \<Rightarrow> 'c \<Rightarrow> int \<times> 'c"
  ev_genmask_callback :: "nat \<Rightarrow> 'c \<Rightarrow> int \<times> byte list \<times> 'c"
  ev_on_frame_recv_start_callback :: "(wslay_event_on_frame_recv_start_arg \<Rightarrow> 'c \<Rightarrow> 'c) option"
  ev_on_frame_recv_chunk_callback :: "(wslay_event_on_frame_recv_chunk_arg \<Rightarrow> 'c \<Rightarrow> 'c) option"
  ev_on_frame_recv_end_callback :: "('c \<Rightarrow> 'c) option"
  ev_on_msg_recv_callback :: "(wslay_event_on_msg_recv_arg \<Rightarrow> 'c \<Rightarrow> 'c) option"
  ev_read_callback :: "nat \<Rightarrow> nat \<Rightarrow> wslay_event_msg_source option \<Rightarrow> 'c \<Rightarrow> int \<times> byte list \<times> bool \<times> 'c"

datatype imsg_slot = Imsg0 | Imsg1

record 'u wslay_event_context =
  ec_config :: uint32
  ec_max_recv_msg_length :: uint64
  ec_server :: bool
  ec_close_status :: byte
  ec_status_code_recv :: uint16
  ec_status_code_sent :: uint16
  ec_frame_ctx :: wslay_frame_context
  ec_read_enabled :: bool
  ec_write_enabled :: bool
  ec_imsgs :: "imsg_slot \<Rightarrow> wslay_event_imsg"
  ec_imsg :: imsg_slot
  ec_ipayloadlen :: uint64
  ec_ipayloadoff :: uint64
  ec_error :: int
  ec_omsg :: "wslay_event_omsg option"
  ec_send_queue :: "wslay_event_omsg wslay_queue"
  ec_send_ctrl_queue :: "wslay_event_omsg wslay_queue"
  ec_queued_msg_count :: uint64
  ec_queued_msg_length :: uint64
  ec_obuf :: "byte list"
  ec_obuflimit :: nat
  ec_obufmark :: nat
  ec_opayloadlen :: uint64
  ec_opayloadoff :: uint64
  ec_mem :: allocator
  ec_user_data :: 'u

abbreviation (input) OBUF_SIZE :: nat where "OBUF_SIZE \<equiv> 4096"

text \<open>\<open>ctx->imsg\<close> read and written through.\<close>

definition imsg_get :: "'u wslay_event_context \<Rightarrow> wslay_event_imsg" where
  "imsg_get ctx = ec_imsgs ctx (ec_imsg ctx)"

definition imsg_put :: "wslay_event_imsg \<Rightarrow> 'u wslay_event_context \<Rightarrow> 'u wslay_event_context" where
  "imsg_put m ctx = ctx\<lparr>ec_imsgs := (ec_imsgs ctx)(ec_imsg ctx := m)\<rparr>"

definition ctx_alloc :: "'u wslay_event_context \<Rightarrow> bool \<times> 'u wslay_event_context" where
  "ctx_alloc ctx = (case mem_alloc (ec_mem ctx) of (ok, m) \<Rightarrow> (ok, ctx\<lparr>ec_mem := m\<rparr>))"

section \<open>Incoming messages\<close>

definition wslay_event_imsg_set :: "wslay_event_imsg \<Rightarrow> byte \<Rightarrow> byte \<Rightarrow> byte \<Rightarrow> wslay_event_imsg" where
  "wslay_event_imsg_set m fin rsv opcode = m\<lparr>im_fin := fin, im_rsv := rsv, im_opcode := opcode, im_msg_length := 0\<rparr>"

text \<open>\<open>talloc_free\<close> of \<open>NULL\<close> does nothing; of a block already freed it is a fault.\<close>

definition wslay_event_imsg_reset :: "wslay_event_imsg \<Rightarrow> fault + wslay_event_imsg" where
  "wslay_event_imsg_reset m =
     (let m' = m\<lparr>im_opcode := 0xff, im_utf8state := UTF8_ACCEPT\<rparr>
      in case im_chunks m' of
           Freed \<Rightarrow> Inl DoubleFree
         | Live q \<Rightarrow> Inr (m'\<lparr>im_chunks := Freed\<rparr>)
         | Null \<Rightarrow> Inr m')"

text \<open>The three allocations are the chunk, its data and the cell of \<open>wslay_queue_push\<close>; \<open>Inr\<close> holds
  the result, the message and the allocator.\<close>

definition wslay_event_imsg_append_chunk ::
    "allocator \<Rightarrow> wslay_event_imsg \<Rightarrow> uint64 \<Rightarrow> fault + int \<times> wslay_event_imsg \<times> allocator" where
  "wslay_event_imsg_append_chunk mem m len =
     (if len = 0 then Inr (0, m, mem)
      else if im_chunks m = Freed then Inl UseAfterFree
      else (case mem_alloc mem of (chunk_ok, mem1) \<Rightarrow>
        if \<not> chunk_ok then Inr (1, m, mem1)
        else (case mem_alloc mem1 of (data_ok, mem2) \<Rightarrow>
          if \<not> data_ok then Inr (2, m, mem2)
          else (case mem_alloc mem2 of (cell_ok, mem3) \<Rightarrow>
            (case im_chunks m of
               Live q \<Rightarrow>
                 (case wslay_queue_push cell_ok q \<lparr>chunk_data = replicate (unat len) 0, chunk_data_length = len\<rparr> of
                    (r, q') \<Rightarrow>
                      if r \<noteq> 0 then Inr (2, m\<lparr>im_chunks := Live q'\<rparr>, mem3)
                      else Inr (0, m\<lparr>im_chunks := Live q', im_msg_length := im_msg_length m + len\<rparr>, mem3))
             | _ \<Rightarrow> if cell_ok then Inl NullDereference else Inr (2, m, mem3))))))"

text \<open>The loop of \<open>wslay_event_flatten_queue\<close>: \<open>None\<close> if it does not end.\<close>

partial_function (option) wslay_event_flatten_loop ::
    "wslay_event_byte_chunk wslay_queue \<Rightarrow> byte list \<Rightarrow> nat
       \<Rightarrow> (fault + nat option \<times> byte list \<times> wslay_event_byte_chunk wslay_queue) option" where
  "wslay_event_flatten_loop q buf off =
     (if wslay_queue_is_empty q then Some (Inr (Some off, buf, q))
      else (case wslay_queue_top q of
              None \<Rightarrow> Some (Inl UseAfterFree)
            | Some chunk \<Rightarrow>
                (let n = unat (chunk_data_length chunk); off' = off + n
                 in if off' > length buf then Some (Inl BufferOverflow)
                    else (let buf' = write_at buf off (take n (chunk_data chunk))
                          in case wslay_queue_pop q of (r, q') \<Rightarrow>
                               if r \<noteq> 0 then Some (Inr (None, buf', q'))
                               else wslay_event_flatten_loop q' buf' off'))))"

text \<open>\<open>Inr (r, q', mem')\<close> with \<open>r\<close> the buffer returned or \<open>None\<close> for \<open>NULL\<close>. An overrun of \<open>buf\<close>
  is caught by the C function only after the \<open>memcpy\<close> that does it, so it is a fault here.\<close>

definition wslay_event_flatten_queue ::
    "allocator \<Rightarrow> wslay_event_byte_chunk wslay_queue tptr \<Rightarrow> uint64
       \<Rightarrow> (fault + byte list option \<times> wslay_event_byte_chunk wslay_queue tptr \<times> allocator) option" where
  "wslay_event_flatten_queue mem queue len =
     (if len = 0 then Some (Inr (None, queue, mem))
      else if queue = Freed then Some (Inl UseAfterFree)
      else (case mem_alloc mem of (buf_ok, mem1) \<Rightarrow>
        if \<not> buf_ok then Some (Inr (None, queue, mem1))
        else (case queue of
            Live q \<Rightarrow>
              (case wslay_event_flatten_loop q (replicate (unat len) 0) 0 of
                 None \<Rightarrow> None
               | Some (Inl f) \<Rightarrow> Some (Inl f)
               | Some (Inr (None, buf, q')) \<Rightarrow> Some (Inr (None, Live q', mem1))
               | Some (Inr (Some off, buf, q')) \<Rightarrow>
                   Some (Inr (if unat len \<noteq> off then None else Some buf, Live q', mem1)))
          | _ \<Rightarrow> Some (Inl NullDereference))))"

section \<open>Outgoing messages\<close>

definition wslay_event_omsg_non_fragmented_new ::
    "allocator \<Rightarrow> byte \<Rightarrow> byte list \<Rightarrow> uint64 \<Rightarrow> wslay_event_omsg option \<times> allocator" where
  "wslay_event_omsg_non_fragmented_new mem opcode msg msg_length =
     (case mem_alloc mem of (omsg_ok, mem1) \<Rightarrow>
        if \<not> omsg_ok then (None, mem1)
        else (let omsg = \<lparr>om_fin = 1, om_opcode = opcode, om_type = WSLAY_NON_FRAGMENTED, om_data = [],
                          om_data_length = 0, om_source = None, om_read_callback = None\<rparr>
              in if msg_length \<noteq> 0 then
                   (case mem_alloc mem1 of (data_ok, mem2) \<Rightarrow>
                      if \<not> data_ok then (None, mem2)
                      else (Some (omsg\<lparr>om_data := take (unat msg_length) msg, om_data_length := msg_length\<rparr>), mem2))
                 else (Some omsg, mem1)))"

definition wslay_event_omsg_fragmented_new ::
    "allocator \<Rightarrow> byte \<Rightarrow> wslay_event_msg_source \<Rightarrow> nat \<Rightarrow> wslay_event_omsg option \<times> allocator" where
  "wslay_event_omsg_fragmented_new mem opcode source read_callback =
     (case mem_alloc mem of (omsg_ok, mem1) \<Rightarrow>
        if \<not> omsg_ok then (None, mem1)
        else (Some \<lparr>om_fin = 0, om_opcode = opcode, om_type = WSLAY_FRAGMENTED, om_data = [],
                    om_data_length = 0, om_source = Some source, om_read_callback = Some read_callback\<rparr>, mem1))"

definition wslay_event_is_msg_queueable :: "'u wslay_event_context \<Rightarrow> bool" where
  "wslay_event_is_msg_queueable ctx \<longleftrightarrow> ec_write_enabled ctx \<and> ec_close_status ctx AND WSLAY_CLOSE_QUEUED = 0"

text \<open>Pushing on the queue of control frames or on the other one.\<close>

definition push_omsg :: "bool \<Rightarrow> wslay_event_omsg \<Rightarrow> 'u wslay_event_context \<Rightarrow> int \<times> 'u wslay_event_context" where
  "push_omsg ctrl omsg ctx =
     (case ctx_alloc ctx of (ok, ctx1) \<Rightarrow>
        if ctrl then (case wslay_queue_push ok (ec_send_ctrl_queue ctx1) omsg of
                        (r, q) \<Rightarrow> (r, ctx1\<lparr>ec_send_ctrl_queue := q\<rparr>))
        else (case wslay_queue_push ok (ec_send_queue ctx1) omsg of
                (r, q) \<Rightarrow> (r, ctx1\<lparr>ec_send_queue := q\<rparr>)))"

definition wslay_event_queue_msg :: "'u wslay_event_context \<Rightarrow> wslay_event_msg \<Rightarrow> int \<times> 'u wslay_event_context" where
  "wslay_event_queue_msg ctx arg =
     (if \<not> wslay_event_is_msg_queueable ctx then (wslay_error_code WSLAY_ERR_NO_MORE_MSG, ctx)
      else if wslay_is_ctrl_frame (em_opcode arg) \<and> em_msg_length arg > 125
      then (wslay_error_code WSLAY_ERR_INVALID_ARGUMENT, ctx)
      else case wslay_event_omsg_non_fragmented_new (ec_mem ctx) (em_opcode arg) (em_msg arg) (em_msg_length arg) of
        (None, mem) \<Rightarrow> (-1, ctx\<lparr>ec_mem := mem\<rparr>)
      | (Some omsg, mem) \<Rightarrow>
          (case push_omsg (wslay_is_ctrl_frame (em_opcode arg)) omsg (ctx\<lparr>ec_mem := mem\<rparr>) of
             (r, ctx2) \<Rightarrow>
               if r \<noteq> 0 then (r, ctx2)
               else (0, ctx2\<lparr>ec_queued_msg_count := ec_queued_msg_count ctx2 + 1,
                             ec_queued_msg_length := ec_queued_msg_length ctx2 + em_msg_length arg\<rparr>)))"

definition wslay_event_queue_fragmented_msg ::
    "'u wslay_event_context \<Rightarrow> wslay_event_fragmented_msg \<Rightarrow> int \<times> 'u wslay_event_context" where
  "wslay_event_queue_fragmented_msg ctx arg =
     (if \<not> wslay_event_is_msg_queueable ctx then (wslay_error_code WSLAY_ERR_NO_MORE_MSG, ctx)
      else if wslay_is_ctrl_frame (ef_opcode arg) then (wslay_error_code WSLAY_ERR_INVALID_ARGUMENT, ctx)
      else case wslay_event_omsg_fragmented_new (ec_mem ctx) (ef_opcode arg) (ef_source arg) (ef_read_callback arg) of
        (None, mem) \<Rightarrow> (-1, ctx\<lparr>ec_mem := mem\<rparr>)
      | (Some omsg, mem) \<Rightarrow>
          (case push_omsg False omsg (ctx\<lparr>ec_mem := mem\<rparr>) of
             (r, ctx2) \<Rightarrow>
               if r \<noteq> 0 then (-1, ctx2)
               else (0, ctx2\<lparr>ec_queued_msg_count := ec_queued_msg_count ctx2 + 1\<rparr>)))"

text \<open>\<open>reason\<close> holds the \<open>reason_length\<close> bytes of the caller.\<close>

definition wslay_event_queue_close ::
    "'u wslay_event_context \<Rightarrow> uint16 \<Rightarrow> byte list \<Rightarrow> int \<times> 'u wslay_event_context" where
  "wslay_event_queue_close ctx status_code reason =
     (if \<not> wslay_event_is_msg_queueable ctx then (1, ctx)
      else if length reason > 123 then (2, ctx)
      else (let msg = (if status_code = 0 then [] else htons_bytes status_code @ reason)
            in case wslay_event_queue_msg ctx
                      \<lparr>em_opcode = WSLAY_CONNECTION_CLOSE, em_msg = msg, em_msg_length = of_nat (length msg)\<rparr> of
                 (r, ctx1) \<Rightarrow>
                   (r, if r = 0 then ctx1\<lparr>ec_close_status := ec_close_status ctx1 OR WSLAY_CLOSE_QUEUED\<rparr> else ctx1)))"

definition wslay_event_queue_close_wrapper ::
    "'u wslay_event_context \<Rightarrow> uint16 \<Rightarrow> byte list \<Rightarrow> int \<times> 'u wslay_event_context" where
  "wslay_event_queue_close_wrapper ctx status_code reason =
     (case wslay_event_queue_close (ctx\<lparr>ec_read_enabled := False\<rparr>) status_code reason of
        (r, ctx1) \<Rightarrow> (if r \<noteq> 0 \<and> r \<noteq> wslay_error_code WSLAY_ERR_NO_MORE_MSG then r else 0, ctx1))"

section \<open>Accessors\<close>

definition wslay_event_is_valid_status_code :: "uint16 \<Rightarrow> bool" where
  "wslay_event_is_valid_status_code status_code \<longleftrightarrow>
     (1000 \<le> status_code \<and> status_code \<le> 1011 \<and> status_code \<noteq> 1004 \<and> status_code \<noteq> 1005 \<and> status_code \<noteq> 1006) \<or>
     (3000 \<le> status_code \<and> status_code \<le> 4999)"

definition wslay_event_config_get_no_buffering :: "'u wslay_event_context \<Rightarrow> bool" where
  "wslay_event_config_get_no_buffering ctx \<longleftrightarrow> ec_config ctx AND WSLAY_CONFIG_NO_BUFFERING > 0"

definition wslay_event_set_error :: "'u wslay_event_context \<Rightarrow> int \<Rightarrow> 'u wslay_event_context" where
  "wslay_event_set_error ctx val = ctx\<lparr>ec_error := val\<rparr>"

definition wslay_event_want_read :: "'u wslay_event_context \<Rightarrow> bool" where
  "wslay_event_want_read ctx = ec_read_enabled ctx"

definition wslay_event_want_write :: "'u wslay_event_context \<Rightarrow> bool" where
  "wslay_event_want_write ctx \<longleftrightarrow>
     ec_write_enabled ctx \<and>
     (\<not> wslay_queue_is_empty (ec_send_queue ctx) \<or> \<not> wslay_queue_is_empty (ec_send_ctrl_queue ctx) \<or> ec_omsg ctx \<noteq> None)"

definition wslay_event_shutdown_read :: "'u wslay_event_context \<Rightarrow> 'u wslay_event_context" where
  "wslay_event_shutdown_read ctx = ctx\<lparr>ec_read_enabled := False\<rparr>"

definition wslay_event_shutdown_write :: "'u wslay_event_context \<Rightarrow> 'u wslay_event_context" where
  "wslay_event_shutdown_write ctx = ctx\<lparr>ec_write_enabled := False\<rparr>"

definition wslay_event_get_read_enabled :: "'u wslay_event_context \<Rightarrow> bool" where
  "wslay_event_get_read_enabled ctx = ec_read_enabled ctx"

definition wslay_event_get_write_enabled :: "'u wslay_event_context \<Rightarrow> bool" where
  "wslay_event_get_write_enabled ctx = ec_write_enabled ctx"

definition wslay_event_get_close_received :: "'u wslay_event_context \<Rightarrow> bool" where
  "wslay_event_get_close_received ctx \<longleftrightarrow> ec_close_status ctx AND WSLAY_CLOSE_RECEIVED > 0"

definition wslay_event_get_close_sent :: "'u wslay_event_context \<Rightarrow> bool" where
  "wslay_event_get_close_sent ctx \<longleftrightarrow> ec_close_status ctx AND WSLAY_CLOSE_SENT > 0"

definition wslay_event_config_set_no_buffering :: "'u wslay_event_context \<Rightarrow> int \<Rightarrow> 'u wslay_event_context" where
  "wslay_event_config_set_no_buffering ctx val =
     (if val \<noteq> 0 then ctx\<lparr>ec_config := ec_config ctx OR WSLAY_CONFIG_NO_BUFFERING\<rparr>
      else ctx\<lparr>ec_config := ec_config ctx AND NOT WSLAY_CONFIG_NO_BUFFERING\<rparr>)"

definition wslay_event_config_set_max_recv_msg_length ::
    "'u wslay_event_context \<Rightarrow> uint64 \<Rightarrow> 'u wslay_event_context" where
  "wslay_event_config_set_max_recv_msg_length ctx val = ctx\<lparr>ec_max_recv_msg_length := val\<rparr>"

definition wslay_event_get_status_code_received :: "'u wslay_event_context \<Rightarrow> uint16" where
  "wslay_event_get_status_code_received ctx = ec_status_code_recv ctx"

definition wslay_event_get_status_code_sent :: "'u wslay_event_context \<Rightarrow> uint16" where
  "wslay_event_get_status_code_sent ctx = ec_status_code_sent ctx"

definition wslay_event_get_queued_msg_count :: "'u wslay_event_context \<Rightarrow> uint64" where
  "wslay_event_get_queued_msg_count ctx = ec_queued_msg_count ctx"

definition wslay_event_get_queued_msg_length :: "'u wslay_event_context \<Rightarrow> uint64" where
  "wslay_event_get_queued_msg_length ctx = ec_queued_msg_length ctx"

end
