(* ===== verification/Wslay_Event_Recv.thy ===== *)
theory Wslay_Event_Recv
  imports Wslay_Event
begin

text \<open>
  \<open>wslay_event_recv\<close>. The body of its loop is cut at the comments and blocks of the C text, one
  definition per block; \<open>Go\<close> is control reaching the end of the block, \<open>Break\<close> the
  \<open>break\<close> out of the loop, \<open>Return r\<close> a \<open>return\<close>, \<open>Crash f\<close> a memory fault, \<open>Hang\<close> an inner
  loop that does not end.
\<close>

datatype step = Go | Break | Return int | Crash fault | Hang

definition andthen :: "step \<times> 'c \<Rightarrow> ('c \<Rightarrow> step \<times> 'c) \<Rightarrow> step \<times> 'c" where
  "andthen r f = (case r of (Go, c) \<Rightarrow> f c | (s, c) \<Rightarrow> (s, c))"

text \<open>The adapters of \<open>context.h\<close> that hand the frame layer's calls to the event callbacks.\<close>

definition wslay_event_frame_recv_callback ::
    "'c wslay_event_callbacks \<Rightarrow> nat \<Rightarrow> int \<Rightarrow> 'c \<Rightarrow> int \<times> byte list \<times> 'c" where
  "wslay_event_frame_recv_callback cbs len flags ctx = ev_recv_callback cbs len flags ctx"

definition wslay_event_frame_send_callback ::
    "'c wslay_event_callbacks \<Rightarrow> byte list \<Rightarrow> int \<Rightarrow> bool \<Rightarrow> 'c \<Rightarrow> int \<times> 'c" where
  "wslay_event_frame_send_callback cbs data flags user_data_sending ctx =
     ev_send_callback cbs data flags user_data_sending ctx"

definition wslay_event_frame_genmask_callback ::
    "'c wslay_event_callbacks \<Rightarrow> nat \<Rightarrow> 'c \<Rightarrow> int \<times> byte list \<times> 'c" where
  "wslay_event_frame_genmask_callback cbs len ctx = ev_genmask_callback cbs len ctx"

definition event_frame_callbacks :: "'c wslay_event_callbacks \<Rightarrow> 'c wslay_frame_callbacks" where
  "event_frame_callbacks cbs =
     \<lparr>send_callback = wslay_event_frame_send_callback cbs, recv_callback = wslay_event_frame_recv_callback cbs,
      genmask_callback = wslay_event_frame_genmask_callback cbs\<rparr>"

section \<open>The blocks\<close>

text \<open>\<open>if ((r = wslay_event_queue_close_wrapper (ctx, ..)) != 0) return r; break;\<close>\<close>

definition close_and_break :: "uint16 \<Rightarrow> 'u wslay_event_context \<Rightarrow> step \<times> 'u wslay_event_context" where
  "close_and_break code ctx =
     (case wslay_event_queue_close_wrapper ctx code [] of
        (r, ctx') \<Rightarrow> (if r \<noteq> 0 then Return r else Break, ctx'))"

definition recv_check_header ::
    "wslay_frame_iocb \<Rightarrow> 'u wslay_event_context \<Rightarrow> step \<times> 'u wslay_event_context" where
  "recv_check_header iocb ctx =
     (if iocb_rsv iocb \<noteq> 0 \<or> (ec_server ctx \<and> \<not> iocb_mask iocb) \<or> (\<not> ec_server ctx \<and> iocb_mask iocb)
      then close_and_break WSLAY_CODE_PROTOCOL_ERROR ctx else (Go, ctx))"

definition is_ctrl_opcode :: "byte \<Rightarrow> bool" where
  "is_ctrl_opcode op \<longleftrightarrow> op = WSLAY_CONNECTION_CLOSE \<or> op = WSLAY_PING \<or> op = WSLAY_PONG"

text \<open>Which message the frame belongs to; the \<open>bool\<close> is \<open>new_frame\<close>.\<close>

definition recv_classify ::
    "wslay_frame_iocb \<Rightarrow> 'u wslay_event_context \<Rightarrow> step \<times> bool \<times> 'u wslay_event_context" where
  "recv_classify iocb ctx =
     (let fail = (case close_and_break WSLAY_CODE_PROTOCOL_ERROR ctx of (s, ctx') \<Rightarrow> (s, False, ctx'))
      in if im_opcode (imsg_get ctx) = 0xff then
           if iocb_opcode iocb = WSLAY_TEXT_FRAME \<or> iocb_opcode iocb = WSLAY_BINARY_FRAME \<or> is_ctrl_opcode (iocb_opcode iocb)
           then (Go, True, imsg_put (wslay_event_imsg_set (imsg_get ctx) (iocb_fin iocb) (iocb_rsv iocb) (iocb_opcode iocb)) ctx)
           else fail
         else if ec_ipayloadlen ctx = 0 \<and> ec_ipayloadoff ctx = 0 then
           if iocb_opcode iocb = WSLAY_CONTINUATION_FRAME
           then (Go, True, imsg_put ((imsg_get ctx)\<lparr>im_fin := iocb_fin iocb\<rparr>) ctx)
           else if is_ctrl_opcode (iocb_opcode iocb)
           then (let ctx1 = ctx\<lparr>ec_imsg := Imsg1\<rparr>
                 in (Go, True,
                     imsg_put (wslay_event_imsg_set (imsg_get ctx1) (iocb_fin iocb) (iocb_rsv iocb) (iocb_opcode iocb)) ctx1))
           else fail
         else (Go, False, ctx))"

definition wslay_event_call_on_frame_recv_start_callback ::
    "'u wslay_event_context wslay_event_callbacks \<Rightarrow> wslay_frame_iocb \<Rightarrow> 'u wslay_event_context \<Rightarrow> 'u wslay_event_context" where
  "wslay_event_call_on_frame_recv_start_callback cbs iocb ctx =
     (case ev_on_frame_recv_start_callback cbs of
        None \<Rightarrow> ctx
      | Some f \<Rightarrow> f \<lparr>fs_fin = iocb_fin iocb, fs_rsv = iocb_rsv iocb, fs_opcode = iocb_opcode iocb,
                     fs_payload_length = iocb_payload_length iocb\<rparr> ctx)"

definition wslay_event_call_on_frame_recv_chunk_callback ::
    "'u wslay_event_context wslay_event_callbacks \<Rightarrow> wslay_frame_iocb \<Rightarrow> 'u wslay_event_context \<Rightarrow> 'u wslay_event_context" where
  "wslay_event_call_on_frame_recv_chunk_callback cbs iocb ctx =
     (case ev_on_frame_recv_chunk_callback cbs of
        None \<Rightarrow> ctx
      | Some f \<Rightarrow> f \<lparr>fk_data = iocb_data iocb, fk_data_length = iocb_data_length iocb\<rparr> ctx)"

definition wslay_event_call_on_frame_recv_end_callback ::
    "'u wslay_event_context wslay_event_callbacks \<Rightarrow> 'u wslay_event_context \<Rightarrow> 'u wslay_event_context" where
  "wslay_event_call_on_frame_recv_end_callback cbs ctx =
     (case ev_on_frame_recv_end_callback cbs of None \<Rightarrow> ctx | Some f \<Rightarrow> f ctx)"

definition buffered :: "wslay_frame_iocb \<Rightarrow> 'u wslay_event_context \<Rightarrow> bool" where
  "buffered iocb ctx \<longleftrightarrow> \<not> wslay_event_config_get_no_buffering ctx \<or> wslay_is_ctrl_frame (iocb_opcode iocb)"

text \<open>\<open>if (new_frame) { .. }\<close>\<close>

definition recv_new_frame ::
    "'u wslay_event_context wslay_event_callbacks \<Rightarrow> wslay_frame_iocb \<Rightarrow> 'u wslay_event_context
       \<Rightarrow> step \<times> 'u wslay_event_context" where
  "recv_new_frame cbs iocb ctx =
     (if im_msg_length (imsg_get ctx) + iocb_payload_length iocb > ec_max_recv_msg_length ctx
      then close_and_break WSLAY_CODE_MESSAGE_TOO_BIG ctx
      else (let ctx1 = ctx\<lparr>ec_ipayloadlen := iocb_payload_length iocb\<rparr>;
                ctx2 = wslay_event_call_on_frame_recv_start_callback cbs iocb ctx1
            in if buffered iocb ctx2 then
                 (case wslay_event_imsg_append_chunk (ec_mem ctx2) (imsg_get ctx2) (iocb_payload_length iocb) of
                    Inl f \<Rightarrow> (Crash f, ctx2)
                  | Inr (r, m, mem) \<Rightarrow>
                      (let ctx3 = imsg_put m (ctx2\<lparr>ec_mem := mem\<rparr>)
                       in if r \<noteq> 0 then (Return (-1), ctx3\<lparr>ec_read_enabled := False\<rparr>) else (Go, ctx3)))
               else (Go, ctx2)))"

text \<open>The \<open>for\<close> loop over \<open>iocb.data\<close>: the state of the automaton after it, which stops at the first
  rejected byte. \<open>codep\<close> is a fresh local in each round and never used.\<close>

fun utf8_scan :: "uint32 \<Rightarrow> byte list \<Rightarrow> uint32" where
  "utf8_scan st [] = st"
| "utf8_scan st (b # bs) =
     (let st' = fst (decode st 0 (ucast b)) in if st' = UTF8_REJECT then st' else utf8_scan st' bs)"

definition recv_utf8 ::
    "wslay_frame_iocb \<Rightarrow> 'u wslay_event_context \<Rightarrow> step \<times> 'u wslay_event_context" where
  "recv_utf8 iocb ctx =
     (let m = imsg_get ctx;
          i = (if im_opcode m = WSLAY_CONNECTION_CLOSE then 2 else 0);
          bs = drop i (take (unat (iocb_data_length iocb)) (iocb_data iocb));
          st = utf8_scan (im_utf8state m) bs
      in andthen
           (if im_opcode m = WSLAY_TEXT_FRAME \<or> im_opcode m = WSLAY_CONNECTION_CLOSE then
              (let ctx1 = imsg_put (m\<lparr>im_utf8state := st\<rparr>) ctx
               in if bs \<noteq> [] \<and> st = UTF8_REJECT
                  then (case wslay_event_queue_close_wrapper ctx1 WSLAY_CODE_INVALID_FRAME_PAYLOAD_DATA [] of
                          (r, ctx2) \<Rightarrow> (if r \<noteq> 0 then Return r else Go, ctx2))
                  else (Go, ctx1))
            else (Go, ctx))
           (\<lambda>ctx1. if im_utf8state (imsg_get ctx1) = UTF8_REJECT then (Break, ctx1) else (Go, ctx1)))"

text \<open>Storing the bytes in the chunk at the tail of the queue.\<close>

definition store_chunk :: "uint64 \<Rightarrow> byte list \<Rightarrow> wslay_event_imsg \<Rightarrow> fault + wslay_event_imsg" where
  "store_chunk off ds m =
     (case im_chunks m of
        Freed \<Rightarrow> Inl UseAfterFree
      | Null \<Rightarrow> Inl NullDereference
      | Live q \<Rightarrow>
          (case wslay_queue_tail q of
             None \<Rightarrow> Inl NullDereference
           | Some chunk \<Rightarrow>
               if unat off + length ds > unat (chunk_data_length chunk) then Inl BufferOverflow
               else Inr (m\<lparr>im_chunks := Live (queue_tail_write
                           (chunk_data_update (\<lambda>d. write_at d (unat off) ds)) q)\<rparr>)))"

definition recv_store ::
    "'u wslay_event_context wslay_event_callbacks \<Rightarrow> wslay_frame_iocb \<Rightarrow> 'u wslay_event_context
       \<Rightarrow> step \<times> 'u wslay_event_context" where
  "recv_store cbs iocb ctx =
     (let ctx1 = wslay_event_call_on_frame_recv_chunk_callback cbs iocb ctx;
          advance = (\<lambda>c. (Go, c\<lparr>ec_ipayloadoff := ec_ipayloadoff c + iocb_data_length iocb\<rparr>))
      in if iocb_data_length iocb > 0 then
           if buffered iocb ctx1 then
             (case store_chunk (ec_ipayloadoff ctx1) (take (unat (iocb_data_length iocb)) (iocb_data iocb)) (imsg_get ctx1) of
                Inl f \<Rightarrow> (Crash f, ctx1)
              | Inr m \<Rightarrow> advance (imsg_put m ctx1))
           else advance ctx1
         else (Go, ctx1))"

text \<open>A complete close frame: \<open>msg\<close> is the flattened payload. The \<open>uint16\<close> is \<open>status_code\<close>.\<close>

definition recv_close ::
    "byte list option \<Rightarrow> 'u wslay_event_context \<Rightarrow> step \<times> uint16 \<times> 'u wslay_event_context" where
  "recv_close msg ctx =
     (let len = im_msg_length (imsg_get ctx);
          respond = (\<lambda>status_code reason.
            let ctx1 = ctx\<lparr>ec_close_status := ec_close_status ctx OR WSLAY_CLOSE_RECEIVED,
                           ec_status_code_recv := (if status_code = 0 then WSLAY_CODE_NO_STATUS_RCVD else status_code)\<rparr>
            in case wslay_event_queue_close_wrapper ctx1 status_code reason of
                 (r, ctx2) \<Rightarrow> (if r \<noteq> 0 then Return r else Go, status_code, ctx2))
      in if len \<ge> 2 then
           (case msg of
              None \<Rightarrow> (Crash NullDereference, 0, ctx)
            | Some ds \<Rightarrow>
                (let status_code = ntohs_bytes ds
                 in if \<not> wslay_event_is_valid_status_code status_code
                    then (case close_and_break WSLAY_CODE_PROTOCOL_ERROR ctx of (s, ctx') \<Rightarrow> (s, status_code, ctx'))
                    else respond status_code (take (unat (len - 2)) (drop 2 ds))))
         else respond 0 [])"

definition recv_ping :: "byte list option \<Rightarrow> 'u wslay_event_context \<Rightarrow> step \<times> uint16 \<times> 'u wslay_event_context" where
  "recv_ping msg ctx =
     (case wslay_event_queue_msg ctx \<lparr>em_opcode = WSLAY_PONG, em_msg = (case msg of None \<Rightarrow> [] | Some ds \<Rightarrow> ds),
                                     em_msg_length = im_msg_length (imsg_get ctx)\<rparr> of
        (r, ctx') \<Rightarrow>
          if r \<noteq> 0 \<and> r \<noteq> wslay_error_code WSLAY_ERR_NO_MORE_MSG
          then (Return r, 0, ctx'\<lparr>ec_read_enabled := False\<rparr>)
          else (Go, 0, ctx'))"

definition recv_dispatch :: "byte list option \<Rightarrow> 'u wslay_event_context \<Rightarrow> step \<times> uint16 \<times> 'u wslay_event_context" where
  "recv_dispatch msg ctx =
     (if im_opcode (imsg_get ctx) = WSLAY_CONNECTION_CLOSE then recv_close msg ctx
      else if im_opcode (imsg_get ctx) = WSLAY_PING then recv_ping msg ctx
      else (Go, 0, ctx))"

definition call_on_msg_recv ::
    "'u wslay_event_context wslay_event_callbacks \<Rightarrow> byte list option \<Rightarrow> uint64 \<Rightarrow> uint16 \<Rightarrow> 'u wslay_event_context
       \<Rightarrow> 'u wslay_event_context" where
  "call_on_msg_recv cbs msg msg_length status_code ctx =
     (case ev_on_msg_recv_callback cbs of
        None \<Rightarrow> ctx
      | Some f \<Rightarrow>
          f \<lparr>mr_rsv = im_rsv (imsg_get ctx), mr_opcode = im_opcode (imsg_get ctx), mr_msg = msg,
             mr_msg_length = msg_length, mr_status_code = status_code\<rparr> (ctx\<lparr>ec_error := 0\<rparr>))"

text \<open>The body of \<open>if (ctx->callbacks.on_msg_recv_callback || ..)\<close>.\<close>

definition recv_deliver ::
    "'u wslay_event_context wslay_event_callbacks \<Rightarrow> wslay_frame_iocb \<Rightarrow> 'u wslay_event_context
       \<Rightarrow> step \<times> 'u wslay_event_context" where
  "recv_deliver cbs iocb ctx =
     (let deliver = (\<lambda>msg msg_length c.
            case recv_dispatch msg c of
              (s, status_code, c') \<Rightarrow> andthen (s, c') (\<lambda>c'. (Go, call_on_msg_recv cbs msg msg_length status_code c')));
          m = imsg_get ctx
      in if buffered iocb ctx then
           (case wslay_event_flatten_queue (ec_mem ctx) (im_chunks m) (im_msg_length m) of
              None \<Rightarrow> (Hang, ctx)
            | Some (Inl f) \<Rightarrow> (Crash f, ctx)
            | Some (Inr (msg, chunks, mem)) \<Rightarrow>
                (let ctx1 = imsg_put (m\<lparr>im_chunks := chunks\<rparr>) (ctx\<lparr>ec_mem := mem\<rparr>)
                 in if im_msg_length m \<noteq> 0 \<and> msg = None
                    then (Return (wslay_error_code WSLAY_ERR_NOMEM), ctx1\<lparr>ec_read_enabled := False\<rparr>)
                    else deliver msg (im_msg_length m) ctx1))
         else deliver None 0 ctx)"

text \<open>\<open>if (ctx->imsg->fin) { .. }\<close>\<close>

definition recv_finish_msg ::
    "'u wslay_event_context wslay_event_callbacks \<Rightarrow> wslay_frame_iocb \<Rightarrow> 'u wslay_event_context
       \<Rightarrow> step \<times> 'u wslay_event_context" where
  "recv_finish_msg cbs iocb ctx =
     andthen
       (if ev_on_msg_recv_callback cbs \<noteq> None \<or> im_opcode (imsg_get ctx) = WSLAY_CONNECTION_CLOSE \<or>
           im_opcode (imsg_get ctx) = WSLAY_PING
        then recv_deliver cbs iocb ctx else (Go, ctx))
       (\<lambda>ctx1. case wslay_event_imsg_reset (imsg_get ctx1) of
          Inl f \<Rightarrow> (Crash f, ctx1)
        | Inr m \<Rightarrow> (let ctx2 = imsg_put m ctx1
                   in (Go, if ec_imsg ctx2 = Imsg1 then ctx2\<lparr>ec_imsg := Imsg0\<rparr> else ctx2)))"

text \<open>\<open>if (ctx->ipayloadoff == ctx->ipayloadlen) { .. }\<close>\<close>

definition recv_finish_frame ::
    "'u wslay_event_context wslay_event_callbacks \<Rightarrow> wslay_frame_iocb \<Rightarrow> 'u wslay_event_context
       \<Rightarrow> step \<times> 'u wslay_event_context" where
  "recv_finish_frame cbs iocb ctx =
     (if ec_ipayloadoff ctx \<noteq> ec_ipayloadlen ctx then (Go, ctx)
      else (let m = imsg_get ctx
            in if im_fin m \<noteq> 0 \<and> (im_opcode m = WSLAY_TEXT_FRAME \<or> im_opcode m = WSLAY_CONNECTION_CLOSE) \<and>
                  im_utf8state m \<noteq> UTF8_ACCEPT
               then close_and_break WSLAY_CODE_INVALID_FRAME_PAYLOAD_DATA ctx
               else (let ctx1 = wslay_event_call_on_frame_recv_end_callback cbs ctx
                     in andthen (if im_fin (imsg_get ctx1) \<noteq> 0 then recv_finish_msg cbs iocb ctx1 else (Go, ctx1))
                          (\<lambda>ctx2. (Go, ctx2\<lparr>ec_ipayloadlen := 0, ec_ipayloadoff := 0\<rparr>)))))"

text \<open>The branch \<open>wslay_frame_recv (..) == 0\<close>.\<close>

definition recv_frame ::
    "'u wslay_event_context wslay_event_callbacks \<Rightarrow> wslay_frame_iocb \<Rightarrow> 'u wslay_event_context
       \<Rightarrow> step \<times> 'u wslay_event_context" where
  "recv_frame cbs iocb ctx =
     andthen (recv_check_header iocb ctx) (\<lambda>ctx1.
     andthen (case recv_classify iocb ctx1 of
                (s, new_frame, ctx2) \<Rightarrow>
                  andthen (s, ctx2) (\<lambda>ctx2. if new_frame then recv_new_frame cbs iocb ctx2 else (Go, ctx2))) (\<lambda>ctx3.
     andthen (recv_utf8 iocb ctx3) (\<lambda>ctx4.
     andthen (recv_store cbs iocb ctx4) (\<lambda>ctx5.
     recv_finish_frame cbs iocb ctx5))))"

text \<open>The branch \<open>wslay_frame_recv (..) != 0\<close>.\<close>

definition recv_error :: "wslay_error \<Rightarrow> 'u wslay_event_context \<Rightarrow> step \<times> 'u wslay_event_context" where
  "recv_error e ctx =
     (if e \<noteq> WSLAY_ERR_WANT_READ \<or>
         (ec_error ctx \<noteq> wslay_error_code WSLAY_ERR_WOULDBLOCK \<and> ec_error ctx \<noteq> 0)
      then (case wslay_event_queue_close_wrapper ctx 0 [] of
              (r, ctx') \<Rightarrow> (Return (if r \<noteq> 0 then r else wslay_error_code WSLAY_ERR_CALLBACK_FAILURE), ctx'))
      else (Break, ctx))"

definition recv_step ::
    "'u wslay_event_context wslay_event_callbacks \<Rightarrow> 'u wslay_event_context \<Rightarrow> step \<times> 'u wslay_event_context" where
  "recv_step cbs ctx =
     (case wslay_frame_recv (event_frame_callbacks cbs) (ec_frame_ctx ctx) ctx of
        (res, fctx, ctx1) \<Rightarrow>
          (let ctx2 = ctx1\<lparr>ec_frame_ctx := fctx\<rparr>
           in case res of Inl e \<Rightarrow> recv_error e ctx2 | Inr iocb \<Rightarrow> recv_frame cbs iocb ctx2))"

section \<open>The loop\<close>

partial_function (option) wslay_event_recv ::
    "'u wslay_event_context wslay_event_callbacks \<Rightarrow> 'u wslay_event_context
       \<Rightarrow> ((fault + int) \<times> 'u wslay_event_context) option" where
  "wslay_event_recv cbs ctx =
     (if \<not> ec_read_enabled ctx then Some (Inr 0, ctx)
      else (case recv_step cbs ctx of
              (Go, ctx') \<Rightarrow> wslay_event_recv cbs ctx'
            | (Break, ctx') \<Rightarrow> Some (Inr 0, ctx')
            | (Return r, ctx') \<Rightarrow> Some (Inr r, ctx')
            | (Crash f, ctx') \<Rightarrow> Some (Inl f, ctx')
            | (Hang, ctx') \<Rightarrow> None))"

end
