(* ===== verification/Wslay_Event_Send.thy ===== *)
theory Wslay_Event_Send
  imports Wslay_Event_Recv
begin

text \<open>
  \<open>wslay_event_send\<close>, cut like \<open>wslay_event_recv\<close>: choosing the message to send, sending a piece
  of a message queued whole, sending a piece of a fragmented one.
\<close>

section \<open>Choosing a message\<close>

definition wslay_event_on_non_fragmented_msg_popped :: "'u wslay_event_context \<Rightarrow> 'u wslay_event_context" where
  "wslay_event_on_non_fragmented_msg_popped ctx =
     (case ec_omsg ctx of
        None \<Rightarrow> ctx
      | Some m \<Rightarrow> ctx\<lparr>ec_omsg := Some (m\<lparr>om_fin := 1\<rparr>), ec_opayloadlen := om_data_length m, ec_opayloadoff := 0\<rparr>)"

text \<open>The loop that drops control frames until it finds the close frame: \<open>None\<close> if it does not end.\<close>

partial_function (option) ctrl_queue_drop ::
    "wslay_event_omsg wslay_queue \<Rightarrow> (fault + wslay_event_omsg option \<times> wslay_event_omsg wslay_queue) option" where
  "ctrl_queue_drop q =
     (if wslay_queue_is_empty q then Some (Inr (None, q))
      else (case wslay_queue_top q of
              None \<Rightarrow> Some (Inl UseAfterFree)
            | Some msg \<Rightarrow>
                (let q' = snd (wslay_queue_pop q)
                 in if om_opcode msg = WSLAY_CONNECTION_CLOSE then Some (Inr (Some msg, q'))
                    else ctrl_queue_drop q')))"

definition wslay_event_send_ctrl_queue_pop ::
    "'u wslay_event_context \<Rightarrow> (fault + wslay_event_omsg option \<times> 'u wslay_event_context) option" where
  "wslay_event_send_ctrl_queue_pop ctx =
     (if ec_close_status ctx AND WSLAY_CLOSE_QUEUED \<noteq> 0 then
        (case ctrl_queue_drop (ec_send_ctrl_queue ctx) of
           None \<Rightarrow> None
         | Some (Inl f) \<Rightarrow> Some (Inl f)
         | Some (Inr (msg, q)) \<Rightarrow> Some (Inr (msg, ctx\<lparr>ec_send_ctrl_queue := q\<rparr>)))
      else (case wslay_queue_top (ec_send_ctrl_queue ctx) of
              None \<Rightarrow> Some (Inl NullDereference)
            | Some msg \<Rightarrow>
                Some (Inr (Some msg, ctx\<lparr>ec_send_ctrl_queue := snd (wslay_queue_pop (ec_send_ctrl_queue ctx))\<rparr>))))"

text \<open>\<open>ctx->omsg = wslay_event_send_ctrl_queue_pop (ctx); if (ctx->omsg == NULL) break;\<close>\<close>

definition take_ctrl :: "'u wslay_event_context \<Rightarrow> step \<times> 'u wslay_event_context" where
  "take_ctrl ctx =
     (case wslay_event_send_ctrl_queue_pop ctx of
        None \<Rightarrow> (Hang, ctx)
      | Some (Inl f) \<Rightarrow> (Crash f, ctx)
      | Some (Inr (msg, ctx1)) \<Rightarrow> (if msg = None then Break else Go, ctx1\<lparr>ec_omsg := msg\<rparr>))"

definition send_choose :: "'u wslay_event_context \<Rightarrow> step \<times> 'u wslay_event_context" where
  "send_choose ctx =
     (case ec_omsg ctx of
        None \<Rightarrow>
          andthen
            (if wslay_queue_is_empty (ec_send_ctrl_queue ctx) then
               (case wslay_queue_top (ec_send_queue ctx) of
                  None \<Rightarrow> (Crash NullDereference, ctx)
                | Some m \<Rightarrow> (Go, ctx\<lparr>ec_omsg := Some m, ec_send_queue := snd (wslay_queue_pop (ec_send_queue ctx))\<rparr>))
             else take_ctrl ctx)
            (\<lambda>ctx1. (Go, if map_option om_type (ec_omsg ctx1) = Some WSLAY_NON_FRAGMENTED
                         then wslay_event_on_non_fragmented_msg_popped ctx1 else ctx1))
      | Some m \<Rightarrow>
          if \<not> wslay_is_ctrl_frame (om_opcode m) \<and> fc_ostate (ec_frame_ctx ctx) = PREP_HEADER \<and>
             \<not> wslay_queue_is_empty (ec_send_ctrl_queue ctx) then
            (case ctx_alloc ctx of (ok, ctx1) \<Rightarrow>
               (case wslay_queue_push_front ok (ec_send_queue ctx1) m of (r, q) \<Rightarrow>
                  if r \<noteq> 0 then (Return r, ctx1\<lparr>ec_write_enabled := False\<rparr>)
                  else andthen (take_ctrl (ctx1\<lparr>ec_send_queue := q\<rparr>))
                         (\<lambda>ctx2. (Go, wslay_event_on_non_fragmented_msg_popped ctx2))))
          else (Go, ctx))"

section \<open>Sending a piece\<close>

definition call_frame_send ::
    "'u wslay_event_context wslay_event_callbacks \<Rightarrow> wslay_frame_iocb \<Rightarrow> 'u wslay_event_context
       \<Rightarrow> (wslay_error + nat) \<times> 'u wslay_event_context" where
  "call_frame_send cbs iocb ctx =
     (case wslay_frame_send (event_frame_callbacks cbs) (ec_frame_ctx ctx) iocb ctx of
        (res, fctx, ctx1) \<Rightarrow> (res, ctx1\<lparr>ec_frame_ctx := fctx\<rparr>))"

definition send_error :: "wslay_error \<Rightarrow> 'u wslay_event_context \<Rightarrow> step \<times> 'u wslay_event_context" where
  "send_error e ctx =
     (if e \<noteq> WSLAY_ERR_WANT_WRITE \<or>
         (ec_error ctx \<noteq> wslay_error_code WSLAY_ERR_WOULDBLOCK \<and> ec_error ctx \<noteq> 0)
      then (Return (wslay_error_code WSLAY_ERR_CALLBACK_FAILURE), ctx\<lparr>ec_write_enabled := False\<rparr>)
      else (Break, ctx))"

text \<open>A message sent whole: the counters, and the end of the connection after a close frame.\<close>

definition send_done :: "wslay_event_omsg \<Rightarrow> 'u wslay_event_context \<Rightarrow> 'u wslay_event_context" where
  "send_done m ctx =
     (let ctx1 = ctx\<lparr>ec_queued_msg_count := ec_queued_msg_count ctx - 1,
                     ec_queued_msg_length := ec_queued_msg_length ctx - om_data_length m\<rparr>;
          status_code = (if om_data_length m \<ge> 2 then ntohs_bytes (om_data m) else 0);
          ctx2 = (if om_opcode m = WSLAY_CONNECTION_CLOSE
                  then ctx1\<lparr>ec_write_enabled := False, ec_close_status := ec_close_status ctx1 OR WSLAY_CLOSE_SENT,
                            ec_status_code_sent := (if status_code = 0 then WSLAY_CODE_NO_STATUS_RCVD else status_code)\<rparr>
                  else ctx1)
      in ctx2\<lparr>ec_omsg := None\<rparr>)"

definition send_non_fragmented ::
    "'u wslay_event_context wslay_event_callbacks \<Rightarrow> wslay_event_omsg \<Rightarrow> 'u wslay_event_context
       \<Rightarrow> step \<times> 'u wslay_event_context" where
  "send_non_fragmented cbs m ctx =
     (let iocb = \<lparr>iocb_fin = 1, iocb_rsv = 0, iocb_opcode = om_opcode m, iocb_payload_length = ec_opayloadlen ctx,
                  iocb_mask = (\<not> ec_server ctx), iocb_data = drop (unat (ec_opayloadoff ctx)) (om_data m),
                  iocb_data_length = ec_opayloadlen ctx - ec_opayloadoff ctx\<rparr>
      in case call_frame_send cbs iocb ctx of
           (Inl e, ctx1) \<Rightarrow> send_error e ctx1
         | (Inr len, ctx1) \<Rightarrow>
             (let ctx2 = ctx1\<lparr>ec_opayloadoff := ec_opayloadoff ctx1 + of_nat len\<rparr>
              in if ec_opayloadoff ctx2 = ec_opayloadlen ctx2 then (Go, send_done m ctx2) else (Break, ctx2)))"

text \<open>Refilling \<open>obuf\<close> from the application.\<close>

definition send_refill ::
    "'u wslay_event_context wslay_event_callbacks \<Rightarrow> wslay_event_omsg \<Rightarrow> 'u wslay_event_context
       \<Rightarrow> step \<times> 'u wslay_event_context" where
  "send_refill cbs m ctx =
     (if om_fin m = 0 \<and> ec_obuflimit ctx = ec_obufmark ctx then
        (case om_read_callback m of
           None \<Rightarrow> (Crash NullDereference, ctx)
         | Some cb \<Rightarrow>
             (case ev_read_callback cbs cb OBUF_SIZE (om_source m) ctx of
                (r, bs, eof, ctx1) \<Rightarrow>
                  (let ctx2 = ctx1\<lparr>ec_obuf := write_at (ec_obuf ctx1) 0 bs\<rparr>
                   in if r = 0 then (Break, ctx2)
                      else if r < 0 then
                        (Return (wslay_error_code WSLAY_ERR_CALLBACK_FAILURE), ctx2\<lparr>ec_write_enabled := False\<rparr>)
                      else (Go, ctx2\<lparr>ec_obuflimit := nat r,
                                     ec_omsg := (if eof then map_option (om_fin_update (\<lambda>_. 1)) (ec_omsg ctx2) else ec_omsg ctx2),
                                     ec_opayloadlen := of_int r, ec_opayloadoff := 0\<rparr>))))
      else (Go, ctx))"

definition send_fragment ::
    "'u wslay_event_context wslay_event_callbacks \<Rightarrow> wslay_event_omsg \<Rightarrow> 'u wslay_event_context
       \<Rightarrow> step \<times> 'u wslay_event_context" where
  "send_fragment cbs m ctx =
     (let iocb = \<lparr>iocb_fin = om_fin m, iocb_rsv = 0, iocb_opcode = om_opcode m, iocb_payload_length = ec_opayloadlen ctx,
                  iocb_mask = (\<not> ec_server ctx),
                  iocb_data = arr_slice (ec_obuf ctx) (ec_obufmark ctx) (ec_obuflimit ctx),
                  iocb_data_length = of_nat (ec_obuflimit ctx - ec_obufmark ctx)\<rparr>
      in case call_frame_send cbs iocb ctx of
           (Inl e, ctx1) \<Rightarrow> send_error e ctx1
         | (Inr len, ctx1) \<Rightarrow>
             (let ctx2 = ctx1\<lparr>ec_obufmark := ec_obufmark ctx1 + len\<rparr>
              in if ec_obufmark ctx2 = ec_obuflimit ctx2 then
                   (let ctx3 = ctx2\<lparr>ec_obufmark := 0, ec_obuflimit := 0\<rparr>
                    in (Go, if om_fin m \<noteq> 0
                            then ctx3\<lparr>ec_queued_msg_count := ec_queued_msg_count ctx3 - 1, ec_omsg := None\<rparr>
                            else ctx3\<lparr>ec_omsg := Some (m\<lparr>om_opcode := WSLAY_CONTINUATION_FRAME\<rparr>)\<rparr>))
                 else (Break, ctx2)))"

definition send_fragmented ::
    "'u wslay_event_context wslay_event_callbacks \<Rightarrow> wslay_event_omsg \<Rightarrow> 'u wslay_event_context
       \<Rightarrow> step \<times> 'u wslay_event_context" where
  "send_fragmented cbs m ctx =
     andthen (send_refill cbs m ctx)
       (\<lambda>ctx1. case ec_omsg ctx1 of None \<Rightarrow> (Crash NullDereference, ctx1) | Some m1 \<Rightarrow> send_fragment cbs m1 ctx1)"

definition send_step ::
    "'u wslay_event_context wslay_event_callbacks \<Rightarrow> 'u wslay_event_context \<Rightarrow> step \<times> 'u wslay_event_context" where
  "send_step cbs ctx =
     andthen (send_choose ctx)
       (\<lambda>ctx1. case ec_omsg ctx1 of
          None \<Rightarrow> (Crash NullDereference, ctx1)
        | Some m \<Rightarrow>
            (case om_type m of
               WSLAY_NON_FRAGMENTED \<Rightarrow> send_non_fragmented cbs m ctx1
             | WSLAY_FRAGMENTED \<Rightarrow> send_fragmented cbs m ctx1))"

section \<open>The loop\<close>

partial_function (option) wslay_event_send ::
    "'u wslay_event_context wslay_event_callbacks \<Rightarrow> 'u wslay_event_context
       \<Rightarrow> ((fault + int) \<times> 'u wslay_event_context) option" where
  "wslay_event_send cbs ctx =
     (if \<not> wslay_event_want_write ctx then Some (Inr 0, ctx)
      else (case send_step cbs ctx of
              (Go, ctx') \<Rightarrow> wslay_event_send cbs ctx'
            | (Break, ctx') \<Rightarrow> Some (Inr 0, ctx')
            | (Return r, ctx') \<Rightarrow> Some (Inr r, ctx')
            | (Crash f, ctx') \<Rightarrow> Some (Inl f, ctx')
            | (Hang, ctx') \<Rightarrow> None))"

end
