(* ===== verification/Wslay_Context.thy ===== *)
theory Wslay_Context
  imports Wslay_Event_Send
begin

text \<open>
  Making a context (\<open>context.h\<close>, \<open>context.c\<close>). \<open>None\<close> is \<open>NULL\<close>; the blocks
  of a construction that fails are released with the context.
\<close>

definition imsg_zero :: wslay_event_imsg where
  "imsg_zero = \<lparr>im_fin = 0, im_rsv = 0, im_opcode = 0, im_utf8state = 0, im_chunks = Null, im_msg_length = 0\<rparr>"

text \<open>The context \<open>talloc_zero\<close> returns, with its frame context.\<close>

definition event_context_zero :: "wslay_frame_context \<Rightarrow> allocator \<Rightarrow> 'u \<Rightarrow> 'u wslay_event_context" where
  "event_context_zero fctx mem user_data =
     \<lparr>ec_config = 0, ec_max_recv_msg_length = 0, ec_server = False, ec_close_status = 0,
      ec_status_code_recv = 0, ec_status_code_sent = 0, ec_frame_ctx = fctx,
      ec_read_enabled = False, ec_write_enabled = False, ec_imsgs = (\<lambda>_. imsg_zero), ec_imsg = Imsg0,
      ec_ipayloadlen = 0, ec_ipayloadoff = 0, ec_error = 0, ec_omsg = None,
      ec_send_queue = wslay_queue_init, ec_send_ctrl_queue = wslay_queue_init,
      ec_queued_msg_count = 0, ec_queued_msg_length = 0,
      ec_obuf = replicate OBUF_SIZE 0, ec_obuflimit = 0, ec_obufmark = 0, ec_opayloadlen = 0, ec_opayloadoff = 0,
      ec_mem = mem, ec_user_data = user_data\<rparr>"

text \<open>One round of the loop over \<open>imsgs\<close>.\<close>

definition init_imsg :: "imsg_slot \<Rightarrow> 'u wslay_event_context \<Rightarrow> 'u wslay_event_context option" where
  "init_imsg s ctx =
     (case wslay_event_imsg_reset (ec_imsgs ctx s) of
        Inl f \<Rightarrow> None
      | Inr m \<Rightarrow>
          (case wslay_queue_new (ec_mem ctx) of
             (None, mem) \<Rightarrow> None
           | (Some q, mem) \<Rightarrow> Some (ctx\<lparr>ec_imsgs := (ec_imsgs ctx)(s := m\<lparr>im_chunks := Live q\<rparr>), ec_mem := mem\<rparr>)))"

definition wslay_event_context_new :: "allocator \<Rightarrow> 'u \<Rightarrow> 'u wslay_event_context option" where
  "wslay_event_context_new mem user_data =
     (case mem_alloc mem of (context_ok, mem1) \<Rightarrow>
        if \<not> context_ok then None
        else (case wslay_frame_context_new mem1 of
            (None, mem2) \<Rightarrow> None
          | (Some fctx, mem2) \<Rightarrow>
        (case wslay_queue_new mem2 of
            (None, mem3) \<Rightarrow> None
          | (Some send_queue, mem3) \<Rightarrow>
        (case wslay_queue_new mem3 of
            (None, mem4) \<Rightarrow> None
          | (Some send_ctrl_queue, mem4) \<Rightarrow>
        (case init_imsg Imsg0 ((event_context_zero fctx mem4 user_data)
                \<lparr>ec_read_enabled := True, ec_write_enabled := True,
                 ec_send_queue := send_queue, ec_send_ctrl_queue := send_ctrl_queue,
                 ec_queued_msg_count := 0, ec_queued_msg_length := 0\<rparr>) of
            None \<Rightarrow> None
          | Some ctx1 \<Rightarrow>
        (case init_imsg Imsg1 ctx1 of
            None \<Rightarrow> None
          | Some ctx2 \<Rightarrow>
              Some (ctx2\<lparr>ec_imsg := Imsg0, ec_obufmark := 0, ec_obuflimit := 0,
                         ec_status_code_sent := WSLAY_CODE_ABNORMAL_CLOSURE,
                         ec_status_code_recv := WSLAY_CODE_ABNORMAL_CLOSURE,
                         ec_max_recv_msg_length := - 1\<rparr>)))))))"

definition wslay_server_new :: "allocator \<Rightarrow> 'u \<Rightarrow> 'u wslay_event_context option" where
  "wslay_server_new mem user_data =
     map_option (\<lambda>ctx. ctx\<lparr>ec_server := True\<rparr>) (wslay_event_context_new mem user_data)"

definition wslay_client_new :: "allocator \<Rightarrow> 'u \<Rightarrow> 'u wslay_event_context option" where
  "wslay_client_new mem user_data =
     map_option (\<lambda>ctx. ctx\<lparr>ec_server := False\<rparr>) (wslay_event_context_new mem user_data)"

end
