(* ===== verification/Wslay_Event_Outbox.thy ===== *)
theory Wslay_Event_Outbox
  imports Wslay_Context
begin

text \<open>
  Queueing: what \<open>wslay_event_queue_msg\<close>, \<open>wslay_event_queue_fragmented_msg\<close> and
  \<open>wslay_event_queue_close\<close> promise, stated over an abstract outbox (two lists, two counters and
  whether it is open), and the construction of contexts.
\<close>

section \<open>The abstract outbox\<close>

record outbox =
  ob_open :: bool
  ob_ctrl :: "wslay_event_omsg list"
  ob_data :: "wslay_event_omsg list"
  ob_count :: uint64
  ob_length :: uint64

definition outbox_put :: "wslay_event_omsg \<Rightarrow> outbox \<Rightarrow> outbox" where
  "outbox_put m ob =
     (let ob' = ob\<lparr>ob_count := ob_count ob + 1, ob_length := ob_length ob + om_data_length m\<rparr>
      in if wslay_is_ctrl_frame (om_opcode m) then ob'\<lparr>ob_ctrl := ob_ctrl ob @ [m]\<rparr>
         else ob'\<lparr>ob_data := ob_data ob @ [m]\<rparr>)"

definition outbox_close :: "outbox \<Rightarrow> outbox" where
  "outbox_close ob = ob\<lparr>ob_open := False\<rparr>"

definition outbox_inv :: "'u wslay_event_context \<Rightarrow> bool" where
  "outbox_inv ctx \<longleftrightarrow> queue_inv (ec_send_queue ctx) \<and> queue_inv (ec_send_ctrl_queue ctx)"

definition outbox_of :: "'u wslay_event_context \<Rightarrow> outbox" where
  "outbox_of ctx =
     \<lparr>ob_open = wslay_event_is_msg_queueable ctx, ob_ctrl = queue_list (ec_send_ctrl_queue ctx),
      ob_data = queue_list (ec_send_queue ctx), ob_count = ec_queued_msg_count ctx,
      ob_length = ec_queued_msg_length ctx\<rparr>"

text \<open>Everything but the outbox, the close status and the allocator is as before.\<close>

definition sans_outbox :: "'u wslay_event_context \<Rightarrow> 'u wslay_event_context" where
  "sans_outbox ctx =
     ctx\<lparr>ec_mem := mem_unlimited, ec_send_queue := wslay_queue_init, ec_send_ctrl_queue := wslay_queue_init,
         ec_queued_msg_count := 0, ec_queued_msg_length := 0, ec_close_status := 0\<rparr>"

definition outbox_only :: "'u wslay_event_context \<Rightarrow> 'u wslay_event_context \<Rightarrow> bool" where
  "outbox_only ctx ctx' \<longleftrightarrow> sans_outbox ctx' = sans_outbox ctx"

definition whole_msg :: "wslay_event_msg \<Rightarrow> wslay_event_omsg" where
  "whole_msg arg =
     \<lparr>om_fin = 1, om_opcode = em_opcode arg, om_type = WSLAY_NON_FRAGMENTED,
      om_data = take (unat (em_msg_length arg)) (em_msg arg), om_data_length = em_msg_length arg,
      om_source = None, om_read_callback = None\<rparr>"

definition fragmented_msg :: "wslay_event_fragmented_msg \<Rightarrow> wslay_event_omsg" where
  "fragmented_msg arg =
     \<lparr>om_fin = 0, om_opcode = ef_opcode arg, om_type = WSLAY_FRAGMENTED, om_data = [], om_data_length = 0,
      om_source = Some (ef_source arg), om_read_callback = Some (ef_read_callback arg)\<rparr>"

definition close_msg :: "uint16 \<Rightarrow> byte list \<Rightarrow> wslay_event_msg" where
  "close_msg code reason =
     (let msg = (if code = 0 then [] else htons_bytes code @ reason)
      in \<lparr>em_opcode = WSLAY_CONNECTION_CLOSE, em_msg = msg, em_msg_length = of_nat (length msg)\<rparr>)"

section \<open>Queueing a message\<close>

lemma non_fragmented_new:
  "wslay_event_omsg_non_fragmented_new mem op msg len = (res, mem') \<Longrightarrow>
    (res = None \<and> (\<exists>n. \<not> mem_ok mem n) \<or>
     res = Some (whole_msg \<lparr>em_opcode = op, em_msg = msg, em_msg_length = len\<rparr>)) \<and> mem_ok mem' = mem_ok mem"
  by (auto simp: wslay_event_omsg_non_fragmented_new_def mem_alloc_def whole_msg_def Let_def split: if_splits)

lemma fragmented_new:
  "wslay_event_omsg_fragmented_new mem op src cb = (res, mem') \<Longrightarrow>
    (res = None \<and> (\<exists>n. \<not> mem_ok mem n) \<or>
     res = Some (fragmented_msg \<lparr>ef_opcode = op, ef_source = src, ef_read_callback = cb\<rparr>)) \<and> mem_ok mem' = mem_ok mem"
  by (auto simp: wslay_event_omsg_fragmented_new_def mem_alloc_def fragmented_msg_def split: if_splits)

lemma push_omsg:
  assumes "outbox_inv ctx" "push_omsg (wslay_is_ctrl_frame (om_opcode m)) m ctx = (r, ctx')"
  shows "outbox_inv ctx' \<and> mem_ok (ec_mem ctx') = mem_ok (ec_mem ctx) \<and> outbox_only ctx ctx' \<and>
    (r = 0 \<and> outbox_of ctx' = (outbox_put m (outbox_of ctx))\<lparr>ob_count := ob_count (outbox_of ctx), ob_length := ob_length (outbox_of ctx)\<rparr> \<or>
     r = 1 \<and> outbox_of ctx' = outbox_of ctx \<and> (\<exists>n. \<not> mem_ok (ec_mem ctx) n))"
proof -
  let ?c = "wslay_is_ctrl_frame (om_opcode m)"
  let ?q = "if ?c then ec_send_ctrl_queue ctx else ec_send_queue ctx"
  define ok where "ok = mem_ok (ec_mem ctx) (mem_calls (ec_mem ctx))"
  define mem where "mem = (ec_mem ctx)\<lparr>mem_calls := Suc (mem_calls (ec_mem ctx))\<rparr>"
  obtain q where q: "wslay_queue_push ok ?q m = (r, q)"
      "ctx' = (if ?c then ctx\<lparr>ec_mem := mem, ec_send_ctrl_queue := q\<rparr> else ctx\<lparr>ec_mem := mem, ec_send_queue := q\<rparr>)"
    using assms(2) unfolding push_omsg_def ctx_alloc_def mem_alloc_def ok_def [symmetric] mem_def [symmetric]
    by (auto split: if_splits prod.splits)
  have qinv: "queue_inv ?q" using assms(1) by (simp add: outbox_inv_def)
  have "queue_inv q" "r = (if ok then 0 else 1)" "queue_list q = queue_list ?q @ (if ok then [m] else [])"
    using q(1) queue_inv_push [OF qinv, of ok m] queue_list_push [OF qinv, of m] queue_push_ok(1) [of ?q m]
    by (cases ok; simp)+
  moreover have "ok \<or> (\<exists>n. \<not> mem_ok (ec_mem ctx) n)" "mem_ok mem = mem_ok (ec_mem ctx)"
    by (auto simp: ok_def mem_def)
  ultimately show ?thesis
    using assms(1) q(2)
    by (cases ok; cases ?c)
      (auto simp: outbox_inv_def outbox_of_def outbox_only_def sans_outbox_def outbox_put_def wslay_event_is_msg_queueable_def Let_def)
qed

text \<open>The possible outcomes of queueing \<open>m\<close>: done, or not enough memory and nothing queued.\<close>

definition queued_or_nomem ::
    "wslay_event_omsg \<Rightarrow> 'u wslay_event_context \<Rightarrow> int \<Rightarrow> 'u wslay_event_context \<Rightarrow> bool" where
  "queued_or_nomem m ctx r ctx' \<longleftrightarrow> outbox_only ctx ctx' \<and>
     (r = 0 \<and> outbox_of ctx' = outbox_put m (outbox_of ctx) \<or>
      r \<in> {-1, 1} \<and> outbox_of ctx' = outbox_of ctx \<and> (\<exists>n. \<not> mem_ok (ec_mem ctx) n))"

lemma queue_msg_spec:
  assumes "outbox_inv ctx" "wslay_event_queue_msg ctx arg = (r, ctx')"
  shows "outbox_inv ctx' \<and> ec_close_status ctx' = ec_close_status ctx \<and>
    (if \<not> ob_open (outbox_of ctx) then r = wslay_error_code WSLAY_ERR_NO_MORE_MSG \<and> ctx' = ctx
     else if wslay_is_ctrl_frame (em_opcode arg) \<and> em_msg_length arg > 125
     then r = wslay_error_code WSLAY_ERR_INVALID_ARGUMENT \<and> ctx' = ctx
     else queued_or_nomem (whole_msg arg) ctx r ctx')"
proof -
  have op: "ob_open (outbox_of ctx) = wslay_event_is_msg_queueable ctx" by (simp add: outbox_of_def)
  obtain res mem where n: "wslay_event_omsg_non_fragmented_new (ec_mem ctx) (em_opcode arg) (em_msg arg) (em_msg_length arg) = (res, mem)"
    by fastforce
  have wm: "whole_msg \<lparr>em_opcode = em_opcode arg, em_msg = em_msg arg, em_msg_length = em_msg_length arg\<rparr> = whole_msg arg"
    by (simp add: whole_msg_def)
  from non_fragmented_new [OF n] consider "\<not> ob_open (outbox_of ctx) \<or> wslay_is_ctrl_frame (em_opcode arg) \<and> em_msg_length arg > 125"
    | "ob_open (outbox_of ctx)" "\<not> (wslay_is_ctrl_frame (em_opcode arg) \<and> em_msg_length arg > 125)" "res = None"
      "\<exists>n. \<not> mem_ok (ec_mem ctx) n"
    | "ob_open (outbox_of ctx)" "\<not> (wslay_is_ctrl_frame (em_opcode arg) \<and> em_msg_length arg > 125)" "res = Some (whole_msg arg)"
      "mem_ok mem = mem_ok (ec_mem ctx)"
    unfolding wm by auto
  then show ?thesis
  proof cases
    case 1
    then show ?thesis using assms op by (auto simp: wslay_event_queue_msg_def)
  next
    case 2
    then have "r = -1" "ctx' = ctx\<lparr>ec_mem := mem\<rparr>" using assms(2) op n by (auto simp: wslay_event_queue_msg_def)
    then show ?thesis using 2 assms(1)
      by (auto simp: queued_or_nomem_def outbox_only_def sans_outbox_def outbox_inv_def outbox_of_def wslay_event_is_msg_queueable_def)
  next
    case 3
    let ?c = "ctx\<lparr>ec_mem := mem\<rparr>"
    obtain r2 c2 where p: "push_omsg (wslay_is_ctrl_frame (om_opcode (whole_msg arg))) (whole_msg arg) ?c = (r2, c2)" by fastforce
    have inv: "outbox_inv ?c" "outbox_of ?c = outbox_of ctx"
      using assms(1) by (simp_all add: outbox_inv_def outbox_of_def wslay_event_is_msg_queueable_def)
    note pm = push_omsg [OF inv(1) p, unfolded inv(2)]
    have res: "r = r2" "ctx' = (if r2 = 0 then c2\<lparr>ec_queued_msg_count := ec_queued_msg_count c2 + 1,
        ec_queued_msg_length := ec_queued_msg_length c2 + em_msg_length arg\<rparr> else c2)"
      using assms(2) op 3 n p by (auto simp: wslay_event_queue_msg_def whole_msg_def split: if_splits)
    have cs: "ec_close_status c2 = ec_close_status ctx" "outbox_only ctx ctx'" "outbox_inv ctx'"
      using pm res p unfolding push_omsg_def ctx_alloc_def
      by (auto simp: outbox_only_def sans_outbox_def outbox_inv_def split: if_splits prod.splits)
    have "r = 0 \<Longrightarrow> outbox_of ctx' = outbox_put (whole_msg arg) (outbox_of ctx)"
      using pm res
      by (auto simp: outbox_of_def outbox_put_def Let_def whole_msg_def wslay_event_is_msg_queueable_def)
    then show ?thesis using pm res cs 3 by (auto simp: queued_or_nomem_def)
  qed
qed

lemma queue_fragmented_msg_spec:
  assumes "outbox_inv ctx" "wslay_event_queue_fragmented_msg ctx arg = (r, ctx')"
  shows "outbox_inv ctx' \<and>
    (if \<not> ob_open (outbox_of ctx) then r = wslay_error_code WSLAY_ERR_NO_MORE_MSG \<and> ctx' = ctx
     else if wslay_is_ctrl_frame (ef_opcode arg) then r = wslay_error_code WSLAY_ERR_INVALID_ARGUMENT \<and> ctx' = ctx
     else queued_or_nomem (fragmented_msg arg) ctx r ctx')"
proof -
  have op: "ob_open (outbox_of ctx) = wslay_event_is_msg_queueable ctx" by (simp add: outbox_of_def)
  obtain res mem where n: "wslay_event_omsg_fragmented_new (ec_mem ctx) (ef_opcode arg) (ef_source arg) (ef_read_callback arg) = (res, mem)"
    by fastforce
  have fm: "fragmented_msg \<lparr>ef_opcode = ef_opcode arg, ef_source = ef_source arg, ef_read_callback = ef_read_callback arg\<rparr> = fragmented_msg arg"
    by (simp add: fragmented_msg_def)
  from fragmented_new [OF n] consider "\<not> ob_open (outbox_of ctx) \<or> wslay_is_ctrl_frame (ef_opcode arg)"
    | "ob_open (outbox_of ctx)" "\<not> wslay_is_ctrl_frame (ef_opcode arg)" "res = None" "\<exists>n. \<not> mem_ok (ec_mem ctx) n"
    | "ob_open (outbox_of ctx)" "\<not> wslay_is_ctrl_frame (ef_opcode arg)" "res = Some (fragmented_msg arg)"
      "mem_ok mem = mem_ok (ec_mem ctx)"
    unfolding fm by auto
  then show ?thesis
  proof cases
    case 1
    then show ?thesis using assms op by (auto simp: wslay_event_queue_fragmented_msg_def)
  next
    case 2
    then have "r = -1" "ctx' = ctx\<lparr>ec_mem := mem\<rparr>" using assms(2) op n by (auto simp: wslay_event_queue_fragmented_msg_def)
    then show ?thesis using 2 assms(1)
      by (auto simp: queued_or_nomem_def outbox_only_def sans_outbox_def outbox_inv_def outbox_of_def wslay_event_is_msg_queueable_def)
  next
    case 3
    let ?c = "ctx\<lparr>ec_mem := mem\<rparr>"
    have nc: "\<not> wslay_is_ctrl_frame (om_opcode (fragmented_msg arg))" using 3 by (simp add: fragmented_msg_def)
    obtain r2 c2 where p: "push_omsg (wslay_is_ctrl_frame (om_opcode (fragmented_msg arg))) (fragmented_msg arg) ?c = (r2, c2)" by fastforce
    have inv: "outbox_inv ?c" "outbox_of ?c = outbox_of ctx"
      using assms(1) by (simp_all add: outbox_inv_def outbox_of_def wslay_event_is_msg_queueable_def)
    note pm = push_omsg [OF inv(1) p, unfolded inv(2)]
    have res: "r = (if r2 = 0 then 0 else -1)" "ctx' = (if r2 = 0 then c2\<lparr>ec_queued_msg_count := ec_queued_msg_count c2 + 1\<rparr> else c2)"
      using assms(2) op 3 n p nc by (auto simp: wslay_event_queue_fragmented_msg_def split: if_splits)
    have cs: "outbox_only ctx ctx'" "outbox_inv ctx'"
      using pm res by (auto simp: outbox_only_def sans_outbox_def outbox_inv_def split: if_splits)
    have "r = 0 \<Longrightarrow> outbox_of ctx' = outbox_put (fragmented_msg arg) (outbox_of ctx)"
      using pm res nc
      by (auto simp: outbox_of_def outbox_put_def Let_def fragmented_msg_def wslay_event_is_msg_queueable_def split: if_splits)
    then show ?thesis using pm res cs 3 by (auto simp: queued_or_nomem_def split: if_splits)
  qed
qed

section \<open>Queueing a close frame\<close>

lemma queued_bit: "(s OR WSLAY_CLOSE_QUEUED) AND WSLAY_CLOSE_QUEUED \<noteq> 0" for s :: byte
proof
  assume "(s OR 2) AND 2 = 0"
  then have "bit ((s OR 2) AND 2) 1 = bit (0 :: byte) 1" by simp
  then show False by (simp add: bit_simps)
qed

lemma close_msg_length:
  assumes "length reason \<le> 123"
  shows "\<not> em_msg_length (close_msg code reason) > 125" "wslay_is_ctrl_frame (em_opcode (close_msg code reason))"
  using assms by (auto simp: close_msg_def Let_def word_less_nat_alt unat_of_nat wslay_is_ctrl_frame_def)

lemma queue_close_spec:
  assumes "outbox_inv ctx" "wslay_event_queue_close ctx code reason = (r, ctx')"
  shows "outbox_inv ctx' \<and>
    (if \<not> ob_open (outbox_of ctx) then r = 1 \<and> ctx' = ctx
     else if length reason > 123 then r = 2 \<and> ctx' = ctx
     else outbox_only ctx ctx' \<and>
      (r = 0 \<and> outbox_of ctx' = outbox_close (outbox_put (whole_msg (close_msg code reason)) (outbox_of ctx)) \<and>
       ec_close_status ctx' = ec_close_status ctx OR WSLAY_CLOSE_QUEUED \<or>
       r \<in> {-1, 1} \<and> outbox_of ctx' = outbox_of ctx \<and> (\<exists>n. \<not> mem_ok (ec_mem ctx) n)))"
proof (cases "ob_open (outbox_of ctx) \<and> length reason \<le> 123")
  case False
  then show ?thesis using assms by (auto simp: wslay_event_queue_close_def outbox_of_def)
next
  case True
  obtain r1 c1 where q: "wslay_event_queue_msg ctx (close_msg code reason) = (r1, c1)" by fastforce
  have u: "r = r1" "ctx' = (if r1 = 0 then c1\<lparr>ec_close_status := ec_close_status c1 OR WSLAY_CLOSE_QUEUED\<rparr> else c1)"
    using assms(2) True q by (auto simp: wslay_event_queue_close_def outbox_of_def close_msg_def Let_def split: if_splits)
  have s: "outbox_inv c1" "ec_close_status c1 = ec_close_status ctx" "queued_or_nomem (whole_msg (close_msg code reason)) ctx r1 c1"
    using queue_msg_spec [OF assms(1) q] True close_msg_length [of reason code] by simp_all
  show ?thesis
  proof (cases "r1 = 0")
    case 0: True
    then have "outbox_of c1 = outbox_put (whole_msg (close_msg code reason)) (outbox_of ctx)" "outbox_only ctx c1"
      using s(3) by (auto simp: queued_or_nomem_def)
    moreover have "\<not> wslay_event_is_msg_queueable ctx'"
      using u 0 queued_bit [of "ec_close_status c1"] by (simp add: wslay_event_is_msg_queueable_def)
    moreover have "outbox_of ctx' = (outbox_of c1)\<lparr>ob_open := wslay_event_is_msg_queueable ctx'\<rparr>"
      using u 0 by (simp add: outbox_of_def)
    ultimately show ?thesis
      using True u 0 s by (auto simp: outbox_close_def outbox_only_def sans_outbox_def outbox_inv_def)
  next
    case False
    then show ?thesis using True u s by (auto simp: queued_or_nomem_def)
  qed
qed

section \<open>New contexts\<close>

definition fresh_imsg :: wslay_event_imsg where
  "fresh_imsg = \<lparr>im_fin = 0, im_rsv = 0, im_opcode = 0xff, im_utf8state = UTF8_ACCEPT,
                 im_chunks = Live wslay_queue_init, im_msg_length = 0\<rparr>"

definition fresh_context :: "allocator \<Rightarrow> 'u \<Rightarrow> 'u wslay_event_context" where
  "fresh_context mem u =
     \<lparr>ec_config = 0, ec_max_recv_msg_length = - 1, ec_server = False, ec_close_status = 0,
      ec_status_code_recv = 1006, ec_status_code_sent = 1006, ec_frame_ctx = wslay_frame_context_init,
      ec_read_enabled = True, ec_write_enabled = True, ec_imsgs = (\<lambda>_. fresh_imsg), ec_imsg = Imsg0,
      ec_ipayloadlen = 0, ec_ipayloadoff = 0, ec_error = 0, ec_omsg = None,
      ec_send_queue = wslay_queue_init, ec_send_ctrl_queue = wslay_queue_init,
      ec_queued_msg_count = 0, ec_queued_msg_length = 0,
      ec_obuf = replicate 4096 0, ec_obuflimit = 0, ec_obufmark = 0, ec_opayloadlen = 0, ec_opayloadoff = 0,
      ec_mem = mem, ec_user_data = u\<rparr>"

lemma queue_new_eq:
  "wslay_queue_new m = (if mem_ok m (mem_calls m) then
      if mem_ok m (Suc (mem_calls m)) then (Some wslay_queue_init, m\<lparr>mem_calls := mem_calls m + 2\<rparr>)
      else (None, m\<lparr>mem_calls := mem_calls m + 2\<rparr>)
    else (None, m\<lparr>mem_calls := Suc (mem_calls m)\<rparr>))"
  by (simp add: wslay_queue_new_def mem_alloc_def)

lemma init_imsg_eq:
  assumes "ec_imsgs ctx s = imsg_zero"
  shows "init_imsg s ctx =
    (if mem_ok (ec_mem ctx) (mem_calls (ec_mem ctx)) \<and> mem_ok (ec_mem ctx) (Suc (mem_calls (ec_mem ctx)))
     then Some (ctx\<lparr>ec_imsgs := (ec_imsgs ctx)(s := fresh_imsg),
                    ec_mem := (ec_mem ctx)\<lparr>mem_calls := mem_calls (ec_mem ctx) + 2\<rparr>\<rparr>) else None)"
  using assms by (simp add: init_imsg_def wslay_event_imsg_reset_def imsg_zero_def Let_def queue_new_eq fresh_imsg_def)

lemma list_all_less_10:
  "list_all P [0..<10] = (P 0 \<and> P (Suc 0) \<and> P (Suc (Suc 0)) \<and> P (Suc (Suc (Suc 0))) \<and> P (Suc (Suc (Suc (Suc 0)))) \<and> P (Suc (Suc (Suc (Suc (Suc 0))))) \<and> P (Suc (Suc (Suc (Suc (Suc (Suc 0)))))) \<and> P (Suc (Suc (Suc (Suc (Suc (Suc (Suc 0))))))) \<and> P (Suc (Suc (Suc (Suc (Suc (Suc (Suc (Suc 0)))))))) \<and> P (Suc (Suc (Suc (Suc (Suc (Suc (Suc (Suc (Suc 0))))))))))"
  by (simp add: eval_nat_numeral upt_rec)

lemma plus_10: "n + 10 = Suc (Suc (Suc (Suc (Suc (Suc (Suc (Suc (Suc (Suc n)))))))))"
  by simp

lemma both_slots: "(\<lambda>_. c)(Imsg0 := m, Imsg1 := m) = (\<lambda>_. m)"
  by (rule ext) (metis fun_upd_apply imsg_slot.exhaust)

lemma context_new_eq:
  "wslay_event_context_new mem u =
     (if list_all (\<lambda>i. mem_ok mem (mem_calls mem + i)) [0..<10]
      then Some (fresh_context (mem\<lparr>mem_calls := mem_calls mem + 10\<rparr>) u) else None)"
  unfolding list_all_less_10
  by (simp add: wslay_event_context_new_def mem_alloc_def wslay_frame_context_new_def queue_new_eq init_imsg_eq
      event_context_zero_def fresh_context_def both_slots plus_10)

text \<open>\<open>wslay_event_context_new\<close> makes ten allocations; it returns the initial context if all of them
  succeed and \<open>NULL\<close> as soon as one of them fails, whichever it is. The initial context reads and
  writes, has empty queues, no message in progress in either slot and reports abnormal closure.\<close>

theorem wslay_event_context_new_spec:
  "wslay_event_context_new mem u =
     (if list_all (\<lambda>i. mem_ok mem (mem_calls mem + i)) [0..<10]
      then Some (fresh_context (mem\<lparr>mem_calls := mem_calls mem + 10\<rparr>) u) else None)"
  by (rule context_new_eq)

section \<open>Properties\<close>

definition server0 :: "unit wslay_event_context" where
  "server0 = (fresh_context mem_unlimited ())\<lparr>ec_server := True\<rparr>"

lemma server0_outbox: "outbox_inv server0"
  by (simp add: outbox_inv_def server0_def fresh_context_def)

text \<open>C28. \<open>wslay_event_queue_msg\<close> implements the abstract outbox. Once writing is shut down or a close frame is
  queued it refuses with \<open>WSLAY_ERR_NO_MORE_MSG\<close>, a control message over 125 bytes with
  \<open>WSLAY_ERR_INVALID_ARGUMENT\<close>, both without any change; otherwise the message, copied, is appended to
  the queue of its kind and both counters follow, or memory is short and nothing is queued.\<close>

theorem wslay_event_queue_msg_refines:
  assumes "outbox_inv ctx"
  shows "case wslay_event_queue_msg ctx arg of (r, ctx') \<Rightarrow> outbox_inv ctx' \<and>
    (if \<not> ob_open (outbox_of ctx) then r = wslay_error_code WSLAY_ERR_NO_MORE_MSG \<and> ctx' = ctx
     else if wslay_is_ctrl_frame (em_opcode arg) \<and> em_msg_length arg > 125
     then r = wslay_error_code WSLAY_ERR_INVALID_ARGUMENT \<and> ctx' = ctx
     else queued_or_nomem (whole_msg arg) ctx r ctx')"
  using queue_msg_spec [OF assms prod.collapse [symmetric], where arg = arg]
  unfolding case_prod_unfold by (elim conjE) (intro conjI; assumption)

definition ping_msg :: wslay_event_msg where
  "ping_msg = \<lparr>em_opcode = 9, em_msg = [1, 2, 3], em_msg_length = 3\<rparr>"

theorem wslay_event_queue_msg_refines_witness:
  "case wslay_event_queue_msg server0 ping_msg of (r, ctx') \<Rightarrow> outbox_inv ctx' \<and>
    queued_or_nomem (whole_msg ping_msg) server0 r ctx'"
proof -
  have "ob_open (outbox_of server0)"
    by (simp add: outbox_of_def wslay_event_is_msg_queueable_def server0_def fresh_context_def)
  moreover have "\<not> em_msg_length ping_msg > 125" by (simp add: ping_msg_def)
  ultimately show ?thesis
    using wslay_event_queue_msg_refines [OF server0_outbox, of ping_msg] by (simp add: case_prod_unfold)
qed

text \<open>\<open>wslay_event_queue_fragmented_msg\<close> refuses control opcodes and otherwise appends the message, with its
  source and read callback, to the data queue; it counts the message and no bytes.\<close>

theorem wslay_event_queue_fragmented_msg_refines:
  assumes "outbox_inv ctx"
  shows "case wslay_event_queue_fragmented_msg ctx arg of (r, ctx') \<Rightarrow> outbox_inv ctx' \<and>
    (if \<not> ob_open (outbox_of ctx) then r = wslay_error_code WSLAY_ERR_NO_MORE_MSG \<and> ctx' = ctx
     else if wslay_is_ctrl_frame (ef_opcode arg) then r = wslay_error_code WSLAY_ERR_INVALID_ARGUMENT \<and> ctx' = ctx
     else queued_or_nomem (fragmented_msg arg) ctx r ctx')"
  using queue_fragmented_msg_spec [OF assms prod.collapse [symmetric], where arg = arg]
  unfolding case_prod_unfold by (elim conjE) (intro conjI; assumption)

definition file_msg :: wslay_event_fragmented_msg where
  "file_msg = \<lparr>ef_opcode = 2, ef_source = SourceFd 3, ef_read_callback = 0\<rparr>"

theorem wslay_event_queue_fragmented_msg_refines_witness:
  "case wslay_event_queue_fragmented_msg server0 file_msg of (r, ctx') \<Rightarrow> outbox_inv ctx' \<and>
    queued_or_nomem (fragmented_msg file_msg) server0 r ctx'"
proof -
  have "ob_open (outbox_of server0)"
    by (simp add: outbox_of_def wslay_event_is_msg_queueable_def server0_def fresh_context_def)
  moreover have "\<not> wslay_is_ctrl_frame (ef_opcode file_msg)" by (simp add: file_msg_def wslay_is_ctrl_frame_def)
  ultimately show ?thesis
    using wslay_event_queue_fragmented_msg_refines [OF server0_outbox, of file_msg] by (simp add: case_prod_unfold)
qed

text \<open>C29. \<open>wslay_event_queue_close\<close> queues one close frame, whose payload is the status code in network byte
  order and the reason (nothing for status 0), and closes the outbox for good. It refuses a second close
  and a reason over 123 bytes with 1 and 2, not with the negative codes that \<open>event.h\<close> documents.\<close>

theorem wslay_event_queue_close_refines:
  assumes "outbox_inv ctx"
  shows "case wslay_event_queue_close ctx code reason of (r, ctx') \<Rightarrow> outbox_inv ctx' \<and>
    (if \<not> ob_open (outbox_of ctx) then r = 1 \<and> ctx' = ctx
     else if length reason > 123 then r = 2 \<and> ctx' = ctx
     else outbox_only ctx ctx' \<and>
      (r = 0 \<and> outbox_of ctx' = outbox_close (outbox_put (whole_msg (close_msg code reason)) (outbox_of ctx)) \<and>
       ec_close_status ctx' = ec_close_status ctx OR 2 \<or>
       r \<in> {-1, 1} \<and> outbox_of ctx' = outbox_of ctx \<and> (\<exists>n. \<not> mem_ok (ec_mem ctx) n)))"
  using queue_close_spec [OF assms prod.collapse [symmetric], where code = code and reason = reason]
  unfolding case_prod_unfold by (elim conjE) (intro conjI; assumption)

theorem wslay_event_queue_close_refines_witness:
  "case wslay_event_queue_close server0 1000 [0x62, 0x79, 0x65] of (r, ctx') \<Rightarrow> r = 0 \<and>
    outbox_of ctx' = outbox_close (outbox_put (whole_msg (close_msg 1000 [0x62, 0x79, 0x65])) (outbox_of server0))"
proof -
  have "ob_open (outbox_of server0)" "\<not> (\<exists>n. \<not> mem_ok (ec_mem server0) n)"
    by (simp_all add: outbox_of_def wslay_event_is_msg_queueable_def server0_def fresh_context_def mem_unlimited_def)
  then show ?thesis
    using wslay_event_queue_close_refines [OF server0_outbox, where code = 1000 and reason = "[0x62, 0x79, 0x65]"] by (simp add: case_prod_unfold)
qed

end
