(* ===== verification/Wslay_Event_Inbox.thy ===== *)
theory Wslay_Event_Inbox
  imports Wslay_Event_Outbox
begin

text \<open>
  Assembling messages: the chunks of a message under construction, and what the functions on them
  do in terms of the bytes received so far. \<open>assembling q len off bs\<close> is the state inside a frame of
  \<open>len\<close> bytes, \<open>off\<close> of them stored, \<open>assembled q bs\<close> the one between frames; \<open>bs\<close> are the bytes of
  the message.
\<close>

section \<open>Chunks\<close>

definition chunk_wf :: "wslay_event_byte_chunk \<Rightarrow> bool" where
  "chunk_wf c \<longleftrightarrow> length (chunk_data c) = unat (chunk_data_length c)"

definition chunk_bytes :: "wslay_event_byte_chunk list \<Rightarrow> byte list" where
  "chunk_bytes cs = concat (map chunk_data cs)"

definition assembled :: "wslay_event_byte_chunk wslay_queue \<Rightarrow> byte list \<Rightarrow> bool" where
  "assembled q bs \<longleftrightarrow> queue_inv q \<and> list_all chunk_wf (queue_list q) \<and> chunk_bytes (queue_list q) = bs"

definition assembling :: "wslay_event_byte_chunk wslay_queue \<Rightarrow> nat \<Rightarrow> nat \<Rightarrow> byte list \<Rightarrow> bool" where
  "assembling q len off bs \<longleftrightarrow> queue_inv q \<and>
     (\<exists>cs c. queue_list q = cs @ [c] \<and> list_all chunk_wf cs \<and> chunk_wf c \<and> unat (chunk_data_length c) = len \<and>
       off \<le> len \<and> bs = chunk_bytes cs @ take off (chunk_data c))"

lemma chunk_bytes_append [simp]: "chunk_bytes (xs @ ys) = chunk_bytes xs @ chunk_bytes ys"
  "chunk_bytes [c] = chunk_data c" "chunk_bytes [] = []" "chunk_bytes (c # cs) = chunk_data c @ chunk_bytes cs"
  by (simp_all add: chunk_bytes_def)

lemma assembled_init: "assembled wslay_queue_init []"
  by (simp add: assembled_def)

lemma assembling_complete: "assembling q len len bs \<Longrightarrow> assembled q bs"
  by (auto simp: assembling_def assembled_def chunk_wf_def)

lemma assembling_bound: "assembling q len off bs \<Longrightarrow> off \<le> len"
  by (auto simp: assembling_def)

text \<open>A frame of \<open>len > 0\<close> bytes begins.\<close>

lemma append_chunk:
  assumes "im_chunks m = Live q" "assembled q bs" "len \<noteq> 0"
    and "wslay_event_imsg_append_chunk mem m len = res"
  shows "\<exists>mem'. mem_ok mem' = mem_ok mem \<and>
    ((\<exists>q'. res = Inr (0, m\<lparr>im_chunks := Live q', im_msg_length := im_msg_length m + len\<rparr>, mem') \<and> assembling q' (unat len) 0 bs) \<or>
     (\<exists>r. res = Inr (r, m, mem') \<and> r \<noteq> 0 \<and> (\<exists>n. \<not> mem_ok mem n)))"
proof -
  let ?c = "\<lparr>chunk_data = replicate (unat len) 0, chunk_data_length = len\<rparr>"
  have inv: "queue_inv q" "list_all chunk_wf (queue_list q)" "chunk_bytes (queue_list q) = bs"
    using assms(2) by (auto simp: assembled_def)
  obtain r q' where p: "wslay_queue_push True q ?c = (r, q')" by fastforce
  have q': "r = 0" "queue_inv q'" "queue_list q' = queue_list q @ [?c]"
    using p queue_push_ok(1) [of q ?c] queue_inv_push [OF inv(1), of True ?c] queue_list_push [OF inv(1), of ?c] by simp_all
  then have "assembling q' (unat len) 0 bs"
    using inv unfolding assembling_def by (intro conjI exI [of _ "queue_list q"] exI [of _ ?c]) (auto simp: chunk_wf_def)
  moreover have "m\<lparr>im_chunks := Live q\<rparr> = m" using assms(1) by simp
  ultimately show ?thesis
    using assms(1,3,4) p q'(1)
    by (cases "mem_ok mem (mem_calls mem)"; cases "mem_ok mem (Suc (mem_calls mem))"; cases "mem_ok mem (Suc (Suc (mem_calls mem)))")
      (auto simp: wslay_event_imsg_append_chunk_def mem_alloc_def intro!: exI [of _ "mem\<lparr>mem_calls := _\<rparr>"])
qed

text \<open>Bytes of the frame arrive: they fit, and the message grows by them.\<close>

lemma store_chunk:
  assumes "im_chunks m = Live q" "assembling q len (unat off) bs" "unat off + length ds \<le> len"
  shows "\<exists>q'. store_chunk off ds m = Inr (m\<lparr>im_chunks := Live q'\<rparr>) \<and> assembling q' len (unat off + length ds) (bs @ ds)"
proof -
  obtain cs c where q: "queue_inv q" "queue_list q = cs @ [c]" "list_all chunk_wf cs" "chunk_wf c"
      "unat (chunk_data_length c) = len" "bs = chunk_bytes cs @ take (unat off) (chunk_data c)"
    using assms(2) by (auto simp: assembling_def)
  define f :: "wslay_event_byte_chunk \<Rightarrow> wslay_event_byte_chunk" where "f = chunk_data_update (\<lambda>d. write_at d (unat off) ds)"
  have t: "wslay_queue_tail q = Some c" using queue_tail_list [OF q(1)] q(2) by simp
  have len: "unat off + length ds \<le> length (chunk_data c)" using assms(3) q(4,5) by (simp add: chunk_wf_def)
  have "assembling (queue_tail_write f q) len (unat off + length ds) (bs @ ds)"
    unfolding assembling_def
  proof (intro conjI exI)
    show "queue_list (queue_tail_write f q) = cs @ [f c]" by (rule queue_list_tail_write [OF q(1,2)])
    show "bs @ ds = chunk_bytes cs @ take (unat off + length ds) (chunk_data (f c))"
      using len by (simp add: f_def q(6) write_at_def)
    show "chunk_wf (f c)" using len q(4) by (simp add: f_def chunk_wf_def)
  qed (use q assms(3) in \<open>auto simp: f_def\<close>)
  then show ?thesis using assms(1,3) t q(5) by (auto simp: store_chunk_def f_def)
qed

text \<open>The message is complete: flattening returns its bytes and empties the queue.\<close>

lemma flatten_loop:
  assumes "queue_inv q" "list_all chunk_wf (queue_list q)" "off + length (chunk_bytes (queue_list q)) \<le> length buf"
  shows "\<exists>q'. wslay_event_flatten_loop q buf off =
      Some (Inr (Some (off + length (chunk_bytes (queue_list q))), write_at buf off (chunk_bytes (queue_list q)), q')) \<and>
    queue_inv q' \<and> queue_list q' = []"
  using assms
proof (induction "queue_list q" arbitrary: q buf off)
  case Nil
  then show ?case
    by (subst wslay_event_flatten_loop.simps) (simp add: queue_empty_iff write_at_def)
next
  case (Cons c cs)
  note ql = Cons.hyps(2) [symmetric]
  define q1 where "q1 = snd (wslay_queue_pop q)"
  define buf1 where "buf1 = write_at buf off (chunk_data c)"
  have q1: "queue_inv q1" "queue_list q1 = cs" "wslay_queue_pop q = (0, q1)"
    using queue_pop_Cons [OF Cons.prems(1) ql] by (auto simp: q1_def prod_eq_iff)
  have c: "length (chunk_data c) = unat (chunk_data_length c)" "list_all chunk_wf cs"
      "off + length (chunk_data c) + length (chunk_bytes cs) \<le> length buf"
    using Cons.prems(2,3) by (auto simp: ql chunk_wf_def)
  have "wslay_event_flatten_loop q buf off = wslay_event_flatten_loop q1 buf1 (off + length (chunk_data c))"
    using Cons.prems(1) c q1(3) queue_top_list [OF Cons.prems(1)]
    by (subst wslay_event_flatten_loop.simps) (simp add: queue_empty_iff ql buf1_def)
  moreover have "length buf1 = length buf" using c by (simp add: buf1_def)
  moreover have "write_at buf1 (off + length (chunk_data c)) (chunk_bytes cs) = write_at buf off (chunk_bytes (c # cs))"
    using c(3) by (simp add: buf1_def write_at_def ac_simps)
  ultimately show ?case
    using Cons.hyps(1) [of q1 "off + length (chunk_data c)" buf1] q1 c by (auto simp: ql add.assoc)
qed

lemma flatten_queue:
  assumes "assembled q bs" "unat len = length bs"
  shows "\<exists>mem'. mem_ok mem' = mem_ok mem \<and>
    ((\<exists>q'. wslay_event_flatten_queue mem (Live q) len = Some (Inr (if bs = [] then None else Some bs, Live q', mem')) \<and> assembled q' []) \<or>
     wslay_event_flatten_queue mem (Live q) len = Some (Inr (None, Live q, mem')) \<and> bs \<noteq> [] \<and> (\<exists>n. \<not> mem_ok mem n))"
proof -
  have q: "queue_inv q" "list_all chunk_wf (queue_list q)" "chunk_bytes (queue_list q) = bs"
    using assms(1) by (auto simp: assembled_def)
  have z: "len = 0 \<longleftrightarrow> bs = []" using assms(2) by (auto simp: unat_eq_0)
  obtain q' where "wslay_event_flatten_loop q (replicate (unat len) 0) 0 = Some (Inr (Some (length bs), bs, q'))"
      "queue_inv q'" "queue_list q' = []"
    using flatten_loop [OF q(1,2), of 0 "replicate (unat len) 0"] q(3) assms(2) by (auto simp: write_at_def)
  then show ?thesis
    using assms z by (auto simp: wslay_event_flatten_queue_def mem_alloc_def assembled_def)
qed

end
