(* ===== verification/Wslay_Rfc6455.thy ===== *)
theory Wslay_Rfc6455
  imports Wslay_Frame
begin

text \<open>
  The reference for the frame layer: the base framing of RFC 6455, section 5.2, written with
  arithmetic on the fields of a frame, and the bit-level facts that relate it to the shifts and
  masks of \<open>frame.c\<close>.
\<close>

record ws_frame =
  fr_fin :: bool
  fr_rsv :: nat
  fr_opcode :: nat
  fr_key :: "byte list option"
  fr_payload :: "byte list"

definition be_bytes :: "nat \<Rightarrow> nat \<Rightarrow> byte list" where
  "be_bytes k n = map (\<lambda>i. of_nat (n div 256 ^ (k - 1 - i))) [0..<k]"

definition rfc_length_code :: "nat \<Rightarrow> nat" where
  "rfc_length_code n = (if n < 126 then n else if n < 65536 then 126 else 127)"

definition rfc_ext_length :: "nat \<Rightarrow> byte list" where
  "rfc_ext_length n = (if n < 126 then [] else if n < 65536 then be_bytes 2 n else be_bytes 8 n)"

definition rfc_mask :: "byte list \<Rightarrow> byte list \<Rightarrow> byte list" where
  "rfc_mask key ds = map (\<lambda>i. (ds ! i) XOR (key ! (i mod 4))) [0..<length ds]"

definition rfc_byte0 :: "ws_frame \<Rightarrow> byte" where
  "rfc_byte0 f = of_nat ((if fr_fin f then 128 else 0) + 16 * fr_rsv f + fr_opcode f)"

definition rfc_byte1 :: "ws_frame \<Rightarrow> byte" where
  "rfc_byte1 f = of_nat ((if fr_key f \<noteq> None then 128 else 0) + rfc_length_code (length (fr_payload f)))"

definition rfc_key :: "ws_frame \<Rightarrow> byte list" where
  "rfc_key f = (case fr_key f of None \<Rightarrow> [] | Some key \<Rightarrow> key)"

definition rfc_body :: "ws_frame \<Rightarrow> byte list" where
  "rfc_body f = (case fr_key f of None \<Rightarrow> fr_payload f | Some key \<Rightarrow> rfc_mask key (fr_payload f))"

definition rfc_header :: "ws_frame \<Rightarrow> byte list" where
  "rfc_header f = rfc_byte0 f # rfc_byte1 f # rfc_ext_length (length (fr_payload f)) @ rfc_key f"

definition rfc_frame :: "ws_frame \<Rightarrow> byte list" where
  "rfc_frame f = rfc_header f @ rfc_body f"

definition rfc_valid :: "ws_frame \<Rightarrow> bool" where
  "rfc_valid f \<longleftrightarrow>
     fr_rsv f < 8 \<and> fr_opcode f < 16 \<and> pred_option (\<lambda>key. length key = 4) (fr_key f) \<and>
     length (fr_payload f) < 2 ^ 63 \<and>
     (8 \<le> fr_opcode f \<longrightarrow> fr_fin f \<and> length (fr_payload f) \<le> 125)"

lemma length_rfc_mask [simp]: "length (rfc_mask key ds) = length ds"
  by (simp add: rfc_mask_def)

lemma length_rfc_body [simp]: "length (rfc_body f) = length (fr_payload f)"
  by (simp add: rfc_body_def split: option.split)

lemma rfc_mask_nth [simp]: "i < length ds \<Longrightarrow> rfc_mask key ds ! i = (ds ! i) XOR (key ! (i mod 4))"
  by (simp add: rfc_mask_def)

lemma rfc_mask_involution: "rfc_mask key (rfc_mask key ds) = ds"
  by (rule nth_equalityI) (simp_all add: xor.assoc)

section \<open>Bytes\<close>

lemma uint64_mod4: "unat ((of_nat k + of_nat i :: uint64) mod 4) = (k + i) mod 4"
proof -
  have "unat ((of_nat (k + i) :: uint64) mod 4) = (k + i) mod 2 ^ 64 mod 4"
    by (simp only: unat_mod unat_of_nat) simp
  also have "\<dots> = (k + i) mod 4"
    by (rule mod_mod_cancel) simp
  finally show ?thesis by simp
qed

lemma ucast_drop_of_nat: "ucast (drop_bit k (of_nat n :: 'a::len word)) = (of_nat (n div 2 ^ k) :: byte)"
  if "k + 8 \<le> LENGTH('a)"
  using that by (auto intro!: bit_word_eqI simp: bit_simps simp flip: drop_bit_eq_div)

lemma be_bytes_2: "be_bytes 2 n = htons_bytes (of_nat n)"
  using ucast_drop_of_nat [of 8 n, where 'a = 16] ucast_drop_of_nat [of 0 n, where 'a = 16]
  by (simp add: be_bytes_def htons_bytes_def upt_rec [of 0] upt_rec [of "Suc 0"])

lemma be_bytes_8: "be_bytes 8 n = htobe64_bytes (of_nat n)"
proof -
  have "[0..<8] = [0, 1, 2, 3, 4, 5, 6, 7 :: nat]" by (simp add: upt_rec)
  then show ?thesis
    using ucast_drop_of_nat [of 56 n, where 'a = 64] ucast_drop_of_nat [of 48 n, where 'a = 64]
      ucast_drop_of_nat [of 40 n, where 'a = 64] ucast_drop_of_nat [of 32 n, where 'a = 64]
      ucast_drop_of_nat [of 24 n, where 'a = 64] ucast_drop_of_nat [of 16 n, where 'a = 64]
      ucast_drop_of_nat [of 8 n, where 'a = 64] ucast_drop_of_nat [of 0 n, where 'a = 64]
    by (simp add: be_bytes_def htobe64_bytes_def)
qed

lemma length_be_bytes [simp]: "length (be_bytes k n) = k"
  by (simp add: be_bytes_def)

lemma and_low_mod: "x AND 1 = x mod 2" "x AND 7 = x mod 8" "x AND 0xf = x mod 16" "x AND 0x7f = x mod 128"
  for x :: byte
  using take_bit_eq_mask [of 1 x] take_bit_eq_mask [of 3 x] take_bit_eq_mask [of 4 x] take_bit_eq_mask [of 7 x]
  by (simp_all add: mask_eq_exp_minus_1 take_bit_eq_mod)

lemma unat_and_low:
  "unat (x AND 1) = unat x mod 2" "unat (x AND 7) = unat x mod 8" "unat (x AND 0xf) = unat x mod 16"
  "unat (x AND 0x7f) = unat x mod 128" for x :: byte
  unfolding and_low_mod by (simp_all add: unat_mod)

lemma unat_drop: "unat (drop_bit k (x :: byte)) = unat x div 2 ^ k"
  by (simp only: unsigned_drop_bit_eq) (simp add: drop_bit_eq_div take_bit_nat_eq_self)

lemma byte0_digits:
  assumes "r < 8" "n < (16 :: nat)"
  shows "(128 + 16 * r + n) div 16 mod 8 = r" "(128 + 16 * r + n) mod 16 = n"
proof -
  have eq: "128 + 16 * r + n = 16 * (8 + r) + n" by simp
  show "(128 + 16 * r + n) mod 16 = n" unfolding eq mod_mult_self4 using assms by simp
  have "(16 * (8 + r) + n) div 16 = 8 + r" using assms by simp
  then show "(128 + 16 * r + n) div 16 mod 8 = r" unfolding eq using assms by simp
qed

lemma unat_byte0: "rfc_valid f \<Longrightarrow> unat (rfc_byte0 f) = (if fr_fin f then 128 else 0) + 16 * fr_rsv f + fr_opcode f"
  unfolding rfc_byte0_def rfc_valid_def by (subst unat_of_nat) auto

lemma unat_byte1:
  "unat (rfc_byte1 f) = (if fr_key f \<noteq> None then 128 else 0) + rfc_length_code (length (fr_payload f))"
  unfolding rfc_byte1_def rfc_length_code_def by (subst unat_of_nat) auto

text \<open>What the receiver extracts from the first two bytes.\<close>

lemma byte0_fields:
  assumes "rfc_valid f"
  shows "drop_bit 7 (rfc_byte0 f) AND 1 = of_bool (fr_fin f)"
    and "drop_bit 4 (rfc_byte0 f) AND 7 = of_nat (fr_rsv f)"
    and "rfc_byte0 f AND 0xf = of_nat (fr_opcode f)"
  using assms
  by (auto simp: word_unat_eq_iff unat_and_low unat_drop unat_byte0 unat_of_nat rfc_valid_def byte0_digits)

lemma byte1_fields:
  shows "drop_bit 7 (rfc_byte1 f) AND 1 = of_bool (fr_key f \<noteq> None)"
    and "rfc_byte1 f AND 0x7f = of_nat (rfc_length_code (length (fr_payload f)))"
  by (auto simp: word_unat_eq_iff unat_and_low unat_drop unat_byte1 unat_of_nat rfc_length_code_def)

lemma ctrl_opcode: "n < 16 \<Longrightarrow> wslay_is_ctrl_frame (of_nat n) = (8 \<le> n)"
proof -
  assume "n < 16"
  then have "n div 8 mod 2 = (if 8 \<le> n then 1 else 0)" by auto
  with \<open>n < 16\<close> show ?thesis
    by (simp add: wslay_is_ctrl_frame_def word_unat_eq_iff unat_and_low unat_drop unat_of_nat)
qed

section \<open>The length field as a number\<close>

definition be_value :: "byte list \<Rightarrow> nat" where
  "be_value bs = foldl (\<lambda>acc b. acc * 256 + unat b) 0 bs"

lemma be_step:
  fixes acc :: uint64
  assumes "unat acc < 2 ^ 56"
  shows "unat (push_bit 8 acc OR ucast (b :: byte)) = unat acc * 256 + unat b"
proof -
  have "push_bit 8 acc OR ucast b = push_bit 8 acc + (ucast b :: uint64)"
    by (rule disjunctive_add [symmetric]) (auto simp: bit_simps dest: bit_imp_le_length)
  moreover have "unat (push_bit 8 acc) = unat acc * 256"
    unfolding unsigned_push_bit_eq using assms by (simp add: take_bit_nat_eq_self push_bit_eq_mult)
  moreover have "unat acc * 256 + unat b < 2 ^ 64"
  proof -
    have "unat acc < 72057594037927936" using assms by simp
    moreover have "unat b < 256" by simp
    ultimately have "unat acc * 256 + unat b < 18446744073709551616" by linarith
    then show ?thesis by simp
  qed
  ultimately show ?thesis by (simp add: unat_word_ariths)
qed

lemma be_fold:
  fixes bs :: "byte list"
  assumes "unat acc < 256 ^ k" "k + length bs \<le> 8"
  shows "unat (foldl (\<lambda>acc b. push_bit 8 acc OR ucast b) (acc :: uint64) bs)
    = foldl (\<lambda>acc b. acc * 256 + unat b) (unat acc) bs"
  using assms
proof (induction bs arbitrary: acc k)
  case (Cons b bs)
  have le: "(256 :: nat) ^ k \<le> 256 ^ 7" using Cons.prems(2) by (intro power_increasing) auto
  have step: "unat (push_bit 8 acc OR ucast b) = unat acc * 256 + unat b"
    by (rule be_step) (use le Cons.prems(1) in simp)
  have "unat acc * 256 + unat b < (unat acc + 1) * 256" using unat_byte_less [of b] by simp
  also have "\<dots> \<le> 256 ^ k * 256" using Cons.prems(1) by (intro mult_le_mono1) simp
  finally have "unat acc * 256 + unat b < 256 ^ Suc k" by simp
  then show ?case using Cons.IH [of "push_bit 8 acc OR ucast b" "Suc k"] Cons.prems(2) step by simp
qed simp

lemma be64toh_value: "length bs \<le> 8 \<Longrightarrow> unat (be64toh_bytes bs) = be_value bs"
  using be_fold [of 0 0 bs] by (simp add: be64toh_bytes_def be_value_def)

lemma top_bit: "len AND 2 ^ 63 \<noteq> 0 \<longleftrightarrow> 2 ^ 63 \<le> unat len" for len :: uint64
proof -
  have "unat len < 2 ^ 64" using unsigned_less [of len] by simp
  then have "unat len div 2 ^ 63 < 2" by simp
  have "bit len 63 \<longleftrightarrow> odd (unat len div 2 ^ 63)" unfolding bit_iff_odd [symmetric] by (simp add: bit_unsigned_iff)
  also have "odd (unat len div 2 ^ 63) \<longleftrightarrow> unat len div 2 ^ 63 = 1"
    using \<open>unat len div 2 ^ 63 < 2\<close> by (auto simp: less_2_cases_iff)
  also have "\<dots> \<longleftrightarrow> 2 ^ 63 \<le> unat len"
    using \<open>unat len div 2 ^ 63 < 2\<close> by (auto simp: less_2_cases_iff div_eq_0_iff not_less)
  finally show ?thesis by (simp only: and_exp_eq_0_iff_not_bit not_not)
qed

section \<open>Header bytes as numbers\<close>

lemma byte_ge: "drop_bit 7 b AND 1 = 0 \<longleftrightarrow> unat b < 128" for b :: byte
proof -
  have "unat b < 256" by simp
  then have "unat b div 128 < 2" by (simp only: less_mult_imp_div_less)
  then show ?thesis by (simp add: word_unat_eq_iff unat_and_low unat_drop div_eq_0_iff)
qed

lemma ctrl_low: "wslay_is_ctrl_frame op = wslay_is_ctrl_frame (op AND 0xf)"
  by (simp add: wslay_is_ctrl_frame_bit bit_simps)

lemma ctrl_byte: "wslay_is_ctrl_frame (b AND 0xf) \<longleftrightarrow> 8 \<le> unat b mod 16" for b :: byte
proof -
  have "b AND 0xf = of_nat (unat b mod 16)"
    by (simp add: word_unat_eq_iff unat_and_low unat_of_nat del: of_nat_mod)
  then show ?thesis using ctrl_opcode [of "unat b mod 16"] by simp
qed

end
