(* ===== verification/Wslay_Frame_Recv.thy ===== *)
theory Wslay_Frame_Recv
  imports Wslay_Rfc6455
begin

text \<open>
  Correctness of \<open>wslay_frame_recv\<close>. The application's receive callback is known through the
  contract \<open>byte_source\<close>, what \<open>wslay.h\<close> documents: it stores at most \<open>len\<close> bytes, the next
  ones of the peer's stream, and returns how many.

  \<open>inbox\<close> is what has arrived or will arrive and is not yet consumed: the live part of \<open>ibuf\<close>
  and the rest of the stream. No operation of the frame layer changes it except by consuming
  bytes from its front, however the stream is cut into reads.
\<close>

section \<open>The buffer\<close>

definition fc_inv :: "wslay_frame_context \<Rightarrow> bool" where
  "fc_inv ctx \<longleftrightarrow>
     length (fc_ibuf ctx) = IBUF_SIZE \<and> fc_ibufmark ctx \<le> fc_ibuflimit ctx \<and> fc_ibuflimit ctx \<le> IBUF_SIZE"

definition window :: "wslay_frame_context \<Rightarrow> byte list" where
  "window ctx = arr_slice (fc_ibuf ctx) (fc_ibufmark ctx) (fc_ibuflimit ctx)"

lemma length_window: "fc_inv ctx \<Longrightarrow> length (window ctx) = WSLAY_AVAIL_IBUF ctx"
  by (simp add: window_def fc_inv_def WSLAY_AVAIL_IBUF_def)

text \<open>Consuming \<open>n\<close> bytes moves \<open>ibufmark\<close>.\<close>

lemma window_advance:
  assumes "fc_inv ctx" "n \<le> WSLAY_AVAIL_IBUF ctx"
    and "fc_ibuf ctx' = fc_ibuf ctx" "fc_ibufmark ctx' = fc_ibufmark ctx + n" "fc_ibuflimit ctx' = fc_ibuflimit ctx"
  shows "fc_inv ctx'" "window ctx' = drop n (window ctx)"
  using assms by (auto simp: fc_inv_def window_def WSLAY_AVAIL_IBUF_def drop_slice)

lemma window_field:
  assumes "fc_inv ctx" "n \<le> WSLAY_AVAIL_IBUF ctx"
  shows "arr_slice (fc_ibuf ctx) (fc_ibufmark ctx) (fc_ibufmark ctx + n) = take n (window ctx)"
  using assms unfolding window_def by (subst take_slice) (auto simp: fc_inv_def WSLAY_AVAIL_IBUF_def)

lemma window_nth:
  assumes "fc_inv ctx" "i < WSLAY_AVAIL_IBUF ctx"
  shows "fc_ibuf ctx ! (fc_ibufmark ctx + i) = window ctx ! i"
  using assms by (simp add: fc_inv_def window_def WSLAY_AVAIL_IBUF_def slice_nth)

lemma shift_ibuf:
  assumes "fc_inv ctx"
  shows "fc_inv (wslay_shift_ibuf ctx)" "window (wslay_shift_ibuf ctx) = window ctx"
    "fc_ibufmark (wslay_shift_ibuf ctx) = 0" "fc_ibuflimit (wslay_shift_ibuf ctx) = WSLAY_AVAIL_IBUF ctx"
  using assms slice_write_at_same [of 0 "arr_slice (fc_ibuf ctx) (fc_ibufmark ctx) (fc_ibuflimit ctx)" "fc_ibuf ctx"]
  by (auto simp: fc_inv_def window_def wslay_shift_ibuf_def Let_def WSLAY_AVAIL_IBUF_def)

text \<open>Everything but the buffer is unchanged.\<close>

definition same_frame :: "wslay_frame_context \<Rightarrow> wslay_frame_context \<Rightarrow> bool" where
  "same_frame ctx ctx' \<longleftrightarrow>
     ctx'\<lparr>fc_ibuf := [], fc_ibufmark := 0, fc_ibuflimit := 0\<rparr> = ctx\<lparr>fc_ibuf := [], fc_ibufmark := 0, fc_ibuflimit := 0\<rparr>"

lemma same_frame_refl: "same_frame ctx ctx"
  by (simp add: same_frame_def)

lemma same_frame_shift: "same_frame ctx (wslay_shift_ibuf ctx)"
  by (simp add: same_frame_def wslay_shift_ibuf_def Let_def)

lemma same_frame_simps:
  assumes "same_frame ctx ctx'"
  shows "fc_iom ctx' = fc_iom ctx" "fc_ipayloadlen ctx' = fc_ipayloadlen ctx"
    "fc_ipayloadoff ctx' = fc_ipayloadoff ctx" "fc_imask ctx' = fc_imask ctx"
    "fc_imaskkey ctx' = fc_imaskkey ctx" "fc_istate ctx' = fc_istate ctx" "fc_ireqread ctx' = fc_ireqread ctx"
  using assms by (cases ctx; cases ctx'; simp add: same_frame_def)+

section \<open>Where the receiver is in a frame\<close>

text \<open>\<open>v\<close> is the inbox: each state of the receiver and what must come next for it to be in the
  middle of frame \<open>f\<close>, with \<open>rest\<close> after the frame.\<close>

definition header_read :: "ws_frame \<Rightarrow> wslay_frame_context \<Rightarrow> bool" where
  "header_read f ctx \<longleftrightarrow>
     fc_iom ctx = \<lparr>iom_fin = of_bool (fr_fin f), iom_opcode = of_nat (fr_opcode f), iom_rsv = of_nat (fr_rsv f)\<rparr> \<and>
     fc_imask ctx = of_bool (fr_key f \<noteq> None)"

definition at_header1 :: "ws_frame \<Rightarrow> byte list \<Rightarrow> wslay_frame_context \<Rightarrow> byte list \<Rightarrow> bool" where
  "at_header1 f rest ctx v \<longleftrightarrow>
     fc_istate ctx = RECV_HEADER1 \<and> fc_ireqread ctx = 2 \<and> v = rfc_frame f @ rest"

definition at_ext :: "ws_frame \<Rightarrow> byte list \<Rightarrow> wslay_frame_context \<Rightarrow> byte list \<Rightarrow> bool" where
  "at_ext f rest ctx v \<longleftrightarrow>
     fc_istate ctx = RECV_EXT_PAYLOADLEN \<and> header_read f ctx \<and> 126 \<le> length (fr_payload f) \<and>
     fc_ireqread ctx = length (rfc_ext_length (length (fr_payload f))) \<and>
     v = rfc_ext_length (length (fr_payload f)) @ rfc_key f @ rfc_body f @ rest"

definition at_maskkey :: "ws_frame \<Rightarrow> byte list \<Rightarrow> wslay_frame_context \<Rightarrow> byte list \<Rightarrow> bool" where
  "at_maskkey f rest ctx v \<longleftrightarrow>
     fc_istate ctx = RECV_MASKKEY \<and> header_read f ctx \<and> fr_key f \<noteq> None \<and> fc_ireqread ctx = 4 \<and>
     fc_ipayloadlen ctx = of_nat (length (fr_payload f)) \<and> fc_ipayloadoff ctx = 0 \<and>
     v = rfc_key f @ rfc_body f @ rest"

definition at_payload :: "ws_frame \<Rightarrow> nat \<Rightarrow> byte list \<Rightarrow> wslay_frame_context \<Rightarrow> byte list \<Rightarrow> bool" where
  "at_payload f k rest ctx v \<longleftrightarrow>
     fc_istate ctx = RECV_PAYLOAD \<and> header_read f ctx \<and> (fr_key f \<noteq> None \<longrightarrow> fc_imaskkey ctx = rfc_key f) \<and>
     fc_ipayloadlen ctx = of_nat (length (fr_payload f)) \<and> fc_ipayloadoff ctx = of_nat k \<and>
     k \<le> length (fr_payload f) \<and> v = drop k (rfc_body f) @ rest"

definition recv_sync :: "ws_frame \<Rightarrow> nat \<Rightarrow> byte list \<Rightarrow> wslay_frame_context \<Rightarrow> byte list \<Rightarrow> bool" where
  "recv_sync f k rest ctx v \<longleftrightarrow>
     k = 0 \<and> (at_header1 f rest ctx v \<or> at_ext f rest ctx v \<or> at_maskkey f rest ctx v) \<or> at_payload f k rest ctx v"

text \<open>What is left of the frame after the first and after the second header block.\<close>

definition past_header1 :: "ws_frame \<Rightarrow> nat \<Rightarrow> byte list \<Rightarrow> wslay_frame_context \<Rightarrow> byte list \<Rightarrow> bool" where
  "past_header1 f k rest ctx v \<longleftrightarrow>
     k = 0 \<and> (at_ext f rest ctx v \<or> at_maskkey f rest ctx v) \<or> at_payload f k rest ctx v"

definition past_ext :: "ws_frame \<Rightarrow> nat \<Rightarrow> byte list \<Rightarrow> wslay_frame_context \<Rightarrow> byte list \<Rightarrow> bool" where
  "past_ext f k rest ctx v \<longleftrightarrow> k = 0 \<and> at_maskkey f rest ctx v \<or> at_payload f k rest ctx v"

lemma at_states:
  "at_header1 f rest ctx v \<Longrightarrow> fc_istate ctx = RECV_HEADER1"
  "at_ext f rest ctx v \<Longrightarrow> fc_istate ctx = RECV_EXT_PAYLOADLEN"
  "at_maskkey f rest ctx v \<Longrightarrow> fc_istate ctx = RECV_MASKKEY"
  "at_payload f k rest ctx v \<Longrightarrow> fc_istate ctx = RECV_PAYLOAD"
  by (simp_all add: at_header1_def at_ext_def at_maskkey_def at_payload_def)

lemmas at_defs = at_header1_def at_ext_def at_maskkey_def at_payload_def header_read_def

lemma at_same_frame:
  assumes "same_frame ctx ctx'"
  shows "at_header1 f rest ctx' v = at_header1 f rest ctx v" "at_ext f rest ctx' v = at_ext f rest ctx v"
    "at_maskkey f rest ctx' v = at_maskkey f rest ctx v" "at_payload f k rest ctx' v = at_payload f k rest ctx v"
  by (simp_all add: at_defs same_frame_simps [OF assms])

lemma after_length:
  assumes "header_read f ctx" "fc_ipayloadlen ctx = of_nat (length (fr_payload f))" "fc_ipayloadoff ctx = 0"
    and "v = rfc_key f @ rfc_body f @ rest"
  shows "at_maskkey f rest (wslay_frame_after_length ctx) v \<or> at_payload f 0 rest (wslay_frame_after_length ctx) v"
  using assms by (auto simp: wslay_frame_after_length_def at_defs rfc_key_def)

lemma after_length_window [simp]:
  "fc_inv (wslay_frame_after_length ctx) = fc_inv ctx" "window (wslay_frame_after_length ctx) = window ctx"
  by (simp_all add: wslay_frame_after_length_def fc_inv_def window_def)

lemma parse_header1:
  assumes "fc_inv ctx" "2 \<le> WSLAY_AVAIL_IBUF ctx" "rfc_valid f" "window ctx @ s = rfc_frame f @ rest"
    and "wslay_frame_parse_header1 ctx = (e, ctx')"
  shows "e = None" "fc_inv ctx'"
    "at_ext f rest ctx' (window ctx' @ s) \<or> at_maskkey f rest ctx' (window ctx' @ s) \<or>
     at_payload f 0 rest ctx' (window ctx' @ s)"
proof -
  let ?n = "length (fr_payload f)"
  obtain b0 b1 t where w: "window ctx = b0 # b1 # t"
    using assms(2) length_window [OF assms(1)] by (cases "window ctx" rule: remdups_adj.cases) auto
  then have b: "b0 = rfc_byte0 f" "b1 = rfc_byte1 f" "t @ s = rfc_ext_length ?n @ rfc_key f @ rfc_body f @ rest"
    using assms(4) by (auto simp: rfc_frame_def rfc_header_def)
  have nth: "fc_ibuf ctx ! fc_ibufmark ctx = rfc_byte0 f" "fc_ibuf ctx ! (fc_ibufmark ctx + 1) = rfc_byte1 f"
    using window_nth [OF assms(1), of 0] window_nth [OF assms(1), of 1] assms(2) w b by auto
  define c1 where "c1 = ctx\<lparr>fc_iom := \<lparr>iom_fin = of_bool (fr_fin f), iom_opcode = of_nat (fr_opcode f), iom_rsv = of_nat (fr_rsv f)\<rparr>,
      fc_imask := of_bool (fr_key f \<noteq> None), fc_ibufmark := fc_ibufmark ctx + 2\<rparr>"
  have c1: "fc_inv c1" "window c1 = t" "header_read f c1"
    using window_advance [OF assms(1,2), of c1] w by (auto simp: c1_def header_read_def)
  have ctrl: "\<not> (wslay_is_ctrl_frame (of_nat (fr_opcode f)) \<and>
      (of_nat (rfc_length_code ?n) > (125 :: byte) \<or> of_bool (fr_fin f) = (0 :: byte)))"
    using assms(3) by (auto simp: rfc_valid_def ctrl_opcode rfc_length_code_def word_less_nat_alt unat_of_nat)
  have code: "of_nat (rfc_length_code ?n) = (126 :: byte) \<longleftrightarrow> 126 \<le> ?n \<and> ?n < 65536"
    "of_nat (rfc_length_code ?n) = (127 :: byte) \<longleftrightarrow> 65536 \<le> ?n"
    by (auto simp: rfc_length_code_def word_unat_eq_iff unat_of_nat)
  have eq: "(e, ctx') =
      (None, if 126 \<le> ?n \<and> ?n < 65536 then c1\<lparr>fc_istate := RECV_EXT_PAYLOADLEN, fc_ireqread := 2\<rparr>
             else if 65536 \<le> ?n then c1\<lparr>fc_istate := RECV_EXT_PAYLOADLEN, fc_ireqread := 8\<rparr>
             else wslay_frame_after_length (c1\<lparr>fc_ipayloadlen := ucast (of_nat (rfc_length_code ?n) :: byte), fc_ipayloadoff := 0\<rparr>))"
    using assms(5) ctrl code
    unfolding wslay_frame_parse_header1_def Let_def nth byte0_fields [OF assms(3)] byte1_fields c1_def [symmetric]
    by (auto split: if_splits)
  show "e = None" using eq by simp
  show "fc_inv ctx'" using eq c1 by (auto simp: fc_inv_def wslay_frame_after_length_def split: if_splits)
  show "at_ext f rest ctx' (window ctx' @ s) \<or> at_maskkey f rest ctx' (window ctx' @ s) \<or>
     at_payload f 0 rest ctx' (window ctx' @ s)"
  proof (cases "126 \<le> ?n")
    case True
    then show ?thesis using eq c1 b by (auto simp: at_ext_def header_read_def window_def rfc_ext_length_def)
  next
    case False
    then have "ucast (of_nat (rfc_length_code ?n) :: byte) = (of_nat ?n :: uint64)"
      by (auto simp: rfc_length_code_def word_unat_eq_iff unat_of_nat)
    moreover define c2 where "c2 = c1\<lparr>fc_ipayloadlen := of_nat ?n, fc_ipayloadoff := 0\<rparr>"
    ultimately have "ctx' = wslay_frame_after_length c2" using eq False by simp
    moreover have "header_read f c2" "window c2 = t"
      using c1 by (simp_all add: c2_def header_read_def window_def)
    moreover have "t @ s = rfc_key f @ rfc_body f @ rest" using b False by (simp add: rfc_ext_length_def)
    ultimately show ?thesis using after_length [of f c2 "t @ s" rest] by (simp add: c2_def)
  qed
qed

lemma ext_length_value:
  assumes "126 \<le> n" "n < 2 ^ 63"
  shows "be64toh_bytes (replicate (8 - length (rfc_ext_length n)) 0 @ rfc_ext_length n) = of_nat n"
proof (cases "n < 65536")
  case True
  then have "ucast (of_nat n :: uint16) = (of_nat n :: uint64)"
    by (simp add: word_unat_eq_iff unat_ucast_widen unat_of_nat)
  with True assms show ?thesis
    using be64toh_htons [of 6 "of_nat n"] by (simp add: rfc_ext_length_def be_bytes_2)
next
  case False
  with assms show ?thesis by (simp add: rfc_ext_length_def be_bytes_8 be64toh_htobe64)
qed

lemma of_nat_top_bit: "n < 2 ^ 63 \<Longrightarrow> of_nat n AND (2 ^ 63 :: uint64) = 0"
  unfolding and_exp_eq_0_iff_not_bit by (simp add: bit_of_nat_iff bit_iff_odd [of n])

lemma parse_ext:
  assumes "fc_inv ctx" "fc_ireqread ctx \<le> WSLAY_AVAIL_IBUF ctx" "rfc_valid f" "at_ext f rest ctx (window ctx @ s)"
    and "wslay_frame_parse_ext ctx = (e, ctx')"
  shows "e = None" "fc_inv ctx'"
    "at_maskkey f rest ctx' (window ctx' @ s) \<or> at_payload f 0 rest ctx' (window ctx' @ s)"
proof -
  let ?n = "length (fr_payload f)" and ?x = "rfc_ext_length (length (fr_payload f))"
  have n: "126 \<le> ?n" "?n < 2 ^ 63" "fc_ireqread ctx = length ?x" "window ctx @ s = ?x @ rfc_key f @ rfc_body f @ rest"
    using assms(3,4) by (auto simp: at_ext_def rfc_valid_def)
  have x: "take (length ?x) (window ctx) = ?x" "drop (length ?x) (window ctx) @ s = rfc_key f @ rfc_body f @ rest"
    using append_prefix_split [OF n(4)] assms(2) length_window [OF assms(1)] unfolding n(3) by simp_all
  define c1 where "c1 = ctx\<lparr>fc_ipayloadlen := of_nat ?n, fc_ipayloadoff := 0, fc_ibufmark := fc_ibufmark ctx + length ?x\<rparr>"
  have c1: "fc_inv c1" "window c1 = drop (length ?x) (window ctx)" "header_read f c1"
    using window_advance [OF assms(1,2), of c1] n assms(4) by (auto simp: c1_def header_read_def at_ext_def)
  have len: "be64toh_bytes (replicate (8 - fc_ireqread ctx) 0 @
      arr_slice (fc_ibuf ctx) (fc_ibufmark ctx) (fc_ibufmark ctx + fc_ireqread ctx)) = of_nat ?n"
    unfolding window_field [OF assms(1,2)] unfolding n(3) x(1) by (rule ext_length_value [OF n(1,2)])
  have ok: "\<not> (fc_ireqread ctx = 8 \<and> (of_nat ?n < (2 ^ 16 :: uint64) \<or> of_nat ?n AND (2 ^ 63 :: uint64) \<noteq> 0))"
      "\<not> (fc_ireqread ctx \<noteq> 8 \<and> of_nat ?n < (126 :: uint64))"
    using n of_nat_top_bit [OF n(2)]
    by (auto simp: rfc_ext_length_def word_less_nat_alt unat_of_nat split: if_splits)
  have eq: "e = None" "ctx' = wslay_frame_after_length c1"
    using assms(5) ok n(3) unfolding wslay_frame_parse_ext_def Let_def len c1_def by (auto split: if_splits)
  then show "e = None" "fc_inv ctx'"
    "at_maskkey f rest ctx' (window ctx' @ s) \<or> at_payload f 0 rest ctx' (window ctx' @ s)"
    using c1 x(2) after_length [of f c1 "window c1 @ s" rest] by (simp_all add: c1_def)
qed

lemma parse_maskkey:
  assumes "fc_inv ctx" "fc_ireqread ctx \<le> WSLAY_AVAIL_IBUF ctx" "rfc_valid f" "at_maskkey f rest ctx (window ctx @ s)"
    and "wslay_frame_parse_maskkey ctx = (e, ctx')"
  shows "e = None" "fc_inv ctx'" "at_payload f 0 rest ctx' (window ctx' @ s)"
proof -
  have a: "4 \<le> WSLAY_AVAIL_IBUF ctx" "length (rfc_key f) = 4" "window ctx @ s = rfc_key f @ rfc_body f @ rest"
    using assms(2-4) by (auto simp: at_maskkey_def rfc_key_def rfc_valid_def)
  then have x: "take 4 (window ctx) = rfc_key f" "drop 4 (window ctx) @ s = rfc_body f @ rest"
    using append_prefix_split [OF a(3)] length_window [OF assms(1)] by simp_all
  have eq: "e = None" "ctx' = ctx\<lparr>fc_imaskkey := rfc_key f, fc_ibufmark := fc_ibufmark ctx + 4, fc_istate := RECV_PAYLOAD\<rparr>"
    using assms(5) unfolding wslay_frame_parse_maskkey_def window_field [OF assms(1) a(1)] x by simp_all
  then show "e = None" "fc_inv ctx'" "at_payload f 0 rest ctx' (window ctx' @ s)"
    using window_advance [OF assms(1) a(1), of ctx'] x assms(4) by (auto simp: at_defs)
qed

section \<open>Unmasking\<close>

lemma unmask_spec:
  "wslay_frame_unmask n ctx =
     ctx\<lparr>fc_ibuf := fc_ibuf (wslay_frame_unmask n ctx), fc_ibufmark := fc_ibufmark ctx + n,
         fc_ipayloadoff := fc_ipayloadoff ctx + of_nat n\<rparr>"
  "length (fc_ibuf (wslay_frame_unmask n ctx)) = length (fc_ibuf ctx)"
proof (induction n arbitrary: ctx)
  case (Suc n)
  {
    case 1
    show ?case by (subst wslay_frame_unmask.simps, subst Suc(1)) (simp add: add.assoc)
  next
    case 2
    show ?case by (simp add: Suc(2))
  }
qed simp_all

lemma unmask_nth:
  "j < length (fc_ibuf ctx) \<Longrightarrow>
   fc_ibuf (wslay_frame_unmask n ctx) ! j =
     (if fc_ibufmark ctx \<le> j \<and> j < fc_ibufmark ctx + n
      then (fc_ibuf ctx ! j) XOR (fc_imaskkey ctx ! unat ((fc_ipayloadoff ctx + of_nat (j - fc_ibufmark ctx)) mod 4))
      else fc_ibuf ctx ! j)"
proof (induction n arbitrary: ctx j)
  case (Suc n)
  show ?case
  proof (cases "fc_ibufmark ctx = j")
    case True
    with Suc.prems show ?thesis by (simp add: Suc.IH)
  next
    case False
    then consider "j < fc_ibufmark ctx" | d where "j = Suc (fc_ibufmark ctx + d)"
      by (metis less_iff_Suc_add linorder_neqE_nat)
    then show ?thesis
      using Suc.prems by cases (auto simp: Suc.IH add.assoc)
  qed
qed auto

text \<open>Consuming \<open>n\<close> payload bytes, masked or not.\<close>

lemma payload_advance:
  assumes "fc_inv ctx" "n \<le> WSLAY_AVAIL_IBUF ctx"
    and "c1 = (if fc_imask ctx \<noteq> 0 then wslay_frame_unmask n ctx
               else ctx\<lparr>fc_ibufmark := fc_ibufmark ctx + n, fc_ipayloadoff := fc_ipayloadoff ctx + of_nat n\<rparr>)"
  shows "fc_ibufmark c1 = fc_ibufmark ctx + n" "length (fc_ibuf c1) = IBUF_SIZE"
      "fc_istate c1 = fc_istate ctx" "fc_iom c1 = fc_iom ctx" "fc_imask c1 = fc_imask ctx"
      "fc_imaskkey c1 = fc_imaskkey ctx" "fc_ipayloadlen c1 = fc_ipayloadlen ctx"
      "fc_ipayloadoff c1 = fc_ipayloadoff ctx + of_nat n"
    and "fc_inv c1" "window c1 = drop n (window ctx)"
proof -
  let ?m = "fc_ibufmark ctx"
  have inv: "length (fc_ibuf ctx) = IBUF_SIZE" "?m + n \<le> fc_ibuflimit ctx" "fc_ibuflimit ctx \<le> IBUF_SIZE"
    using assms(1,2) by (auto simp: fc_inv_def WSLAY_AVAIL_IBUF_def)
  obtain b where "wslay_frame_unmask n ctx =
      ctx\<lparr>fc_ibuf := b, fc_ibufmark := ?m + n, fc_ipayloadoff := fc_ipayloadoff ctx + of_nat n\<rparr>"
    using unmask_spec(1) by blast
  moreover from this have "length b = IBUF_SIZE" using unmask_spec(2) [of n ctx] inv by simp
  ultimately have sel: "fc_ibufmark c1 = ?m + n" "length (fc_ibuf c1) = IBUF_SIZE"
      "fc_istate c1 = fc_istate ctx" "fc_iom c1 = fc_iom ctx" "fc_imask c1 = fc_imask ctx"
      "fc_imaskkey c1 = fc_imaskkey ctx" "fc_ipayloadlen c1 = fc_ipayloadlen ctx"
      "fc_ipayloadoff c1 = fc_ipayloadoff ctx + of_nat n" "fc_ibuflimit c1 = fc_ibuflimit ctx"
    using inv assms(3) by auto
  then show "fc_ibufmark c1 = ?m + n" "length (fc_ibuf c1) = IBUF_SIZE"
      "fc_istate c1 = fc_istate ctx" "fc_iom c1 = fc_iom ctx" "fc_imask c1 = fc_imask ctx"
      "fc_imaskkey c1 = fc_imaskkey ctx" "fc_ipayloadlen c1 = fc_ipayloadlen ctx"
      "fc_ipayloadoff c1 = fc_ipayloadoff ctx + of_nat n" by blast+
  show "fc_inv c1" using sel inv by (auto simp: fc_inv_def)
  show "window c1 = drop n (window ctx)"
  proof (rule nth_equalityI)
    show "length (window c1) = length (drop n (window ctx))"
      using inv sel by (simp add: window_def)
  next
    fix i assume "i < length (window c1)"
    then show "window c1 ! i = drop n (window ctx) ! i"
      using inv sel assms(3) by (auto simp: window_def slice_nth unmask_nth add.assoc split: if_splits)
  qed
qed

text \<open>The \<open>n\<close> bytes delivered are the plain payload bytes from offset \<open>k\<close>.\<close>

lemma payload_bytes:
  assumes "fc_inv ctx" "at_payload f k rest ctx (window ctx @ s)"
    and "n \<le> WSLAY_AVAIL_IBUF ctx" "k + n \<le> length (fr_payload f)"
    and "c1 = (if fc_imask ctx \<noteq> 0 then wslay_frame_unmask n ctx
               else ctx\<lparr>fc_ibufmark := fc_ibufmark ctx + n, fc_ipayloadoff := fc_ipayloadoff ctx + of_nat n\<rparr>)"
  shows "at_payload f (k + n) rest c1 (window c1 @ s)"
    "arr_slice (fc_ibuf c1) (fc_ibufmark ctx) (fc_ibufmark ctx + n) = take n (drop k (fr_payload f))"
proof -
  let ?m = "fc_ibufmark ctx"
  note sel = payload_advance [OF assms(1,3,5)]
  have inv: "length (fc_ibuf ctx) = IBUF_SIZE" "?m + n \<le> fc_ibuflimit ctx" "fc_ibuflimit ctx \<le> IBUF_SIZE"
    using assms(1,3) by (auto simp: fc_inv_def WSLAY_AVAIL_IBUF_def)
  have v: "window ctx @ s = drop k (rfc_body f) @ rest" and off: "fc_ipayloadoff ctx = of_nat k"
    using assms(2) by (auto simp: at_payload_def)
  have len: "n \<le> length (window ctx)" using assms(1,3) by (simp add: length_window)
  have "drop n (window ctx) @ s = drop (k + n) (rfc_body f) @ rest"
    using arg_cong [OF v, of "drop n"] len assms(4) by (simp add: add.commute)
  then show "at_payload f (k + n) rest c1 (window c1 @ s)"
    using assms(2,4) sel by (simp add: at_payload_def header_read_def)
  have raw: "fc_ibuf ctx ! (?m + i) = rfc_body f ! (k + i)" if "i < n" for i
  proof -
    have "i < length (fr_payload f) - k" using that assms(4) by linarith
    then show ?thesis
      using that window_nth [OF assms(1), of i] assms(3,4) arg_cong [OF v, of "\<lambda>xs. xs ! i"] len
      by (simp add: nth_append)
  qed
  show "arr_slice (fc_ibuf c1) ?m (?m + n) = take n (drop k (fr_payload f))"
  proof (rule nth_equalityI)
    fix i assume "i < length (arr_slice (fc_ibuf c1) ?m (?m + n))"
    then have i: "i < n" using inv sel by simp
    have "fc_ibuf c1 ! (?m + i) = fr_payload f ! (k + i)"
    proof (cases "fr_key f")
      case None
      then show ?thesis using raw [OF i] assms(2,5) by (simp add: at_payload_def header_read_def rfc_body_def)
    next
      case (Some key)
      then have "fc_imask ctx \<noteq> 0" "fc_imaskkey ctx = key"
        using assms(2) by (auto simp: at_payload_def header_read_def rfc_key_def)
      then show ?thesis
        using Some i inv assms(4,5) off raw [OF i]
        by (simp add: unmask_nth rfc_body_def uint64_mod4 xor.assoc)
    qed
    then show "arr_slice (fc_ibuf c1) ?m (?m + n) ! i = take n (drop k (fr_payload f)) ! i"
      using i inv sel assms(4) by (simp add: slice_nth)
  qed (use inv sel assms(4) in simp)
qed

section \<open>Delivering payload\<close>

definition frame_boundary :: "wslay_frame_context \<Rightarrow> bool" where
  "frame_boundary ctx \<longleftrightarrow> fc_istate ctx = RECV_HEADER1 \<and> fc_ireqread ctx = 2"

text \<open>A successful call delivered the \<open>n\<close> payload bytes from offset \<open>k\<close> of frame \<open>f\<close>, with the
  frame's header fields, and stands after them (at the next frame if they were the last).\<close>

definition recv_delivers ::
    "ws_frame \<Rightarrow> nat \<Rightarrow> byte list \<Rightarrow> nat \<Rightarrow> wslay_frame_iocb \<Rightarrow> wslay_frame_context \<Rightarrow> byte list \<Rightarrow> bool" where
  "recv_delivers f k rest n io ctx v \<longleftrightarrow>
     io = \<lparr>iocb_fin = of_bool (fr_fin f), iocb_rsv = of_nat (fr_rsv f), iocb_opcode = of_nat (fr_opcode f),
           iocb_payload_length = of_nat (length (fr_payload f)), iocb_mask = (fr_key f \<noteq> None),
           iocb_data = take n (drop k (fr_payload f)), iocb_data_length = of_nat n\<rparr> \<and>
     k + n \<le> length (fr_payload f) \<and> (k < length (fr_payload f) \<longrightarrow> 0 < n) \<and>
     (if k + n = length (fr_payload f) then frame_boundary ctx \<and> v = rest else recv_sync f (k + n) rest ctx v)"

lemma take_payload:
  assumes "fc_inv ctx" "rfc_valid f" "at_payload f k rest ctx (window ctx @ s)"
    and "0 < WSLAY_AVAIL_IBUF ctx \<or> k = length (fr_payload f)"
    and "wslay_frame_take_payload ctx = (io, ctx')"
  shows "fc_inv ctx'" "\<exists>n. recv_delivers f k rest n io ctx' (window ctx' @ s)"
proof -
  let ?L = "length (fr_payload f)" and ?m = "fc_ibufmark ctx"
  define n where "n = min (WSLAY_AVAIL_IBUF ctx) (?L - k)"
  have k: "k \<le> ?L" "?L < 2 ^ 63" "fc_ipayloadlen ctx = of_nat ?L" "fc_ipayloadoff ctx = of_nat k"
    using assms(2,3) by (auto simp: at_payload_def rfc_valid_def)
  have av: "WSLAY_AVAIL_IBUF ctx \<le> IBUF_SIZE" "fc_ibuflimit ctx = ?m + WSLAY_AVAIL_IBUF ctx"
    using assms(1) by (auto simp: fc_inv_def WSLAY_AVAIL_IBUF_def)
  have rem: "fc_ipayloadlen ctx - fc_ipayloadoff ctx = of_nat (?L - k)" "unat (of_nat (?L - k) :: uint64) = ?L - k"
    using k by (simp_all add: unat_of_nat del: of_nat_diff) (simp add: of_nat_diff)
  have "(of_nat (WSLAY_AVAIL_IBUF ctx) < (of_nat (?L - k) :: uint64)) = (WSLAY_AVAIL_IBUF ctx < ?L - k)"
    unfolding word_less_nat_alt rem(2) using av by (simp add: unat_of_nat)
  then have lim: "(if of_nat (WSLAY_AVAIL_IBUF ctx) < fc_ipayloadlen ctx - fc_ipayloadoff ctx then fc_ibuflimit ctx
       else ?m + unat (fc_ipayloadlen ctx - fc_ipayloadoff ctx)) = ?m + n"
    unfolding rem using av by (auto simp: n_def)
  define c1 where "c1 = (if fc_imask ctx \<noteq> 0 then wslay_frame_unmask n ctx
      else ctx\<lparr>fc_ibufmark := ?m + n, fc_ipayloadoff := fc_ipayloadoff ctx + of_nat n\<rparr>)"
  have "n \<le> WSLAY_AVAIL_IBUF ctx" "k + n \<le> ?L" using k by (auto simp: n_def)
  note pb = payload_bytes [OF assms(1,3) this c1_def] and pa = payload_advance [OF assms(1) this(1) c1_def]
  have fields: "fc_ipayloadlen c1 = of_nat ?L" "fc_ipayloadoff c1 = of_nat (k + n)" "header_read f c1"
    using pb(1) by (auto simp: at_payload_def)
  have fin: "(of_nat ?L = (of_nat (k + n) :: uint64)) = (k + n = ?L)"
    using k \<open>k + n \<le> ?L\<close> by (auto simp: word_unat_eq_iff unat_of_nat simp del: of_nat_add)
  have eq: "io = \<lparr>iocb_fin = of_bool (fr_fin f), iocb_rsv = of_nat (fr_rsv f), iocb_opcode = of_nat (fr_opcode f),
         iocb_payload_length = of_nat ?L, iocb_mask = (fr_key f \<noteq> None),
         iocb_data = take n (drop k (fr_payload f)), iocb_data_length = of_nat n\<rparr>"
      "ctx' = (if k + n = ?L then c1\<lparr>fc_istate := RECV_HEADER1, fc_ireqread := 2\<rparr> else c1)"
    using assms(5) fields pb(2) pa(1) fin
    unfolding wslay_frame_take_payload_def Let_def lim diff_add_inverse c1_def [symmetric]
    by (auto simp: header_read_def)
  show "fc_inv ctx'" using pa(9) eq by (auto simp: fc_inv_def)
  have win: "window ctx' = window c1" using eq by (simp add: window_def)
  have "window c1 @ s = drop (k + n) (rfc_body f) @ rest" "k < ?L \<Longrightarrow> 0 < n"
    using pb(1) assms(4) by (auto simp: at_payload_def n_def)
  then have "recv_delivers f k rest n io ctx' (window ctx' @ s)"
    using eq pb(1) \<open>k + n \<le> ?L\<close> win by (simp add: recv_delivers_def recv_sync_def frame_boundary_def)
  then show "\<exists>n. recv_delivers f k rest n io ctx' (window ctx' @ s)" ..
qed

section \<open>Any input\<close>

text \<open>Between calls: the buffer is in bounds, the number of bytes asked for is that of the state, and
  a context in \<open>RECV_PAYLOAD\<close> still has payload to read. Within a call (\<open>recv_shape\<close>) the last
  clause may fail, for an empty frame.\<close>

definition recv_shape :: "wslay_frame_context \<Rightarrow> bool" where
  "recv_shape ctx \<longleftrightarrow> fc_inv ctx \<and>
     (fc_istate ctx = RECV_HEADER1 \<and> fc_ireqread ctx = 2 \<or>
      fc_istate ctx = RECV_EXT_PAYLOADLEN \<and> fc_ireqread ctx \<in> {2, 8} \<or>
      fc_istate ctx = RECV_MASKKEY \<and> fc_ireqread ctx = 4 \<or>
      fc_istate ctx = RECV_PAYLOAD)"

definition recv_wf :: "wslay_frame_context \<Rightarrow> bool" where
  "recv_wf ctx \<longleftrightarrow> recv_shape ctx \<and> (fc_istate ctx = RECV_PAYLOAD \<longrightarrow> fc_ipayloadlen ctx \<noteq> fc_ipayloadoff ctx)"

lemma recv_wf_init: "recv_wf wslay_frame_context_init"
  by (simp add: recv_wf_def recv_shape_def fc_inv_def wslay_frame_context_init_def)

lemma recv_shape_same: "recv_shape ctx \<Longrightarrow> same_frame ctx ctx' \<Longrightarrow> fc_inv ctx' \<Longrightarrow> recv_shape ctx'"
  by (simp add: recv_shape_def same_frame_simps)

text \<open>What each header parser does to any bytes.\<close>

fun recv_rank :: "wslay_frame_state \<Rightarrow> nat" where
  "recv_rank RECV_HEADER1 = 0"
| "recv_rank RECV_EXT_PAYLOADLEN = 1"
| "recv_rank RECV_MASKKEY = 2"
| "recv_rank _ = 3"

definition parse_shape :: "wslay_frame_context \<Rightarrow> wslay_error option \<Rightarrow> wslay_frame_context \<Rightarrow> bool" where
  "parse_shape ctx e ctx' \<longleftrightarrow>
     recv_shape ctx' \<and>
     (e = None \<and> recv_rank (fc_istate ctx) < recv_rank (fc_istate ctx') \<or>
      e = Some WSLAY_ERR_PROTO \<and> fc_istate ctx' = fc_istate ctx) \<and>
     (\<exists>n > 0. n \<le> WSLAY_AVAIL_IBUF ctx \<and> window ctx' = drop n (window ctx))"

lemma parse_shapeI:
  assumes "fc_inv ctx" "0 < n" "n \<le> WSLAY_AVAIL_IBUF ctx"
    and "fc_ibuf ctx' = fc_ibuf ctx" "fc_ibufmark ctx' = fc_ibufmark ctx + n" "fc_ibuflimit ctx' = fc_ibuflimit ctx"
    and "e = None \<and> recv_rank (fc_istate ctx) < recv_rank (fc_istate ctx') \<or>
      e = Some WSLAY_ERR_PROTO \<and> fc_istate ctx' = fc_istate ctx"
    and "fc_istate ctx' = RECV_HEADER1 \<and> fc_ireqread ctx' = 2 \<or>
      fc_istate ctx' = RECV_EXT_PAYLOADLEN \<and> fc_ireqread ctx' \<in> {2, 8} \<or>
      fc_istate ctx' = RECV_MASKKEY \<and> fc_ireqread ctx' = 4 \<or> fc_istate ctx' = RECV_PAYLOAD"
  shows "parse_shape ctx e ctx'"
  using assms window_advance [OF assms(1,3), of ctx'] unfolding parse_shape_def recv_shape_def by blast

lemmas parse_defs = wslay_frame_parse_header1_def wslay_frame_parse_ext_def wslay_frame_parse_maskkey_def
  wslay_frame_after_length_def

lemma parse_header1_shape:
  assumes "recv_shape c" "fc_istate c = RECV_HEADER1" "fc_ireqread c \<le> WSLAY_AVAIL_IBUF c"
    and "wslay_frame_parse_header1 c = (e, c')"
  shows "parse_shape c e c'"
  using assms by (intro parse_shapeI [of c 2])
    (auto simp: parse_defs Let_def recv_shape_def split: if_splits)

lemma parse_ext_shape:
  assumes "recv_shape c" "fc_istate c = RECV_EXT_PAYLOADLEN" "fc_ireqread c \<le> WSLAY_AVAIL_IBUF c"
    and "wslay_frame_parse_ext c = (e, c')"
  shows "parse_shape c e c'"
  using assms by (intro parse_shapeI [of c "fc_ireqread c"])
    (auto simp: parse_defs Let_def recv_shape_def split: if_splits)

lemma parse_maskkey_shape:
  assumes "recv_shape c" "fc_istate c = RECV_MASKKEY" "fc_ireqread c \<le> WSLAY_AVAIL_IBUF c"
    and "wslay_frame_parse_maskkey c = (e, c')"
  shows "parse_shape c e c'"
  using assms by (intro parse_shapeI [of c 4])
    (auto simp: parse_defs recv_shape_def)

lemma take_payload_any:
  assumes "fc_inv ctx" "fc_istate ctx = RECV_PAYLOAD" "wslay_frame_take_payload ctx = (io, ctx')"
  shows "recv_wf ctx'" "\<exists>n \<le> WSLAY_AVAIL_IBUF ctx. window ctx' = drop n (window ctx) \<and>
    iocb_data_length io = of_nat n \<and> length (iocb_data io) = n \<and>
    (0 < WSLAY_AVAIL_IBUF ctx \<and> fc_ipayloadlen ctx \<noteq> fc_ipayloadoff ctx \<longrightarrow> 0 < n)"
proof -
  let ?m = "fc_ibufmark ctx" and ?r = "fc_ipayloadlen ctx - fc_ipayloadoff ctx"
  define n where "n = min (WSLAY_AVAIL_IBUF ctx) (unat ?r)"
  have av: "WSLAY_AVAIL_IBUF ctx \<le> IBUF_SIZE" "fc_ibuflimit ctx = ?m + WSLAY_AVAIL_IBUF ctx"
    using assms(1) by (auto simp: fc_inv_def WSLAY_AVAIL_IBUF_def)
  have lim: "(if of_nat (WSLAY_AVAIL_IBUF ctx) < ?r then fc_ibuflimit ctx else ?m + unat ?r) = ?m + n"
    using av by (auto simp: n_def word_less_nat_alt unat_of_nat)
  define c1 where "c1 = (if fc_imask ctx \<noteq> 0 then wslay_frame_unmask n ctx
      else ctx\<lparr>fc_ibufmark := ?m + n, fc_ipayloadoff := fc_ipayloadoff ctx + of_nat n\<rparr>)"
  have n: "n \<le> WSLAY_AVAIL_IBUF ctx" by (simp add: n_def)
  note pa = payload_advance [OF assms(1) n c1_def]
  have eq: "iocb_data io = arr_slice (fc_ibuf c1) ?m (?m + n)" "iocb_data_length io = of_nat n"
      "ctx' = (if fc_ipayloadlen c1 = fc_ipayloadoff c1 then c1\<lparr>fc_istate := RECV_HEADER1, fc_ireqread := 2\<rparr> else c1)"
    using assms(3) pa(1) unfolding wslay_frame_take_payload_def Let_def lim diff_add_inverse c1_def [symmetric]
    by auto
  then show "recv_wf ctx'" using pa(3,9) assms(2) by (auto simp: recv_wf_def recv_shape_def fc_inv_def)
  have "0 < n" if "0 < WSLAY_AVAIL_IBUF ctx" "fc_ipayloadlen ctx \<noteq> fc_ipayloadoff ctx"
    using that by (simp add: n_def unat_gt_0)
  moreover have "length (arr_slice (fc_ibuf c1) ?m (?m + n)) = n"
    using pa(2) av n assms(1) by (simp add: fc_inv_def)
  ultimately show "\<exists>n \<le> WSLAY_AVAIL_IBUF ctx. window ctx' = drop n (window ctx) \<and>
    iocb_data_length io = of_nat n \<and> length (iocb_data io) = n \<and>
    (0 < WSLAY_AVAIL_IBUF ctx \<and> fc_ipayloadlen ctx \<noteq> fc_ipayloadoff ctx \<longrightarrow> 0 < n)"
    using n pa(10) eq by (intro exI [of _ n]) (auto simp: window_def)
qed

section \<open>The receive callback\<close>

locale byte_source =
  fixes cbs :: "'w wslay_frame_callbacks"
    and stream :: "'w \<Rightarrow> byte list"
    and ok :: "'w \<Rightarrow> bool"
  assumes recv_ok: "ok w \<Longrightarrow> recv_callback cbs len flags w = (r, bs, w') \<Longrightarrow> ok w'"
    and recv_bound: "ok w \<Longrightarrow> recv_callback cbs len flags w = (r, bs, w') \<Longrightarrow> length bs \<le> len \<and> r \<le> int len"
    and recv_some: "ok w \<Longrightarrow> recv_callback cbs len flags w = (r, bs, w') \<Longrightarrow> 0 < r \<Longrightarrow>
          length bs = nat r \<and> stream w = bs @ stream w'"
    and recv_none: "ok w \<Longrightarrow> recv_callback cbs len flags w = (r, bs, w') \<Longrightarrow> r \<le> 0 \<Longrightarrow> stream w' = stream w"
begin

lemma recv_spec:
  assumes "fc_inv ctx" "wslay_recv cbs ctx w = (e, ctx', w')" "ok w"
  shows "ok w'" "fc_inv ctx'" "same_frame ctx ctx'" "window ctx' @ stream w' = window ctx @ stream w"
    "e = None \<and> WSLAY_AVAIL_IBUF ctx < WSLAY_AVAIL_IBUF ctx' \<or> e = Some WSLAY_ERR_WANT_READ"
proof -
  define c1 where "c1 = (if fc_ibufmark ctx \<noteq> 0 then wslay_shift_ibuf ctx else ctx)"
  have c1: "fc_inv c1" "window c1 = window ctx" "fc_ibufmark c1 = 0" "same_frame ctx c1"
      "fc_ibuflimit c1 = WSLAY_AVAIL_IBUF ctx"
    using assms(1) shift_ibuf [OF assms(1)] same_frame_refl same_frame_shift
    by (auto simp: c1_def WSLAY_AVAIL_IBUF_def)
  obtain r bs w1 where cb1: "recv_callback cbs (IBUF_SIZE - fc_ibuflimit c1) 0 w = (r, bs, w1)"
    by (metis prod_cases3)
  define c2 where "c2 = c1\<lparr>fc_ibuf := write_at (fc_ibuf c1) (fc_ibuflimit c1) bs\<rparr>"
  have res: "e = (if 0 < r then None else Some WSLAY_ERR_WANT_READ)" "w1 = w'"
      "ctx' = (if 0 < r then c2\<lparr>fc_ibuflimit := fc_ibuflimit c2 + nat r\<rparr> else c2)"
    using assms(2) cb1 unfolding wslay_recv_def Let_def c1_def [symmetric]
    by (auto simp: c2_def split: if_splits)
  note cb = cb1 [unfolded res(2)]
  have bnd: "fc_ibuflimit c1 + length bs \<le> IBUF_SIZE" "r \<le> int (IBUF_SIZE - fc_ibuflimit c1)"
    using recv_bound [OF assms(3) cb] c1(1) by (auto simp: fc_inv_def)
  have inv2: "fc_inv c2" "window c2 = window c1"
    using c1 bnd slice_write_at_below [of "fc_ibufmark c1" "fc_ibuflimit c1" "fc_ibuflimit c1" "fc_ibuf c1" bs]
    by (auto simp: c2_def fc_inv_def window_def)
  show "ok w'" by (rule recv_ok [OF assms(3) cb])
  show "same_frame ctx ctx'" using c1(4) unfolding res c2_def by (auto simp: same_frame_def)
  show "fc_inv ctx'" using inv2 bnd c1 by (auto simp: res c2_def fc_inv_def)
  show "e = None \<and> WSLAY_AVAIL_IBUF ctx < WSLAY_AVAIL_IBUF ctx' \<or> e = Some WSLAY_ERR_WANT_READ"
    using c1 by (auto simp: res c2_def WSLAY_AVAIL_IBUF_def)
  show "window ctx' @ stream w' = window ctx @ stream w"
  proof (cases "0 < r")
    case True
    then have bs: "length bs = nat r" "stream w = bs @ stream w'" using recv_some [OF assms(3) cb] by auto
    have "arr_slice (fc_ibuf c2) 0 (fc_ibuflimit c2 + nat r)
        = arr_slice (fc_ibuf c2) 0 (fc_ibuflimit c2) @ arr_slice (fc_ibuf c2) (fc_ibuflimit c2) (fc_ibuflimit c2 + nat r)"
      using inv2 bnd bs by (subst slice_append) (auto simp: c2_def fc_inv_def)
    also have "arr_slice (fc_ibuf c2) (fc_ibuflimit c2) (fc_ibuflimit c2 + nat r) = bs"
      using slice_write_at_same [of "fc_ibuflimit c1" bs "fc_ibuf c1"] bnd bs c1(1)
      by (simp add: c2_def fc_inv_def)
    finally have "window ctx' = window c2 @ bs"
      using True c1(3) by (simp add: res window_def c2_def)
    then show ?thesis using bs c1 inv2 by simp
  next
    case False
    then show ?thesis using recv_none [OF assms(3) cb] inv2 c1 by (simp add: res)
  qed
qed

lemma fill_spec:
  assumes "fc_inv ctx" "wslay_frame_fill cbs ctx w = (e, ctx', w')" "ok w"
  shows "ok w'" "fc_inv ctx'" "same_frame ctx ctx'" "window ctx' @ stream w' = window ctx @ stream w"
    "e = None \<and> fc_ireqread ctx \<le> WSLAY_AVAIL_IBUF ctx' \<or> e = Some WSLAY_ERR_WANT_READ"
proof -
  obtain e1 c1 w1 where r: "wslay_recv cbs ctx w = (e1, c1, w1)" by (metis prod_cases3)
  note rs = recv_spec [OF assms(1) r assms(3)] same_frame_simps [OF recv_spec(3) [OF assms(1) r assms(3)]]
  have "(e, ctx', w') = (None, ctx, w) \<and> fc_ireqread ctx \<le> WSLAY_AVAIL_IBUF ctx
      \<or> ctx' = c1 \<and> w' = w1 \<and> (e = None \<and> fc_ireqread ctx \<le> WSLAY_AVAIL_IBUF c1 \<or> e = Some WSLAY_ERR_WANT_READ)"
    using assms(2) r rs by (auto simp: wslay_frame_fill_def split: if_splits option.splits)
  then show "ok w'" "fc_inv ctx'" "same_frame ctx ctx'" "window ctx' @ stream w' = window ctx @ stream w"
      "e = None \<and> fc_ireqread ctx \<le> WSLAY_AVAIL_IBUF ctx' \<or> e = Some WSLAY_ERR_WANT_READ"
    using assms(1,3) rs same_frame_refl by auto
qed

lemma block_skip: "fc_istate ctx \<noteq> st \<Longrightarrow> wslay_frame_block st parse cbs ctx w = (None, ctx, w)"
  by (simp add: wslay_frame_block_def)

text \<open>A header block, entered in its state, ends there asking for more bytes or runs its parser on
  enough of them.\<close>

lemma block_enter:
  assumes "fc_inv ctx" "fc_istate ctx = st" "wslay_frame_block st parse cbs ctx w = (e, ctx', w')" "ok w"
  obtains "e = Some WSLAY_ERR_WANT_READ" "ok w'" "fc_inv ctx'" "same_frame ctx ctx'"
      "window ctx' @ stream w' = window ctx @ stream w"
    | c1 where "ok w'" "fc_inv c1" "same_frame ctx c1" "window c1 @ stream w' = window ctx @ stream w"
      "fc_ireqread c1 \<le> WSLAY_AVAIL_IBUF c1" "parse c1 = (e, ctx')"
proof -
  obtain e1 c1 w1 where f: "wslay_frame_fill cbs ctx w = (e1, c1, w1)" by (metis prod_cases3)
  note fs = fill_spec [OF assms(1) f assms(4)]
  from fs(5) show thesis
  proof
    assume "e1 = None \<and> fc_ireqread ctx \<le> WSLAY_AVAIL_IBUF c1"
    moreover from this have "parse c1 = (e, ctx')" "w' = w1"
      using assms(2,3) f by (auto simp: wslay_frame_block_def split: prod.splits)
    ultimately show thesis using that(2) fs(1-4) same_frame_simps(7) [OF fs(3)] by simp
  next
    assume "e1 = Some WSLAY_ERR_WANT_READ"
    then show thesis using that(1) fs(1-4) assms(2,3) f by (simp add: wslay_frame_block_def)
  qed
qed

lemma recv_payload:
  assumes "fc_inv ctx" "rfc_valid f" "at_payload f k rest ctx (window ctx @ stream w)"
    and "wslay_frame_recv_payload cbs ctx w = (res, ctx', w')" "ok w"
  shows "ok w' \<and> fc_inv ctx' \<and>
    (case res of Inl e \<Rightarrow> e = WSLAY_ERR_WANT_READ \<and> recv_sync f k rest ctx' (window ctx' @ stream w')
     | Inr io \<Rightarrow> \<exists>n. recv_delivers f k rest n io ctx' (window ctx' @ stream w'))"
proof -
  have "length (fr_payload f) < 2 ^ 63" "k \<le> length (fr_payload f)"
      "fc_ipayloadlen ctx = of_nat (length (fr_payload f))" "fc_ipayloadoff ctx = of_nat k"
    using assms(2,3) by (auto simp: at_payload_def rfc_valid_def)
  then have rem: "(0 < fc_ipayloadlen ctx - fc_ipayloadoff ctx) = (k < length (fr_payload f))"
    by (auto simp: word_less_nat_alt unat_of_nat unat_sub word_le_nat_alt)
  obtain e1 c1 w1 where r: "(if WSLAY_AVAIL_IBUF ctx = 0 \<and> fc_ipayloadlen ctx - fc_ipayloadoff ctx > 0
      then wslay_recv cbs ctx w else (None, ctx, w)) = (e1, c1, w1)" by (metis prod_cases3)
  have c1: "ok w1" "fc_inv c1" "same_frame ctx c1" "window c1 @ stream w1 = window ctx @ stream w"
      "e1 = None \<and> (0 < WSLAY_AVAIL_IBUF c1 \<or> k = length (fr_payload f)) \<or> e1 = Some WSLAY_ERR_WANT_READ"
    using r rem recv_spec [OF assms(1), of w e1 c1 w1] assms(1,5) same_frame_refl \<open>k \<le> _\<close>
    by (auto split: if_splits)
  have at: "at_payload f k rest c1 (window c1 @ stream w1)"
    using assms(3) c1 at_same_frame(4) by simp
  obtain io c2 where t: "wslay_frame_take_payload c1 = (io, c2)" by fastforce
  from c1(5) show ?thesis
  proof (elim disjE conjE)
    assume 1: "e1 = None" "0 < WSLAY_AVAIL_IBUF c1"
    then have "res = Inr io" "ctx' = c2" "w' = w1"
      using assms(4) t unfolding wslay_frame_recv_payload_def r by auto
    with take_payload [OF c1(2) assms(2) at _ t] 1(2) c1(1) show ?thesis by simp
  next
    assume 1: "e1 = None" "k = length (fr_payload f)"
    then have "res = Inr io" "ctx' = c2" "w' = w1"
      using assms(4) t unfolding wslay_frame_recv_payload_def r by auto
    with take_payload [OF c1(2) assms(2) at _ t] 1(2) c1(1) show ?thesis by simp
  next
    assume 2: "e1 = Some WSLAY_ERR_WANT_READ"
    then have "res = Inl WSLAY_ERR_WANT_READ" "ctx' = c1" "w' = w1"
      using assms(4) unfolding wslay_frame_recv_payload_def r by auto
    with c1(1,2) at show ?thesis by (simp add: recv_sync_def)
  qed
qed

lemma block_step:
  assumes "fc_inv ctx" "wslay_frame_block st parse cbs ctx w = (e, ctx', w')" "ok w"
    and st: "fc_istate ctx = st \<and> P ctx (window ctx @ stream w) \<or> fc_istate ctx \<noteq> st \<and> Q ctx (window ctx @ stream w)"
    and same: "\<And>c c' v. same_frame c c' \<Longrightarrow> P c' v = P c v"
    and parse: "\<And>c c' e s. fc_inv c \<Longrightarrow> fc_ireqread c \<le> WSLAY_AVAIL_IBUF c \<Longrightarrow> P c (window c @ s) \<Longrightarrow>
        parse c = (e, c') \<Longrightarrow> e = None \<and> fc_inv c' \<and> Q c' (window c' @ s)"
  shows "ok w' \<and> fc_inv ctx' \<and> (e = Some WSLAY_ERR_WANT_READ \<and> P ctx' (window ctx' @ stream w') \<or>
    e = None \<and> Q ctx' (window ctx' @ stream w'))"
proof (cases "fc_istate ctx = st")
  case True
  with st have P: "P ctx (window ctx @ stream w)" by simp
  from assms(1) True assms(2,3) show ?thesis
  proof (rule block_enter)
    assume "e = Some WSLAY_ERR_WANT_READ" "ok w'" "fc_inv ctx'" "same_frame ctx ctx'"
      "window ctx' @ stream w' = window ctx @ stream w"
    then show ?thesis using P same by simp
  next
    fix c1
    assume c1: "ok w'" "fc_inv c1" "same_frame ctx c1" "window c1 @ stream w' = window ctx @ stream w"
      "fc_ireqread c1 \<le> WSLAY_AVAIL_IBUF c1" "parse c1 = (e, ctx')"
    then have "P c1 (window c1 @ stream w')" using P same by simp
    then show ?thesis using parse [OF c1(2,5) _ c1(6), of "stream w'"] c1(1) by simp
  qed
next
  case False
  then show ?thesis using assms(1-3) st block_skip [of ctx st parse w] by auto
qed

lemma block_header1:
  assumes "fc_inv ctx" "rfc_valid f" "recv_sync f k rest ctx (window ctx @ stream w)"
    and b: "wslay_frame_block RECV_HEADER1 wslay_frame_parse_header1 cbs ctx w = (e, ctx', w')" "ok w"
  shows "ok w' \<and> fc_inv ctx' \<and> (e = Some WSLAY_ERR_WANT_READ \<and> (k = 0 \<and> at_header1 f rest ctx' (window ctx' @ stream w')) \<or>
    e = None \<and> past_header1 f k rest ctx' (window ctx' @ stream w'))"
proof (rule block_step [OF assms(1) b])
  show "fc_istate ctx = RECV_HEADER1 \<and> k = 0 \<and> at_header1 f rest ctx (window ctx @ stream w) \<or>
      fc_istate ctx \<noteq> RECV_HEADER1 \<and> past_header1 f k rest ctx (window ctx @ stream w)"
    using assms(3) unfolding recv_sync_def past_header1_def by (auto dest: at_states)
  fix c c' e s
  assume c: "fc_inv c" "fc_ireqread c \<le> WSLAY_AVAIL_IBUF c" "k = 0 \<and> at_header1 f rest c (window c @ s)"
    "wslay_frame_parse_header1 c = (e, c')"
  then have "2 \<le> WSLAY_AVAIL_IBUF c" "window c @ s = rfc_frame f @ rest" by (simp_all add: at_header1_def)
  from parse_header1 [OF c(1) this(1) assms(2) this(2) c(4)] c(3)
  show "e = None \<and> fc_inv c' \<and> past_header1 f k rest c' (window c' @ s)"
    unfolding past_header1_def by blast
qed (simp add: at_same_frame)

lemma block_ext:
  assumes "fc_inv ctx" "rfc_valid f" "past_header1 f k rest ctx (window ctx @ stream w)"
    and b: "wslay_frame_block RECV_EXT_PAYLOADLEN wslay_frame_parse_ext cbs ctx w = (e, ctx', w')" "ok w"
  shows "ok w' \<and> fc_inv ctx' \<and> (e = Some WSLAY_ERR_WANT_READ \<and> (k = 0 \<and> at_ext f rest ctx' (window ctx' @ stream w')) \<or>
    e = None \<and> past_ext f k rest ctx' (window ctx' @ stream w'))"
proof (rule block_step [OF assms(1) b])
  show "fc_istate ctx = RECV_EXT_PAYLOADLEN \<and> k = 0 \<and> at_ext f rest ctx (window ctx @ stream w) \<or>
      fc_istate ctx \<noteq> RECV_EXT_PAYLOADLEN \<and> past_ext f k rest ctx (window ctx @ stream w)"
    using assms(3) unfolding past_header1_def past_ext_def by (auto dest: at_states)
  fix c c' e s
  assume c: "fc_inv c" "fc_ireqread c \<le> WSLAY_AVAIL_IBUF c" "k = 0 \<and> at_ext f rest c (window c @ s)"
    "wslay_frame_parse_ext c = (e, c')"
  from parse_ext [OF c(1,2) assms(2) _ c(4)] c(3)
  show "e = None \<and> fc_inv c' \<and> past_ext f k rest c' (window c' @ s)"
    unfolding past_ext_def by blast
qed (simp add: at_same_frame)

lemma block_maskkey:
  assumes "fc_inv ctx" "rfc_valid f" "past_ext f k rest ctx (window ctx @ stream w)"
    and b: "wslay_frame_block RECV_MASKKEY wslay_frame_parse_maskkey cbs ctx w = (e, ctx', w')" "ok w"
  shows "ok w' \<and> fc_inv ctx' \<and> (e = Some WSLAY_ERR_WANT_READ \<and> (k = 0 \<and> at_maskkey f rest ctx' (window ctx' @ stream w')) \<or>
    e = None \<and> at_payload f k rest ctx' (window ctx' @ stream w'))"
proof (rule block_step [OF assms(1) b])
  show "fc_istate ctx = RECV_MASKKEY \<and> k = 0 \<and> at_maskkey f rest ctx (window ctx @ stream w) \<or>
      fc_istate ctx \<noteq> RECV_MASKKEY \<and> at_payload f k rest ctx (window ctx @ stream w)"
    using assms(3) unfolding past_ext_def by (auto dest: at_states)
  fix c c' e s
  assume c: "fc_inv c" "fc_ireqread c \<le> WSLAY_AVAIL_IBUF c" "k = 0 \<and> at_maskkey f rest c (window c @ s)"
    "wslay_frame_parse_maskkey c = (e, c')"
  from parse_maskkey [OF c(1,2) assms(2) _ c(4)] c(3)
  show "e = None \<and> fc_inv c' \<and> at_payload f k rest c' (window c' @ s)" by blast
qed (simp add: at_same_frame)

lemma recv_simulates:
  assumes "fc_inv ctx" "rfc_valid f" "recv_sync f k rest ctx (window ctx @ stream w)"
    and "wslay_frame_recv cbs ctx w = (res, ctx', w')" "ok w"
  shows "ok w' \<and> fc_inv ctx' \<and>
    (case res of Inl e \<Rightarrow> e = WSLAY_ERR_WANT_READ \<and> recv_sync f k rest ctx' (window ctx' @ stream w')
     | Inr io \<Rightarrow> \<exists>n. recv_delivers f k rest n io ctx' (window ctx' @ stream w'))"
proof -
  obtain e1 c1 w1 where b1: "wslay_frame_block RECV_HEADER1 wslay_frame_parse_header1 cbs ctx w = (e1, c1, w1)"
    by (metis prod_cases3)
  obtain e2 c2 w2 where b2: "wslay_frame_block RECV_EXT_PAYLOADLEN wslay_frame_parse_ext cbs c1 w1 = (e2, c2, w2)"
    by (metis prod_cases3)
  obtain e3 c3 w3 where b3: "wslay_frame_block RECV_MASKKEY wslay_frame_parse_maskkey cbs c2 w2 = (e3, c3, w3)"
    by (metis prod_cases3)
  note unfold = wslay_frame_recv_def b1 b2 b3 recv_sync_def
  from block_header1 [OF assms(1-3) b1 assms(5)] consider
      "e1 = Some WSLAY_ERR_WANT_READ" "ok w1" "fc_inv c1" "k = 0" "at_header1 f rest c1 (window c1 @ stream w1)"
    | "e1 = None" "ok w1" "fc_inv c1" "past_header1 f k rest c1 (window c1 @ stream w1)" by blast
  then show ?thesis
  proof cases
    case 1
    then show ?thesis using assms(4) by (auto simp: unfold)
  next
    case 2
    note e1 = 2(1)
    from block_ext [OF 2(3) assms(2) 2(4) b2 2(2)] consider
        "e2 = Some WSLAY_ERR_WANT_READ" "ok w2" "fc_inv c2" "k = 0" "at_ext f rest c2 (window c2 @ stream w2)"
      | "e2 = None" "ok w2" "fc_inv c2" "past_ext f k rest c2 (window c2 @ stream w2)" by blast
    then show ?thesis
    proof cases
      case 1
      then show ?thesis using assms(4) e1 by (auto simp: unfold)
    next
      case 2
      from block_maskkey [OF 2(3) assms(2) 2(4) b3 2(2)] consider
          "e3 = Some WSLAY_ERR_WANT_READ" "ok w3" "fc_inv c3" "k = 0" "at_maskkey f rest c3 (window c3 @ stream w3)"
        | "e3 = None" "ok w3" "fc_inv c3" "at_payload f k rest c3 (window c3 @ stream w3)" by blast
      then show ?thesis
      proof cases
        case 1
        then show ?thesis using assms(4) e1 2(1) by (auto simp: unfold)
      next
        case pay: 2
        then have "wslay_frame_recv_payload cbs c3 w3 = (res, ctx', w')"
          using assms(4) e1 2(1) at_states(4) [OF pay(4)] by (simp add: unfold)
        from recv_payload [OF pay(3) assms(2) pay(4) this pay(2)] show ?thesis by blast
      qed
    qed
  qed
qed

text \<open>Any input: \<open>progress ctx w k c ctx' w'\<close> says that the blocks before rank \<open>k\<close>, started from
  \<open>ctx\<close> and \<open>w\<close>, are done and took \<open>c\<close> from the front of the inbox.\<close>

definition progress :: "wslay_frame_context \<Rightarrow> 'w \<Rightarrow> nat \<Rightarrow> byte list \<Rightarrow> wslay_frame_context \<Rightarrow> 'w \<Rightarrow> bool" where
  "progress ctx w k c ctx' w' \<longleftrightarrow> ok w' \<and> recv_shape ctx' \<and> k \<le> recv_rank (fc_istate ctx') \<and>
     window ctx @ stream w = c @ window ctx' @ stream w' \<and> (c = [] \<longrightarrow> ctx' = ctx)"

definition recv_stops :: "wslay_frame_context \<Rightarrow> 'w \<Rightarrow> wslay_error \<Rightarrow> wslay_frame_context \<Rightarrow> 'w \<Rightarrow> bool" where
  "recv_stops ctx w e ctx' w' \<longleftrightarrow> e \<in> {WSLAY_ERR_WANT_READ, WSLAY_ERR_PROTO} \<and> ok w' \<and> recv_wf ctx' \<and>
     (\<exists>c. window ctx @ stream w = c @ window ctx' @ stream w')"

lemma block_any:
  assumes p: "progress ctx w k c c1 w1" and st: "recv_rank st = k" "st \<in> {RECV_HEADER1, RECV_EXT_PAYLOADLEN, RECV_MASKKEY}"
    and b: "wslay_frame_block st parse cbs c1 w1 = (e, c2, w2)"
    and parse: "\<And>c e c'. recv_shape c \<Longrightarrow> fc_istate c = st \<Longrightarrow> fc_ireqread c \<le> WSLAY_AVAIL_IBUF c \<Longrightarrow>
        parse c = (e, c') \<Longrightarrow> parse_shape c e c'"
  shows "e = None \<and> (\<exists>c'. progress ctx w (Suc k) c' c2 w2) \<or> (\<exists>e'. e = Some e' \<and> recv_stops ctx w e' c2 w2)"
proof (cases "fc_istate c1 = st")
  case False
  then have "recv_rank (fc_istate c1) \<noteq> k"
    using p st by (cases "fc_istate c1") (auto simp: progress_def recv_shape_def)
  then show ?thesis using p b False by (auto simp: progress_def block_skip)
next
  case True
  have c1: "ok w1" "recv_shape c1" "fc_inv c1" "window ctx @ stream w = c @ window c1 @ stream w1"
    using p by (auto simp: progress_def recv_shape_def)
  from c1(3) True b c1(1) show ?thesis
  proof (rule block_enter)
    assume 1: "e = Some WSLAY_ERR_WANT_READ" "ok w2" "fc_inv c2" "same_frame c1 c2"
      "window c2 @ stream w2 = window c1 @ stream w1"
    have "recv_wf c2"
      using recv_shape_same [OF c1(2) 1(4,3)] same_frame_simps(6) [OF 1(4)] True st by (auto simp: recv_wf_def)
    then show ?thesis using 1 c1(4) by (auto simp: recv_stops_def)
  next
    fix d
    assume d: "ok w2" "fc_inv d" "same_frame c1 d" "window d @ stream w2 = window c1 @ stream w1"
      "fc_ireqread d \<le> WSLAY_AVAIL_IBUF d" "parse d = (e, c2)"
    have shape: "recv_shape d" "fc_istate d = st"
      using recv_shape_same [OF c1(2) d(3,2)] same_frame_simps(6) [OF d(3)] True by simp_all
    obtain n where n: "recv_shape c2" "0 < n" "n \<le> length (window d)" "window c2 = drop n (window d)"
        "e = None \<and> recv_rank st < recv_rank (fc_istate c2) \<or> e = Some WSLAY_ERR_PROTO \<and> fc_istate c2 = st"
      using parse [OF shape d(5,6)] length_window [OF d(2)] shape(2) unfolding parse_shape_def by auto
    have "window ctx @ stream w = (c @ take n (window d)) @ window c2 @ stream w2"
      using c1(4) n(4) d(4) by (metis append.assoc append_take_drop_id)
    moreover have "c @ take n (window d) \<noteq> []" using n(2,3) by auto
    moreover have "recv_wf c2" if "fc_istate c2 = st" using that st n(1) by (auto simp: recv_wf_def)
    ultimately have "e = None \<Longrightarrow> progress ctx w (Suc k) (c @ take n (window d)) c2 w2"
        "e = Some WSLAY_ERR_PROTO \<Longrightarrow> recv_stops ctx w WSLAY_ERR_PROTO c2 w2"
      using n(1,5) st(1) d(1) by (auto simp: progress_def recv_stops_def)
    then show ?thesis using n(5) by blast
  qed
qed

lemma recv_payload_any:
  assumes "recv_shape ctx" "fc_istate ctx = RECV_PAYLOAD" "wslay_frame_recv_payload cbs ctx w = (res, ctx', w')" "ok w"
  shows "ok w' \<and> (\<exists>c. window ctx @ stream w = c @ window ctx' @ stream w' \<and>
    (case res of Inl e \<Rightarrow> c = [] \<and> e = WSLAY_ERR_WANT_READ \<and> fc_ipayloadlen ctx \<noteq> fc_ipayloadoff ctx \<and>
                          fc_inv ctx' \<and> same_frame ctx ctx'
     | Inr io \<Rightarrow> recv_wf ctx' \<and> iocb_data_length io = of_nat (length c) \<and> length (iocb_data io) = length c \<and>
         length c \<le> IBUF_SIZE \<and> (fc_ipayloadlen ctx \<noteq> fc_ipayloadoff ctx \<longrightarrow> c \<noteq> [])))"
proof -
  have inv: "fc_inv ctx" using assms(1) by (simp add: recv_shape_def)
  obtain e1 c1 w1 where r: "(if WSLAY_AVAIL_IBUF ctx = 0 \<and> fc_ipayloadlen ctx - fc_ipayloadoff ctx > 0
      then wslay_recv cbs ctx w else (None, ctx, w)) = (e1, c1, w1)" by (metis prod_cases3)
  have c1: "ok w1" "fc_inv c1" "same_frame ctx c1" "window c1 @ stream w1 = window ctx @ stream w"
      "e1 = None \<and> (fc_ipayloadlen ctx \<noteq> fc_ipayloadoff ctx \<longrightarrow> 0 < WSLAY_AVAIL_IBUF c1) \<or>
       e1 = Some WSLAY_ERR_WANT_READ \<and> fc_ipayloadlen ctx \<noteq> fc_ipayloadoff ctx"
    using r recv_spec [OF inv, of w e1 c1 w1] inv assms(4) same_frame_refl
    by (auto simp: word_neq_0_conv [symmetric] split: if_splits)
  note same = same_frame_simps [OF c1(3)]
  obtain io c2 where t: "wslay_frame_take_payload c1 = (io, c2)" by fastforce
  from take_payload_any [OF c1(2) _ t] assms(2) same obtain n where
    n: "recv_wf c2" "n \<le> WSLAY_AVAIL_IBUF c1" "window c2 = drop n (window c1)" "iocb_data_length io = of_nat n"
      "length (iocb_data io) = n" "0 < WSLAY_AVAIL_IBUF c1 \<and> fc_ipayloadlen ctx \<noteq> fc_ipayloadoff ctx \<longrightarrow> 0 < n"
    by auto
  from c1(5) show ?thesis
  proof
    assume e1: "e1 = None \<and> (fc_ipayloadlen ctx \<noteq> fc_ipayloadoff ctx \<longrightarrow> 0 < WSLAY_AVAIL_IBUF c1)"
    then have "res = Inr io" "ctx' = c2" "w' = w1"
      using assms(3) t unfolding wslay_frame_recv_payload_def r by auto
    moreover have "window ctx @ stream w = take n (window c1) @ window c2 @ stream w1"
      using n(3) c1(4) by (metis append.assoc append_take_drop_id)
    moreover have "length (take n (window c1)) = n" using n(2) c1(2) by (simp add: length_window)
    moreover have "n \<le> IBUF_SIZE" using n(2) c1(2) by (auto simp: fc_inv_def WSLAY_AVAIL_IBUF_def)
    ultimately show ?thesis using c1(1) n e1 by (intro conjI exI [of _ "take n (window c1)"]) auto
  next
    assume e1: "e1 = Some WSLAY_ERR_WANT_READ \<and> fc_ipayloadlen ctx \<noteq> fc_ipayloadoff ctx"
    then have "res = Inl WSLAY_ERR_WANT_READ" "ctx' = c1" "w' = w1"
      using assms(3) unfolding wslay_frame_recv_payload_def r by auto
    then show ?thesis using c1 e1 by simp
  qed
qed

lemma recv_any:
  assumes "recv_wf ctx" "ok w" "wslay_frame_recv cbs ctx w = (res, ctx', w')"
  shows "case res of Inl e \<Rightarrow> recv_stops ctx w e ctx' w'
     | Inr io \<Rightarrow> ok w' \<and> recv_wf ctx' \<and> length (iocb_data io) \<le> IBUF_SIZE \<and>
         iocb_data_length io = of_nat (length (iocb_data io)) \<and>
         (\<exists>c. c \<noteq> [] \<and> window ctx @ stream w = c @ window ctx' @ stream w')"
proof -
  obtain e1 c1 w1 where b1: "wslay_frame_block RECV_HEADER1 wslay_frame_parse_header1 cbs ctx w = (e1, c1, w1)"
    by (metis prod_cases3)
  obtain e2 c2 w2 where b2: "wslay_frame_block RECV_EXT_PAYLOADLEN wslay_frame_parse_ext cbs c1 w1 = (e2, c2, w2)"
    by (metis prod_cases3)
  obtain e3 c3 w3 where b3: "wslay_frame_block RECV_MASKKEY wslay_frame_parse_maskkey cbs c2 w2 = (e3, c3, w3)"
    by (metis prod_cases3)
  note u = assms(3) [unfolded wslay_frame_recv_def b1 prod.case]
  have start: "progress ctx w 0 [] ctx w" using assms by (simp add: progress_def recv_wf_def)
  have "e1 = None \<and> (\<exists>c'. progress ctx w (Suc 0) c' c1 w1) \<or> (\<exists>e. e1 = Some e \<and> recv_stops ctx w e c1 w1)"
    by (rule block_any [OF start _ _ b1]) (auto intro: parse_header1_shape)
  then consider
    "\<exists>e. e1 = Some e \<and> recv_stops ctx w e c1 w1" | k1 where "e1 = None" "progress ctx w (Suc 0) k1 c1 w1" by blast
  then show ?thesis
  proof cases
    case 1
    then show ?thesis using u by auto
  next
    case 2
    note e1 = 2(1)
    have "e2 = None \<and> (\<exists>c'. progress ctx w (Suc (Suc 0)) c' c2 w2) \<or> (\<exists>e. e2 = Some e \<and> recv_stops ctx w e c2 w2)"
      by (rule block_any [OF 2(2) _ _ b2]) (auto intro: parse_ext_shape)
    then consider
      "\<exists>e. e2 = Some e \<and> recv_stops ctx w e c2 w2" | k2 where "e2 = None" "progress ctx w (Suc (Suc 0)) k2 c2 w2" by blast
    then show ?thesis
    proof cases
      case 1
      then show ?thesis using u e1 b2 by auto
    next
      case 2
      note e2 = 2(1)
      have "e3 = None \<and> (\<exists>c'. progress ctx w (Suc (Suc (Suc 0))) c' c3 w3) \<or> (\<exists>e. e3 = Some e \<and> recv_stops ctx w e c3 w3)"
        by (rule block_any [OF 2(2) _ _ b3]) (auto intro: parse_maskkey_shape)
      then consider
        "\<exists>e. e3 = Some e \<and> recv_stops ctx w e c3 w3" | k3 where "e3 = None" "progress ctx w (Suc (Suc (Suc 0))) k3 c3 w3" by blast
      then show ?thesis
      proof cases
        case 1
        then show ?thesis using u e1 e2 b2 b3 by auto
      next
        case 2
        have c3: "ok w3" "recv_shape c3" "window ctx @ stream w = k3 @ window c3 @ stream w3" "k3 = [] \<longrightarrow> c3 = ctx"
            "Suc (Suc (Suc 0)) \<le> recv_rank (fc_istate c3)"
          using 2(2) unfolding progress_def by blast+
        have st: "fc_istate c3 = RECV_PAYLOAD" using c3(2,5) by (auto simp: recv_shape_def)
        have pay: "wslay_frame_recv_payload cbs c3 w3 = (res, ctx', w')" using u e1 e2 2(1) b2 b3 st by simp
        from recv_payload_any [OF c3(2) st pay c3(1)] obtain c where
          c: "ok w'" "window c3 @ stream w3 = c @ window ctx' @ stream w'"
             "case res of Inl e \<Rightarrow> c = [] \<and> e = WSLAY_ERR_WANT_READ \<and> fc_ipayloadlen c3 \<noteq> fc_ipayloadoff c3 \<and>
                          fc_inv ctx' \<and> same_frame c3 ctx'
              | Inr io \<Rightarrow> recv_wf ctx' \<and> iocb_data_length io = of_nat (length c) \<and> length (iocb_data io) = length c \<and>
                  length c \<le> IBUF_SIZE \<and> (fc_ipayloadlen c3 \<noteq> fc_ipayloadoff c3 \<longrightarrow> c \<noteq> [])" by blast
        have eq: "window ctx @ stream w = (k3 @ c) @ window ctx' @ stream w'" using c3(3) c(2) by simp
        have ne: "k3 = [] \<Longrightarrow> fc_ipayloadlen c3 \<noteq> fc_ipayloadoff c3"
          using assms(1) c3(4) st by (auto simp: recv_wf_def)
        show ?thesis
        proof (cases res)
          case (Inl e)
          then have "recv_wf ctx'"
            using c(3) recv_shape_same [OF c3(2), of ctx'] same_frame_simps [of c3 ctx'] by (auto simp: recv_wf_def)
          then show ?thesis using Inl c eq by (auto simp: recv_stops_def)
        next
          case (Inr io)
          then show ?thesis using c eq ne by (auto intro!: exI [of _ "k3 @ c"])
        qed
      qed
    qed
  qed
qed

end

section \<open>Malformed headers\<close>

text \<open>What RFC 6455 forbids in the first bytes of a frame: a control frame that is fragmented or longer
  than 125 bytes, a length field that is not the shortest one, a length with its top bit set.\<close>

definition bad_header :: "byte list \<Rightarrow> bool" where
  "bad_header v \<longleftrightarrow>
     (let opcode = unat (v ! 0) mod 16; fin = (128 \<le> unat (v ! 0)); code = unat (v ! 1) mod 128
      in 8 \<le> opcode \<and> (125 < code \<or> \<not> fin) \<or>
         code = 126 \<and> be_value (take 2 (drop 2 v)) < 126 \<or>
         code = 127 \<and> (be_value (take 8 (drop 2 v)) < 2 ^ 16 \<or> 2 ^ 63 \<le> be_value (take 8 (drop 2 v))))"

lemma recv_err: "fst (wslay_recv cbs ctx w) \<in> {None, Some WSLAY_ERR_WANT_READ}"
  by (auto simp: wslay_recv_def Let_def split: prod.splits)

lemma fill_err: "fst (wslay_frame_fill cbs ctx w) \<in> {None, Some WSLAY_ERR_WANT_READ}"
  using recv_err [of cbs ctx w] by (auto simp: wslay_frame_fill_def split: prod.splits option.splits)

lemma maskkey_err: "fst (wslay_frame_block RECV_MASKKEY wslay_frame_parse_maskkey cbs ctx w) \<in> {None, Some WSLAY_ERR_WANT_READ}"
  using fill_err [of cbs ctx w]
  by (auto simp: wslay_frame_block_def wslay_frame_parse_maskkey_def split: prod.splits option.splits)

lemma recv_payload_err: "fst (wslay_frame_recv_payload cbs ctx w) \<noteq> Inl WSLAY_ERR_PROTO"
  using recv_err [of cbs ctx w] by (auto simp: wslay_frame_recv_payload_def split: prod.splits option.splits if_splits)

lemma parse_header1_proto:
  assumes "fc_inv ctx" "2 \<le> WSLAY_AVAIL_IBUF ctx"
  shows "fst (wslay_frame_parse_header1 ctx) = Some WSLAY_ERR_PROTO \<longleftrightarrow>
     8 \<le> unat (window ctx ! 0) mod 16 \<and> (125 < unat (window ctx ! 1) mod 128 \<or> unat (window ctx ! 0) < 128)"
  using window_nth [OF assms(1), of 0] window_nth [OF assms(1), of 1] assms(2)
  by (simp add: wslay_frame_parse_header1_def Let_def ctrl_byte byte_ge word_less_nat_alt unat_and_low)

lemma parse_header1_next:
  assumes "fc_inv ctx" "2 \<le> WSLAY_AVAIL_IBUF ctx" "wslay_frame_parse_header1 ctx = (None, c)"
  shows "fc_inv c" "window c = drop 2 (window ctx)"
    "fc_istate c = RECV_EXT_PAYLOADLEN \<longleftrightarrow> 126 \<le> unat (window ctx ! 1) mod 128"
    "126 \<le> unat (window ctx ! 1) mod 128 \<Longrightarrow> fc_ireqread c = (if unat (window ctx ! 1) mod 128 = 126 then 2 else 8)"
proof -
  let ?b = "window ctx ! 1"
  have b1: "fc_ibuf ctx ! Suc (fc_ibufmark ctx) = ?b" using window_nth [OF assms(1), of 1] assms(2) by simp
  have code: "?b AND 0x7f = 126 \<longleftrightarrow> unat ?b mod 128 = 126" "?b AND 0x7f = 127 \<longleftrightarrow> unat ?b mod 128 = 127"
    by (simp_all add: word_unat_eq_iff unat_and_low)
  have adv: "fc_ibuf c = fc_ibuf ctx" "fc_ibufmark c = fc_ibufmark ctx + 2" "fc_ibuflimit c = fc_ibuflimit ctx"
    using assms(3) by (auto simp: parse_defs Let_def split: if_splits)
  show "fc_inv c" "window c = drop 2 (window ctx)" using window_advance [OF assms(1,2) adv] by auto
  have "unat ?b mod 128 < 128" by simp
  then have two: "126 \<le> unat ?b mod 128 \<longleftrightarrow> unat ?b mod 128 = 126 \<or> unat ?b mod 128 = 127" by linarith
  show "fc_istate c = RECV_EXT_PAYLOADLEN \<longleftrightarrow> 126 \<le> unat ?b mod 128"
    using assms(3) unfolding two parse_defs Let_def Suc_eq_plus1 [symmetric] b1 code by (auto split: if_splits)
  assume "126 \<le> unat ?b mod 128"
  then show "fc_ireqread c = (if unat ?b mod 128 = 126 then 2 else 8)"
    using assms(3) unfolding two parse_defs Let_def Suc_eq_plus1 [symmetric] b1 code by (auto split: if_splits)
qed

lemma parse_ext_proto:
  assumes "fc_inv ctx" "fc_ireqread ctx \<le> WSLAY_AVAIL_IBUF ctx" "fc_ireqread ctx \<in> {2, 8}"
  shows "fst (wslay_frame_parse_ext ctx) = Some WSLAY_ERR_PROTO \<longleftrightarrow>
    (if fc_ireqread ctx = 2 then be_value (take 2 (window ctx)) < 126
     else be_value (take 8 (window ctx)) < 2 ^ 16 \<or> 2 ^ 63 \<le> be_value (take 8 (window ctx)))"
proof -
  let ?n = "fc_ireqread ctx"
  define len where
    "len = be64toh_bytes (replicate (8 - ?n) 0 @ arr_slice (fc_ibuf ctx) (fc_ibufmark ctx) (fc_ibufmark ctx + ?n))"
  have len: "unat len = be_value (take ?n (window ctx))"
    unfolding len_def window_field [OF assms(1,2)] be64toh_zeros by (rule be64toh_value) (use assms(3) in auto)
  show ?thesis
    using assms(3) len unfolding wslay_frame_parse_ext_def Let_def len_def [symmetric] top_bit
    by (elim insertE) (auto simp: word_less_nat_alt)
qed

lemma block_ready:
  assumes "fc_istate ctx = st" "fc_ireqread ctx \<le> WSLAY_AVAIL_IBUF ctx"
  shows "wslay_frame_block st parse cbs ctx w = (case parse ctx of (e, ctx') \<Rightarrow> (e, ctx', w))"
  using assms by (simp add: wslay_frame_block_def wslay_frame_fill_def)

lemma after_ext_proto:
  "fst (case wslay_frame_block RECV_MASKKEY wslay_frame_parse_maskkey cbs c w of
        (Some e, ctx3, w3) \<Rightarrow> (Inl e, ctx3, w3)
      | (None, ctx3, w3) \<Rightarrow>
          if fc_istate ctx3 = RECV_PAYLOAD then wslay_frame_recv_payload cbs ctx3 w3
          else (Inl WSLAY_ERR_INVALID_ARGUMENT, ctx3, w3)) \<noteq> Inl WSLAY_ERR_PROTO"
  using maskkey_err [of cbs c w] by (auto simp: recv_payload_err split: prod.splits option.splits)

end
