(* ===== verification/Wslay_Event_App.thy ===== *)
theory Wslay_Event_App
  imports Wslay_Event_Inbox Wslay_Frame_Recv
begin

text \<open>
  What \<open>wslay_event_recv\<close> relies on from the application: the interface between the event layer and
  the callbacks, as two locales. \<open>event_app\<close> says that the notifications leave the state of the
  receiver to the library, \<open>event_peer\<close> adds that the receive callback reads from a stream of bytes.
\<close>

section \<open>The part of a context that receives, and the part that sends\<close>

definition recv_part where
  "recv_part ctx = (ec_imsgs ctx, ec_imsg ctx, ec_ipayloadlen ctx, ec_ipayloadoff ctx, ec_config ctx, ec_server ctx,
     ec_max_recv_msg_length ctx, ec_frame_ctx ctx, mem_ok (ec_mem ctx))"

definition send_part where
  "send_part ctx = (ec_send_queue ctx, ec_send_ctrl_queue ctx, ec_queued_msg_count ctx, ec_queued_msg_length ctx,
     ec_close_status ctx, ec_read_enabled ctx, ec_write_enabled ctx, ec_status_code_recv ctx)"

lemma recv_part_simps:
  assumes "recv_part ctx' = recv_part ctx"
  shows "imsg_get ctx' = imsg_get ctx" "ec_imsgs ctx' = ec_imsgs ctx" "ec_imsg ctx' = ec_imsg ctx" "ec_ipayloadlen ctx' = ec_ipayloadlen ctx"
    "ec_ipayloadoff ctx' = ec_ipayloadoff ctx" "ec_config ctx' = ec_config ctx" "ec_server ctx' = ec_server ctx"
    "ec_max_recv_msg_length ctx' = ec_max_recv_msg_length ctx" "ec_frame_ctx ctx' = ec_frame_ctx ctx"
    "buffered io ctx' = buffered io ctx" "mem_ok (ec_mem ctx') = mem_ok (ec_mem ctx)"
  using assms by (simp_all add: recv_part_def imsg_get_def buffered_def wslay_event_config_get_no_buffering_def)

lemma send_part_simps:
  assumes "send_part ctx' = send_part ctx"
  shows "outbox_of ctx' = outbox_of ctx" "outbox_inv ctx' = outbox_inv ctx" "ec_read_enabled ctx' = ec_read_enabled ctx"
    "ec_close_status ctx' = ec_close_status ctx" "ec_status_code_recv ctx' = ec_status_code_recv ctx"
  using assms by (simp_all add: send_part_def outbox_of_def outbox_inv_def wslay_event_is_msg_queueable_def)

lemma recv_part_upd [simp]:
  "mem_ok m = mem_ok (ec_mem ctx) \<Longrightarrow> recv_part (ctx\<lparr>ec_mem := m\<rparr>) = recv_part ctx" "recv_part (ctx\<lparr>ec_send_queue := q\<rparr>) = recv_part ctx"
  "recv_part (ctx\<lparr>ec_send_ctrl_queue := q\<rparr>) = recv_part ctx" "recv_part (ctx\<lparr>ec_queued_msg_count := n\<rparr>) = recv_part ctx"
  "recv_part (ctx\<lparr>ec_queued_msg_length := n\<rparr>) = recv_part ctx" "recv_part (ctx\<lparr>ec_close_status := cs\<rparr>) = recv_part ctx"
  "recv_part (ctx\<lparr>ec_read_enabled := b\<rparr>) = recv_part ctx" "recv_part (ctx\<lparr>ec_error := e\<rparr>) = recv_part ctx"
  "recv_part (ctx\<lparr>ec_status_code_recv := c\<rparr>) = recv_part ctx" "recv_part (ctx\<lparr>ec_user_data := u\<rparr>) = recv_part ctx"
  by (simp_all add: recv_part_def)

lemma send_part_upd [simp]:
  "send_part (ctx\<lparr>ec_mem := m\<rparr>) = send_part ctx" "send_part (ctx\<lparr>ec_imsgs := ms\<rparr>) = send_part ctx"
  "send_part (ctx\<lparr>ec_imsg := s\<rparr>) = send_part ctx" "send_part (ctx\<lparr>ec_ipayloadlen := l\<rparr>) = send_part ctx"
  "send_part (ctx\<lparr>ec_ipayloadoff := l\<rparr>) = send_part ctx" "send_part (ctx\<lparr>ec_error := e\<rparr>) = send_part ctx"
  "send_part (ctx\<lparr>ec_frame_ctx := f\<rparr>) = send_part ctx" "send_part (ctx\<lparr>ec_user_data := u\<rparr>) = send_part ctx"
  "send_part (imsg_put m' ctx) = send_part ctx"
  by (simp_all add: send_part_def imsg_put_def)

lemma imsg_put_simps [simp]:
  "imsg_get (imsg_put m ctx) = m" "ec_imsg (imsg_put m ctx) = ec_imsg ctx" "ec_ipayloadlen (imsg_put m ctx) = ec_ipayloadlen ctx"
  "ec_ipayloadoff (imsg_put m ctx) = ec_ipayloadoff ctx" "buffered io (imsg_put m ctx) = buffered io ctx"
  "ec_server (imsg_put m ctx) = ec_server ctx" "ec_config (imsg_put m ctx) = ec_config ctx"
  "ec_max_recv_msg_length (imsg_put m ctx) = ec_max_recv_msg_length ctx" "ec_frame_ctx (imsg_put m ctx) = ec_frame_ctx ctx"
  "ec_mem (imsg_put m ctx) = ec_mem ctx" "ec_user_data (imsg_put m ctx) = ec_user_data ctx"
  "ec_read_enabled (imsg_put m ctx) = ec_read_enabled ctx" "ec_error (imsg_put m ctx) = ec_error ctx"
  by (simp_all add: imsg_put_def imsg_get_def buffered_def wslay_event_config_get_no_buffering_def)

section \<open>Queueing does not touch the receiver\<close>

lemma omsg_new_mem [simp]:
  "mem_ok (snd (wslay_event_omsg_non_fragmented_new mem op msg len)) = mem_ok mem"
  "mem_ok (snd (wslay_event_omsg_fragmented_new mem op src cb)) = mem_ok mem"
  by (simp_all add: wslay_event_omsg_non_fragmented_new_def wslay_event_omsg_fragmented_new_def mem_alloc_def Let_def)

lemma push_omsg_keeps [simp]:
  "recv_part (snd (push_omsg c m ctx)) = recv_part ctx" "ec_user_data (snd (push_omsg c m ctx)) = ec_user_data ctx"
  by (simp_all add: push_omsg_def ctx_alloc_def case_prod_unfold mem_alloc_def)

lemma queue_msg_keeps [simp]:
  "recv_part (snd (wslay_event_queue_msg ctx arg)) = recv_part ctx"
  "ec_user_data (snd (wslay_event_queue_msg ctx arg)) = ec_user_data ctx"
  by (simp_all add: wslay_event_queue_msg_def case_prod_unfold prod.case_distrib split: option.split)

lemma queue_fragmented_msg_keeps [simp]:
  "recv_part (snd (wslay_event_queue_fragmented_msg ctx farg)) = recv_part ctx"
  "ec_user_data (snd (wslay_event_queue_fragmented_msg ctx farg)) = ec_user_data ctx"
  by (simp_all add: wslay_event_queue_fragmented_msg_def case_prod_unfold prod.case_distrib split: option.split)

lemma queue_close_keeps [simp]:
  "recv_part (snd (wslay_event_queue_close ctx code reason)) = recv_part ctx"
  "ec_user_data (snd (wslay_event_queue_close ctx code reason)) = ec_user_data ctx"
  by (simp_all add: wslay_event_queue_close_def Let_def case_prod_unfold)

lemma close_wrapper_keeps [simp]:
  "recv_part (snd (wslay_event_queue_close_wrapper ctx code reason)) = recv_part ctx"
  "ec_user_data (snd (wslay_event_queue_close_wrapper ctx code reason)) = ec_user_data ctx"
  by (simp_all add: wslay_event_queue_close_wrapper_def case_prod_unfold)

section \<open>The frame layer touches the world through the receive callback only\<close>

lemma frame_recv_world:
  assumes keeps: "\<And>len fl w r ds w'. recv_callback cbs len fl w = (r, ds, w') \<Longrightarrow> g w' = g w"
  shows "wslay_frame_recv cbs ctx w = (res, ctx', w') \<Longrightarrow> g w' = g w"
proof -
  have recv: "g (snd (snd (wslay_recv cbs c v))) = g v" for c v
    using keeps unfolding wslay_recv_def Let_def by (auto split: prod.split)
  have fill: "g (snd (snd (wslay_frame_fill cbs c v))) = g v" for c v
    using recv [of c v] unfolding wslay_frame_fill_def by (auto split: prod.splits option.splits)
  have block: "g (snd (snd (wslay_frame_block st p cbs c v))) = g v" for st p c v
    using fill [of c v] unfolding wslay_frame_block_def by (auto split: prod.splits option.splits)
  have payload: "g (snd (snd (wslay_frame_recv_payload cbs c v))) = g v" for c v
    using recv [of c v] unfolding wslay_frame_recv_payload_def by (auto split: prod.splits option.splits)
  have "g (snd (snd (wslay_frame_recv cbs ctx w))) = g w"
    unfolding wslay_frame_recv_def by (simp add: case_prod_unfold block payload split: option.split)
  then show "wslay_frame_recv cbs ctx w = (res, ctx', w') \<Longrightarrow> g w' = g w" by simp
qed

section \<open>The interfaces\<close>

text \<open>The notifications use the public functions only, so they leave the receiving part of the
  context alone.\<close>

locale event_app =
  fixes cbs :: "'u wslay_event_context wslay_event_callbacks"
  assumes start_keeps: "ev_on_frame_recv_start_callback cbs = Some f \<Longrightarrow> recv_part (f a ctx) = recv_part ctx"
    and chunk_keeps: "ev_on_frame_recv_chunk_callback cbs = Some g \<Longrightarrow> recv_part (g b ctx) = recv_part ctx"
    and end_keeps: "ev_on_frame_recv_end_callback cbs = Some h \<Longrightarrow> recv_part (h ctx) = recv_part ctx"
    and msg_keeps: "ev_on_msg_recv_callback cbs = Some k \<Longrightarrow> recv_part (k c ctx) = recv_part ctx"
begin

lemma calls_keep:
  "recv_part (wslay_event_call_on_frame_recv_start_callback cbs io ctx) = recv_part ctx"
  "recv_part (wslay_event_call_on_frame_recv_chunk_callback cbs io ctx) = recv_part ctx"
  "recv_part (wslay_event_call_on_frame_recv_end_callback cbs ctx) = recv_part ctx"
  "recv_part (call_on_msg_recv cbs msg len code ctx) = recv_part ctx"
  by (auto simp: wslay_event_call_on_frame_recv_start_callback_def wslay_event_call_on_frame_recv_chunk_callback_def
      wslay_event_call_on_frame_recv_end_callback_def call_on_msg_recv_def start_keeps chunk_keeps end_keeps msg_keeps
      split: option.split)

end

text \<open>The application's data holds the connection, \<open>stream\<close> the bytes the peer sent and nobody read. The receive
  callback takes bytes from it and touches nothing else but the error code; no notification reads it. The
  notifications about frames (not the one about messages) queue nothing.\<close>

definition quiet :: "('u \<Rightarrow> byte list) \<Rightarrow> ('u \<Rightarrow> bool) \<Rightarrow> 'u wslay_event_context \<Rightarrow> 'u wslay_event_context \<Rightarrow> bool" where
  "quiet stream ok ctx ctx' \<longleftrightarrow> stream (ec_user_data ctx') = stream (ec_user_data ctx) \<and>
     (ok (ec_user_data ctx) \<longrightarrow> ok (ec_user_data ctx'))"

locale event_peer = event_app cbs + src: byte_source "event_frame_callbacks cbs" "\<lambda>c. stream (ec_user_data c)" "\<lambda>c. ok (ec_user_data c)"
  for cbs :: "'u wslay_event_context wslay_event_callbacks" and stream :: "'u \<Rightarrow> byte list" and ok :: "'u \<Rightarrow> bool" +
  assumes recv_keeps: "ev_recv_callback cbs len fl ctx = (r, ds, ctx') \<Longrightarrow> recv_part ctx' = recv_part ctx \<and> send_part ctx' = send_part ctx"
    and start_quiet: "ev_on_frame_recv_start_callback cbs = Some f \<Longrightarrow> quiet stream ok ctx (f a ctx) \<and> send_part (f a ctx) = send_part ctx"
    and chunk_quiet: "ev_on_frame_recv_chunk_callback cbs = Some g \<Longrightarrow> quiet stream ok ctx (g b ctx) \<and> send_part (g b ctx) = send_part ctx"
    and end_quiet: "ev_on_frame_recv_end_callback cbs = Some h \<Longrightarrow> quiet stream ok ctx (h ctx) \<and> send_part (h ctx) = send_part ctx"
    and msg_quiet: "ev_on_msg_recv_callback cbs = Some k \<Longrightarrow> quiet stream ok ctx (k c ctx)"
begin

lemma frame_recv_keeps:
  "wslay_frame_recv (event_frame_callbacks cbs) fctx ctx = (res, fctx', ctx') \<Longrightarrow> recv_part ctx' = recv_part ctx \<and> send_part ctx' = send_part ctx"
  using frame_recv_world [where cbs = "event_frame_callbacks cbs" and g = "\<lambda>c. (recv_part c, send_part c)"] recv_keeps
  by (simp add: event_frame_callbacks_def wslay_event_frame_recv_callback_def)

end

end
