(* ===== verification/Wslay_Event_Assembly.thy ===== *)
theory Wslay_Event_Assembly
  imports Wslay_Event_App
begin

text \<open>
  The receive loop on the frames of a message, block by block: in the middle of a message the loop
  stores the bytes that arrive, and at its end it hands the whole message to the application.
\<close>

section \<open>UTF-8 across chunks\<close>

lemma utf8_scan_run: "s \<in> utf8_states \<Longrightarrow> utf8_scan s bs = utf8_states_run s bs"
proof (induction bs arbitrary: s)
  case (Cons b bs)
  have d: "fst (decode s 0 (ucast b)) = utf8_delta s (unat b)" by (rule decode_state [OF Cons.prems])
  have "utf8_delta s (unat b) \<in> utf8_states" using Cons.prems by (simp add: utf8_delta_states)
  then show ?case using Cons.IH by (simp add: d Let_def utf8_reject_stuck)
qed simp

lemma utf8_states_run_0: "utf8_states_run 0 bs \<in> utf8_states"
  using utf8_run_states [of 0 0 bs] utf8_run_state [of 0 0 bs] by (simp add: utf8_states_def)

lemma utf8_text_run: "utf8_states_run 0 bs = 0 \<longleftrightarrow> utf8_text bs"
  using utf8_accepted_texts [of bs] by (auto simp: utf8_text_def utf8_texts_accepted)

text \<open>The state of the automaton that a message with opcode \<open>op\<close> has after the bytes \<open>bs\<close>.\<close>

definition utf8_after :: "byte \<Rightarrow> byte list \<Rightarrow> uint32" where
  "utf8_after op bs = (if op = WSLAY_TEXT_FRAME then utf8_states_run 0 bs else UTF8_ACCEPT)"

section \<open>A message under construction\<close>

definition msg_size :: "nat \<Rightarrow> nat \<Rightarrow> byte list \<Rightarrow> nat" where
  "msg_size len off bs = length bs + (len - off)"

lemma msg_size_step: "off + length ds \<le> len \<Longrightarrow> msg_size len (off + length ds) (bs @ ds) = msg_size len off bs"
  by (simp add: msg_size_def)

text \<open>\<open>msg_chunks s op st len off bs ctx\<close>: slot \<open>s\<close> holds a message with opcode \<open>op\<close> of which \<open>bs\<close> arrived, and
  \<open>off\<close> of the \<open>len\<close> bytes of the frame in progress; \<open>len = 0\<close> is the state between frames; \<open>st\<close> is the state of the
  automaton.\<close>

definition msg_chunks :: "imsg_slot \<Rightarrow> byte \<Rightarrow> uint32 \<Rightarrow> nat \<Rightarrow> nat \<Rightarrow> byte list \<Rightarrow> 'u wslay_event_context \<Rightarrow> bool" where
  "msg_chunks s op st len off bs ctx \<longleftrightarrow>
     ec_imsg ctx = s \<and> ec_ipayloadlen ctx = of_nat len \<and> ec_ipayloadoff ctx = of_nat off \<and> len < 2 ^ 63 \<and>
     off \<le> len \<and> off \<le> length bs \<and>
     (\<exists>q. im_chunks (imsg_get ctx) = Live q \<and> (if off < len then assembling q len off bs else assembled q bs)) \<and>
     im_opcode (imsg_get ctx) = op \<and> im_utf8state (imsg_get ctx) = st \<and>
     im_msg_length (imsg_get ctx) = of_nat (msg_size len off bs) \<and> msg_size len off bs < 2 ^ 64"

lemma msg_chunks_cong:
  assumes "recv_part ctx' = recv_part ctx"
  shows "msg_chunks s op st len off bs ctx' = msg_chunks s op st len off bs ctx"
  by (simp add: msg_chunks_def recv_part_simps [OF assms])

text \<open>\<open>io\<close> carries the bytes \<open>ds\<close> and passes the checks on its header.\<close>

definition piece :: "byte list \<Rightarrow> wslay_frame_iocb \<Rightarrow> 'u wslay_event_context \<Rightarrow> bool" where
  "piece ds io ctx \<longleftrightarrow> iocb_rsv io = 0 \<and> iocb_mask io = ec_server ctx \<and> iocb_data io = ds \<and>
     iocb_data_length io = of_nat (length ds) \<and> length ds < 2 ^ 64 \<and> buffered io ctx"

lemma piece_data: "piece ds io ctx \<Longrightarrow> take (unat (iocb_data_length io)) (iocb_data io) = ds"
  by (simp add: piece_def unat_of_nat)

lemma piece_length: "piece ds io ctx \<Longrightarrow> (0 < iocb_data_length io) = (ds \<noteq> [])"
  by (auto simp: piece_def word_less_nat_alt unat_of_nat)

text \<open>What the blocks leave alone while a message is under construction.\<close>

definition steady :: "('u \<Rightarrow> byte list) \<Rightarrow> ('u \<Rightarrow> bool) \<Rightarrow> 'u wslay_event_context \<Rightarrow> 'u wslay_event_context \<Rightarrow> bool" where
  "steady stream ok ctx ctx' \<longleftrightarrow> ec_server ctx' = ec_server ctx \<and> ec_config ctx' = ec_config ctx \<and>
     ec_max_recv_msg_length ctx' = ec_max_recv_msg_length ctx \<and> ec_frame_ctx ctx' = ec_frame_ctx ctx \<and>
     mem_ok (ec_mem ctx') = mem_ok (ec_mem ctx) \<and>
     ec_imsg ctx' = ec_imsg ctx \<and> im_fin (imsg_get ctx') = im_fin (imsg_get ctx) \<and> im_rsv (imsg_get ctx') = im_rsv (imsg_get ctx) \<and>
     (\<forall>s. s \<noteq> ec_imsg ctx \<longrightarrow> ec_imsgs ctx' s = ec_imsgs ctx s) \<and>
     send_part ctx' = send_part ctx \<and> quiet stream ok ctx ctx'"

lemma steady_refl: "steady stream ok ctx ctx"
  by (simp add: steady_def quiet_def)

lemma steady_trans [trans]: "steady stream ok a b \<Longrightarrow> steady stream ok b c \<Longrightarrow> steady stream ok a c"
  by (simp add: steady_def quiet_def)

lemma steady_part: "recv_part ctx' = recv_part ctx \<Longrightarrow> send_part ctx' = send_part ctx \<Longrightarrow> quiet stream ok ctx ctx' \<Longrightarrow> steady stream ok ctx ctx'"
  unfolding steady_def by (frule recv_part_simps(1)) (simp add: recv_part_def)

lemma steady_piece: "steady stream ok ctx ctx' \<Longrightarrow> piece ds io ctx' = piece ds io ctx"
  by (simp add: steady_def piece_def buffered_def wslay_event_config_get_no_buffering_def)

lemma steady_put: "im_fin m = im_fin (imsg_get ctx) \<Longrightarrow> im_rsv m = im_rsv (imsg_get ctx) \<Longrightarrow> steady stream ok ctx (imsg_put m ctx)"
  by (simp add: steady_def quiet_def) (simp add: imsg_put_def)

lemma recv_utf8_piece:
  assumes "msg_chunks s op (utf8_after op bs) len off bs ctx" "piece ds io ctx" "ds \<noteq> [] \<or> utf8_after op bs \<noteq> UTF8_REJECT"
    and "op \<noteq> WSLAY_CONNECTION_CLOSE"
  shows "\<exists>ctx1. recv_utf8 io ctx =
      (if utf8_after op (bs @ ds) = UTF8_REJECT then close_and_break WSLAY_CODE_INVALID_FRAME_PAYLOAD_DATA ctx1 else (Go, ctx1)) \<and>
    msg_chunks s op (utf8_after op (bs @ ds)) len off bs ctx1 \<and> steady stream ok ctx ctx1"
proof -
  have op: "im_opcode (imsg_get ctx) = op" "im_utf8state (imsg_get ctx) = utf8_after op bs"
    using assms(1) by (auto simp: msg_chunks_def)
  have scan: "op = WSLAY_TEXT_FRAME \<Longrightarrow> utf8_scan (im_utf8state (imsg_get ctx)) ds = utf8_after op (bs @ ds)"
    using op(2) utf8_scan_run [OF utf8_states_run_0, of bs ds] by (simp add: utf8_after_def)
  have part: "imsg_get (snd (wslay_event_queue_close_wrapper c code [])) = imsg_get c" for c :: "'a wslay_event_context" and code
    by (rule recv_part_simps(1) [OF close_wrapper_keeps(1)])
  define c1 where "c1 = (if op = WSLAY_TEXT_FRAME then imsg_put ((imsg_get ctx)\<lparr>im_utf8state := utf8_after op (bs @ ds)\<rparr>) ctx else ctx)"
  have "msg_chunks s op (utf8_after op (bs @ ds)) len off bs c1" "steady stream ok ctx c1"
    using assms(1) by (auto simp: c1_def msg_chunks_def utf8_after_def steady_put steady_refl)
  moreover have "recv_utf8 io ctx =
      (if utf8_after op (bs @ ds) = UTF8_REJECT then close_and_break WSLAY_CODE_INVALID_FRAME_PAYLOAD_DATA c1 else (Go, c1))"
    using op scan assms(3,4) part [of _ WSLAY_CODE_INVALID_FRAME_PAYLOAD_DATA]
    unfolding recv_utf8_def Let_def piece_data [OF assms(2)] close_and_break_def c1_def
    by (auto simp: utf8_after_def andthen_def case_prod_unfold)
  ultimately show ?thesis by blast
qed

text \<open>What the application is told of a message, and the context after its callback returned.\<close>

definition recv_arg :: "byte \<Rightarrow> byte \<Rightarrow> byte list \<Rightarrow> wslay_event_on_msg_recv_arg" where
  "recv_arg rsv op bs = \<lparr>mr_rsv = rsv, mr_opcode = op, mr_msg = (if bs = [] then None else Some bs),
     mr_msg_length = of_nat (length bs), mr_status_code = 0\<rparr>"

definition forget_msg :: "'u wslay_event_context \<Rightarrow> 'u wslay_event_context" where
  "forget_msg ctx = (imsg_put ((imsg_get ctx)\<lparr>im_opcode := 0xff, im_utf8state := UTF8_ACCEPT, im_chunks := Freed\<rparr>) ctx)
     \<lparr>ec_imsg := Imsg0, ec_ipayloadlen := 0, ec_ipayloadoff := 0\<rparr>"

text \<open>\<open>msg\<close>, the flattened payload: \<open>NULL\<close> if it is empty.\<close>

definition payload_ptr :: "byte list \<Rightarrow> byte list option" where
  "payload_ptr bs = (if bs = [] then None else Some bs)"

lemma recv_dispatch_keeps:
  assumes "recv_dispatch msg ctx = (s, code, ctx')"
  shows "recv_part ctx' = recv_part ctx" "ec_user_data ctx' = ec_user_data ctx"
proof -
  have "recv_part (snd (snd (recv_dispatch msg ctx))) = recv_part ctx \<and> ec_user_data (snd (snd (recv_dispatch msg ctx))) = ec_user_data ctx"
    by (simp add: recv_dispatch_def recv_close_def recv_ping_def close_and_break_def Let_def case_prod_unfold split: option.split)
  then show "recv_part ctx' = recv_part ctx" "ec_user_data ctx' = ec_user_data ctx" using assms by simp_all
qed

text \<open>The blocks after classification: UTF-8, storing, the end of the frame.\<close>

definition recv_rest ::
    "'u wslay_event_context wslay_event_callbacks \<Rightarrow> wslay_frame_iocb \<Rightarrow> 'u wslay_event_context \<Rightarrow> step \<times> 'u wslay_event_context" where
  "recv_rest cbs io ctx =
     andthen (recv_utf8 io ctx) (\<lambda>ctx4. andthen (recv_store cbs io ctx4) (\<lambda>ctx5. recv_finish_frame cbs io ctx5))"

section \<open>The blocks\<close>

context event_peer begin

lemma calls_steady:
  "steady stream ok ctx (wslay_event_call_on_frame_recv_start_callback cbs io ctx)"
  "steady stream ok ctx (wslay_event_call_on_frame_recv_chunk_callback cbs io ctx)"
  "steady stream ok ctx (wslay_event_call_on_frame_recv_end_callback cbs ctx)"
proof -
  have "quiet stream ok ctx ctx" by (simp add: quiet_def)
  then show "steady stream ok ctx (wslay_event_call_on_frame_recv_start_callback cbs io ctx)"
    using calls_keep(1) [of io ctx] start_quiet
    by (intro steady_part) (auto simp: wslay_event_call_on_frame_recv_start_callback_def split: option.split)
  show "steady stream ok ctx (wslay_event_call_on_frame_recv_chunk_callback cbs io ctx)"
    using calls_keep(2) [of io ctx] chunk_quiet \<open>quiet stream ok ctx ctx\<close>
    by (intro steady_part) (auto simp: wslay_event_call_on_frame_recv_chunk_callback_def split: option.split)
  show "steady stream ok ctx (wslay_event_call_on_frame_recv_end_callback cbs ctx)"
    using calls_keep(3) [of ctx] end_quiet \<open>quiet stream ok ctx ctx\<close>
    by (intro steady_part) (auto simp: wslay_event_call_on_frame_recv_end_callback_def split: option.split)
qed

lemma recv_store_piece:
  assumes "msg_chunks s op st len off bs ctx" "piece ds io ctx" "off + length ds \<le> len"
  shows "\<exists>ctx'. recv_store cbs io ctx = (Go, ctx') \<and> msg_chunks s op st len (off + length ds) (bs @ ds) ctx' \<and> steady stream ok ctx ctx'"
proof -
  define c1 where "c1 = wslay_event_call_on_frame_recv_chunk_callback cbs io ctx"
  have part: "recv_part c1 = recv_part ctx" and sc1: "steady stream ok ctx c1" by (simp_all add: c1_def calls_keep calls_steady)
  have c1: "msg_chunks s op st len off bs c1" "buffered io c1"
    using assms msg_chunks_cong [OF part] recv_part_simps(10) [OF part] by (simp_all add: piece_def)
  note u = recv_store_def [of cbs io ctx, unfolded Let_def c1_def [symmetric] piece_data [OF assms(2)] piece_length [OF assms(2)]]
  show ?thesis
  proof (cases "ds = []")
    case True
    then show ?thesis using u c1 sc1 by simp
  next
    case False
    then have lt: "off < len" using assms(3) by (cases ds) auto
    obtain q where q: "im_chunks (imsg_get c1) = Live q" "assembling q len off bs" and off: "ec_ipayloadoff c1 = of_nat off" "len < 2 ^ 63"
      using c1(1) lt by (auto simp: msg_chunks_def)
    have uo: "unat (of_nat off :: uint64) = off" using lt off(2) by (simp add: unat_of_nat)
    obtain q' where q': "store_chunk (of_nat off) ds (imsg_get c1) = Inr ((imsg_get c1)\<lparr>im_chunks := Live q'\<rparr>)"
        "assembling q' len (off + length ds) (bs @ ds)"
      using store_chunk [of "imsg_get c1" q len "of_nat off" bs ds] q assms(3) unfolding uo by blast
    define c2 where "c2 = imsg_put ((imsg_get c1)\<lparr>im_chunks := Live q'\<rparr>) c1"
    define c3 where "c3 = c2\<lparr>ec_ipayloadoff := ec_ipayloadoff c2 + iocb_data_length io\<rparr>"
    have "recv_store cbs io ctx = (Go, c3)" using u False c1(2) q'(1) off by (simp add: c2_def c3_def)
    moreover have c3: "ec_ipayloadoff c3 = of_nat (off + length ds)" "imsg_get c3 = (imsg_get c1)\<lparr>im_chunks := Live q'\<rparr>"
        "ec_imsg c3 = ec_imsg c1" "ec_ipayloadlen c3 = ec_ipayloadlen c1"
      using off(1) assms(2) by (simp_all add: c3_def c2_def imsg_put_def imsg_get_def piece_def)
    moreover from this have "msg_chunks s op st len (off + length ds) (bs @ ds) c3"
      using c1(1) q' assms(3) lt assembling_complete [of q' len "bs @ ds"] by (auto simp: msg_chunks_def msg_size_step)
    moreover have "steady stream ok c1 c3"
      using c3 by (simp add: steady_def c3_def c2_def imsg_put_def quiet_def)
    ultimately show ?thesis using sc1 steady_trans by blast
  qed
qed

lemma finish_frame_more:
  assumes "msg_chunks s op st len len bs ctx" "im_fin (imsg_get ctx) = 0"
  shows "\<exists>ctx'. recv_finish_frame cbs io ctx = (Go, ctx') \<and> msg_chunks s op st 0 0 bs ctx' \<and> steady stream ok ctx ctx'"
proof -
  define c1 where "c1 = wslay_event_call_on_frame_recv_end_callback cbs ctx"
  have part: "recv_part c1 = recv_part ctx" and sc1: "steady stream ok ctx c1" by (simp_all add: c1_def calls_keep calls_steady)
  note simps = recv_part_simps [OF part]
  define c2 where "c2 = c1\<lparr>ec_ipayloadlen := 0, ec_ipayloadoff := 0\<rparr>"
  have "imsg_get c2 = imsg_get c1" "ec_imsg c2 = ec_imsg c1" by (simp_all add: c2_def imsg_get_def)
  moreover from this have "steady stream ok c1 c2" by (simp add: steady_def c2_def quiet_def)
  moreover from calculation have "msg_chunks s op st 0 0 bs c2"
    using assms(1) simps by (auto simp: msg_chunks_def c2_def msg_size_def)
  moreover have "recv_finish_frame cbs io ctx = (Go, c2)"
    using assms simps by (simp add: recv_finish_frame_def Let_def c1_def [symmetric] c2_def andthen_def msg_chunks_def)
  ultimately show ?thesis using sc1 steady_trans by blast
qed

text \<open>The last frame of a message of any kind: the whole payload goes through \<open>recv_dispatch\<close> and to the application,
  then the slot is free.\<close>

lemma finish_frame_dispatch:
  assumes m: "msg_chunks s op st len len bs ctx" "im_fin (imsg_get ctx) \<noteq> 0" "buffered io ctx"
    and op: "op = WSLAY_TEXT_FRAME \<or> op = WSLAY_CONNECTION_CLOSE \<longrightarrow> st = UTF8_ACCEPT"
      "ev_on_msg_recv_callback cbs \<noteq> None \<or> op = WSLAY_CONNECTION_CLOSE \<or> op = WSLAY_PING"
    and mem: "\<And>n. mem_ok (ec_mem ctx) n"
  shows "\<exists>c. steady stream ok ctx c \<and> im_opcode (imsg_get c) = op \<and> im_msg_length (imsg_get c) = of_nat (length bs) \<and>
    recv_finish_frame cbs io ctx =
      (case recv_dispatch (payload_ptr bs) c of
         (s', code, c') \<Rightarrow> andthen (s', c') (\<lambda>c'. (Go, forget_msg (call_on_msg_recv cbs (payload_ptr bs) (of_nat (length bs)) code c'))))"
proof -
  define c1 where "c1 = wslay_event_call_on_frame_recv_end_callback cbs ctx"
  have part: "recv_part c1 = recv_part ctx" and sc1: "steady stream ok ctx c1" by (simp_all add: c1_def calls_keep calls_steady)
  note simps = recv_part_simps [OF part]
  obtain q where q: "im_chunks (imsg_get ctx) = Live q" "assembled q bs" and
      len: "im_msg_length (imsg_get ctx) = of_nat (length bs)" "length bs < 2 ^ 64" "im_opcode (imsg_get ctx) = op" "im_utf8state (imsg_get ctx) = st"
    using m(1) by (auto simp: msg_chunks_def msg_size_def)
  have ul: "unat (of_nat (length bs) :: uint64) = length bs" using len(2) by (simp add: unat_of_nat)
  obtain q' mem' where fl: "wslay_event_flatten_queue (ec_mem c1) (Live q) (of_nat (length bs)) = Some (Inr (payload_ptr bs, Live q', mem'))"
      "mem_ok mem' = mem_ok (ec_mem c1)"
    using flatten_queue [OF q(2) ul, of "ec_mem c1"] mem simps(11) by (auto simp: payload_ptr_def)
  define c2 where "c2 = imsg_put ((imsg_get ctx)\<lparr>im_chunks := Live q'\<rparr>) (c1\<lparr>ec_mem := mem'\<rparr>)"
  have c2: "imsg_get c2 = (imsg_get ctx)\<lparr>im_chunks := Live q'\<rparr>" "ec_imsg c2 = ec_imsg ctx"
    using simps by (simp_all add: c2_def)
  have sc2: "steady stream ok c1 c2"
    using simps fl(2) by (simp add: steady_def quiet_def c2_def imsg_put_def imsg_get_def)
  obtain s' code c3 where d: "recv_dispatch (payload_ptr bs) c2 = (s', code, c3)" by (metis prod_cases3)
  define c4 where "c4 = call_on_msg_recv cbs (payload_ptr bs) (of_nat (length bs)) code c3"
  have "recv_part c4 = recv_part c2" using recv_dispatch_keeps(1) [OF d] by (simp add: c4_def calls_keep)
  note g4 = recv_part_simps(1,3) [OF this, unfolded c2]
  have z: "(of_nat (length bs) :: uint64) = 0 \<longleftrightarrow> bs = []" unfolding word_unat_eq_iff ul by simp
  have deliver: "recv_deliver cbs io c1 = andthen (s', c3) (\<lambda>c'. (Go, call_on_msg_recv cbs (payload_ptr bs) (of_nat (length bs)) code c'))"
    using simps m(3) fl(1) q len c2 z d
    by (simp add: recv_deliver_def Let_def c2_def [symmetric] payload_ptr_def)
  have fm: "recv_finish_msg cbs io c1 = andthen (s', c3) (\<lambda>c'. (Go,
      (imsg_put ((imsg_get c4)\<lparr>im_opcode := 0xff, im_utf8state := UTF8_ACCEPT, im_chunks := Freed\<rparr>) c4)\<lparr>ec_imsg := Imsg0\<rparr>))"
    using deliver op(2) g4 len simps
    by (cases s'; cases "ec_imsg ctx")
      (simp_all add: recv_finish_msg_def andthen_def wslay_event_imsg_reset_def Let_def imsg_put_def c4_def [symmetric])
  have "recv_finish_frame cbs io ctx = andthen (s', c3) (\<lambda>c'. (Go, forget_msg c4))"
    using m op simps len fm
    by (cases s') (auto simp: recv_finish_frame_def Let_def c1_def [symmetric] andthen_def forget_msg_def msg_chunks_def)
  moreover have "im_opcode (imsg_get c2) = op" "im_msg_length (imsg_get c2) = of_nat (length bs)" using c2 len by simp_all
  ultimately show ?thesis
    using steady_trans [OF sc1 sc2] d by (intro exI [of _ c2]) (cases s'; simp add: c4_def andthen_def)
qed

lemma finish_frame_last:
  assumes m: "msg_chunks s op st len len bs ctx" "im_fin (imsg_get ctx) \<noteq> 0" "buffered io ctx"
    and op: "op \<noteq> WSLAY_CONNECTION_CLOSE" "op \<noteq> WSLAY_PING" "op = WSLAY_TEXT_FRAME \<longrightarrow> st = UTF8_ACCEPT"
    and cb: "ev_on_msg_recv_callback cbs = Some k" and mem: "\<And>n. mem_ok (ec_mem ctx) n"
  shows "\<exists>c. recv_finish_frame cbs io ctx = (Go, forget_msg (k (recv_arg (im_rsv (imsg_get ctx)) op bs) c)) \<and>
    steady stream ok ctx c \<and> recv_part (k (recv_arg (im_rsv (imsg_get ctx)) op bs) c) = recv_part c"
proof -
  from finish_frame_dispatch [OF m _ _ mem] op cb obtain c where c: "steady stream ok ctx c" "im_opcode (imsg_get c) = op"
    "recv_finish_frame cbs io ctx =
      (case recv_dispatch (payload_ptr bs) c of
         (s', code, c') \<Rightarrow> andthen (s', c') (\<lambda>c'. (Go, forget_msg (call_on_msg_recv cbs (payload_ptr bs) (of_nat (length bs)) code c'))))"
    by auto
  let ?c = "c\<lparr>ec_error := 0\<rparr>"
  have "recv_finish_frame cbs io ctx = (Go, forget_msg (k (recv_arg (im_rsv (imsg_get ctx)) op bs) ?c))"
    using c op cb by (simp add: recv_dispatch_def andthen_def call_on_msg_recv_def recv_arg_def payload_ptr_def steady_def)
  moreover have "steady stream ok c ?c" by (simp add: steady_def quiet_def imsg_get_def)
  ultimately show ?thesis using steady_trans [OF c(1)] msg_keeps [OF cb] by blast
qed

lemma new_frame:
  assumes c: "msg_chunks s op st 0 0 bs ctx" "iocb_payload_length io = of_nat n" "n < 2 ^ 63"
    and max: "length bs + n \<le> unat (ec_max_recv_msg_length ctx)" and buf: "buffered io ctx" and mem: "\<And>n. mem_ok (ec_mem ctx) n"
  shows "\<exists>ctx'. recv_new_frame cbs io ctx = (Go, ctx') \<and> msg_chunks s op st n 0 bs ctx' \<and> steady stream ok ctx ctx'"
proof -
  define c1 where "c1 = wslay_event_call_on_frame_recv_start_callback cbs io (ctx\<lparr>ec_ipayloadlen := of_nat n\<rparr>)"
  have part: "recv_part c1 = recv_part (ctx\<lparr>ec_ipayloadlen := of_nat n\<rparr>)" by (simp add: c1_def calls_keep)
  have "steady stream ok (ctx\<lparr>ec_ipayloadlen := of_nat n\<rparr>) c1" by (simp add: c1_def calls_steady)
  then have sc1: "steady stream ok ctx c1" by (auto simp: steady_def quiet_def imsg_get_def)
  have g0: "imsg_get (ctx\<lparr>ec_ipayloadlen := of_nat n\<rparr>) = imsg_get ctx" "\<And>io. buffered io (ctx\<lparr>ec_ipayloadlen := of_nat n\<rparr>) = buffered io ctx"
    by (simp_all add: imsg_get_def buffered_def wslay_event_config_get_no_buffering_def)
  note simps = recv_part_simps [OF part, unfolded g0, simplified]
  obtain q where q: "im_chunks (imsg_get ctx) = Live q" "assembled q bs" and
      len: "im_msg_length (imsg_get ctx) = of_nat (length bs)"
    using c(1) by (auto simp: msg_chunks_def msg_size_def)
  have "unat (ec_max_recv_msg_length ctx) < 2 ^ 64" using unsigned_less [of "ec_max_recv_msg_length ctx"] by simp
  then have lt: "length bs + n < 2 ^ 64" using max by linarith
  have fits: "\<not> im_msg_length (imsg_get ctx) + iocb_payload_length io > ec_max_recv_msg_length ctx"
    using max lt by (simp add: len c(2) word_less_nat_alt unat_of_nat flip: of_nat_add)
  note u = recv_new_frame_def [of cbs io ctx, unfolded Let_def c(2) c1_def [symmetric], unfolded c(2) [symmetric] if_not_P [OF fits]]
  show ?thesis
  proof (cases "n = 0")
    case True
    define c2 where "c2 = imsg_put (imsg_get ctx) (c1\<lparr>ec_mem := ec_mem c1\<rparr>)"
    have "recv_new_frame cbs io ctx = (Go, c2)"
      using u buf simps True c(2) by (simp add: wslay_event_imsg_append_chunk_def c2_def)
    moreover have "msg_chunks s op st n 0 bs c2"
      using c(1) True simps by (auto simp: msg_chunks_def c2_def imsg_put_def imsg_get_def)
    moreover have "steady stream ok c1 c2" using simps by (simp add: c2_def steady_put)
    ultimately show ?thesis using sc1 steady_trans by blast
  next
    case False
    have un: "unat (of_nat n :: uint64) = n" using c(3) by (simp add: unat_of_nat)
    then have nz: "(of_nat n :: uint64) \<noteq> 0" using False by (metis unat_0)
    obtain q' mem' where ap: "wslay_event_imsg_append_chunk (ec_mem c1) (imsg_get ctx) (of_nat n) =
        Inr (0, (imsg_get ctx)\<lparr>im_chunks := Live q', im_msg_length := im_msg_length (imsg_get ctx) + of_nat n\<rparr>, mem')"
        "assembling q' n 0 bs" "mem_ok mem' = mem_ok (ec_mem c1)"
      using append_chunk [OF q nz refl, of "ec_mem c1"] mem simps(11) unfolding un by auto
    define c2 where "c2 = imsg_put ((imsg_get ctx)\<lparr>im_chunks := Live q', im_msg_length := im_msg_length (imsg_get ctx) + of_nat n\<rparr>) (c1\<lparr>ec_mem := mem'\<rparr>)"
    have "recv_new_frame cbs io ctx = (Go, c2)" using u buf simps c(2) ap by (simp add: c2_def)
    moreover have "msg_chunks s op st n 0 bs c2"
      using c(1,3) False simps ap len lt by (auto simp: msg_chunks_def msg_size_def c2_def imsg_put_def imsg_get_def)
    moreover have "steady stream ok c1 c2"
      using simps ap(3) by (simp add: steady_def quiet_def c2_def imsg_put_def imsg_get_def)
    ultimately show ?thesis using sc1 steady_trans by blast
  qed
qed

text \<open>A piece of the message arrives.\<close>

lemma recv_rest_piece:
  assumes m: "msg_chunks s op (utf8_after op bs) len off bs ctx" and p: "piece ds io ctx" and l: "off + length ds \<le> len"
    and ok: "ds \<noteq> [] \<or> utf8_after op bs \<noteq> UTF8_REJECT" and op: "op \<noteq> WSLAY_CONNECTION_CLOSE"
  shows "\<exists>c. steady stream ok ctx c \<and>
      (if utf8_after op (bs @ ds) = UTF8_REJECT
       then recv_rest cbs io ctx = close_and_break WSLAY_CODE_INVALID_FRAME_PAYLOAD_DATA c
       else recv_rest cbs io ctx = recv_finish_frame cbs io c \<and>
            msg_chunks s op (utf8_after op (bs @ ds)) len (off + length ds) (bs @ ds) c)"
proof -
  from recv_utf8_piece [OF m p ok op] obtain c1 where c1: "recv_utf8 io ctx =
      (if utf8_after op (bs @ ds) = UTF8_REJECT then close_and_break WSLAY_CODE_INVALID_FRAME_PAYLOAD_DATA c1 else (Go, c1))"
    "msg_chunks s op (utf8_after op (bs @ ds)) len off bs c1" "steady stream ok ctx c1" by blast
  from recv_store_piece [OF c1(2) _ l] steady_piece [OF c1(3)] p obtain c2 where
    c2: "recv_store cbs io c1 = (Go, c2)" "msg_chunks s op (utf8_after op (bs @ ds)) len (off + length ds) (bs @ ds) c2" "steady stream ok c1 c2"
    by blast
  show ?thesis
  proof (cases "utf8_after op (bs @ ds) = UTF8_REJECT")
    case True
    then show ?thesis
      using c1 by (intro exI [of _ c1]) (auto simp: recv_rest_def andthen_def close_and_break_def split: prod.splits if_splits)
  next
    case False
    then show ?thesis using c1 c2 steady_trans [OF c1(3) c2(3)] by (intro exI [of _ c2]) (simp add: recv_rest_def andthen_def)
  qed
qed

end

end
