(* ===== verification/Wslay_Event_Message.thy ===== *)
theory Wslay_Event_Message
  imports Wslay_Event_Assembly
begin

text \<open>
  A whole data message through \<open>wslay_event_recv\<close>: the frames of a message, in a stream that the
  receive callback cuts in any way, end up as one call of the application with the whole payload.
\<close>

section \<open>The frames of a message\<close>

text \<open>\<open>fs\<close> are the remaining frames of a data message, the first of them with opcode \<open>n\<close>; masked iff sent to a server.\<close>

fun msg_frames :: "bool \<Rightarrow> nat \<Rightarrow> ws_frame list \<Rightarrow> bool" where
  "msg_frames srv n [] = False"
| "msg_frames srv n (f # fs) \<longleftrightarrow>
     rfc_valid f \<and> fr_rsv f = 0 \<and> (fr_key f \<noteq> None) = srv \<and> fr_opcode f = n \<and>
     (if fs = [] then fr_fin f else \<not> fr_fin f \<and> msg_frames srv 0 fs)"

definition payloads :: "ws_frame list \<Rightarrow> byte list" where
  "payloads fs = concat (map fr_payload fs)"

definition wire_bytes :: "ws_frame list \<Rightarrow> byte list" where
  "wire_bytes fs = concat (map rfc_frame fs)"

lemma payloads_Cons [simp]: "payloads (f # fs) = fr_payload f @ payloads fs" "payloads [] = []"
  by (simp_all add: payloads_def)

lemma wire_bytes_Cons [simp]: "wire_bytes (f # fs) = rfc_frame f @ wire_bytes fs" "wire_bytes [] = []"
  by (simp_all add: wire_bytes_def)

text \<open>No message in the first slot, and its queue of chunks is there and empty.\<close>

definition idle :: "'u wslay_event_context \<Rightarrow> bool" where
  "idle ctx \<longleftrightarrow> ec_imsg ctx = Imsg0 \<and> ec_ipayloadlen ctx = 0 \<and> ec_ipayloadoff ctx = 0 \<and>
     im_opcode (imsg_get ctx) = 0xff \<and> im_utf8state (imsg_get ctx) = UTF8_ACCEPT \<and>
     (\<exists>q. im_chunks (imsg_get ctx) = Live q \<and> assembled q [])"

text \<open>What the application and the rest of the library see of a context while messages come in.\<close>

definition out_part where
  "out_part ctx = (send_part ctx, mem_ok (ec_mem ctx))"

definition data_opcode :: "nat \<Rightarrow> bool" where
  "data_opcode op \<longleftrightarrow> op = 1 \<or> op = 2"

text \<open>\<open>k\<close> bytes of the payload of \<open>f\<close> have been taken, \<open>bs\<close> is all that was taken of the message with opcode \<open>op\<close>.\<close>

definition msg_state :: "nat \<Rightarrow> ws_frame \<Rightarrow> nat \<Rightarrow> byte list \<Rightarrow> 'u wslay_event_context \<Rightarrow> bool" where
  "msg_state op f k bs ctx \<longleftrightarrow>
     (if k = 0 then if fr_opcode f = 0 then msg_chunks Imsg0 (of_nat op) (utf8_after (of_nat op) bs) 0 0 bs ctx \<and> im_rsv (imsg_get ctx) = 0
                    else fr_opcode f = op \<and> bs = [] \<and> idle ctx
      else msg_chunks Imsg0 (of_nat op) (utf8_after (of_nat op) bs) (length (fr_payload f)) k bs ctx \<and>
           k < length (fr_payload f) \<and> im_fin (imsg_get ctx) = of_bool (fr_fin f) \<and> im_rsv (imsg_get ctx) = 0) \<and>
     utf8_after (of_nat op) bs \<noteq> UTF8_REJECT"

definition receiving ::
    "('u \<Rightarrow> byte list) \<Rightarrow> ('u \<Rightarrow> bool) \<Rightarrow> nat \<Rightarrow> ws_frame list \<Rightarrow> nat \<Rightarrow> byte list \<Rightarrow> byte list \<Rightarrow> 'u wslay_event_context \<Rightarrow> bool" where
  "receiving stream ok op fs k bs rest ctx \<longleftrightarrow> (case fs of [] \<Rightarrow> False | f # fs' \<Rightarrow>
     msg_frames (ec_server ctx) (fr_opcode f) fs \<and> data_opcode op \<and> ok (ec_user_data ctx) \<and> ec_read_enabled ctx \<and>
     fc_inv (ec_frame_ctx ctx) \<and>
     recv_sync f k (wire_bytes fs' @ rest) (ec_frame_ctx ctx) (window (ec_frame_ctx ctx) @ stream (ec_user_data ctx)) \<and>
     msg_state op f k bs ctx \<and> \<not> wslay_event_config_get_no_buffering ctx \<and> (\<forall>n. mem_ok (ec_mem ctx) n) \<and>
     length bs + length (drop k (payloads fs)) \<le> unat (ec_max_recv_msg_length ctx))"

text \<open>The message that is being received.\<close>

definition whole :: "ws_frame list \<Rightarrow> nat \<Rightarrow> byte list \<Rightarrow> byte list" where
  "whole fs k bs = bs @ drop k (payloads fs)"

lemma data_opcode_simps:
  "data_opcode op \<Longrightarrow> (of_nat op :: byte) \<noteq> WSLAY_CONNECTION_CLOSE \<and> (of_nat op :: byte) \<noteq> WSLAY_PING \<and> (of_nat op :: byte) \<noteq> 0xff \<and>
     ((of_nat op :: byte) = WSLAY_TEXT_FRAME \<or> (of_nat op :: byte) = WSLAY_BINARY_FRAME)"
  by (auto simp: data_opcode_def)

section \<open>Which message a frame belongs to\<close>

text \<open>What receiving a data message leaves alone.\<close>

definition kept :: "('u \<Rightarrow> byte list) \<Rightarrow> ('u \<Rightarrow> bool) \<Rightarrow> 'u wslay_event_context \<Rightarrow> 'u wslay_event_context \<Rightarrow> bool" where
  "kept stream ok ctx ctx' \<longleftrightarrow> ec_server ctx' = ec_server ctx \<and> ec_config ctx' = ec_config ctx \<and>
     ec_max_recv_msg_length ctx' = ec_max_recv_msg_length ctx \<and> ec_frame_ctx ctx' = ec_frame_ctx ctx \<and>
     mem_ok (ec_mem ctx') = mem_ok (ec_mem ctx) \<and> ec_imsgs ctx' Imsg1 = ec_imsgs ctx Imsg1 \<and>
     send_part ctx' = send_part ctx \<and> quiet stream ok ctx ctx'"

lemma kept_refl: "kept stream ok ctx ctx"
  by (simp add: kept_def quiet_def)

lemma kept_trans [trans]: "kept stream ok a b \<Longrightarrow> kept stream ok b c \<Longrightarrow> kept stream ok a c"
  by (simp add: kept_def quiet_def)

lemma steady_kept: "steady stream ok ctx ctx' \<Longrightarrow> ec_imsg ctx = Imsg0 \<Longrightarrow> kept stream ok ctx ctx'"
  by (simp add: steady_def kept_def)

lemma put_kept: "ec_imsg ctx = Imsg0 \<Longrightarrow> kept stream ok ctx (imsg_put m ctx)"
  by (simp add: kept_def quiet_def) (simp add: imsg_put_def)

definition delivered_io :: "ws_frame \<Rightarrow> nat \<Rightarrow> nat \<Rightarrow> wslay_frame_iocb" where
  "delivered_io f k n =
     \<lparr>iocb_fin = of_bool (fr_fin f), iocb_rsv = of_nat (fr_rsv f), iocb_opcode = of_nat (fr_opcode f),
      iocb_payload_length = of_nat (length (fr_payload f)), iocb_mask = (fr_key f \<noteq> None),
      iocb_data = take n (drop k (fr_payload f)), iocb_data_length = of_nat n\<rparr>"

text \<open>The first frame of a message opens it, a continuation frame continues it, and inside a frame nothing changes.\<close>

lemma classify_piece:
  assumes "msg_state op f k bs ctx" "data_opcode op"
  shows "\<exists>c. recv_classify (delivered_io f k n) ctx = (Go, k = 0, c) \<and> kept stream ok ctx c \<and> ec_imsg c = Imsg0 \<and>
    msg_chunks Imsg0 (of_nat op) (utf8_after (of_nat op) bs) (if k = 0 then 0 else length (fr_payload f)) k bs c \<and>
    im_fin (imsg_get c) = of_bool (fr_fin f) \<and> im_rsv (imsg_get c) = (if k = 0 \<and> fr_opcode f \<noteq> 0 then of_nat (fr_rsv f) else 0)"
proof -
  note op = data_opcode_simps [OF assms(2)]
  consider "0 < k" | "k = 0" "fr_opcode f = 0" | "k = 0" "fr_opcode f \<noteq> 0" by blast
  then show ?thesis
  proof cases
    case 1
    then have m: "msg_chunks Imsg0 (of_nat op) (utf8_after (of_nat op) bs) (length (fr_payload f)) k bs ctx"
        "k < length (fr_payload f)" "im_fin (imsg_get ctx) = of_bool (fr_fin f)" "im_rsv (imsg_get ctx) = 0"
      using assms(1) by (auto simp: msg_state_def)
    have "unat (of_nat (length (fr_payload f)) :: uint64) = length (fr_payload f)"
      using m(1) by (simp add: msg_chunks_def unat_of_nat)
    then have "(of_nat (length (fr_payload f)) :: uint64) \<noteq> 0" using m(2) by (metis not_less_zero unat_0)
    then have "recv_classify (delivered_io f k n) ctx = (Go, False, ctx)"
      using m op by (simp add: recv_classify_def msg_chunks_def)
    then show ?thesis using 1 m kept_refl by (auto simp: msg_chunks_def)
  next
    case 2
    then have m: "msg_chunks Imsg0 (of_nat op) (utf8_after (of_nat op) bs) 0 0 bs ctx" "im_rsv (imsg_get ctx) = 0"
      using assms(1) by (auto simp: msg_state_def)
    define c where "c = imsg_put ((imsg_get ctx)\<lparr>im_fin := of_bool (fr_fin f)\<rparr>) ctx"
    have "recv_classify (delivered_io f k n) ctx = (Go, True, c)"
      using m op 2 by (simp add: recv_classify_def msg_chunks_def delivered_io_def c_def)
    moreover have "msg_chunks Imsg0 (of_nat op) (utf8_after (of_nat op) bs) 0 0 bs c" "kept stream ok ctx c"
      using m(1) put_kept [of ctx stream ok] by (auto simp: msg_chunks_def c_def)
    ultimately show ?thesis using 2 m by (auto simp: c_def msg_chunks_def)
  next
    case 3
    then have m: "idle ctx" "fr_opcode f = op" "bs = []" using assms(1) by (auto simp: msg_state_def)
    define c where "c = imsg_put (wslay_event_imsg_set (imsg_get ctx) (of_bool (fr_fin f)) (of_nat (fr_rsv f)) (of_nat op)) ctx"
    have "recv_classify (delivered_io f k n) ctx = (Go, True, c)"
      using m op 3 by (auto simp: recv_classify_def idle_def delivered_io_def c_def)
    moreover have "msg_chunks Imsg0 (of_nat op) (utf8_after (of_nat op) bs) 0 0 bs c" "kept stream ok ctx c"
      using m put_kept [of ctx stream ok]
      by (auto simp: msg_chunks_def c_def idle_def wslay_event_imsg_set_def utf8_after_def msg_size_def)
    ultimately show ?thesis using 3 m by (auto simp: c_def idle_def wslay_event_imsg_set_def)
  qed
qed

context event_peer begin

lemma recv_frame_enters:
  assumes f: "rfc_valid f" "fr_rsv f = 0" "(fr_key f \<noteq> None) = ec_server ctx"
    and op: "data_opcode op" and st: "msg_state op f k bs ctx"
    and mem: "\<And>n. mem_ok (ec_mem ctx) n" and buf: "\<not> wslay_event_config_get_no_buffering ctx"
    and max: "length bs + (length (fr_payload f) - k) \<le> unat (ec_max_recv_msg_length ctx)"
  shows "\<exists>c. recv_frame cbs (delivered_io f k n) ctx = recv_rest cbs (delivered_io f k n) c \<and> kept stream ok ctx c \<and>
    msg_chunks Imsg0 (of_nat op) (utf8_after (of_nat op) bs) (length (fr_payload f)) k bs c \<and>
    im_fin (imsg_get c) = of_bool (fr_fin f) \<and> im_rsv (imsg_get c) = 0"
proof -
  let ?io = "delivered_io f k n"
  have chk: "recv_check_header ?io ctx = (Go, ctx)" using f by (simp add: recv_check_header_def delivered_io_def)
  obtain c where c: "recv_classify ?io ctx = (Go, k = 0, c)" "kept stream ok ctx c" "ec_imsg c = Imsg0"
      "msg_chunks Imsg0 (of_nat op) (utf8_after (of_nat op) bs) (if k = 0 then 0 else length (fr_payload f)) k bs c"
      "im_fin (imsg_get c) = of_bool (fr_fin f)" "im_rsv (imsg_get c) = 0"
    using classify_piece [OF st op, of n stream ok] f(2) by auto
  show ?thesis
  proof (cases "k = 0")
    case False
    then show ?thesis using c chk by (auto simp: recv_frame_def recv_rest_def andthen_def)
  next
    case True
    have "buffered ?io c" using c(2) buf by (simp add: kept_def buffered_def wslay_event_config_get_no_buffering_def)
    moreover have "iocb_payload_length ?io = of_nat (length (fr_payload f))" by (simp add: delivered_io_def)
    moreover have "length (fr_payload f) < 2 ^ 63" using f(1) by (simp add: rfc_valid_def)
    moreover have "mem_ok (ec_mem c) n" for n using c(2) mem by (simp add: kept_def)
    moreover have "length bs + length (fr_payload f) \<le> unat (ec_max_recv_msg_length c)" using c(2) max True by (simp add: kept_def)
    ultimately obtain c' where c': "recv_new_frame cbs ?io c = (Go, c')"
        "msg_chunks Imsg0 (of_nat op) (utf8_after (of_nat op) bs) (length (fr_payload f)) 0 bs c'" "steady stream ok c c'"
      using new_frame [of Imsg0 "of_nat op" "utf8_after (of_nat op) bs" bs c ?io "length (fr_payload f)"] c(4) True by auto
    have "recv_frame cbs ?io ctx = recv_rest cbs ?io c'"
      using chk c(1) c'(1) True by (simp add: recv_frame_def recv_rest_def andthen_def)
    moreover have "kept stream ok ctx c'" using kept_trans [OF c(2) steady_kept [OF c'(3) c(3)]] .
    ultimately show ?thesis using c' c True by (auto simp: steady_def)
  qed
qed

text \<open>One successful round inside a message.\<close>

lemma recv_frame_message:
  assumes f: "rfc_valid f" "fr_rsv f = 0" "(fr_key f \<noteq> None) = ec_server ctx"
    and op: "data_opcode op" and st: "msg_state op f k bs ctx"
    and mem: "\<And>n. mem_ok (ec_mem ctx) n" and buf: "\<not> wslay_event_config_get_no_buffering ctx"
    and max: "length bs + (length (fr_payload f) - k) \<le> unat (ec_max_recv_msg_length ctx)"
    and n: "k + n \<le> length (fr_payload f)" and ds: "ds = take n (drop k (fr_payload f))"
    and cb: "ev_on_msg_recv_callback cbs = Some h"
  shows "\<exists>c. kept stream ok ctx c \<and>
    (if utf8_after (of_nat op) (bs @ ds) = UTF8_REJECT
     then recv_frame cbs (delivered_io f k n) ctx = close_and_break WSLAY_CODE_INVALID_FRAME_PAYLOAD_DATA c
     else if k + n < length (fr_payload f)
     then recv_frame cbs (delivered_io f k n) ctx = (Go, c) \<and>
       msg_chunks Imsg0 (of_nat op) (utf8_after (of_nat op) (bs @ ds)) (length (fr_payload f)) (k + n) (bs @ ds) c \<and>
       im_fin (imsg_get c) = of_bool (fr_fin f) \<and> im_rsv (imsg_get c) = 0
     else if \<not> fr_fin f
     then recv_frame cbs (delivered_io f k n) ctx = (Go, c) \<and>
       msg_chunks Imsg0 (of_nat op) (utf8_after (of_nat op) (bs @ ds)) 0 0 (bs @ ds) c \<and> im_rsv (imsg_get c) = 0
     else if utf8_after (of_nat op) (bs @ ds) = UTF8_ACCEPT
     then recv_frame cbs (delivered_io f k n) ctx = (Go, forget_msg (h (recv_arg 0 (of_nat op) (bs @ ds)) c)) \<and> ec_imsg c = Imsg0 \<and>
       recv_part (h (recv_arg 0 (of_nat op) (bs @ ds)) c) = recv_part c
     else recv_frame cbs (delivered_io f k n) ctx = close_and_break WSLAY_CODE_INVALID_FRAME_PAYLOAD_DATA c)"
proof -
  let ?io = "delivered_io f k n" and ?op = "of_nat op :: byte" and ?l = "length (fr_payload f)"
  let ?st = "utf8_after ?op (bs @ ds)"
  note ops = data_opcode_simps [OF op]
  obtain c where c: "recv_frame cbs ?io ctx = recv_rest cbs ?io c" "kept stream ok ctx c"
      "msg_chunks Imsg0 ?op (utf8_after ?op bs) ?l k bs c" "im_fin (imsg_get c) = of_bool (fr_fin f)" "im_rsv (imsg_get c) = 0"
    using recv_frame_enters [OF f op st mem buf max] by blast
  have lds: "length ds = n" using n ds by simp
  have "length ds < 2 ^ 64" using n f(1) lds by (simp add: rfc_valid_def)
  then have p: "piece ds ?io c"
    using c(2) f buf ds lds
    by (simp add: piece_def delivered_io_def buffered_def kept_def wslay_event_config_get_no_buffering_def)
  have "utf8_after ?op bs \<noteq> UTF8_REJECT" using st by (simp add: msg_state_def)
  then obtain c2 where c2: "steady stream ok c c2" "if ?st = UTF8_REJECT
       then recv_rest cbs ?io c = close_and_break WSLAY_CODE_INVALID_FRAME_PAYLOAD_DATA c2
       else recv_rest cbs ?io c = recv_finish_frame cbs ?io c2 \<and> msg_chunks Imsg0 ?op ?st ?l (k + n) (bs @ ds) c2"
    using recv_rest_piece [OF c(3) p] n lds ops by auto
  have slot: "ec_imsg c = Imsg0" using c(3) by (simp add: msg_chunks_def)
  have k2: "kept stream ok ctx c2" using kept_trans [OF c(2) steady_kept [OF c2(1) slot]] .
  have fin: "im_fin (imsg_get c2) = of_bool (fr_fin f)" "im_rsv (imsg_get c2) = 0" "ec_imsg c2 = Imsg0"
    using c2(1) c slot by (simp_all add: steady_def)
  consider "?st = UTF8_REJECT" | "?st \<noteq> UTF8_REJECT" "k + n < ?l"
    | "?st \<noteq> UTF8_REJECT" "k + n = ?l" "\<not> fr_fin f" | "?st \<noteq> UTF8_REJECT" "k + n = ?l" "fr_fin f" "?st = UTF8_ACCEPT"
    | "?st \<noteq> UTF8_REJECT" "k + n = ?l" "fr_fin f" "?st \<noteq> UTF8_ACCEPT" using n by linarith
  then show ?thesis
  proof cases
    case 1
    then show ?thesis using c(1) c2 k2 by (intro exI [of _ c2]) simp
  next
    case 2
    then have m2: "msg_chunks Imsg0 ?op ?st ?l (k + n) (bs @ ds) c2" "recv_rest cbs ?io c = recv_finish_frame cbs ?io c2"
      using c2(2) by auto
    have "?l < 2 ^ 63" using f(1) by (simp add: rfc_valid_def)
    then have "unat (of_nat (k + n) :: uint64) = k + n" "unat (of_nat ?l :: uint64) = ?l"
      using 2(2) by (simp_all only: unat_of_nat) simp_all
    then have "(of_nat (k + n) :: uint64) \<noteq> of_nat ?l" using 2 by (metis nat_neq_iff)
    then have "recv_finish_frame cbs ?io c2 = (Go, c2)"
      using m2(1) by (simp add: recv_finish_frame_def msg_chunks_def)
    then show ?thesis using 2 m2 c(1) k2 fin by (intro exI [of _ c2]) simp
  next
    case 3
    then have m2: "msg_chunks Imsg0 ?op ?st ?l ?l (bs @ ds) c2" "recv_rest cbs ?io c = recv_finish_frame cbs ?io c2"
      using c2(2) by auto
    from finish_frame_more [OF m2(1)] fin 3 obtain c3 where
      c3: "recv_finish_frame cbs ?io c2 = (Go, c3)" "msg_chunks Imsg0 ?op ?st 0 0 (bs @ ds) c3" "steady stream ok c2 c3" by auto
    then show ?thesis
      using 3 m2 c(1) fin kept_trans [OF k2 steady_kept [OF c3(3) fin(3)]] by (intro exI [of _ c3]) (simp add: steady_def)
  next
    case 4
    then have m2: "msg_chunks Imsg0 ?op ?st ?l ?l (bs @ ds) c2" "recv_rest cbs ?io c = recv_finish_frame cbs ?io c2"
      using c2(2) by auto
    have "buffered ?io c2" "mem_ok (ec_mem c2) n" for n
      using k2 buf mem by (simp_all add: kept_def buffered_def wslay_event_config_get_no_buffering_def)
    from finish_frame_last [OF m2(1) _ this(1) _ _ _ cb this(2)] fin 4 ops obtain c3 where
      c3: "recv_finish_frame cbs ?io c2 = (Go, forget_msg (h (recv_arg 0 ?op (bs @ ds)) c3))" "steady stream ok c2 c3"
        "recv_part (h (recv_arg 0 ?op (bs @ ds)) c3) = recv_part c3" by auto
    then show ?thesis
      using 4 m2 c(1) fin kept_trans [OF k2 steady_kept [OF c3(2) fin(3)]] by (intro exI [of _ c3]) (simp add: steady_def)
  next
    case 5
    then have m2: "msg_chunks Imsg0 ?op ?st ?l ?l (bs @ ds) c2" "recv_rest cbs ?io c = recv_finish_frame cbs ?io c2" "?op = WSLAY_TEXT_FRAME"
      using c2(2) by (auto simp: utf8_after_def split: if_splits)
    then have "recv_finish_frame cbs ?io c2 = close_and_break WSLAY_CODE_INVALID_FRAME_PAYLOAD_DATA c2"
      using 5 fin by (simp add: recv_finish_frame_def msg_chunks_def)
    then show ?thesis using 5 m2(2) c(1) k2 by (intro exI [of _ c2]) simp
  qed
qed

text \<open>One round of the loop inside a message: nothing to read, or the next bytes of the message arrive.\<close>

lemma recv_step_message:
  assumes r: "receiving stream ok op (f # fs) k bs rest ctx"
  shows "(\<exists>c. recv_step cbs ctx = recv_error WSLAY_ERR_WANT_READ c \<and> receiving stream ok op (f # fs) k bs rest c \<and> out_part c = out_part ctx) \<or>
    (\<exists>n c. recv_step cbs ctx = recv_frame cbs (delivered_io f k n) c \<and> k + n \<le> length (fr_payload f) \<and>
       (k < length (fr_payload f) \<longrightarrow> 0 < n) \<and> send_part c = send_part ctx \<and> ok (ec_user_data c) \<and> fc_inv (ec_frame_ctx c) \<and>
       (let v = window (ec_frame_ctx c) @ stream (ec_user_data c)
        in if k + n = length (fr_payload f) then frame_boundary (ec_frame_ctx c) \<and> v = wire_bytes fs @ rest
           else recv_sync f (k + n) (wire_bytes fs @ rest) (ec_frame_ctx c) v) \<and>
       msg_state op f k bs c \<and> ec_server c = ec_server ctx \<and> ec_config c = ec_config ctx \<and>
       mem_ok (ec_mem c) = mem_ok (ec_mem ctx) \<and> ec_max_recv_msg_length c = ec_max_recv_msg_length ctx)"
proof -
  let ?fcb = "event_frame_callbacks cbs" and ?rest = "wire_bytes fs @ rest"
  obtain res fctx c1 where fr: "wslay_frame_recv ?fcb (ec_frame_ctx ctx) ctx = (res, fctx, c1)" by (metis prod_cases3)
  have v: "rfc_valid f" and s: "fc_inv (ec_frame_ctx ctx)" "ok (ec_user_data ctx)"
      "recv_sync f k ?rest (ec_frame_ctx ctx) (window (ec_frame_ctx ctx) @ stream (ec_user_data ctx))"
    using r by (auto simp: receiving_def)
  define c where "c = c1\<lparr>ec_frame_ctx := fctx\<rparr>"
  have part: "recv_part c1 = recv_part ctx" "send_part c1 = send_part ctx" using frame_recv_keeps [OF fr] by auto
  note simps = recv_part_simps [OF part(1)]
  have g: "imsg_get c = imsg_get ctx" "ec_imsg c = ec_imsg ctx" "ec_ipayloadlen c = ec_ipayloadlen ctx" "ec_ipayloadoff c = ec_ipayloadoff ctx"
      "ec_server c = ec_server ctx" "ec_config c = ec_config ctx" "mem_ok (ec_mem c) = mem_ok (ec_mem ctx)"
      "ec_max_recv_msg_length c = ec_max_recv_msg_length ctx" "send_part c = send_part ctx" "ec_frame_ctx c = fctx" "ec_user_data c = ec_user_data c1"
    using simps part(2) by (simp_all add: c_def imsg_get_def)
  have ms: "msg_state op f' j xs c = msg_state op f' j xs ctx" for f' j xs
    by (simp add: msg_state_def msg_chunks_def idle_def g)
  have re: "ec_read_enabled c = ec_read_enabled ctx" using send_part_simps(3) [OF g(9)] .
  note sim = src.recv_simulates [OF s(1) v s(3) fr s(2)]
  show ?thesis
  proof (cases res)
    case (Inl e)
    then have "e = WSLAY_ERR_WANT_READ" and "receiving stream ok op (f # fs) k bs rest c"
      using sim r by (auto simp: receiving_def g ms re wslay_event_config_get_no_buffering_def)
    then show ?thesis using Inl fr g by (auto simp: recv_step_def out_part_def c_def [symmetric])
  next
    case (Inr io)
    then obtain n where "recv_delivers f k ?rest n io fctx (window fctx @ stream (ec_user_data c1))" "ok (ec_user_data c1)" "fc_inv fctx"
      using sim by auto
    moreover from this have "io = delivered_io f k n" by (simp add: recv_delivers_def delivered_io_def)
    moreover have "msg_state op f k bs c" using r by (simp add: ms receiving_def)
    ultimately show ?thesis
      using Inr fr g by (intro disjI2 exI [of _ n] exI [of _ c]) (simp add: recv_step_def c_def [symmetric] recv_delivers_def Let_def)
  qed
qed

end

section \<open>The whole message\<close>

lemma whole_step:
  assumes "k + n \<le> length (fr_payload f)" "ds = take n (drop k (fr_payload f))"
  shows "whole (f # fs) k bs = whole (f # fs) (k + n) (bs @ ds)"
    "k + n = length (fr_payload f) \<Longrightarrow> whole (f # fs) k bs = whole fs 0 (bs @ ds)"
    "\<exists>xs. whole (f # fs) k bs = (bs @ ds) @ xs"
proof -
  have "drop k (fr_payload f) = ds @ drop (k + n) (fr_payload f)"
    using assms(2) by (metis add.commute append_take_drop_id drop_drop)
  then show "whole (f # fs) k bs = whole (f # fs) (k + n) (bs @ ds)"
    "k + n = length (fr_payload f) \<Longrightarrow> whole (f # fs) k bs = whole fs 0 (bs @ ds)"
    "\<exists>xs. whole (f # fs) k bs = (bs @ ds) @ xs"
    using assms(1) by (simp_all add: whole_def)
qed

lemma length_whole: "length bs + length (drop k (payloads fs)) = length (whole fs k bs)"
  by (simp add: whole_def)

lemma receiving_kept:
  assumes "kept stream ok c0 c" "receiving stream ok op (f # fs) k bs rest ctx"
    and "ec_server c0 = ec_server ctx" "ec_config c0 = ec_config ctx" "mem_ok (ec_mem c0) = mem_ok (ec_mem ctx)"
    "ec_max_recv_msg_length c0 = ec_max_recv_msg_length ctx" "send_part c0 = send_part ctx" "ok (ec_user_data c0)" "fc_inv (ec_frame_ctx c0)"
    and "whole (f' # fs') k' bs' = whole (f # fs) k bs" "msg_frames (ec_server ctx) (fr_opcode f') (f' # fs')" "msg_state op f' k' bs' c"
    and "recv_sync f' k' (wire_bytes fs' @ rest) (ec_frame_ctx c0) (window (ec_frame_ctx c0) @ stream (ec_user_data c0))"
  shows "receiving stream ok op (f' # fs') k' bs' rest c"
proof -
  have "ec_read_enabled c = ec_read_enabled c0" "ec_read_enabled c0 = ec_read_enabled ctx"
    using assms(1) send_part_simps(3) [OF assms(7)] send_part_simps(3) [of c c0] by (simp_all add: kept_def)
  then show ?thesis
    using assms unfolding receiving_def length_whole kept_def quiet_def
    by (simp add: wslay_event_config_get_no_buffering_def) (elim conjE)
qed

text \<open>What the loop returns when its body ends with \<open>break\<close> or \<open>return\<close>.\<close>

definition loop_exit :: "step \<times> 'c \<Rightarrow> ((fault + int) \<times> 'c) option" where
  "loop_exit r = (case r of (Break, c) \<Rightarrow> Some (Inr 0, c) | (Return i, c) \<Rightarrow> Some (Inr i, c)
     | (Crash f, c) \<Rightarrow> Some (Inl f, c) | _ \<Rightarrow> None)"

lemma recv_loop_exit:
  assumes "ec_read_enabled ctx" "recv_step cbs ctx = (s, c)"
  shows "s \<noteq> Go \<Longrightarrow> wslay_event_recv cbs ctx = loop_exit (s, c)" "s = Go \<Longrightarrow> wslay_event_recv cbs ctx = wslay_event_recv cbs c"
  using assms by (subst wslay_event_recv.simps, simp add: loop_exit_def split: step.split)+

lemma close_and_break_exits: "fst (close_and_break code c) \<noteq> Go"
  by (simp add: close_and_break_def case_prod_unfold)

lemma recv_error_exits: "fst (recv_error e c) \<noteq> Go"
  by (simp add: recv_error_def case_prod_unfold)

lemma recv_loop_exits:
  assumes "ec_read_enabled ctx"
  shows "recv_step cbs ctx = close_and_break code c \<Longrightarrow> wslay_event_recv cbs ctx = loop_exit (close_and_break code c)"
    "recv_step cbs ctx = recv_error e c \<Longrightarrow> wslay_event_recv cbs ctx = loop_exit (recv_error e c)"
  using recv_loop_exit(1) [OF assms] close_and_break_exits recv_error_exits by (metis prod.collapse)+

lemma utf8_whole:
  assumes "data_opcode op"
  shows "utf8_after (of_nat op) bs = UTF8_ACCEPT \<longleftrightarrow> (op = 1 \<longrightarrow> utf8_text bs)"
    "utf8_after (of_nat op) bs = UTF8_REJECT \<Longrightarrow> op = 1 \<and> \<not> utf8_text (bs @ ds)"
  using assms utf8_text_run [of bs] utf8_text_run [of "bs @ ds"]
  by (auto simp: utf8_after_def data_opcode_def utf8_reject_stuck)

text \<open>The ways a call of \<open>wslay_event_recv\<close> can go that finds the receiver inside the message \<open>m\<close>.\<close>

definition message_received where
  "message_received cbs h stream ok op m rest ctx c \<longleftrightarrow> out_part c = out_part ctx \<and>
     ((\<exists>fs k bs. receiving stream ok op fs k bs rest c \<and> whole fs k bs = m \<and>
         wslay_event_recv cbs ctx = loop_exit (recv_error WSLAY_ERR_WANT_READ c)) \<or>
      op = 1 \<and> \<not> utf8_text m \<and> wslay_event_recv cbs ctx = loop_exit (close_and_break WSLAY_CODE_INVALID_FRAME_PAYLOAD_DATA c) \<or>
      (op = 1 \<longrightarrow> utf8_text m) \<and> wslay_event_recv cbs ctx = wslay_event_recv cbs (forget_msg (h (recv_arg 0 (of_nat op) m) c)) \<and>
      ok (ec_user_data c) \<and> fc_inv (ec_frame_ctx c) \<and> frame_boundary (ec_frame_ctx c) \<and>
      window (ec_frame_ctx c) @ stream (ec_user_data c) = rest)"

lemma message_received_step:
  assumes "message_received cbs h stream ok op m rest c1 c" "out_part c1 = out_part ctx" "ec_read_enabled ctx" "recv_step cbs ctx = (Go, c1)"
  shows "message_received cbs h stream ok op m rest ctx c"
  using assms recv_loop_exit(2) [OF assms(3,4)] unfolding message_received_def by simp

text \<open>The result of one round: an exit of the loop, the end of the message, or progress inside it.\<close>

definition message_round where
  "message_round cbs h stream ok op fs k bs rest ctx c \<longleftrightarrow> out_part c = out_part ctx \<and>
     (receiving stream ok op fs k bs rest c \<and> recv_step cbs ctx = recv_error WSLAY_ERR_WANT_READ c \<or>
      op = 1 \<and> \<not> utf8_text (whole fs k bs) \<and> recv_step cbs ctx = close_and_break WSLAY_CODE_INVALID_FRAME_PAYLOAD_DATA c \<or>
      (op = 1 \<longrightarrow> utf8_text (whole fs k bs)) \<and> recv_step cbs ctx = (Go, forget_msg (h (recv_arg 0 (of_nat op) (whole fs k bs)) c)) \<and>
      ok (ec_user_data c) \<and> fc_inv (ec_frame_ctx c) \<and> frame_boundary (ec_frame_ctx c) \<and>
      window (ec_frame_ctx c) @ stream (ec_user_data c) = rest \<or>
      (\<exists>fs' k' bs'. recv_step cbs ctx = (Go, c) \<and> receiving stream ok op fs' k' bs' rest c \<and> whole fs' k' bs' = whole fs k bs \<and>
         length fs' + length (drop k' (payloads fs')) < length fs + length (drop k (payloads fs))))"

lemma message_round_progress:
  assumes "recv_step cbs ctx = (Go, c)" "out_part c = out_part ctx" "receiving stream ok op fs' k' bs' rest c" "whole fs k bs = whole fs' k' bs'"
    "length fs' + length (drop k' (payloads fs')) < length fs + length (drop k (payloads fs))"
  shows "\<exists>c. message_round cbs h stream ok op fs k bs rest ctx c"
  using assms unfolding message_round_def by metis

context event_peer begin

text \<open>The round that takes the last bytes of the message.\<close>

lemma recv_last_round:
  assumes w: "whole fs k bs = m" and op: "data_opcode op" and kc: "kept stream ok c0 c" and sc: "out_part c = out_part ctx"
    and fr: "ok (ec_user_data c0)" "fc_inv (ec_frame_ctx c0)" "frame_boundary (ec_frame_ctx c0)"
      "window (ec_frame_ctx c0) @ stream (ec_user_data c0) = rest"
    and res: "if utf8_after (of_nat op) m = UTF8_ACCEPT then recv_step cbs ctx = (Go, forget_msg (h (recv_arg 0 (of_nat op) m) c))
      else recv_step cbs ctx = close_and_break WSLAY_CODE_INVALID_FRAME_PAYLOAD_DATA c"
  shows "message_round cbs h stream ok op fs k bs rest ctx c"
proof -
  have "utf8_after (of_nat op) m = UTF8_ACCEPT \<longleftrightarrow> (op = 1 \<longrightarrow> utf8_text m)" using utf8_whole(1) [OF op] .
  then show ?thesis using assms unfolding message_round_def kept_def quiet_def by (auto split: if_splits)
qed

lemma recv_message_round:
  assumes r: "receiving stream ok op fs k bs rest ctx" and cb: "ev_on_msg_recv_callback cbs = Some h"
  shows "\<exists>c. message_round cbs h stream ok op fs k bs rest ctx c"
proof -
  obtain f fs' where fs: "fs = f # fs'" using r by (cases fs) (auto simp: receiving_def)
  from recv_step_message [OF r [unfolded fs]] show ?thesis
  proof (elim disjE exE conjE)
    fix c assume "recv_step cbs ctx = recv_error WSLAY_ERR_WANT_READ c" "receiving stream ok op (f # fs') k bs rest c" "out_part c = out_part ctx"
    then show ?thesis unfolding message_round_def fs by blast
  next
    fix n c0 assume st: "recv_step cbs ctx = recv_frame cbs (delivered_io f k n) c0" and n: "k + n \<le> length (fr_payload f)"
        "k < length (fr_payload f) \<longrightarrow> 0 < n" and sp: "send_part c0 = send_part ctx" and fr: "ok (ec_user_data c0)" "fc_inv (ec_frame_ctx c0)"
        "let v = window (ec_frame_ctx c0) @ stream (ec_user_data c0)
         in if k + n = length (fr_payload f) then frame_boundary (ec_frame_ctx c0) \<and> v = wire_bytes fs' @ rest
            else recv_sync f (k + n) (wire_bytes fs' @ rest) (ec_frame_ctx c0) v"
      and ms: "msg_state op f k bs c0" and g: "ec_server c0 = ec_server ctx" "ec_config c0 = ec_config ctx"
        "mem_ok (ec_mem c0) = mem_ok (ec_mem ctx)" "ec_max_recv_msg_length c0 = ec_max_recv_msg_length ctx"
    define ds where "ds = take n (drop k (fr_payload f))"
    have f: "rfc_valid f" "fr_rsv f = 0" "(fr_key f \<noteq> None) = ec_server c0" "data_opcode op" "\<And>n. mem_ok (ec_mem c0) n"
        "\<not> wslay_event_config_get_no_buffering c0" and mf: "msg_frames (ec_server ctx) (fr_opcode f) (f # fs')"
        "length bs + (length (fr_payload f) - k) \<le> unat (ec_max_recv_msg_length c0)" "fr_fin f \<longleftrightarrow> fs' = []"
      using r g by (auto simp: fs receiving_def wslay_event_config_get_no_buffering_def split: if_splits)
    let ?st = "utf8_after (of_nat op) (bs @ ds)"
    note w = whole_step [OF n(1) ds_def]
    obtain c where kc: "kept stream ok c0 c" and res: "if ?st = UTF8_REJECT
       then recv_step cbs ctx = close_and_break WSLAY_CODE_INVALID_FRAME_PAYLOAD_DATA c
       else if k + n < length (fr_payload f)
       then recv_step cbs ctx = (Go, c) \<and> msg_chunks Imsg0 (of_nat op) ?st (length (fr_payload f)) (k + n) (bs @ ds) c \<and>
         im_fin (imsg_get c) = of_bool (fr_fin f) \<and> im_rsv (imsg_get c) = 0
       else if \<not> fr_fin f
       then recv_step cbs ctx = (Go, c) \<and> msg_chunks Imsg0 (of_nat op) ?st 0 0 (bs @ ds) c \<and> im_rsv (imsg_get c) = 0
       else if ?st = UTF8_ACCEPT
       then recv_step cbs ctx = (Go, forget_msg (h (recv_arg 0 (of_nat op) (bs @ ds)) c)) \<and> ec_imsg c = Imsg0 \<and>
         recv_part (h (recv_arg 0 (of_nat op) (bs @ ds)) c) = recv_part c
       else recv_step cbs ctx = close_and_break WSLAY_CODE_INVALID_FRAME_PAYLOAD_DATA c"
      using recv_frame_message [OF f(1-4) ms f(5,6) mf(2) n(1) ds_def cb] unfolding st by blast
    have sc: "out_part c = out_part ctx" using kc sp by (simp add: kept_def out_part_def g)
    note keep = receiving_kept [OF kc r [unfolded fs] g sp fr(1,2)]
    consider "?st = UTF8_REJECT" | "?st \<noteq> UTF8_REJECT" "k + n < length (fr_payload f)"
      | "?st \<noteq> UTF8_REJECT" "k + n = length (fr_payload f)" "fs' \<noteq> []" "\<not> fr_fin f"
      | "?st \<noteq> UTF8_REJECT" "k + n = length (fr_payload f)" "fs' = []" "fr_fin f"
      using n(1) mf(3) le_neq_implies_less by blast
    then show ?thesis
    proof cases
      case 1
      then have "op = 1 \<and> \<not> utf8_text (whole fs k bs)" using utf8_whole(2) [OF f(4) 1] w(3) [of fs' bs] unfolding fs by metis
      then show ?thesis using 1 res sc unfolding message_round_def by (intro exI [of _ c]) simp
    next
      case 2
      have "receiving stream ok op (f # fs') (k + n) (bs @ ds) rest c"
        using 2 res n fr(3) mf w(1) by (intro keep) (auto simp: msg_state_def Let_def)
      then show ?thesis using 2 n res sc w(1) [of fs' bs] unfolding fs by (intro message_round_progress) auto
    next
      case 3
      then obtain f2 fs2 where fs': "fs' = f2 # fs2" by (cases fs') auto
      have m2: "msg_frames (ec_server ctx) (fr_opcode f2) (f2 # fs2)" "fr_opcode f2 = 0" using mf 3 by (auto simp: fs' split: if_splits)
      have "receiving stream ok op (f2 # fs2) 0 (bs @ ds) rest c"
        using 3 res fr(3) m2 w(2) [of fs' bs]
        by (intro keep) (auto simp: fs' msg_state_def Let_def recv_sync_def at_header1_def frame_boundary_def)
      then show ?thesis using 3 n res sc w(2) [OF 3(2), of fs' bs] unfolding fs fs' by (intro message_round_progress) auto
    next
      case 4
      then have "whole fs k bs = bs @ ds" using w(2) by (simp add: fs whole_def)
      then have "message_round cbs h stream ok op fs k bs rest ctx c"
        using 4 res fr(3) by (intro recv_last_round [OF _ f(4) kc sc fr(1,2)]) (auto simp: Let_def)
      then show ?thesis ..
    qed
  qed
qed

lemma recv_message_loop:
  assumes "receiving stream ok op fs k bs rest ctx" "ev_on_msg_recv_callback cbs = Some h"
  shows "\<exists>c. message_received cbs h stream ok op (whole fs k bs) rest ctx c"
  using assms(1)
proof (induction "length fs + length (drop k (payloads fs))" arbitrary: fs k bs ctx rule: less_induct)
  case less
  have en: "ec_read_enabled ctx" using less.prems by (auto simp: receiving_def split: list.splits)
  obtain c where c: "message_round cbs h stream ok op fs k bs rest ctx c" using recv_message_round [OF less.prems assms(2)] by blast
  note sc = conjunct1 [OF c [unfolded message_round_def]]
  from conjunct2 [OF c [unfolded message_round_def]] show ?case
  proof (elim disjE)
    assume "\<exists>fs' k' bs'. recv_step cbs ctx = (Go, c) \<and> receiving stream ok op fs' k' bs' rest c \<and> whole fs' k' bs' = whole fs k bs \<and>
         length fs' + length (drop k' (payloads fs')) < length fs + length (drop k (payloads fs))"
    then obtain fs' k' bs' where s: "recv_step cbs ctx = (Go, c)" "receiving stream ok op fs' k' bs' rest c" "whole fs' k' bs' = whole fs k bs"
        "length fs' + length (drop k' (payloads fs')) < length fs + length (drop k (payloads fs))" by blast
    from less.hyps [OF s(4,2)] obtain c' where "message_received cbs h stream ok op (whole fs k bs) rest c c'" unfolding s(3) by blast
    then show ?thesis using message_received_step [OF _ sc en s(1)] by blast
  qed (use sc recv_loop_exits [OF en] recv_loop_exit(2) [OF en] in \<open>unfold message_received_def, blast+\<close>)
qed

text \<open>At the end of the stream, between two frames, the loop has nothing to do.\<close>

lemma recv_dry:
  assumes "ok (ec_user_data ctx)" "fc_inv (ec_frame_ctx ctx)" "frame_boundary (ec_frame_ctx ctx)" "ec_read_enabled ctx"
    and v: "window (ec_frame_ctx ctx) @ stream (ec_user_data ctx) = []"
  shows "\<exists>c. wslay_event_recv cbs ctx = loop_exit (recv_error WSLAY_ERR_WANT_READ c) \<and> out_part c = out_part ctx \<and> ok (ec_user_data c)"
proof -
  let ?fcb = "event_frame_callbacks cbs" and ?f = "ec_frame_ctx ctx"
  obtain e f1 c1 where rc: "wslay_recv ?fcb ?f ctx = (e, f1, c1)" by (metis prod_cases3)
  have "window ?f = []" using v by simp
  then have av: "WSLAY_AVAIL_IBUF ?f = 0" using length_window [OF assms(2)] by simp
  note rs = src.recv_spec [OF assms(2) rc assms(1)]
  have "window f1 = []" using rs(4) v by simp
  then have "WSLAY_AVAIL_IBUF f1 = 0" using length_window [OF rs(2)] by simp
  then have e: "e = Some WSLAY_ERR_WANT_READ" using rs(5) av by simp
  then have fr: "wslay_frame_recv ?fcb ?f ctx = (Inl WSLAY_ERR_WANT_READ, f1, c1)"
    using assms(3) av rc by (simp add: frame_boundary_def wslay_frame_recv_def wslay_frame_block_def wslay_frame_fill_def)
  have "wslay_event_recv cbs ctx = loop_exit (recv_error WSLAY_ERR_WANT_READ (c1\<lparr>ec_frame_ctx := f1\<rparr>))"
    by (rule recv_loop_exits(2) [OF assms(4)]) (simp add: recv_step_def fr)
  moreover have "out_part (c1\<lparr>ec_frame_ctx := f1\<rparr>) = out_part ctx" using frame_recv_keeps [OF fr] recv_part_simps(11) [of c1 ctx] by (simp add: out_part_def)
  ultimately show ?thesis using rs(1) by (intro exI [of _ "c1\<lparr>ec_frame_ctx := f1\<rparr>"]) simp
qed

end

end
