(* ===== verification/Wslay_Event_Control.thy ===== *)
theory Wslay_Event_Control
  imports Wslay_Event_Message
begin

text \<open>
  Control frames and protocol errors in \<open>wslay_event_recv\<close>: a ping or close frame is handled in the
  slot that the message in progress does not use, and a frame that breaks the protocol closes the connection.
\<close>

section \<open>Closing\<close>

text \<open>Queueing the close frame succeeds as long as there is memory and none was queued before.\<close>

definition closed_with :: "uint16 \<Rightarrow> byte list \<Rightarrow> 'u wslay_event_context \<Rightarrow> 'u wslay_event_context \<Rightarrow> bool" where
  "closed_with code reason ctx ctx' \<longleftrightarrow> \<not> ec_read_enabled ctx' \<and> outbox_inv ctx' \<and>
     outbox_of ctx' = outbox_close (outbox_put (whole_msg (close_msg code reason)) (outbox_of ctx))"

definition can_queue :: "'u wslay_event_context \<Rightarrow> bool" where
  "can_queue ctx \<longleftrightarrow> outbox_inv ctx \<and> ob_open (outbox_of ctx) \<and> (\<forall>n. mem_ok (ec_mem ctx) n)"

lemma can_queue_cong:
  assumes "send_part ctx' = send_part ctx" "mem_ok (ec_mem ctx') = mem_ok (ec_mem ctx)"
  shows "can_queue ctx' = can_queue ctx"
  by (simp add: can_queue_def send_part_simps(1,2) [OF assms(1)] assms(2))

lemma close_wrapper_open:
  assumes "can_queue ctx" "length reason \<le> 123" "wslay_event_queue_close_wrapper ctx code reason = (r, ctx')"
  shows "r = 0 \<and> closed_with code reason ctx ctx' \<and> ec_status_code_recv ctx' = ec_status_code_recv ctx \<and>
    ec_close_status ctx' = ec_close_status ctx OR WSLAY_CLOSE_QUEUED"
proof -
  let ?c = "ctx\<lparr>ec_read_enabled := False\<rparr>"
  have same: "outbox_of ?c = outbox_of ctx" "outbox_inv ?c"
    using assms(1) by (simp_all add: can_queue_def outbox_of_def outbox_inv_def wslay_event_is_msg_queueable_def)
  obtain r1 where q: "wslay_event_queue_close ?c code reason = (r1, ctx')" "r = (if r1 \<noteq> 0 \<and> r1 \<noteq> wslay_error_code WSLAY_ERR_NO_MORE_MSG then r1 else 0)"
    using assms(3) by (auto simp: wslay_event_queue_close_wrapper_def split: prod.splits)
  have spec: "outbox_inv ctx' \<and> outbox_only ?c ctx' \<and> r1 = 0 \<and>
      outbox_of ctx' = outbox_close (outbox_put (whole_msg (close_msg code reason)) (outbox_of ctx)) \<and>
      ec_close_status ctx' = ec_close_status ctx OR WSLAY_CLOSE_QUEUED"
    using queue_close_spec [OF same(2) q(1)] assms(1,2) unfolding same can_queue_def by simp
  have "sans_outbox ctx' = sans_outbox ?c" using spec by (simp add: outbox_only_def)
  then have "ec_read_enabled (sans_outbox ctx') = ec_read_enabled (sans_outbox ?c)"
      "ec_status_code_recv (sans_outbox ctx') = ec_status_code_recv (sans_outbox ?c)" by simp_all
  then show ?thesis using spec q(2) by (simp add: sans_outbox_def closed_with_def)
qed

lemma close_wrapper_closed:
  "\<not> ob_open (outbox_of ctx) \<Longrightarrow> wslay_event_queue_close_wrapper ctx code reason = (1, ctx\<lparr>ec_read_enabled := False\<rparr>)"
  by (simp add: wslay_event_queue_close_wrapper_def wslay_event_queue_close_def outbox_of_def wslay_event_is_msg_queueable_def)

lemma close_and_break_open:
  assumes "can_queue ctx"
  shows "\<exists>ctx'. close_and_break code ctx = (Break, ctx') \<and> closed_with code [] ctx ctx'"
proof -
  obtain r ctx' where w: "wslay_event_queue_close_wrapper ctx code [] = (r, ctx')" by fastforce
  then show ?thesis using close_wrapper_open [OF assms _ w] by (simp add: close_and_break_def)
qed

section \<open>Protocol errors\<close>

text \<open>The frames that RFC 6455 does not allow at this point, given a well-formed header.\<close>

definition protocol_error :: "wslay_frame_iocb \<Rightarrow> 'u wslay_event_context \<Rightarrow> bool" where
  "protocol_error io ctx \<longleftrightarrow> iocb_rsv io \<noteq> 0 \<or> iocb_mask io \<noteq> ec_server ctx \<or>
     (if im_opcode (imsg_get ctx) = 0xff then iocb_opcode io \<notin> {1, 2, 8, 9, 10}
      else ec_ipayloadlen ctx = 0 \<and> ec_ipayloadoff ctx = 0 \<and> iocb_opcode io \<notin> {0, 8, 9, 10})"

lemma recv_frame_protocol_error:
  assumes "protocol_error io ctx" "can_queue ctx"
  shows "\<exists>ctx'. recv_frame cbs io ctx = (Break, ctx') \<and> closed_with WSLAY_CODE_PROTOCOL_ERROR [] ctx ctx'"
proof -
  obtain ctx' where c: "close_and_break WSLAY_CODE_PROTOCOL_ERROR ctx = (Break, ctx')" "closed_with WSLAY_CODE_PROTOCOL_ERROR [] ctx ctx'"
    using close_and_break_open [OF assms(2)] by blast
  have "recv_frame cbs io ctx = (Break, ctx')"
  proof (cases "iocb_rsv io \<noteq> 0 \<or> iocb_mask io \<noteq> ec_server ctx")
    case True
    then have "recv_check_header io ctx = (Break, ctx')" using c(1) by (auto simp: recv_check_header_def)
    then show ?thesis by (simp add: recv_frame_def andthen_def)
  next
    case False
    then have "recv_check_header io ctx = (Go, ctx)" by (simp add: recv_check_header_def)
    moreover have "recv_classify io ctx = (Break, False, ctx')"
      using assms(1) False c(1) by (simp add: recv_classify_def protocol_error_def is_ctrl_opcode_def split: if_splits)
    ultimately show ?thesis by (simp add: recv_frame_def andthen_def)
  qed
  then show ?thesis using c(2) by blast
qed

lemma recv_new_frame_too_big:
  assumes "im_msg_length (imsg_get ctx) + iocb_payload_length io > ec_max_recv_msg_length ctx" "can_queue ctx"
  shows "\<exists>ctx'. recv_new_frame cbs io ctx = (Break, ctx') \<and> closed_with WSLAY_CODE_MESSAGE_TOO_BIG [] ctx ctx'"
  using close_and_break_open [OF assms(2), of WSLAY_CODE_MESSAGE_TOO_BIG] assms(1) by (simp add: recv_new_frame_def)

section \<open>Control frames\<close>

text \<open>A control frame uses the first slot if no message is in progress, the second one inside a message.\<close>

definition ctrl_slot :: "'u wslay_event_context \<Rightarrow> imsg_slot" where
  "ctrl_slot ctx = (if im_opcode (ec_imsgs ctx Imsg0) = 0xff then Imsg0 else Imsg1)"

definition ctrl_ready :: "'u wslay_event_context \<Rightarrow> bool" where
  "ctrl_ready ctx \<longleftrightarrow> ec_imsg ctx = Imsg0 \<and> ec_ipayloadlen ctx = 0 \<and> ec_ipayloadoff ctx = 0 \<and>
     im_utf8state (ec_imsgs ctx (ctrl_slot ctx)) = UTF8_ACCEPT \<and>
     (\<exists>q. im_chunks (ec_imsgs ctx (ctrl_slot ctx)) = Live q \<and> assembled q []) \<and> (\<forall>n. mem_ok (ec_mem ctx) n)"

definition ctrl_frame :: "bool \<Rightarrow> ws_frame \<Rightarrow> bool" where
  "ctrl_frame srv f \<longleftrightarrow> rfc_valid f \<and> fr_rsv f = 0 \<and> (fr_key f \<noteq> None) = srv \<and> fr_opcode f \<in> {8, 9, 10}"

text \<open>What handling a control frame leaves alone.\<close>

definition aside :: "('u \<Rightarrow> byte list) \<Rightarrow> ('u \<Rightarrow> bool) \<Rightarrow> imsg_slot \<Rightarrow> 'u wslay_event_context \<Rightarrow> 'u wslay_event_context \<Rightarrow> bool" where
  "aside stream ok s ctx ctx' \<longleftrightarrow> ec_server ctx' = ec_server ctx \<and> ec_config ctx' = ec_config ctx \<and>
     ec_max_recv_msg_length ctx' = ec_max_recv_msg_length ctx \<and> ec_frame_ctx ctx' = ec_frame_ctx ctx \<and>
     mem_ok (ec_mem ctx') = mem_ok (ec_mem ctx) \<and> (\<forall>s'. s' \<noteq> s \<longrightarrow> ec_imsgs ctx' s' = ec_imsgs ctx s') \<and>
     send_part ctx' = send_part ctx \<and> quiet stream ok ctx ctx'"

lemma steady_aside: "steady stream ok ctx ctx' \<Longrightarrow> ec_imsg ctx = s \<Longrightarrow> aside stream ok s ctx ctx'"
  by (auto simp: steady_def aside_def)

lemma aside_trans [trans]: "aside stream ok s a b \<Longrightarrow> aside stream ok s b c \<Longrightarrow> aside stream ok s a c"
  by (simp add: aside_def quiet_def)

lemma ctrl_opcodes:
  assumes "ctrl_frame srv f"
  shows "is_ctrl_opcode (of_nat (fr_opcode f))" "(of_nat (fr_opcode f) :: byte) \<noteq> WSLAY_TEXT_FRAME" "(of_nat (fr_opcode f) :: byte) \<noteq> 0"
    "wslay_is_ctrl_frame (of_nat (fr_opcode f))" "fr_fin f" "length (fr_payload f) \<le> 125"
  using assms by (auto simp: ctrl_frame_def is_ctrl_opcode_def rfc_valid_def wslay_is_ctrl_frame_def)

lemma classify_ctrl:
  assumes "ctrl_frame (ec_server ctx) f" "ctrl_ready ctx"
  shows "\<exists>c. recv_classify (delivered_io f 0 n) ctx = (Go, True, c) \<and> aside stream ok (ctrl_slot ctx) ctx c \<and>
    msg_chunks (ctrl_slot ctx) (of_nat (fr_opcode f)) UTF8_ACCEPT 0 0 [] c \<and> im_fin (imsg_get c) = 1 \<and> im_rsv (imsg_get c) = 0"
proof -
  note op = ctrl_opcodes [OF assms(1)]
  define c0 where "c0 = ctx\<lparr>ec_imsg := ctrl_slot ctx\<rparr>"
  define c where "c = imsg_put (wslay_event_imsg_set (imsg_get c0) 1 0 (of_nat (fr_opcode f))) c0"
  have rd: "ec_imsg ctx = Imsg0" "ec_ipayloadlen ctx = 0" "ec_ipayloadoff ctx = 0"
    using assms(2) by (simp_all add: ctrl_ready_def)
  have "recv_classify (delivered_io f 0 n) ctx = (Go, True, c)"
  proof (cases "im_opcode (ec_imsgs ctx Imsg0) = 0xff")
    case True
    then have "c0 = ctx" using rd by (simp add: c0_def ctrl_slot_def)
    then show ?thesis using True op assms(1) rd by (simp add: recv_classify_def delivered_io_def imsg_get_def c_def ctrl_frame_def)
  next
    case False
    then have "c0 = ctx\<lparr>ec_imsg := Imsg1\<rparr>" by (simp add: c0_def ctrl_slot_def)
    then show ?thesis using False op assms(1) rd by (simp add: recv_classify_def delivered_io_def imsg_get_def c_def ctrl_frame_def Let_def)
  qed
  moreover have "aside stream ok (ctrl_slot ctx) ctx c"
    by (simp add: c_def c0_def aside_def quiet_def) (simp add: imsg_put_def)
  moreover have "msg_chunks (ctrl_slot ctx) (of_nat (fr_opcode f)) UTF8_ACCEPT 0 0 [] c"
    using assms(2) by (simp add: c_def msg_chunks_def ctrl_ready_def wslay_event_imsg_set_def msg_size_def) (simp add: c0_def imsg_get_def)
  ultimately show ?thesis by (simp add: c_def wslay_event_imsg_set_def)
qed

text \<open>The whole frame arrived: its payload is checked, stored, taken out again, and dispatched.\<close>

definition ctrl_dispatched where
  "ctrl_dispatched cbs stream ok f io ctx c \<longleftrightarrow> aside stream ok (ctrl_slot ctx) ctx c \<and> ec_imsg c = ctrl_slot ctx \<and>
     im_opcode (imsg_get c) = of_nat (fr_opcode f) \<and> im_rsv (imsg_get c) = 0 \<and>
     im_msg_length (imsg_get c) = of_nat (length (fr_payload f)) \<and>
     recv_frame cbs io ctx =
       (case recv_dispatch (payload_ptr (fr_payload f)) c of
          (s, code, c') \<Rightarrow> andthen (s, c') (\<lambda>c'. (Go, forget_msg (call_on_msg_recv cbs (payload_ptr (fr_payload f)) (of_nat (length (fr_payload f))) code c'))))"

context event_peer begin

lemma recv_frame_enters_ctrl:
  assumes f: "ctrl_frame (ec_server ctx) f" and rd: "ctrl_ready ctx" and max: "length (fr_payload f) \<le> unat (ec_max_recv_msg_length ctx)"
  shows "\<exists>c. recv_frame cbs (delivered_io f 0 n) ctx = recv_rest cbs (delivered_io f 0 n) c \<and> aside stream ok (ctrl_slot ctx) ctx c \<and>
    msg_chunks (ctrl_slot ctx) (of_nat (fr_opcode f)) UTF8_ACCEPT (length (fr_payload f)) 0 [] c \<and>
    im_fin (imsg_get c) = 1 \<and> im_rsv (imsg_get c) = 0"
proof -
  let ?io = "delivered_io f 0 n" and ?s = "ctrl_slot ctx"
  note op = ctrl_opcodes [OF f]
  obtain c where c: "recv_classify ?io ctx = (Go, True, c)" "aside stream ok ?s ctx c"
      "msg_chunks ?s (of_nat (fr_opcode f)) UTF8_ACCEPT 0 0 [] c" "im_fin (imsg_get c) = 1" "im_rsv (imsg_get c) = 0"
    using classify_ctrl [OF f rd] by blast
  have "recv_check_header ?io ctx = (Go, ctx)" using f by (auto simp: recv_check_header_def delivered_io_def ctrl_frame_def)
  then have rf: "recv_frame cbs ?io ctx = andthen (recv_new_frame cbs ?io c) (recv_rest cbs ?io)"
    using c(1) by (simp add: recv_frame_def recv_rest_def [abs_def] andthen_def)
  have "buffered ?io c" using op by (simp add: buffered_def delivered_io_def)
  moreover have "mem_ok (ec_mem c) i" for i using c(2) rd by (simp add: aside_def ctrl_ready_def)
  moreover have "length ([] :: byte list) + length (fr_payload f) \<le> unat (ec_max_recv_msg_length c)" using c(2) max by (simp add: aside_def)
  moreover have "length (fr_payload f) < 2 ^ 63" using op(6) by simp
  moreover have "iocb_payload_length ?io = of_nat (length (fr_payload f))" by (simp add: delivered_io_def)
  ultimately obtain c' where c': "recv_new_frame cbs ?io c = (Go, c')" "steady stream ok c c'"
      "msg_chunks ?s (of_nat (fr_opcode f)) UTF8_ACCEPT (length (fr_payload f)) 0 [] c'"
    using new_frame [OF c(3)] by blast
  have "ec_imsg c = ?s" using c(3) by (simp add: msg_chunks_def)
  then have "aside stream ok ?s ctx c'" using aside_trans [OF c(2) steady_aside [OF c'(2)]] by simp
  then show ?thesis using rf c' c by (auto simp: andthen_def steady_def)
qed

lemma ctrl_finish:
  assumes rd: "ctrl_ready ctx" and c: "aside stream ok (ctrl_slot ctx) ctx c" "ec_imsg c = ctrl_slot ctx" "im_fin (imsg_get c) = 1" "im_rsv (imsg_get c) = 0"
    and c2: "steady stream ok c c2" "recv_frame cbs io ctx = recv_finish_frame cbs io c2"
      "msg_chunks (ctrl_slot ctx) (of_nat (fr_opcode f)) st (length (fr_payload f)) (length (fr_payload f)) (fr_payload f) c2"
    and op: "fr_opcode f = 9 \<or> fr_opcode f = 10 \<and> ev_on_msg_recv_callback cbs \<noteq> None \<or> fr_opcode f = 8 \<and> st = UTF8_ACCEPT"
    and io: "wslay_is_ctrl_frame (iocb_opcode io)"
  shows "\<exists>c. ctrl_dispatched cbs stream ok f io ctx c"
proof -
  let ?s = "ctrl_slot ctx" and ?p = "fr_payload f" and ?op = "of_nat (fr_opcode f) :: byte"
  have "buffered io c2" using io by (simp add: buffered_def)
  moreover have "mem_ok (ec_mem c2) i" for i using c2(1) c(1) rd by (simp add: steady_def aside_def ctrl_ready_def)
  moreover have "im_fin (imsg_get c2) \<noteq> 0" "im_rsv (imsg_get c2) = 0" using c2(1) c by (simp_all add: steady_def)
  moreover have "?op = WSLAY_TEXT_FRAME \<or> ?op = WSLAY_CONNECTION_CLOSE \<longrightarrow> st = UTF8_ACCEPT" using op by auto
  moreover have "ev_on_msg_recv_callback cbs \<noteq> None \<or> ?op = WSLAY_CONNECTION_CLOSE \<or> ?op = WSLAY_PING" using op by auto
  ultimately obtain c3 where c3: "steady stream ok c2 c3" "im_opcode (imsg_get c3) = ?op" "im_msg_length (imsg_get c3) = of_nat (length ?p)"
      "recv_finish_frame cbs io c2 = (case recv_dispatch (payload_ptr ?p) c3 of
         (s', code, c') \<Rightarrow> andthen (s', c') (\<lambda>c'. (Go, forget_msg (call_on_msg_recv cbs (payload_ptr ?p) (of_nat (length ?p)) code c'))))"
    using finish_frame_dispatch [OF c2(3)] by blast
  have "ec_imsg c3 = ?s" "im_rsv (imsg_get c3) = 0" using c2(1) c3(1) c(2,4) by (simp_all add: steady_def)
  moreover have "aside stream ok ?s ctx c3" using aside_trans [OF c(1) steady_aside [OF steady_trans [OF c2(1) c3(1)] c(2)]] .
  ultimately show ?thesis using c2(2) c3 unfolding ctrl_dispatched_def by (intro exI [of _ c3]) simp
qed

lemma recv_frame_ctrl:
  assumes f: "ctrl_frame (ec_server ctx) f" and rd: "ctrl_ready ctx" and max: "length (fr_payload f) \<le> unat (ec_max_recv_msg_length ctx)"
    and op: "fr_opcode f = 9 \<or> fr_opcode f = 10 \<and> ev_on_msg_recv_callback cbs \<noteq> None"
    and io: "io = delivered_io f 0 (length (fr_payload f))"
  shows "\<exists>c. ctrl_dispatched cbs stream ok f io ctx c"
proof -
  let ?s = "ctrl_slot ctx" and ?p = "fr_payload f" and ?op = "of_nat (fr_opcode f) :: byte"
  note ops = ctrl_opcodes [OF f]
  have nt: "utf8_after ?op bs = UTF8_ACCEPT" for bs using ops(2) by (simp add: utf8_after_def)
  obtain c where c: "recv_frame cbs io ctx = recv_rest cbs io c" "aside stream ok ?s ctx c"
      "msg_chunks ?s ?op UTF8_ACCEPT (length ?p) 0 [] c" "im_fin (imsg_get c) = 1" "im_rsv (imsg_get c) = 0"
    using recv_frame_enters_ctrl [OF f rd max] io by blast
  have pc: "piece ?p io c"
    using f c(2) ops by (auto simp: io piece_def delivered_io_def ctrl_frame_def aside_def buffered_def)
  have "?op \<noteq> WSLAY_CONNECTION_CLOSE" using op by auto
  then obtain c2 where c2: "steady stream ok c c2" "recv_rest cbs io c = recv_finish_frame cbs io c2"
      "msg_chunks ?s ?op UTF8_ACCEPT (length ?p) (length ?p) ?p c2"
    using recv_rest_piece [OF c(3) [folded nt [of "[]"]] pc] by (auto simp: nt)
  show ?thesis
    by (rule ctrl_finish [OF rd c(2) _ c(4,5) c2(1) _ c2(3)]) (use c c2 op ops in \<open>auto simp: msg_chunks_def io delivered_io_def\<close>)
qed

text \<open>A close frame is the only control frame whose payload is checked: from its third byte on it must be UTF-8.\<close>

lemma recv_utf8_close:
  assumes "msg_chunks s WSLAY_CONNECTION_CLOSE UTF8_ACCEPT len 0 [] ctx" "piece ds io ctx"
  shows "\<exists>ctx1. recv_utf8 io ctx =
      (if utf8_states_run 0 (drop 2 ds) = UTF8_REJECT then close_and_break WSLAY_CODE_INVALID_FRAME_PAYLOAD_DATA ctx1 else (Go, ctx1)) \<and>
    msg_chunks s WSLAY_CONNECTION_CLOSE (utf8_states_run 0 (drop 2 ds)) len 0 [] ctx1 \<and> steady stream ok ctx ctx1"
proof -
  have op: "im_opcode (imsg_get ctx) = WSLAY_CONNECTION_CLOSE" "im_utf8state (imsg_get ctx) = 0"
    using assms(1) by (auto simp: msg_chunks_def)
  have scan: "utf8_scan 0 (drop 2 ds) = utf8_states_run 0 (drop 2 ds)" by (rule utf8_scan_run) (simp add: utf8_states_def)
  have part: "imsg_get (snd (wslay_event_queue_close_wrapper c code [])) = imsg_get c" for c :: "'u wslay_event_context" and code
    by (rule recv_part_simps(1) [OF close_wrapper_keeps(1)])
  define c1 where "c1 = imsg_put ((imsg_get ctx)\<lparr>im_utf8state := utf8_states_run 0 (drop 2 ds)\<rparr>) ctx"
  have "msg_chunks s WSLAY_CONNECTION_CLOSE (utf8_states_run 0 (drop 2 ds)) len 0 [] c1" "steady stream ok ctx c1"
    using assms(1) by (auto simp: c1_def msg_chunks_def steady_put)
  moreover have "recv_utf8 io ctx =
      (if utf8_states_run 0 (drop 2 ds) = UTF8_REJECT then close_and_break WSLAY_CODE_INVALID_FRAME_PAYLOAD_DATA c1 else (Go, c1))"
    using op scan part [of _ WSLAY_CODE_INVALID_FRAME_PAYLOAD_DATA]
    unfolding recv_utf8_def Let_def piece_data [OF assms(2)] close_and_break_def c1_def
    by (auto simp: andthen_def case_prod_unfold)
  ultimately show ?thesis by blast
qed

lemma recv_frame_close:
  assumes f: "ctrl_frame (ec_server ctx) f" "fr_opcode f = 8" and rd: "ctrl_ready ctx"
    and max: "length (fr_payload f) \<le> unat (ec_max_recv_msg_length ctx)" and io: "io = delivered_io f 0 (length (fr_payload f))"
  shows "if utf8_text (drop 2 (fr_payload f)) then \<exists>c. ctrl_dispatched cbs stream ok f io ctx c
    else \<exists>c. aside stream ok (ctrl_slot ctx) ctx c \<and> recv_frame cbs io ctx = close_and_break WSLAY_CODE_INVALID_FRAME_PAYLOAD_DATA c"
proof -
  let ?s = "ctrl_slot ctx" and ?p = "fr_payload f" and ?st = "utf8_states_run 0 (drop 2 (fr_payload f))"
  note ops = ctrl_opcodes [OF f(1)]
  obtain c where c: "recv_frame cbs io ctx = recv_rest cbs io c" "aside stream ok ?s ctx c"
      "msg_chunks ?s WSLAY_CONNECTION_CLOSE UTF8_ACCEPT (length ?p) 0 [] c" "im_fin (imsg_get c) = 1" "im_rsv (imsg_get c) = 0"
    using recv_frame_enters_ctrl [OF f(1) rd max] io f(2) by auto
  have sl: "ec_imsg c = ?s" using c(3) by (simp add: msg_chunks_def)
  have pc: "piece ?p io c"
    using f c(2) ops by (auto simp: io piece_def delivered_io_def ctrl_frame_def aside_def buffered_def)
  obtain c1 where c1: "recv_utf8 io c = (if ?st = UTF8_REJECT then close_and_break WSLAY_CODE_INVALID_FRAME_PAYLOAD_DATA c1 else (Go, c1))"
      "msg_chunks ?s WSLAY_CONNECTION_CLOSE ?st (length ?p) 0 [] c1" "steady stream ok c c1"
    using recv_utf8_close [OF c(3) pc] by blast
  obtain c2 where c2: "recv_store cbs io c1 = (Go, c2)" "msg_chunks ?s WSLAY_CONNECTION_CLOSE ?st (length ?p) (length ?p) ?p c2" "steady stream ok c1 c2"
    using recv_store_piece [OF c1(2), of ?p io] pc steady_piece [OF c1(3)] by auto
  have s2: "steady stream ok c c2" using steady_trans [OF c1(3) c2(3)] .
  consider "?st = UTF8_REJECT" | "?st \<noteq> UTF8_REJECT" "?st \<noteq> UTF8_ACCEPT" | "?st = UTF8_ACCEPT" by blast
  then show ?thesis
  proof cases
    case 1
    then have "recv_frame cbs io ctx = close_and_break WSLAY_CODE_INVALID_FRAME_PAYLOAD_DATA c1"
      using c(1) c1(1) close_and_break_exits [of WSLAY_CODE_INVALID_FRAME_PAYLOAD_DATA c1]
      by (auto simp: recv_rest_def andthen_def split: prod.split step.split)
    moreover have "\<not> utf8_text (drop 2 ?p)" using 1 utf8_text_run [of "drop 2 ?p"] by auto
    ultimately show ?thesis using aside_trans [OF c(2) steady_aside [OF c1(3) sl]] by auto
  next
    case 2
    have fin: "im_fin (imsg_get c2) = 1" using s2 c(4) by (simp add: steady_def)
    have "recv_rest cbs io c = recv_finish_frame cbs io c2" using 2 c1(1) c2(1) by (simp add: recv_rest_def andthen_def)
    also have "\<dots> = close_and_break WSLAY_CODE_INVALID_FRAME_PAYLOAD_DATA c2"
      using c2(2) 2 fin by (simp add: recv_finish_frame_def msg_chunks_def)
    finally show ?thesis using 2 c(1) utf8_text_run [of "drop 2 ?p"] aside_trans [OF c(2) steady_aside [OF s2 sl]] by auto
  next
    case 3
    have "recv_frame cbs io ctx = recv_finish_frame cbs io c2" using 3 c(1) c1(1) c2(1) by (simp add: recv_rest_def andthen_def)
    moreover have "wslay_is_ctrl_frame (iocb_opcode io)" using ops by (simp add: io delivered_io_def)
    ultimately show ?thesis
      using ctrl_finish [OF rd c(2) sl c(4,5) s2, of io f ?st] c2(2) f(2) 3 utf8_text_run [of "drop 2 ?p"] by auto
  qed
qed

end

section \<open>Dispatching\<close>

definition pong_msg :: "byte list \<Rightarrow> wslay_event_msg" where
  "pong_msg p = \<lparr>em_opcode = WSLAY_PONG, em_msg = p, em_msg_length = of_nat (length p)\<rparr>"

lemma payload_ptr_bytes: "(case payload_ptr p of None \<Rightarrow> [] | Some ds \<Rightarrow> ds) = p"
  by (simp add: payload_ptr_def)

lemma recv_ping_pong:
  assumes c: "im_msg_length (imsg_get c) = of_nat (length p)" "length p \<le> 125" and inv: "outbox_inv c" and mem: "\<And>n. mem_ok (ec_mem c) n"
  shows "\<exists>c'. recv_ping (payload_ptr p) c = (Go, 0, c') \<and> recv_part c' = recv_part c \<and> outbox_inv c' \<and>
    outbox_of c' = (if ob_open (outbox_of c) then outbox_put (whole_msg (pong_msg p)) (outbox_of c) else outbox_of c)"
proof -
  obtain r c' where q: "wslay_event_queue_msg c (pong_msg p) = (r, c')" by fastforce
  have "\<not> em_msg_length (pong_msg p) > 125" using c(2) by (simp add: pong_msg_def word_less_nat_alt unat_of_nat)
  then have spec: "outbox_inv c'" "if ob_open (outbox_of c) then r = 0 \<and> outbox_of c' = outbox_put (whole_msg (pong_msg p)) (outbox_of c)
      else r = wslay_error_code WSLAY_ERR_NO_MORE_MSG \<and> c' = c"
    using queue_msg_spec [OF inv q] mem by (auto simp: queued_or_nomem_def)
  have "recv_part c' = recv_part c" using queue_msg_keeps(1) [of c "pong_msg p"] q by simp
  moreover have "recv_ping (payload_ptr p) c = (Go, 0, c')"
    using q spec(2) by (auto simp: recv_ping_def payload_ptr_bytes c(1) pong_msg_def split: if_splits)
  ultimately show ?thesis using spec by (auto split: if_splits)
qed

text \<open>The status code in the payload of a close frame, 0 if there is none.\<close>

definition close_code :: "byte list \<Rightarrow> uint16" where
  "close_code p = (if length p < 2 then 0 else ntohs_bytes p)"

lemma received_bit: "(s OR WSLAY_CLOSE_RECEIVED) AND WSLAY_CLOSE_QUEUED = s AND WSLAY_CLOSE_QUEUED" for s :: byte
proof (rule bit_word_eqI)
  fix n
  show "bit ((s OR 1) AND 2) n = bit (s AND 2) n" by (cases n) (auto simp: bit_simps bit_1_iff)
qed

lemma recv_close_spec:
  assumes c: "im_msg_length (imsg_get c) = of_nat (length p)" "length p \<le> 125" and q: "can_queue c"
  shows "\<exists>c'. (if 2 \<le> length p \<and> \<not> wslay_event_is_valid_status_code (close_code p)
      then recv_close (payload_ptr p) c = (Break, close_code p, c') \<and> closed_with WSLAY_CODE_PROTOCOL_ERROR [] c c'
      else recv_close (payload_ptr p) c = (Go, close_code p, c') \<and> closed_with (close_code p) (drop 2 p) c c' \<and>
        ec_close_status c' = ec_close_status c OR WSLAY_CLOSE_RECEIVED OR WSLAY_CLOSE_QUEUED \<and>
        ec_status_code_recv c' = (if close_code p = 0 then WSLAY_CODE_NO_STATUS_RCVD else close_code p))"
proof -
  have len: "im_msg_length (imsg_get c) \<ge> 2 \<longleftrightarrow> 2 \<le> length p" using c(2) by (simp add: c(1) word_le_nat_alt unat_of_nat)
  define c1 where "c1 = c\<lparr>ec_close_status := ec_close_status c OR WSLAY_CLOSE_RECEIVED,
    ec_status_code_recv := (if close_code p = 0 then WSLAY_CODE_NO_STATUS_RCVD else close_code p)\<rparr>"
  have o1: "outbox_of c1 = outbox_of c" "can_queue c1"
    using q by (simp_all add: c1_def outbox_of_def can_queue_def outbox_inv_def wslay_event_is_msg_queueable_def received_bit)
  obtain r c' where w: "wslay_event_queue_close_wrapper c1 (close_code p) (drop 2 p) = (r, c')" by fastforce
  have "length (drop 2 p) \<le> 123" using c(2) by simp
  note spec = close_wrapper_open [OF o1(2) this w]
  have c': "closed_with (close_code p) (drop 2 p) c c'" "ec_close_status c' = ec_close_status c OR WSLAY_CLOSE_RECEIVED OR WSLAY_CLOSE_QUEUED"
      "ec_status_code_recv c' = (if close_code p = 0 then WSLAY_CODE_NO_STATUS_RCVD else close_code p)" "r = 0"
    using spec o1(1) by (simp_all add: closed_with_def c1_def or.assoc)
  show ?thesis
  proof (cases "2 \<le> length p")
    case True
    then have p: "payload_ptr p = Some p" "close_code p = ntohs_bytes p" by (auto simp: payload_ptr_def close_code_def)
    have "unat (of_nat (length p) - 2 :: uint64) = length p - 2"
      using True c(2) unat_sub [of 2 "of_nat (length p) :: uint64"] by (simp add: word_le_nat_alt unat_of_nat)
    then have tk: "take (unat (im_msg_length (imsg_get c) - 2)) (drop 2 p) = drop 2 p" using c(1) by simp
    show ?thesis
    proof (cases "wslay_event_is_valid_status_code (close_code p)")
      case valid: True
      then have "recv_close (payload_ptr p) c = (Go, close_code p, c')"
        using True p(1) len tk w c'(4) unfolding c1_def p(2) [symmetric] by (auto simp: recv_close_def Let_def p(2) [symmetric])
      then show ?thesis using c' valid by (intro exI [of _ c']) simp
    next
      case invalid: False
      obtain c2 where "close_and_break WSLAY_CODE_PROTOCOL_ERROR c = (Break, c2)" "closed_with WSLAY_CODE_PROTOCOL_ERROR [] c c2"
        using close_and_break_open [OF q] by blast
      then show ?thesis using True invalid p len by (intro exI [of _ c2]) (simp add: recv_close_def Let_def)
    qed
  next
    case False
    then have p: "close_code p = 0" "drop 2 p = []" by (auto simp: close_code_def)
    then have "recv_close (payload_ptr p) c = (Go, close_code p, c')"
      using False len w c'(4) by (simp add: recv_close_def Let_def c1_def)
    then show ?thesis using c' False by (intro exI [of _ c']) simp
  qed
qed

section \<open>A slot used twice\<close>

text \<open>The context inside the first round of the next message: its queue of chunks was freed.\<close>

definition reused :: "nat \<Rightarrow> 'u wslay_event_context \<Rightarrow> bool" where
  "reused op ctx \<longleftrightarrow> ec_imsg ctx = Imsg0 \<and> ec_ipayloadlen ctx = 0 \<and> ec_ipayloadoff ctx = 0 \<and> \<not> wslay_event_config_get_no_buffering ctx \<and>
     imsg_get ctx = \<lparr>im_fin = 1, im_rsv = 0, im_opcode = of_nat op, im_utf8state = UTF8_ACCEPT, im_chunks = Freed, im_msg_length = 0\<rparr>"

lemma imsg_put_same: "imsg_put (imsg_get ctx) ctx = ctx"
  by (simp add: imsg_put_def imsg_get_def)

lemma reused_cong: "recv_part ctx' = recv_part ctx \<Longrightarrow> reused op ctx' = reused op ctx"
  unfolding reused_def wslay_event_config_get_no_buffering_def by (frule recv_part_simps(1)) (simp add: recv_part_def)

context event_app begin

lemma recv_new_frame_reused:
  assumes "reused op ctx" "length (fr_payload f) < 2 ^ 63" "length (fr_payload f) \<le> unat (ec_max_recv_msg_length ctx)"
  shows "\<exists>c. recv_new_frame cbs (delivered_io f 0 n) ctx = (if fr_payload f = [] then (Go, c) else (Crash UseAfterFree, c)) \<and>
    (fr_payload f = [] \<longrightarrow> reused op c)"
proof -
  let ?io = "delivered_io f 0 n" and ?len = "of_nat (length (fr_payload f)) :: uint64"
  define c1 where "c1 = wslay_event_call_on_frame_recv_start_callback cbs ?io (ctx\<lparr>ec_ipayloadlen := ?len\<rparr>)"
  have part: "recv_part c1 = recv_part (ctx\<lparr>ec_ipayloadlen := ?len\<rparr>)" by (simp add: c1_def calls_keep)
  have ul: "unat ?len = length (fr_payload f)" using assms(2) by (simp add: unat_of_nat)
  then have z: "?len = 0 \<longleftrightarrow> fr_payload f = []" by (simp add: word_unat_eq_iff)
  have g: "imsg_get c1 = imsg_get ctx" "buffered ?io c1" "reused op (c1\<lparr>ec_ipayloadlen := 0\<rparr>)"
    using assms(1) recv_part_simps [OF part]
    by (auto simp: reused_def imsg_get_def buffered_def wslay_event_config_get_no_buffering_def)
  have pl: "iocb_payload_length ?io = ?len" by (simp add: delivered_io_def)
  have fits: "\<not> im_msg_length (imsg_get ctx) + iocb_payload_length ?io > ec_max_recv_msg_length ctx"
    using assms(1,3) ul by (simp add: reused_def pl word_less_nat_alt)
  note u0 = recv_new_frame_def [of cbs ?io ctx, unfolded Let_def pl c1_def [symmetric], unfolded pl [symmetric] if_not_P [OF fits]]
  have u: "recv_new_frame cbs ?io ctx = (case wslay_event_imsg_append_chunk (ec_mem c1) (imsg_get ctx) ?len of
        Inl f \<Rightarrow> (Crash f, c1)
      | Inr (r, m, mem) \<Rightarrow> (let ctx3 = imsg_put m (c1\<lparr>ec_mem := mem\<rparr>)
           in if r \<noteq> 0 then (Return (-1), ctx3\<lparr>ec_read_enabled := False\<rparr>) else (Go, ctx3)))"
    unfolding Let_def using u0 g pl by simp
  show ?thesis
  proof (cases "fr_payload f = []")
    case False
    then show ?thesis using u z assms(1) by (simp add: wslay_event_imsg_append_chunk_def reused_def)
  next
    case True
    let ?c = "imsg_put (imsg_get ctx) (c1\<lparr>ec_mem := ec_mem c1\<rparr>)"
    have "reused op ?c"
      using g assms(1) True recv_part_simps(4) [OF part] by (auto simp: reused_def imsg_get_def imsg_put_def wslay_event_config_get_no_buffering_def)
    then show ?thesis using u True z by (intro exI [of _ ?c]) (simp add: wslay_event_imsg_append_chunk_def)
  qed
qed

lemma recv_rest_reused:
  assumes "reused op ctx" "data_opcode op" "fr_payload f = []"
  shows "\<exists>c. recv_rest cbs (delivered_io f 0 0) ctx = (Crash DoubleFree, c)"
proof -
  let ?io = "delivered_io f 0 0"
  note ops = data_opcode_simps [OF assms(2)]
  have g: "imsg_get ctx = \<lparr>im_fin = 1, im_rsv = 0, im_opcode = of_nat op, im_utf8state = UTF8_ACCEPT, im_chunks = Freed, im_msg_length = 0\<rparr>"
    using assms(1) by (simp add: reused_def)
  have put: "imsg_put (imsg_get c\<lparr>im_utf8state := UTF8_ACCEPT\<rparr>) c = c" if "im_utf8state (imsg_get c) = UTF8_ACCEPT" for c :: "'u wslay_event_context"
  proof -
    have "imsg_get c\<lparr>im_utf8state := UTF8_ACCEPT\<rparr> = imsg_get c" using that by (cases "imsg_get c") simp
    then show ?thesis by (simp add: imsg_put_same)
  qed
  have u8: "recv_utf8 ?io ctx = (Go, ctx)"
    using g ops put [of ctx] by (auto simp: recv_utf8_def Let_def delivered_io_def andthen_def)
  define c1 where "c1 = wslay_event_call_on_frame_recv_chunk_callback cbs ?io ctx"
  have st: "recv_store cbs ?io ctx = (Go, c1)" by (simp add: recv_store_def delivered_io_def c1_def Let_def)
  have r1: "reused op c1" using assms(1) reused_cong calls_keep(2) unfolding c1_def by blast
  define c2 where "c2 = wslay_event_call_on_frame_recv_end_callback cbs c1"
  have r2: "reused op c2" using r1 reused_cong calls_keep(3) unfolding c2_def by blast
  have keep: "reused op (call_on_msg_recv cbs m l s c)" if "reused op c" for m l s c using that reused_cong calls_keep(4) by blast
  have reset: "wslay_event_imsg_reset (imsg_get c) = Inl DoubleFree" if "reused op c" for c :: "'u wslay_event_context"
    using that by (simp add: reused_def wslay_event_imsg_reset_def Let_def)
  have "imsg_get c2\<lparr>im_chunks := Freed\<rparr> = imsg_get c2" using r2 by (simp add: reused_def)
  then have b: "imsg_put (imsg_get c2\<lparr>im_chunks := Freed\<rparr>) c2 = c2" by (simp only: imsg_put_same)
  have bf: "buffered ?io c2" using r2 by (simp add: reused_def buffered_def)
  have "recv_deliver cbs ?io c2 = (Go, call_on_msg_recv cbs None 0 0 c2)"
    using r2 b bf ops by (simp add: recv_deliver_def reused_def wslay_event_flatten_queue_def Let_def recv_dispatch_def andthen_def)
  then have "\<exists>c. recv_finish_msg cbs ?io c2 = (Crash DoubleFree, c)"
    using reset [OF r2] reset [OF keep [OF r2]] by (simp add: recv_finish_msg_def andthen_def)
  then have "\<exists>c. recv_finish_frame cbs ?io c1 = (Crash DoubleFree, c)"
    using r1 r2 ops by (auto simp: recv_finish_frame_def Let_def reused_def c2_def [symmetric] andthen_def)
  then show ?thesis by (simp add: recv_rest_def u8 st andthen_def)
qed

lemma recv_frame_reused:
  assumes f: "rfc_valid f" "fr_rsv f = 0" "(fr_key f \<noteq> None) = ec_server c" "data_opcode (fr_opcode f)" "fr_fin f"
    and n: "n \<le> length (fr_payload f)" and c: "ec_imsg c = Imsg0" "\<not> wslay_event_config_get_no_buffering c"
      "length (fr_payload f) \<le> unat (ec_max_recv_msg_length c)"
  shows "\<exists>c'. recv_frame cbs (delivered_io f 0 n) (forget_msg c) = (Crash (if fr_payload f = [] then DoubleFree else UseAfterFree), c')"
proof -
  let ?io = "delivered_io f 0 n"
  define c1 where "c1 = imsg_put (wslay_event_imsg_set (imsg_get (forget_msg c)) 1 0 (of_nat (fr_opcode f))) (forget_msg c)"
  have fg: "imsg_get (forget_msg c) = (imsg_get c)\<lparr>im_opcode := 0xff, im_utf8state := UTF8_ACCEPT, im_chunks := Freed\<rparr>"
      "ec_server (forget_msg c) = ec_server c" "ec_max_recv_msg_length (forget_msg c) = ec_max_recv_msg_length c"
    using c(1) by (simp_all add: forget_msg_def imsg_get_def imsg_put_def)
  have chk: "recv_check_header ?io (forget_msg c) = (Go, forget_msg c)" using f fg by (simp add: recv_check_header_def delivered_io_def)
  have cl: "recv_classify ?io (forget_msg c) = (Go, True, c1)"
    using f data_opcode_simps [OF f(4)] fg by (auto simp: recv_classify_def delivered_io_def c1_def)
  have r1: "reused (fr_opcode f) c1"
    using c fg by (simp add: c1_def reused_def wslay_event_imsg_set_def) (simp add: forget_msg_def wslay_event_config_get_no_buffering_def)
  have "length (fr_payload f) \<le> unat (ec_max_recv_msg_length c1)" using c(3) fg by (simp add: c1_def)
  moreover have "length (fr_payload f) < 2 ^ 63" using f(1) by (simp add: rfc_valid_def)
  ultimately obtain c2 where c2: "recv_new_frame cbs ?io c1 = (if fr_payload f = [] then (Go, c2) else (Crash UseAfterFree, c2))"
      "fr_payload f = [] \<longrightarrow> reused (fr_opcode f) c2"
    using recv_new_frame_reused [OF r1] by blast
  have u: "recv_frame cbs ?io (forget_msg c) = andthen (recv_new_frame cbs ?io c1) (recv_rest cbs ?io)"
    using chk cl by (simp add: recv_frame_def recv_rest_def [abs_def] andthen_def)
  show ?thesis
  proof (cases "fr_payload f = []")
    case True
    then have "n = 0" using n by simp
    then show ?thesis using True u c2 recv_rest_reused [OF _ f(4) True] by (auto simp: andthen_def)
  next
    case False
    then show ?thesis using u c2(1) by (simp add: andthen_def)
  qed
qed

end

end
