(* ===== verification/Wslay_Frame_Send.thy ===== *)
theory Wslay_Frame_Send
  imports Wslay_Rfc6455
begin

text \<open>
  Correctness of \<open>wslay_frame_send\<close>. The application's callbacks are known through the contract
  \<open>byte_sink\<close>, what \<open>wslay.h\<close> documents: the send callback puts a prefix of its data on the
  wire and returns its length, the mask callback stores the four bytes asked for.
\<close>

section \<open>The header\<close>

lemma byte0_enum:
  "\<forall>fin \<in> {False, True}. \<forall>r \<in> set [0..<8]. \<forall>n \<in> set [0..<16].
     (push_bit 7 (of_bool fin) AND 0x80) OR (push_bit 4 (of_nat r) AND 0x70) OR (of_nat n AND 0xf)
       = (of_nat ((if fin then 128 else 0) + 16 * r + n) :: byte)"
  by code_simp

lemma byte1_enum:
  "\<forall>m \<in> {False, True}. \<forall>n \<in> set [0..<128].
     (push_bit 7 (of_bool m) AND 0x80) OR of_nat n = (of_nat ((if m then 128 else 0) + n) :: byte)"
  by code_simp

text \<open>\<open>io\<close> hands over the payload of \<open>f\<close> from offset \<open>k\<close> on, or a first part of it. Only the low half of
  the opcode reaches the header.\<close>

definition iocb_carries :: "ws_frame \<Rightarrow> nat \<Rightarrow> wslay_frame_iocb \<Rightarrow> bool" where
  "iocb_carries f k io \<longleftrightarrow>
     iocb_fin io = of_bool (fr_fin f) \<and> iocb_rsv io = of_nat (fr_rsv f) \<and> iocb_opcode io AND 0xf = of_nat (fr_opcode f) \<and>
     iocb_payload_length io = of_nat (length (fr_payload f)) \<and> iocb_mask io = (fr_key f \<noteq> None) \<and>
     k + unat (iocb_data_length io) \<le> length (fr_payload f) \<and>
     take (unat (iocb_data_length io)) (iocb_data io) = take (unat (iocb_data_length io)) (drop k (fr_payload f))"

lemma iocb_byte0:
  assumes "rfc_valid f" "iocb_carries f k io"
  shows "(push_bit 7 (iocb_fin io) AND 0x80) OR (push_bit 4 (iocb_rsv io) AND 0x70) OR (iocb_opcode io AND 0xf)
    = rfc_byte0 f"
proof -
  have "(of_nat (fr_opcode f) :: byte) AND 0xf = of_nat (fr_opcode f)"
    using assms(2) by (simp add: iocb_carries_def and.assoc flip: assms(2) [unfolded iocb_carries_def, THEN conjunct2, THEN conjunct2, THEN conjunct1])
  then show ?thesis
    using byte0_enum [rule_format, of "fr_fin f" "fr_rsv f" "fr_opcode f"] assms
    unfolding rfc_byte0_def rfc_valid_def iocb_carries_def by simp
qed

lemma iocb_byte1:
  assumes "iocb_carries f k io" "n < 128"
  shows "(push_bit 7 (of_bool (iocb_mask io)) AND 0x80) OR of_nat n
    = (of_nat ((if fr_key f \<noteq> None then 128 else 0) + n) :: byte)"
  using byte1_enum [rule_format, of "fr_key f \<noteq> None" n] assms unfolding iocb_carries_def
  by (cases "fr_key f") simp_all

text \<open>The length field and what precedes it are those of the RFC.\<close>

definition rfc_header_nokey :: "ws_frame \<Rightarrow> byte list" where
  "rfc_header_nokey f = rfc_byte0 f # rfc_byte1 f # rfc_ext_length (length (fr_payload f))"

lemma rfc_header_split: "rfc_header f = rfc_header_nokey f @ rfc_key f"
  by (simp add: rfc_header_def rfc_header_nokey_def)

lemma length_header_nokey: "length (rfc_header_nokey f) \<in> {2, 4, 10}"
  by (simp add: rfc_header_nokey_def rfc_ext_length_def)

lemma put_length_rfc:
  assumes "rfc_valid f" "iocb_carries f k io"
    and oh: "oh = rfc_byte0 f # (push_bit 7 (of_bool (iocb_mask io)) AND 0x80) # replicate 12 0"
  obtains oh' where "wslay_frame_put_length oh (iocb_payload_length io) = Some (oh', length (rfc_header_nokey f))"
    "length oh' = OHEADER_SIZE" "take (length (rfc_header_nokey f)) oh' = rfc_header_nokey f"
proof -
  let ?n = "length (fr_payload f)"
  have plen: "iocb_payload_length io = of_nat ?n" "?n < 2 ^ 63" using assms by (auto simp: iocb_carries_def rfc_valid_def)
  note less = word_less_nat_alt unat_of_nat
  have b1: "(push_bit 7 (of_bool (iocb_mask io)) AND 0x80) OR of_nat (rfc_length_code ?n) = rfc_byte1 f"
    using iocb_byte1 [OF assms(2), of "rfc_length_code ?n"] by (simp add: rfc_byte1_def rfc_length_code_def)
  consider "?n < 126" | "126 \<le> ?n" "?n < 65536" | "65536 \<le> ?n" by linarith
  then show thesis
  proof cases
    case 1
    then have "ucast (of_nat ?n :: uint64) = (of_nat ?n :: byte)" by (simp add: word_unat_eq_iff unat_of_nat unsigned_ucast_eq take_bit_nat_eq_self)
    moreover have "(of_nat ?n :: uint64) < 126" using 1 by (simp add: less)
    ultimately have "wslay_frame_put_length oh (iocb_payload_length io) = Some (rfc_byte0 f # rfc_byte1 f # replicate 12 0, 2)"
      using b1 1 by (simp add: wslay_frame_put_length_def plen oh rfc_length_code_def)
    then show thesis using that 1 by (simp add: rfc_header_nokey_def rfc_ext_length_def)
  next
    case 2
    then have "\<not> (of_nat ?n :: uint64) < 126" "(of_nat ?n :: uint64) < 2 ^ 16" by (simp_all add: less)
    moreover have "ucast (of_nat ?n :: uint64) = (of_nat ?n :: uint16)"
      using 2 by (simp add: word_unat_eq_iff unat_of_nat unsigned_ucast_eq take_bit_nat_eq_self)
    ultimately have "wslay_frame_put_length oh (iocb_payload_length io) =
        Some (write_at (rfc_byte0 f # rfc_byte1 f # replicate 12 0) 2 (be_bytes 2 ?n), 4)"
      using b1 2 by (simp add: wslay_frame_put_length_def plen oh rfc_length_code_def be_bytes_2)
    then show thesis using that 2 by (simp add: rfc_header_nokey_def rfc_ext_length_def write_at_def)
  next
    case 3
    then have "\<not> (of_nat ?n :: uint64) < 126" "\<not> (of_nat ?n :: uint64) < 2 ^ 16" "(of_nat ?n :: uint64) < 2 ^ 63"
      using plen(2) by (simp_all add: less)
    then have "wslay_frame_put_length oh (iocb_payload_length io) =
        Some (write_at (rfc_byte0 f # rfc_byte1 f # replicate 12 0) 2 (be_bytes 8 ?n), 10)"
      using b1 3 by (simp add: wslay_frame_put_length_def plen oh rfc_length_code_def be_bytes_8)
    then show thesis using that 3 by (simp add: rfc_header_nokey_def rfc_ext_length_def write_at_def)
  qed
qed

section \<open>Masking\<close>

lemma length_mask_bytes [simp]: "length (mask_bytes key off ds) = length ds"
  by (simp add: mask_bytes_def)

lemma mask_bytes_Nil [simp]: "mask_bytes key off [] = []"
  by (simp add: mask_bytes_def)

lemma mask_bytes_take: "mask_bytes key off (take n ds) = take n (mask_bytes key off ds)"
  by (rule nth_equalityI) (simp_all add: mask_bytes_def)

lemma mask_bytes_append:
  "mask_bytes key off (xs @ ys) = mask_bytes key off xs @ mask_bytes key (off + of_nat (length xs)) ys"
  by (rule nth_equalityI) (auto simp: mask_bytes_def nth_append add.assoc)

lemma mask_bytes_rfc:
  assumes "k \<le> length ds"
  shows "mask_bytes key (of_nat k) (drop k ds) = drop k (rfc_mask key ds)"
  using assms by (intro nth_equalityI) (simp_all add: mask_bytes_def uint64_mod4)

section \<open>Where the sender is in a frame\<close>

text \<open>\<open>l\<close> is everything on the wire so far, \<open>base\<close> what was there before frame \<open>f\<close>.\<close>

definition send_wf :: "wslay_frame_context \<Rightarrow> bool" where
  "send_wf ctx \<longleftrightarrow> length (fc_oheader ctx) = OHEADER_SIZE \<and> length (fc_omaskkey ctx) = 4"

definition send_keyed :: "ws_frame \<Rightarrow> wslay_frame_context \<Rightarrow> bool" where
  "send_keyed f ctx \<longleftrightarrow>
     (fc_omask ctx \<noteq> 0) = (fr_key f \<noteq> None) \<and> (fr_key f \<noteq> None \<longrightarrow> fc_omaskkey ctx = rfc_key f) \<and>
     fc_opayloadlen ctx = of_nat (length (fr_payload f))"

definition at_send_header :: "ws_frame \<Rightarrow> byte list \<Rightarrow> wslay_frame_context \<Rightarrow> byte list \<Rightarrow> bool" where
  "at_send_header f base ctx l \<longleftrightarrow>
     fc_ostate ctx = SEND_HEADER \<and> send_keyed f ctx \<and> fc_opayloadoff ctx = 0 \<and>
     fc_oheaderlimit ctx = length (rfc_header f) \<and> fc_oheadermark ctx < fc_oheaderlimit ctx \<and>
     take (fc_oheaderlimit ctx) (fc_oheader ctx) = rfc_header f \<and> l = base @ take (fc_oheadermark ctx) (rfc_header f)"

definition at_send_payload :: "ws_frame \<Rightarrow> byte list \<Rightarrow> nat \<Rightarrow> wslay_frame_context \<Rightarrow> byte list \<Rightarrow> bool" where
  "at_send_payload f base k ctx l \<longleftrightarrow>
     fc_ostate ctx = SEND_PAYLOAD \<and> send_keyed f ctx \<and> fc_opayloadoff ctx = of_nat k \<and>
     k \<le> length (fr_payload f) \<and> l = base @ rfc_header f @ take k (rfc_body f)"

definition send_sync :: "ws_frame \<Rightarrow> byte list \<Rightarrow> nat \<Rightarrow> wslay_frame_context \<Rightarrow> byte list \<Rightarrow> bool" where
  "send_sync f base k ctx l \<longleftrightarrow> k = 0 \<and> at_send_header f base ctx l \<or> at_send_payload f base k ctx l"

text \<open>Between frames: an unmasked frame may follow only if no masked one was ever sent.\<close>

definition send_ready :: "ws_frame \<Rightarrow> wslay_frame_context \<Rightarrow> bool" where
  "send_ready f ctx \<longleftrightarrow> fc_ostate ctx = PREP_HEADER \<and> (fr_key f = None \<longrightarrow> fc_omask ctx = 0)"

definition send_result ::
    "ws_frame \<Rightarrow> byte list \<Rightarrow> nat \<Rightarrow> wslay_frame_iocb \<Rightarrow> wslay_error + nat \<Rightarrow> wslay_frame_context \<Rightarrow> byte list \<Rightarrow> bool" where
  "send_result f base k io res ctx l \<longleftrightarrow> send_wf ctx \<and>
     (case res of
        Inl e \<Rightarrow> e = WSLAY_ERR_WANT_WRITE \<and> send_sync f base k ctx l
      | Inr n \<Rightarrow> n \<le> unat (iocb_data_length io) \<and> (0 < iocb_data_length io \<longrightarrow> 0 < n) \<and>
          (if k + n = length (fr_payload f) then send_ready f ctx \<and> l = base @ rfc_frame f
           else send_sync f base (k + n) ctx l))"

text \<open>The same frame under the key that the callback chose.\<close>

definition rekeyed :: "ws_frame \<Rightarrow> ws_frame \<Rightarrow> bool" where
  "rekeyed f f' \<longleftrightarrow> (\<exists>key. length key = 4 \<and> f' = f\<lparr>fr_key := map_option (\<lambda>_. key) (fr_key f)\<rparr>)"

lemma rekeyed_same:
  assumes "rekeyed f f'" "rfc_valid f"
  shows "rfc_valid f'" "fr_payload f' = fr_payload f" "fr_fin f' = fr_fin f" "fr_rsv f' = fr_rsv f"
    "fr_opcode f' = fr_opcode f" "(fr_key f' \<noteq> None) = (fr_key f \<noteq> None)"
  using assms by (cases "fr_key f"; auto simp: rekeyed_def rfc_valid_def)+

section \<open>The send callback\<close>

locale byte_sink =
  fixes cbs :: "'w wslay_frame_callbacks"
    and wire :: "'w \<Rightarrow> byte list"
    and ok :: "'w \<Rightarrow> bool"
  assumes send_ok: "ok w \<Longrightarrow> send_callback cbs ds fl u w = (r, w') \<Longrightarrow> ok w'"
    and send_some: "ok w \<Longrightarrow> send_callback cbs ds fl u w = (r, w') \<Longrightarrow> 0 < r \<Longrightarrow>
          nat r \<le> length ds \<and> wire w' = wire w @ take (nat r) ds"
    and send_none: "ok w \<Longrightarrow> send_callback cbs ds fl u w = (r, w') \<Longrightarrow> r \<le> 0 \<Longrightarrow> wire w' = wire w"
    and mask_ok: "ok w \<Longrightarrow> genmask_callback cbs 4 w = (m, key, w') \<Longrightarrow>
          ok w' \<and> wire w' = wire w \<and> length key \<le> 4 \<and> (m = 0 \<longrightarrow> length key = 4)"
begin

lemma send_masked:
  assumes "ok w" "wslay_frame_send_masked cbs ctx ds t w = (res, ctx', w')"
  shows "ok w' \<and> (\<exists>n \<le> length ds. wire w' = wire w @ take n (mask_bytes (fc_omaskkey ctx) (fc_opayloadoff ctx) ds) \<and>
    ctx' = ctx\<lparr>fc_opayloadoff := fc_opayloadoff ctx + of_nat n\<rparr> \<and>
    (res = Inr (t + n) \<and> (ds \<noteq> [] \<longrightarrow> 0 < t + n) \<or> res = Inl WSLAY_ERR_WANT_WRITE \<and> n = 0 \<and> t = 0))"
  using assms
proof (induction "length ds" arbitrary: ctx ds t w rule: less_induct)
  case less
  let ?mb = "mask_bytes (fc_omaskkey ctx) (fc_opayloadoff ctx)"
  show ?case
  proof (cases "ds = []")
    case True
    then show ?thesis using less.prems by (simp add: wslay_frame_send_masked.simps mask_bytes_def)
  next
    case False
    obtain r w1 where cb: "send_callback cbs (?mb (take TEMP_SIZE ds)) 0 False w = (r, w1)" by fastforce
    note step = less.prems(2) [unfolded wslay_frame_send_masked.simps [of cbs ctx ds t w] Let_def cb prod.case]
    show ?thesis
    proof (cases "0 < r")
      case neg: False
      then have "wire w1 = wire w" "ok w1" using send_none [OF less.prems(1) cb] send_ok [OF less.prems(1) cb] by auto
      moreover have "res = (if 0 < t then Inr t else Inl WSLAY_ERR_WANT_WRITE)" "ctx' = ctx" "w' = w1"
        using step neg False by (auto split: if_splits)
      ultimately show ?thesis by (intro conjI exI [of _ 0]) auto
    next
      case True
      have r: "nat r \<le> min TEMP_SIZE (length ds)" "wire w1 = wire w @ take (nat r) (?mb ds)" "ok w1"
        using send_some [OF less.prems(1) cb True] send_ok [OF less.prems(1) cb] by (simp_all add: mask_bytes_take)
      define c1 where "c1 = ctx\<lparr>fc_opayloadoff := fc_opayloadoff ctx + of_int r\<rparr>"
      have rec: "wslay_frame_send_masked cbs c1 (drop (nat r) ds) (t + nat r) w1 = (res, ctx', w')"
        using step r(1) True False by (auto simp: c1_def min_def split: if_splits)
      have "length (drop (nat r) ds) < length ds" using True False by simp
      from less.hyps [OF this r(3) rec] obtain n where
        n: "ok w'" "n \<le> length ds - nat r" "wire w' = wire w1 @ take n (mask_bytes (fc_omaskkey c1) (fc_opayloadoff c1) (drop (nat r) ds))"
           "ctx' = c1\<lparr>fc_opayloadoff := fc_opayloadoff c1 + of_nat n\<rparr>"
           "res = Inr (t + nat r + n)"
        using True by auto
      have off: "of_int r = (of_nat (nat r) :: uint64)" using True by simp
      have "take (nat r + n) (?mb ds) = take (nat r) (?mb ds) @ take n (drop (nat r) (?mb ds))"
        by (rule take_add)
      also have "drop (nat r) (?mb ds) = mask_bytes (fc_omaskkey c1) (fc_opayloadoff c1) (drop (nat r) ds)"
        using mask_bytes_append [of "fc_omaskkey ctx" "fc_opayloadoff ctx" "take (nat r) ds" "drop (nat r) ds"] r(1)
        by (simp add: c1_def off min_def)
      finally have wire: "wire w' = wire w @ take (nat r + n) (?mb ds)" using n(3) r(2) by simp
      have ctx: "ctx' = ctx\<lparr>fc_opayloadoff := fc_opayloadoff ctx + of_nat (nat r + n)\<rparr>"
        by (simp add: n(4) c1_def off add.assoc)
      have "nat r + n \<le> length ds" "res = Inr (t + (nat r + n))" "0 < t + (nat r + n)"
        using n(2,5) r(1) True by auto
      with wire ctx n(1) show ?thesis
        by (intro conjI exI [of _ "nat r + n"] disjI1 impI)
    qed
  qed
qed

lemma send_data:
  assumes "rfc_valid f" "iocb_carries f k io" "ok w" "at_send_payload f base k ctx (wire w)"
    and "wslay_frame_send_data cbs ctx io w = (res, ctx', w')"
  shows "ok w' \<and> (\<exists>n \<le> unat (iocb_data_length io). wire w' = wire w @ take n (drop k (rfc_body f)) \<and>
      ctx' = ctx\<lparr>fc_opayloadoff := of_nat (k + n)\<rparr> \<and>
      (res = Inr n \<and> (0 < iocb_data_length io \<longrightarrow> 0 < n) \<or> res = Inl WSLAY_ERR_WANT_WRITE \<and> n = 0))"
proof -
  let ?d = "unat (iocb_data_length io)"
  let ?ds = "take ?d (iocb_data io)"
  have st: "send_keyed f ctx" "fc_opayloadoff ctx = of_nat k" using assms(4) by (auto simp: at_send_payload_def)
  have d: "k + ?d \<le> length (fr_payload f)" "?ds = take ?d (drop k (fr_payload f))"
    using assms(2) by (auto simp: iocb_carries_def)
  have same: "ctx\<lparr>fc_opayloadoff := of_nat k\<rparr> = ctx" using st(2) by simp
  note unfold = assms(5) [unfolded wslay_frame_send_data_def Let_def]
  consider "iocb_data_length io = 0" | "0 < iocb_data_length io" "fc_omask ctx \<noteq> 0"
    | "0 < iocb_data_length io" "fc_omask ctx = 0" by (auto simp: word_neq_0_conv [symmetric])
  then show ?thesis
  proof cases
    case 1
    then show ?thesis using unfold assms(3) same by (auto intro!: exI [of _ 0])
  next
    case 2
    then have key: "fc_omaskkey ctx = rfc_key f" "rfc_body f = rfc_mask (rfc_key f) (fr_payload f)"
      using st(1) by (auto simp: send_keyed_def rfc_body_def rfc_key_def)
    have ds: "length ?ds = ?d" "?ds \<noteq> []" "mask_bytes (fc_omaskkey ctx) (fc_opayloadoff ctx) ?ds = take ?d (drop k (rfc_body f))"
      using d 2(1) mask_bytes_rfc [of k "fr_payload f" "rfc_key f"]
      by (auto simp: st(2) key mask_bytes_take word_less_nat_alt)
    have "wslay_frame_send_masked cbs ctx ?ds 0 w = (res, ctx', w')" using unfold 2 by simp
    from send_masked [OF assms(3) this] obtain n where
      n: "ok w'" "n \<le> ?d" "wire w' = wire w @ take n (take ?d (drop k (rfc_body f)))"
        "ctx' = ctx\<lparr>fc_opayloadoff := fc_opayloadoff ctx + of_nat n\<rparr>"
        "res = Inr n \<and> 0 < n \<or> res = Inl WSLAY_ERR_WANT_WRITE \<and> n = 0"
      using ds unfolding ds(1,3) by auto
    then have "wire w' = wire w @ take n (drop k (rfc_body f))" "ctx' = ctx\<lparr>fc_opayloadoff := of_nat (k + n)\<rparr>"
      by (simp_all add: min_def st(2))
    then show ?thesis using n(1,2,5) by blast
  next
    case 3
    then have body: "rfc_body f = fr_payload f" using st(1) by (auto simp: send_keyed_def rfc_body_def split: option.splits)
    obtain r w1 where cb: "send_callback cbs ?ds 0 True w = (r, w1)" by fastforce
    show ?thesis
    proof (cases "0 < r")
      case True
      have len: "length ?ds = ?d" using d by simp
      have sent: "nat r \<le> ?d" "wire w1 = wire w @ take (nat r) (drop k (rfc_body f))" "ok w1"
        using send_some [OF assms(3) cb True] send_ok [OF assms(3) cb] len unfolding d(2) body
        by (auto simp: min_def)
      moreover have "res = Inr (nat r)" "w' = w1" "ctx' = ctx\<lparr>fc_opayloadoff := of_nat (k + nat r)\<rparr>"
        using unfold 3 cb True sent(1) st(2) by auto
      ultimately show ?thesis using True by (intro conjI exI [of _ "nat r"]) auto
    next
      case False
      then show ?thesis
        using unfold 3 cb same send_none [OF assms(3) cb] send_ok [OF assms(3) cb] by (intro conjI exI [of _ 0]) auto
    qed
  qed
qed

lemma send_payload:
  assumes "rfc_valid f" "iocb_carries f k io" "ok w" "at_send_payload f base k ctx (wire w)" "send_wf ctx"
    and "wslay_frame_send_payload cbs ctx io w = (res, ctx', w')"
  shows "ok w' \<and> send_result f base k io res ctx' (wire w')"
proof -
  let ?L = "length (fr_payload f)"
  have st: "fc_ostate ctx = SEND_PAYLOAD" "send_keyed f ctx" "fc_opayloadoff ctx = of_nat k"
      "wire w = base @ rfc_header f @ take k (rfc_body f)"
    using assms(4) by (auto simp: at_send_payload_def)
  have d: "k + unat (iocb_data_length io) \<le> ?L" "?L < 2 ^ 63"
    using assms(1,2) by (auto simp: iocb_carries_def rfc_valid_def)
  obtain r1 c1 w1 where s: "wslay_frame_send_data cbs ctx io w = (r1, c1, w1)" by (metis prod_cases3)
  from send_data [OF assms(1-4) s] obtain n where n: "ok w1" "n \<le> unat (iocb_data_length io)"
      "wire w1 = wire w @ take n (drop k (rfc_body f))" "c1 = ctx\<lparr>fc_opayloadoff := of_nat (k + n)\<rparr>"
      "r1 = Inr n \<and> (0 < iocb_data_length io \<longrightarrow> 0 < n) \<or> r1 = Inl WSLAY_ERR_WANT_WRITE \<and> n = 0" by blast
  have wire: "wire w1 = base @ rfc_header f @ take (k + n) (rfc_body f)" using n(3) st(4) by (simp add: take_add)
  have fin: "(of_nat (k + n) = (of_nat ?L :: uint64)) = (k + n = ?L)"
    using d n(2) by (auto simp: word_unat_eq_iff unat_of_nat simp del: of_nat_add)
  show ?thesis
    using n(5)
  proof (elim disjE conjE)
    assume r1: "r1 = Inr n" "0 < iocb_data_length io \<longrightarrow> 0 < n"
    then have "res = Inr n" "ctx' = (if k + n = ?L then c1\<lparr>fc_ostate := PREP_HEADER\<rparr> else c1)" "w' = w1"
      using assms(6) n(4) fin st(2) unfolding wslay_frame_send_payload_def s by (auto simp: send_keyed_def)
    then show ?thesis using n r1 wire st d assms(5)
      by (auto simp: send_wf_def send_result_def send_ready_def send_sync_def at_send_payload_def send_keyed_def rfc_frame_def)
  next
    assume r1: "r1 = Inl WSLAY_ERR_WANT_WRITE" "n = 0"
    then have "res = Inl WSLAY_ERR_WANT_WRITE" "ctx' = ctx" "w' = w1"
      using assms(6) n(4) st(3) unfolding wslay_frame_send_payload_def s by auto
    then show ?thesis using n r1 assms(4,5) by (auto simp: send_result_def send_sync_def)
  qed
qed

lemma send_header:
  assumes "ok w" "send_wf ctx" "at_send_header f base ctx (wire w)"
    and "wslay_frame_send_header cbs ctx io w = (e, ctx', w')"
  shows "ok w' \<and> send_wf ctx' \<and> (e = Some WSLAY_ERR_WANT_WRITE \<and> at_send_header f base ctx' (wire w') \<or>
    e = None \<and> at_send_payload f base 0 ctx' (wire w'))"
proof -
  let ?m = "fc_oheadermark ctx" and ?l = "fc_oheaderlimit ctx"
  have st: "fc_ostate ctx = SEND_HEADER" "send_keyed f ctx" "fc_opayloadoff ctx = 0" "?l = length (rfc_header f)"
      "?m < ?l" "take ?l (fc_oheader ctx) = rfc_header f" "wire w = base @ take ?m (rfc_header f)"
    using assms(3) by (auto simp: at_send_header_def)
  have slice: "arr_slice (fc_oheader ctx) ?m ?l = drop ?m (rfc_header f)"
    using st(6) by (simp add: arr_slice_def take_drop st(5) less_imp_le flip: st(6))
  define flags where "flags = (if iocb_data_length io > 0 then WSLAY_MSG_MORE else 0)"
  obtain r w1 where cb: "send_callback cbs (drop ?m (rfc_header f)) flags False w = (r, w1)" by fastforce
  note unfold = assms(4) [unfolded wslay_frame_send_header_def Let_def flags_def [symmetric] slice cb prod.case]
  show ?thesis
  proof (cases "0 < r")
    case True
    have s: "nat r \<le> ?l - ?m" "wire w1 = wire w @ take (nat r) (drop ?m (rfc_header f))" "ok w1"
      using send_some [OF assms(1) cb True] send_ok [OF assms(1) cb] by (simp_all add: st(4))
    have wire: "wire w1 = base @ take (?m + nat r) (rfc_header f)" using s(2) st(7) by (simp add: take_add)
    define c1 where "c1 = ctx\<lparr>fc_oheadermark := ?m + nat r\<rparr>"
    have "\<not> r > int ?l - int ?m" using s(1) st(5) by linarith
    then have res: "(e, ctx', w') = (if ?m + nat r = ?l then (None, c1\<lparr>fc_ostate := SEND_PAYLOAD\<rparr>, w1)
        else (Some WSLAY_ERR_WANT_WRITE, c1, w1))"
      using unfold True unfolding c1_def [symmetric] by (simp add: c1_def)
    have "?m + nat r \<le> ?l" using s(1) st(5) by linarith
    then show ?thesis
      using res s(3) wire st assms(2)
      by (auto simp: c1_def at_send_payload_def at_send_header_def send_keyed_def send_wf_def split: if_splits)
  next
    case False
    then have "e = Some WSLAY_ERR_WANT_WRITE" "ctx' = ctx" "w' = w1" using unfold by auto
    then show ?thesis
      using False assms(2,3) send_none [OF assms(1) cb] send_ok [OF assms(1) cb] by simp
  qed
qed

lemma prep_header:
  assumes "rfc_valid f" "iocb_carries f 0 io" "ok w" "send_wf ctx" "send_ready f ctx"
    and "wslay_frame_prep_header cbs ctx io w = (e, ctx', w')"
  shows "ok w' \<and> wire w' = wire w \<and> send_wf ctx' \<and>
    (e = Some WSLAY_ERR_INVALID_CALLBACK \<and> fr_key f \<noteq> None \<and> fc_ostate ctx' = PREP_HEADER \<or>
     e = None \<and> (\<exists>f'. rekeyed f f' \<and> at_send_header f' (wire w) ctx' (wire w')))"
proof -
  let ?n = "length (fr_payload f)" and ?h = "length (rfc_header_nokey f)"
  define oh where "oh = rfc_byte0 f # (push_bit 7 (of_bool (iocb_mask io)) AND 0x80) # replicate 12 0"
  obtain oh' where oh': "wslay_frame_put_length oh (iocb_payload_length io) = Some (oh', ?h)"
      "length oh' = OHEADER_SIZE" "take ?h oh' = rfc_header_nokey f"
    using put_length_rfc [OF assms(1,2) oh_def] .
  have io: "iocb_mask io = (fr_key f \<noteq> None)" "iocb_payload_length io = of_nat ?n" "iocb_opcode io AND 0xf = of_nat (fr_opcode f)"
    using assms(2) by (auto simp: iocb_carries_def)
  define b0 where "b0 = (push_bit 7 (iocb_fin io) AND 0x80) OR (push_bit 4 (iocb_rsv io) AND 0x70)
      OR (iocb_opcode io AND 0xf)"
  define oh1 where "oh1 = (replicate OHEADER_SIZE 0)[0 := (replicate OHEADER_SIZE 0) ! 0 OR b0]"
  have oh_eq: "oh1[1 := oh1 ! 1 OR (push_bit 7 (of_bool (iocb_mask io)) AND 0x80)] = oh"
    unfolding oh1_def b0_def iocb_byte0 [OF assms(1,2)] by (simp add: oh_def eval_nat_numeral)
  have ctrl: "\<not> (wslay_is_ctrl_frame (iocb_opcode io) \<and> iocb_payload_length io > 125)"
    using assms(1) unfolding ctrl_low [of "iocb_opcode io"] io by (auto simp: rfc_valid_def ctrl_opcode word_less_nat_alt unat_of_nat)
  note u = assms(6) [unfolded wslay_frame_prep_header_def Let_def b0_def [symmetric] oh1_def [symmetric] oh_eq oh' option.case prod.case]
  show ?thesis
  proof (cases "fr_key f")
    case None
    then have "rekeyed f f" "rfc_header f = rfc_header_nokey f"
      by (auto simp: rekeyed_def rfc_header_split rfc_key_def intro!: exI [of _ "replicate 4 0"])
    moreover have "e = None" "w' = w" "ctx' = ctx\<lparr>fc_oheader := oh', fc_ostate := SEND_HEADER, fc_oheadermark := 0,
        fc_oheaderlimit := ?h, fc_opayloadlen := iocb_payload_length io, fc_opayloadoff := 0\<rparr>"
      using u ctrl None io by auto
    ultimately show ?thesis
      using assms(3-5) oh' None io length_header_nokey [of f]
      by (auto simp: at_send_header_def send_wf_def send_ready_def send_keyed_def)
  next
    case (Some k0)
    obtain m key w1 where cb: "genmask_callback cbs 4 w = (m, key, w1)" by (metis prod_cases3)
    have k: "ok w1" "wire w1 = wire w" "length key \<le> 4" "m = 0 \<longrightarrow> length key = 4"
      using mask_ok [OF assms(3) cb] by auto
    have klen: "length (write_at (fc_omaskkey ctx) 0 key) = 4" using k(3) assms(4) by (simp add: send_wf_def)
    show ?thesis
    proof (cases "m = 0")
      case False
      then have "e = Some WSLAY_ERR_INVALID_CALLBACK" "w' = w1"
          "ctx' = ctx\<lparr>fc_oheader := oh', fc_omaskkey := write_at (fc_omaskkey ctx) 0 key\<rparr>"
        using u ctrl Some io cb by auto
      then show ?thesis using k klen assms(5) oh' Some by (auto simp: send_wf_def send_ready_def)
    next
      case True
      then have kk: "write_at (fc_omaskkey ctx) 0 key = key" "length key = 4" "take 4 key = key"
        using k assms(4) by (auto simp: write_at_def send_wf_def)
      define f' where "f' = f\<lparr>fr_key := Some key\<rparr>"
      have f': "rekeyed f f'" "rfc_header f' = rfc_header_nokey f @ key" "rfc_key f' = key" "fr_key f' = Some key"
          "fr_payload f' = fr_payload f"
        using Some kk(2) by (auto simp: f'_def rekeyed_def rfc_header_split rfc_header_nokey_def rfc_key_def rfc_byte0_def rfc_byte1_def)
      have hd: "?h + 4 \<le> OHEADER_SIZE" using length_header_nokey [of f] by auto
      have "e = None" "w' = w1" and c: "ctx' = ctx\<lparr>fc_omaskkey := key, fc_omask := 1, fc_oheader := write_at oh' ?h key,
          fc_ostate := SEND_HEADER, fc_oheadermark := 0, fc_oheaderlimit := ?h + 4,
          fc_opayloadlen := iocb_payload_length io, fc_opayloadoff := 0\<rparr>"
        using u ctrl Some io cb True kk by auto
      moreover have "length (write_at oh' ?h key) = OHEADER_SIZE" using hd oh'(2) kk(2) by simp
      moreover have "take (?h + 4) (write_at oh' ?h key) = rfc_header_nokey f @ key"
        using oh' kk(2) hd by (simp add: write_at_def)
      ultimately have "at_send_header f' (wire w) ctx' (wire w')" "send_wf ctx'"
        using f' io kk k by (simp_all add: at_send_header_def send_wf_def send_keyed_def)
      then show ?thesis using k f' \<open>e = None\<close> \<open>w' = w1\<close> by blast
    qed
  qed
qed

lemma carries_bound: "rfc_valid f \<Longrightarrow> iocb_carries f k io \<Longrightarrow> \<not> iocb_data_length io > iocb_payload_length io"
  by (auto simp: iocb_carries_def rfc_valid_def word_less_nat_alt unat_of_nat)

lemma send_continues:
  assumes "rfc_valid f" "iocb_carries f k io" "ok w" "send_wf ctx" "send_sync f base k ctx (wire w)"
    and "wslay_frame_send cbs ctx io w = (res, ctx', w')"
  shows "ok w' \<and> send_result f base k io res ctx' (wire w')"
proof -
  have st: "fc_ostate ctx \<noteq> PREP_HEADER" using assms(5) by (auto simp: send_sync_def at_send_header_def at_send_payload_def)
  note u = assms(6) [unfolded wslay_frame_send_def if_not_P [OF carries_bound [OF assms(1,2)]] if_not_P [OF st] prod.case option.case]
  show ?thesis
  proof (cases "fc_ostate ctx = SEND_HEADER")
    case False
    then have pay: "at_send_payload f base k ctx (wire w)" using assms(5) by (auto simp: send_sync_def at_send_header_def)
    then have "wslay_frame_send_payload cbs ctx io w = (res, ctx', w')" using u False by (simp add: at_send_payload_def)
    from send_payload [OF assms(1-3) pay assms(4) this] show ?thesis .
  next
    case True
    then have hd: "k = 0" "at_send_header f base ctx (wire w)" using assms(5) by (auto simp: send_sync_def at_send_payload_def)
    obtain e c1 w1 where h: "wslay_frame_send_header cbs ctx io w = (e, c1, w1)" by (metis prod_cases3)
    from send_header [OF assms(3,4) hd(2) h] consider
        "e = Some WSLAY_ERR_WANT_WRITE" "ok w1" "at_send_header f base c1 (wire w1)" "send_wf c1"
      | "e = None" "ok w1" "at_send_payload f base k c1 (wire w1)" "send_wf c1" using hd(1) by blast
    then show ?thesis
    proof cases
      case 1
      then show ?thesis using u True h hd(1) by (auto simp: send_result_def send_sync_def)
    next
      case 2
      then have "wslay_frame_send_payload cbs c1 io w1 = (res, ctx', w')"
        using u True h by (simp add: at_send_payload_def)
      from send_payload [OF assms(1,2) 2(2-4) this] show ?thesis .
    qed
  qed
qed

lemma send_starts:
  assumes "rfc_valid f" "iocb_carries f 0 io" "ok w" "send_wf ctx" "send_ready f ctx"
    and "wslay_frame_send cbs ctx io w = (res, ctx', w')"
  shows "ok w' \<and> (res = Inl WSLAY_ERR_INVALID_CALLBACK \<and> fr_key f \<noteq> None \<and> fc_ostate ctx' = PREP_HEADER \<and> wire w' = wire w \<or>
    (\<exists>f'. rekeyed f f' \<and> send_result f' (wire w) 0 io res ctx' (wire w')))"
proof -
  have st: "fc_ostate ctx = PREP_HEADER" using assms(5) by (simp add: send_ready_def)
  obtain e c1 w1 where p: "wslay_frame_prep_header cbs ctx io w = (e, c1, w1)" by (metis prod_cases3)
  note bound = if_not_P [OF carries_bound [OF assms(1,2)]]
  note u = assms(6) [unfolded wslay_frame_send_def bound if_P [OF st] p prod.case]
  from prep_header [OF assms(1-5) p] consider
      "e = Some WSLAY_ERR_INVALID_CALLBACK" "ok w1" "wire w1 = wire w" "fr_key f \<noteq> None" "fc_ostate c1 = PREP_HEADER"
    | f' where "e = None" "ok w1" "wire w1 = wire w" "send_wf c1" "rekeyed f f'" "at_send_header f' (wire w) c1 (wire w1)"
    by blast
  then show ?thesis
  proof cases
    case 1
    then show ?thesis using u by auto
  next
    case 2
    have v: "rfc_valid f'" "iocb_carries f' 0 io"
      using rekeyed_same [OF 2(5) assms(1)] assms(2) by (auto simp: iocb_carries_def)
    have "fc_ostate c1 \<noteq> PREP_HEADER" "fc_ostate c1 = SEND_HEADER" using 2(6) by (auto simp: at_send_header_def)
    then have "wslay_frame_send cbs c1 io w1 = (res, ctx', w')"
      using u 2(1) unfolding wslay_frame_send_def bound by simp
    from send_continues [OF v 2(2,4) _ this, of "wire w"] 2(5,6) show ?thesis by (auto simp: send_sync_def)
  qed
qed

end

end
