(* ===== verification/Wslay_Event_Sending.thy ===== *)
theory Wslay_Event_Sending
  imports Wslay_Event_App Wslay_Frame_Send "HOL-Library.Sublist"
begin

text \<open>
  \<open>wslay_event_send\<close> on messages queued whole: the order in which they go out, and the bytes they
  become. \<open>script\<close> is that order; \<open>sending\<close> says where in it the sender is.
\<close>

section \<open>The interface of the send callbacks\<close>

text \<open>The callbacks touch the application's data and the error code only.\<close>

definition app_only :: "'u wslay_event_context \<Rightarrow> 'u wslay_event_context \<Rightarrow> bool" where
  "app_only ctx ctx' \<longleftrightarrow> ctx' = ctx\<lparr>ec_user_data := ec_user_data ctx', ec_error := ec_error ctx'\<rparr>"

locale event_out = snk: byte_sink "event_frame_callbacks cbs" "\<lambda>c. wire (ec_user_data c)" "\<lambda>c. ok (ec_user_data c)"
  for cbs :: "'u wslay_event_context wslay_event_callbacks" and wire :: "'u \<Rightarrow> byte list" and ok :: "'u \<Rightarrow> bool" +
  assumes send_keeps: "ev_send_callback cbs ds fl u ctx = (r, ctx') \<Longrightarrow> app_only ctx ctx'"
    and genmask_keeps: "ev_genmask_callback cbs len ctx = (r, key, ctx') \<Longrightarrow> app_only ctx ctx'"

lemma frame_send_world:
  assumes send: "\<And>ds fl u w r w'. send_callback cbs ds fl u w = (r, w') \<Longrightarrow> g w' = g w"
    and mask: "\<And>len w r key w'. genmask_callback cbs len w = (r, key, w') \<Longrightarrow> g w' = g w"
  shows "wslay_frame_send cbs ctx io w = (res, ctx', w') \<Longrightarrow> g w' = g w"
proof -
  have masked: "g (snd (snd (wslay_frame_send_masked cbs c ds t v))) = g v" for c ds t v
  proof (induction "length ds" arbitrary: c ds t v rule: less_induct)
    case less
    then show ?case
      using send by (subst wslay_frame_send_masked.simps) (auto simp: Let_def split: prod.split)
  qed
  have prep: "g (snd (snd (wslay_frame_prep_header cbs c io v))) = g v" for c v
    using mask unfolding wslay_frame_prep_header_def Let_def by (auto split: prod.split option.split)
  have header: "g (snd (snd (wslay_frame_send_header cbs c io v))) = g v" for c v
    using send unfolding wslay_frame_send_header_def Let_def by (auto split: prod.split)
  have data: "g (snd (snd (wslay_frame_send_data cbs c io v))) = g v" for c v
    using send masked unfolding wslay_frame_send_data_def Let_def by (auto split: prod.split)
  have payload: "g (snd (snd (wslay_frame_send_payload cbs c io v))) = g v" for c v
    using data [of c v] unfolding wslay_frame_send_payload_def by (auto split: prod.splits sum.splits)
  have "g (snd (snd (wslay_frame_send cbs ctx io w))) = g w"
    unfolding wslay_frame_send_def by (simp add: case_prod_unfold prep header payload split: option.split)
  then show "wslay_frame_send cbs ctx io w = (res, ctx', w') \<Longrightarrow> g w' = g w" by simp
qed

text \<open>Nor does it touch the receiving half.\<close>

definition frame_in_part where
  "frame_in_part c = (fc_ibuf c, fc_ibufmark c, fc_ibuflimit c, fc_iom c, fc_ipayloadlen c, fc_ipayloadoff c, fc_imask c, fc_imaskkey c,
     fc_istate c, fc_ireqread c)"

definition in_view where
  "in_view ctx = (ec_imsgs ctx, ec_imsg ctx, ec_ipayloadlen ctx, ec_ipayloadoff ctx, ec_config ctx, ec_server ctx, ec_max_recv_msg_length ctx,
     frame_in_part (ec_frame_ctx ctx), ec_read_enabled ctx, ec_status_code_recv ctx)"

lemma frame_in_part_upd [simp]:
  "frame_in_part (c\<lparr>fc_oheader := a\<rparr>) = frame_in_part c" "frame_in_part (c\<lparr>fc_oheadermark := n\<rparr>) = frame_in_part c"
  "frame_in_part (c\<lparr>fc_oheaderlimit := n\<rparr>) = frame_in_part c" "frame_in_part (c\<lparr>fc_opayloadlen := l\<rparr>) = frame_in_part c"
  "frame_in_part (c\<lparr>fc_opayloadoff := l\<rparr>) = frame_in_part c" "frame_in_part (c\<lparr>fc_omask := b\<rparr>) = frame_in_part c"
  "frame_in_part (c\<lparr>fc_omaskkey := a\<rparr>) = frame_in_part c" "frame_in_part (c\<lparr>fc_ostate := s\<rparr>) = frame_in_part c"
  by (simp_all add: frame_in_part_def)

lemma in_view_upd [simp]:
  "in_view (ctx\<lparr>ec_send_queue := q\<rparr>) = in_view ctx" "in_view (ctx\<lparr>ec_send_ctrl_queue := q\<rparr>) = in_view ctx"
  "in_view (ctx\<lparr>ec_omsg := om\<rparr>) = in_view ctx" "in_view (ctx\<lparr>ec_opayloadlen := l\<rparr>) = in_view ctx"
  "in_view (ctx\<lparr>ec_opayloadoff := l\<rparr>) = in_view ctx" "in_view (ctx\<lparr>ec_queued_msg_count := l\<rparr>) = in_view ctx"
  "in_view (ctx\<lparr>ec_queued_msg_length := l\<rparr>) = in_view ctx" "in_view (ctx\<lparr>ec_write_enabled := b\<rparr>) = in_view ctx"
  "in_view (ctx\<lparr>ec_close_status := cs\<rparr>) = in_view ctx" "in_view (ctx\<lparr>ec_status_code_sent := c\<rparr>) = in_view ctx"
  "in_view (ctx\<lparr>ec_user_data := u\<rparr>) = in_view ctx" "in_view (ctx\<lparr>ec_error := e\<rparr>) = in_view ctx"
  "in_view (ctx\<lparr>ec_mem := m\<rparr>) = in_view ctx"
  "frame_in_part f = frame_in_part (ec_frame_ctx ctx) \<Longrightarrow> in_view (ctx\<lparr>ec_frame_ctx := f\<rparr>) = in_view ctx"
  by (simp_all add: in_view_def)

lemma masked_in_part: "frame_in_part (fst (snd (wslay_frame_send_masked cbs c ds t v))) = frame_in_part c"
proof (induction "length ds" arbitrary: c ds t v rule: less_induct)
  case less
  then show ?case
    by (subst wslay_frame_send_masked.simps) (auto simp: Let_def split: prod.split)
qed

lemma data_in_part: "frame_in_part (fst (snd (wslay_frame_send_data cbs c io v))) = frame_in_part c"
  using masked_in_part unfolding wslay_frame_send_data_def Let_def by (auto split: prod.split)

lemma send_payload_in_part: "frame_in_part (fst (snd (wslay_frame_send_payload cbs c io v))) = frame_in_part c"
  using data_in_part [of cbs c io v] unfolding wslay_frame_send_payload_def by (auto split: prod.splits sum.splits)

lemma header_in_part:
  "frame_in_part (fst (snd (wslay_frame_prep_header cbs c io v))) = frame_in_part c"
  "frame_in_part (fst (snd (wslay_frame_send_header cbs c io v))) = frame_in_part c"
  by (auto simp: wslay_frame_prep_header_def wslay_frame_send_header_def Let_def split: prod.split option.split)

lemma frame_send_in_part:
  "wslay_frame_send cbs c io w = (res, c', w') \<Longrightarrow> frame_in_part c' = frame_in_part c"
proof -
  have "frame_in_part (fst (snd (wslay_frame_send cbs c io w))) = frame_in_part c"
    unfolding wslay_frame_send_def by (simp add: case_prod_unfold header_in_part send_payload_in_part split: option.split)
  then show "wslay_frame_send cbs c io w = (res, c', w') \<Longrightarrow> frame_in_part c' = frame_in_part c" by simp
qed

section \<open>The order of messages\<close>

definition is_close :: "wslay_event_omsg \<Rightarrow> bool" where
  "is_close m \<longleftrightarrow> om_opcode m = WSLAY_CONNECTION_CLOSE"

fun until_close :: "wslay_event_omsg list \<Rightarrow> wslay_event_omsg list" where
  "until_close [] = []"
| "until_close (m # ms) = (if is_close m then [m] else m # until_close ms)"

definition close_queued :: "'u wslay_event_context \<Rightarrow> bool" where
  "close_queued ctx \<longleftrightarrow> ec_close_status ctx AND WSLAY_CLOSE_QUEUED \<noteq> 0"

definition ctrl_script :: "'u wslay_event_context \<Rightarrow> wslay_event_omsg list" where
  "ctrl_script ctx = (if close_queued ctx then filter is_close (queue_list (ec_send_ctrl_queue ctx)) else queue_list (ec_send_ctrl_queue ctx))"

text \<open>The message in progress, then the control messages (of which only the close frame is left once one is queued), then the data
  messages; nothing after a close frame.\<close>

definition script :: "'u wslay_event_context \<Rightarrow> wslay_event_omsg list" where
  "script ctx = until_close ((case ec_omsg ctx of None \<Rightarrow> [] | Some m \<Rightarrow> [m]) @ ctrl_script ctx @ queue_list (ec_send_queue ctx))"

definition out_msgs :: "'u wslay_event_context \<Rightarrow> wslay_event_omsg set" where
  "out_msgs ctx = set_option (ec_omsg ctx) \<union> set (queue_list (ec_send_ctrl_queue ctx)) \<union> set (queue_list (ec_send_queue ctx))"

text \<open>A message queued whole, and its frame: unmasked from a server, under any key from a client, with the low
  half of its opcode. A message of \<open>2 ^ 63\<close> bytes or more has none.\<close>

definition whole_omsg :: "wslay_event_omsg \<Rightarrow> bool" where
  "whole_omsg m \<longleftrightarrow> om_type m = WSLAY_NON_FRAGMENTED \<and> om_fin m = 1 \<and> length (om_data m) = unat (om_data_length m) \<and>
     (wslay_is_ctrl_frame (om_opcode m) \<longrightarrow> unat (om_opcode m) < 16 \<and> length (om_data m) \<le> 125)"

definition too_long :: "wslay_event_omsg \<Rightarrow> bool" where
  "too_long m \<longleftrightarrow> 2 ^ 63 \<le> length (om_data m)"

definition frame_of :: "bool \<Rightarrow> wslay_event_omsg \<Rightarrow> ws_frame \<Rightarrow> bool" where
  "frame_of srv m f \<longleftrightarrow> rfc_valid f \<and> fr_fin f \<and> fr_rsv f = 0 \<and> of_nat (fr_opcode f) = om_opcode m AND 0xf \<and>
     (fr_key f = None) = srv \<and> fr_payload f = om_data m"

lemma unat_low4: "unat (b AND 0xf) = unat b mod 16" for b :: byte
  using unat_and_low(3) [of b] by simp

lemma frame_of_exists:
  assumes "whole_omsg m" "\<not> too_long m"
  shows "\<exists>f. frame_of srv m f"
proof -
  have "wslay_is_ctrl_frame (om_opcode m)" if "8 \<le> unat (om_opcode m) mod 16"
    using that ctrl_byte [of "om_opcode m"] by (simp add: ctrl_low [of "om_opcode m"])
  moreover have "of_nat (unat (om_opcode m) mod 16) = om_opcode m AND 0xf" by (simp flip: unat_low4)
  ultimately show ?thesis
    using assms
    by (intro exI [of _ "\<lparr>fr_fin = True, fr_rsv = 0, fr_opcode = unat (om_opcode m) mod 16, fr_key = (if srv then None else Some (replicate 4 0)), fr_payload = om_data m\<rparr>"])
      (auto simp: whole_omsg_def too_long_def frame_of_def rfc_valid_def)
qed

lemma frame_of_rekeyed: "frame_of srv m f \<Longrightarrow> rekeyed f f' \<Longrightarrow> frame_of srv m f'"
  by (auto simp: frame_of_def rekeyed_same) (auto simp: rekeyed_def)

section \<open>Taking a control message\<close>

text \<open>The loop that drops control messages ends: at the first close frame, or with the queue empty.\<close>

lemma ctrl_queue_drop:
  assumes "queue_inv q"
  shows "\<exists>q'. ctrl_queue_drop q = Some (Inr (case filter is_close (queue_list q) of [] \<Rightarrow> None | m # ms \<Rightarrow> Some m, q')) \<and>
    queue_inv q' \<and> queue_list q' = tl (dropWhile (\<lambda>m. \<not> is_close m) (queue_list q))"
  using assms
proof (induction "queue_list q" arbitrary: q)
  case Nil
  then show ?case by (subst ctrl_queue_drop.simps) (simp add: queue_empty_iff)
next
  case (Cons m ms)
  note ql = Cons.hyps(2) [symmetric]
  define q1 where "q1 = snd (wslay_queue_pop q)"
  have q1: "queue_inv q1" "queue_list q1 = ms" using queue_pop_Cons [OF Cons.prems ql] by (auto simp: q1_def)
  have u: "ctrl_queue_drop q = (if is_close m then Some (Inr (Some m, q1)) else ctrl_queue_drop q1)"
    using Cons.prems by (subst ctrl_queue_drop.simps) (simp add: queue_empty_iff queue_top_list ql q1_def is_close_def Let_def)
  show ?case
  proof (cases "is_close m")
    case True
    then show ?thesis using u q1 ql by auto
  next
    case False
    then show ?thesis using u Cons.hyps(1) [of q1] Cons.prems q1 by (simp add: ql)
  qed
qed

lemma ctrl_queue_pop_spec:
  assumes "outbox_inv ctx" "ctrl_script ctx = m # ms"
  shows "\<exists>q. wslay_event_send_ctrl_queue_pop ctx = Some (Inr (Some m, ctx\<lparr>ec_send_ctrl_queue := q\<rparr>)) \<and> queue_inv q \<and>
    queue_list q = (if close_queued ctx then tl (dropWhile (\<lambda>m. \<not> is_close m) (queue_list (ec_send_ctrl_queue ctx))) else ms)"
proof -
  let ?q = "ec_send_ctrl_queue ctx"
  have inv: "queue_inv ?q" using assms(1) by (simp add: outbox_inv_def)
  show ?thesis
  proof (cases "close_queued ctx")
    case True
    then show ?thesis
      using ctrl_queue_drop [OF inv] assms(2)
      by (auto simp: wslay_event_send_ctrl_queue_pop_def close_queued_def ctrl_script_def)
  next
    case False
    then have "queue_list ?q = m # ms" using assms(2) by (simp add: ctrl_script_def)
    then show ?thesis
      using False queue_pop_Cons [OF inv] queue_top_list [OF inv]
      by (auto simp: wslay_event_send_ctrl_queue_pop_def close_queued_def)
  qed
qed

lemma take_ctrl_spec:
  assumes "outbox_inv ctx" "ctrl_script ctx = m # ms"
  shows "\<exists>q. take_ctrl ctx = (Go, ctx\<lparr>ec_send_ctrl_queue := q, ec_omsg := Some m\<rparr>) \<and> queue_inv q \<and>
    queue_list q = (if close_queued ctx then tl (dropWhile (\<lambda>m. \<not> is_close m) (queue_list (ec_send_ctrl_queue ctx))) else ms)"
  using ctrl_queue_pop_spec [OF assms] by (auto simp: take_ctrl_def)

section \<open>Where the sender is\<close>

definition closing_ok :: "'u wslay_event_context \<Rightarrow> bool" where
  "closing_ok ctx \<longleftrightarrow> (close_queued ctx \<longrightarrow> (\<exists>m \<in> set_option (ec_omsg ctx) \<union> set (queue_list (ec_send_ctrl_queue ctx)). is_close m))"

text \<open>\<open>base\<close> is on the wire, followed by what is out of the message in progress.\<close>

definition sending :: "('u \<Rightarrow> byte list) \<Rightarrow> ('u \<Rightarrow> bool) \<Rightarrow> byte list \<Rightarrow> 'u wslay_event_context \<Rightarrow> bool" where
  "sending wire ok base ctx \<longleftrightarrow> ok (ec_user_data ctx) \<and> outbox_inv ctx \<and> send_wf (ec_frame_ctx ctx) \<and>
     (\<forall>m \<in> out_msgs ctx. whole_omsg m) \<and> closing_ok ctx \<and> ec_write_enabled ctx \<and>
     (case ec_omsg ctx of
        None \<Rightarrow> fc_ostate (ec_frame_ctx ctx) = PREP_HEADER \<and> (ec_server ctx \<longrightarrow> fc_omask (ec_frame_ctx ctx) = 0) \<and> wire (ec_user_data ctx) = base
      | Some m \<Rightarrow> \<exists>f k. frame_of (ec_server ctx) m f \<and> send_sync f base k (ec_frame_ctx ctx) (wire (ec_user_data ctx)) \<and>
          ec_opayloadlen ctx = of_nat (length (om_data m)) \<and> ec_opayloadoff ctx = of_nat k \<and> k \<le> length (om_data m))"

text \<open>A message was chosen and is about to be sent, from its first byte or where the last call stopped.\<close>

definition chosen :: "('u \<Rightarrow> byte list) \<Rightarrow> ('u \<Rightarrow> bool) \<Rightarrow> byte list \<Rightarrow> wslay_event_omsg \<Rightarrow> 'u wslay_event_context \<Rightarrow> bool" where
  "chosen wire ok base m ctx \<longleftrightarrow> ok (ec_user_data ctx) \<and> outbox_inv ctx \<and> send_wf (ec_frame_ctx ctx) \<and>
     (\<forall>m \<in> out_msgs ctx. whole_omsg m) \<and> closing_ok ctx \<and> ec_write_enabled ctx \<and> ec_omsg ctx = Some m \<and>
     ec_opayloadlen ctx = of_nat (length (om_data m)) \<and>
     (if too_long m then ec_opayloadoff ctx = 0 \<and> fc_ostate (ec_frame_ctx ctx) = PREP_HEADER \<and> wire (ec_user_data ctx) = base
      else \<exists>f k. frame_of (ec_server ctx) m f \<and> ec_opayloadoff ctx = of_nat k \<and> k \<le> length (om_data m) \<and>
        (send_sync f base k (ec_frame_ctx ctx) (wire (ec_user_data ctx)) \<or>
         k = 0 \<and> send_ready f (ec_frame_ctx ctx) \<and> wire (ec_user_data ctx) = base))"

lemma frame_of_not_long: "frame_of srv m f \<Longrightarrow> \<not> too_long m"
  by (auto simp: frame_of_def rfc_valid_def too_long_def)

lemma send_sync_state: "send_sync f base k c l \<Longrightarrow> fc_ostate c \<noteq> PREP_HEADER"
  by (auto simp: send_sync_def at_send_header_def at_send_payload_def)

lemma until_close_Cons: "until_close xs = m # ms \<Longrightarrow> \<exists>ys. xs = m # ys \<and> ms = (if is_close m then [] else until_close ys)"
  by (cases xs) (auto split: if_splits)

lemma closing_first:
  assumes "closing_ok ctx" "close_queued ctx" "ec_omsg ctx = None"
  shows "\<exists>m ms. ctrl_script ctx = m # ms \<and> is_close m"
proof -
  have "filter is_close (queue_list (ec_send_ctrl_queue ctx)) \<noteq> []"
    using assms by (auto simp: closing_ok_def filter_empty_conv)
  then obtain m ms where "filter is_close (queue_list (ec_send_ctrl_queue ctx)) = m # ms" by (cases "filter is_close (queue_list (ec_send_ctrl_queue ctx))") auto
  moreover from this have "is_close m" by (metis filter_eq_ConsD)
  ultimately show ?thesis using assms(2) by (simp add: ctrl_script_def)
qed

lemma queue_tl_dropWhile: "set (tl (dropWhile P xs)) \<subseteq> set xs"
  by (metis list.set_sel(2) set_dropWhileD subset_iff tl_Nil)

lemma popped_whole: "whole_omsg m \<Longrightarrow> ec_omsg ctx = Some m \<Longrightarrow>
    wslay_event_on_non_fragmented_msg_popped ctx = ctx\<lparr>ec_opayloadlen := om_data_length m, ec_opayloadoff := 0\<rparr>"
proof -
  assume "whole_omsg m" and o: "ec_omsg ctx = Some m"
  then have "m\<lparr>om_fin := 1\<rparr> = m" by (cases m) (simp add: whole_omsg_def)
  then show ?thesis using o by (simp add: wslay_event_on_non_fragmented_msg_popped_def)
qed

text \<open>A message just taken from a queue is ready to be sent from its first byte.\<close>

lemma chosen_popped:
  assumes s: "sending wire ok base ctx" and n: "ec_omsg ctx = None" and w: "whole_omsg m"
    and c: "c = wslay_event_on_non_fragmented_msg_popped (ctx\<lparr>ec_send_ctrl_queue := cq, ec_send_queue := dq, ec_omsg := Some m\<rparr>)"
    and q: "queue_inv cq" "queue_inv dq" "set (queue_list cq) \<subseteq> set (queue_list (ec_send_ctrl_queue ctx))"
      "set (queue_list dq) \<subseteq> set (queue_list (ec_send_queue ctx))" "close_queued ctx \<longrightarrow> is_close m"
  shows "chosen wire ok base m c"
proof -
  have c': "c = ctx\<lparr>ec_send_ctrl_queue := cq, ec_send_queue := dq, ec_omsg := Some m, ec_opayloadlen := om_data_length m, ec_opayloadoff := 0\<rparr>"
    unfolding c by (subst popped_whole [OF w]) simp_all
  have ln: "om_data_length m = of_nat (length (om_data m))" using w by (simp add: whole_omsg_def)
  have "\<exists>f. frame_of (ec_server ctx) m f \<and> send_ready f (ec_frame_ctx ctx)" if "\<not> too_long m"
    using s n frame_of_exists [OF w that, of "ec_server ctx"] by (auto simp: sending_def send_ready_def frame_of_def)
  moreover have cl: "closing_ok c" using q(5) by (simp add: c' closing_ok_def close_queued_def)
  moreover have wh: "\<forall>x \<in> out_msgs c. whole_omsg x" using s q(3,4) w by (auto simp: c' sending_def out_msgs_def)
  ultimately have "(\<exists>f k. frame_of (ec_server ctx) m f \<and> ec_opayloadoff c = of_nat k \<and> k \<le> length (om_data m) \<and>
        (send_sync f base k (ec_frame_ctx c) (wire (ec_user_data c)) \<or> k = 0 \<and> send_ready f (ec_frame_ctx c) \<and> wire (ec_user_data c) = base))"
    if "\<not> too_long m"
    using that s n by (auto simp: c' sending_def intro!: exI [of _ "0 :: nat"])
  then show ?thesis
    using s n q(1,2) cl wh unfolding chosen_def by (simp add: c' sending_def outbox_inv_def ln)
qed

text \<open>Choosing: the first message of the script.\<close>

lemma send_choose_script:
  assumes s: "sending wire ok base ctx" and ms: "script ctx = m # ms"
  shows "\<exists>c. send_choose ctx = (Go, c) \<and> chosen wire ok base m c \<and> script c = m # ms \<and> ec_server c = ec_server ctx \<and>
    in_view c = in_view ctx \<and> ec_queued_msg_count c = ec_queued_msg_count ctx"
proof (cases "ec_omsg ctx")
  case (Some m')
  then have "m' = m" using ms until_close_Cons [of _ m ms] by (auto simp: script_def split: if_splits)
  then obtain f k where f: "frame_of (ec_server ctx) m f" "send_sync f base k (ec_frame_ctx ctx) (wire (ec_user_data ctx))"
      "ec_opayloadlen ctx = of_nat (length (om_data m))" "ec_opayloadoff ctx = of_nat k" "k \<le> length (om_data m)"
    using s Some by (auto simp: sending_def)
  then have "send_choose ctx = (Go, ctx)" using Some send_sync_state [OF f(2)] by (simp add: send_choose_def)
  then show ?thesis using s Some f ms frame_of_not_long [OF f(1)] unfolding chosen_def sending_def \<open>m' = m\<close> by (intro exI [of _ ctx]) auto
next
  case None
  let ?cq = "ec_send_ctrl_queue ctx" and ?dq = "ec_send_queue ctx"
  have inv: "outbox_inv ctx" "queue_inv ?dq" "queue_inv ?cq" and w: "\<And>x. x \<in> out_msgs ctx \<Longrightarrow> whole_omsg x"
    using s by (auto simp: sending_def outbox_inv_def)
  have sc: "script ctx = until_close (ctrl_script ctx @ queue_list ?dq)" using None by (simp add: script_def)
  have cl: "closing_ok ctx" using s by (simp add: sending_def)
  show ?thesis
  proof (cases "ctrl_script ctx")
    case (Cons m1 ms1)
    then have m1: "m1 = m" "ms = (if is_close m then [] else until_close (ms1 @ queue_list ?dq))"
      using until_close_Cons [OF ms [unfolded sc]] by auto
    obtain q where q: "take_ctrl ctx = (Go, ctx\<lparr>ec_send_ctrl_queue := q, ec_omsg := Some m\<rparr>)" "queue_inv q"
        "queue_list q = (if close_queued ctx then tl (dropWhile (\<lambda>m. \<not> is_close m) (queue_list ?cq)) else ms1)"
      using take_ctrl_spec [OF inv(1) Cons] m1 by blast
    have cm: "close_queued ctx \<longrightarrow> is_close m" using closing_first [OF cl _ None] Cons m1 by auto
    have "m \<in> set (ctrl_script ctx)" using Cons m1 by simp
    then have "m \<in> set (queue_list ?cq)" by (auto simp: ctrl_script_def split: if_splits)
    then have mem: "set (m # queue_list q) \<subseteq> set (queue_list ?cq)"
      using Cons q(3) queue_tl_dropWhile [of "\<lambda>m. \<not> is_close m" "queue_list ?cq"] by (auto simp: ctrl_script_def split: if_splits)
    then have wm: "whole_omsg m" using w by (auto simp: out_msgs_def)
    define c where "c = wslay_event_on_non_fragmented_msg_popped (ctx\<lparr>ec_send_ctrl_queue := q, ec_send_queue := ?dq, ec_omsg := Some m\<rparr>)"
    have c': "c = ctx\<lparr>ec_send_ctrl_queue := q, ec_omsg := Some m, ec_opayloadlen := om_data_length m, ec_opayloadoff := 0\<rparr>"
      unfolding c_def by (subst popped_whole [OF wm]) simp_all
    have "chosen wire ok base m c" using mem by (intro chosen_popped [OF s None wm c_def q(2) inv(2)]) (use cm in auto)
    moreover have "wslay_queue_is_empty ?cq = False" using mem inv(3) by (auto simp: queue_empty_iff)
    then have "send_choose ctx = (Go, c)"
      using None q(1) wm by (simp add: send_choose_def andthen_def c_def whole_omsg_def)
    moreover have "script c = m # ms"
      using m1(2) cm q(3) by (auto simp: script_def c' ctrl_script_def close_queued_def)
    ultimately show ?thesis by (intro exI [of _ c]) (simp add: c')
  next
    case Nil
    have nc1: "\<not> close_queued ctx" using closing_first [OF cl _ None] Nil by auto
    then have nc: "\<not> close_queued ctx" "queue_list ?cq = []" using Nil by (auto simp: ctrl_script_def)
    obtain ds where ds: "queue_list ?dq = m # ds" "ms = (if is_close m then [] else until_close ds)"
      using until_close_Cons [OF ms [unfolded sc Nil]] by auto
    then have wm: "whole_omsg m" using w by (auto simp: out_msgs_def)
    let ?q = "snd (wslay_queue_pop ?dq)"
    have q: "queue_inv ?q" "queue_list ?q = ds" using queue_pop_Cons [OF inv(2) ds(1)] by auto
    define c where "c = wslay_event_on_non_fragmented_msg_popped (ctx\<lparr>ec_send_ctrl_queue := ?cq, ec_send_queue := ?q, ec_omsg := Some m\<rparr>)"
    have c': "c = ctx\<lparr>ec_send_queue := ?q, ec_omsg := Some m, ec_opayloadlen := om_data_length m, ec_opayloadoff := 0\<rparr>"
      unfolding c_def by (subst popped_whole [OF wm]) simp_all
    have "chosen wire ok base m c" by (rule chosen_popped [OF s None wm c_def inv(3) q(1)]) (use nc q ds in auto)
    moreover have "send_choose ctx = (Go, c)"
      using None wm nc inv queue_top_list [OF inv(2)] ds(1) c'
      by (simp add: send_choose_def andthen_def queue_empty_iff whole_omsg_def popped_whole [OF wm])
    moreover have "script c = m # ms"
      using ds nc q(2) by (auto simp: script_def c' ctrl_script_def close_queued_def)
    ultimately show ?thesis by (intro exI [of _ c]) (simp add: c')
  qed
qed

section \<open>Sending a message\<close>

lemma send_sync_prefix: "send_sync f base k c l \<Longrightarrow> \<exists>part. l = base @ part \<and> prefix part (rfc_frame f)"
  by (auto simp: send_sync_def at_send_header_def at_send_payload_def rfc_frame_def take_is_prefix prefix_prefix)

text \<open>The control block of the round.\<close>

definition send_io :: "'u wslay_event_context \<Rightarrow> wslay_event_omsg \<Rightarrow> wslay_frame_iocb" where
  "send_io ctx m = \<lparr>iocb_fin = 1, iocb_rsv = 0, iocb_opcode = om_opcode m, iocb_payload_length = ec_opayloadlen ctx,
     iocb_mask = (\<not> ec_server ctx), iocb_data = drop (unat (ec_opayloadoff ctx)) (om_data m),
     iocb_data_length = ec_opayloadlen ctx - ec_opayloadoff ctx\<rparr>"

lemma send_io_carries:
  assumes "frame_of (ec_server ctx) m f" "ec_opayloadlen ctx = of_nat (length (om_data m))" "ec_opayloadoff ctx = of_nat k" "k \<le> length (om_data m)"
  shows "iocb_carries f k (send_io ctx m)" "unat (iocb_data_length (send_io ctx m)) = length (om_data m) - k"
proof -
  have "length (om_data m) < 2 ^ 63" using assms(1) by (auto simp: frame_of_def rfc_valid_def)
  then have u: "unat (of_nat k :: uint64) = k" "unat (of_nat (length (om_data m)) :: uint64) = length (om_data m)"
    using assms(4) by (simp_all add: unat_of_nat)
  then show d: "unat (iocb_data_length (send_io ctx m)) = length (om_data m) - k"
    using assms(4) by (simp add: send_io_def assms(2,3) unat_sub word_le_nat_alt)
  show "iocb_carries f k (send_io ctx m)"
    using assms d u by (auto simp: iocb_carries_def frame_of_def send_io_def)
qed

context event_out begin

lemma frame_send_keeps:
  assumes "wslay_frame_send (event_frame_callbacks cbs) fctx io ctx = (res, fctx', ctx')"
  shows "app_only ctx ctx'"
proof -
  define g where "g = (\<lambda>c :: 'u wslay_event_context. \<lambda>u e. c\<lparr>ec_user_data := u, ec_error := e\<rparr>)"
  have g: "app_only c c' \<longleftrightarrow> g c' = g c" for c c'
  proof
    assume "app_only c c'"
    then have "g c' = g (c\<lparr>ec_user_data := ec_user_data c', ec_error := ec_error c'\<rparr>)" unfolding app_only_def by (rule arg_cong)
    also have "\<dots> = g c" by (simp add: g_def)
    finally show "g c' = g c" .
  next
    assume "g c' = g c"
    then have "g c' (ec_user_data c') (ec_error c') = g c (ec_user_data c') (ec_error c')" by simp
    then show "app_only c c'" by (simp add: g_def app_only_def)
  qed
  have "g ctx' = g ctx"
    by (rule frame_send_world [OF _ _ assms])
      (use send_keeps genmask_keeps g in \<open>simp_all add: event_frame_callbacks_def wslay_event_frame_send_callback_def wslay_event_frame_genmask_callback_def\<close>)
  then show ?thesis using g by simp
qed

text \<open>What one call of \<open>wslay_frame_send\<close> does with the chosen message.\<close>

lemma frame_sent:
  assumes "chosen wire ok base m ctx" "\<not> too_long m"
    and "wslay_frame_send (event_frame_callbacks cbs) (ec_frame_ctx ctx) (send_io ctx m) ctx = (res, fctx, c)"
  shows "app_only ctx c \<and> ok (ec_user_data c) \<and> (\<exists>f k. frame_of (ec_server ctx) m f \<and> ec_opayloadlen ctx = of_nat (length (om_data m)) \<and>
    ec_opayloadoff ctx = of_nat k \<and> k \<le> length (om_data m) \<and>
    (send_result f base k (send_io ctx m) res fctx (wire (ec_user_data c)) \<or>
     res = Inl WSLAY_ERR_INVALID_CALLBACK \<and> wire (ec_user_data c) = base))"
proof -
  obtain f k where f: "frame_of (ec_server ctx) m f" "ec_opayloadlen ctx = of_nat (length (om_data m))" "ec_opayloadoff ctx = of_nat k" "k \<le> length (om_data m)"
      "send_sync f base k (ec_frame_ctx ctx) (wire (ec_user_data ctx)) \<or>
       k = 0 \<and> send_ready f (ec_frame_ctx ctx) \<and> wire (ec_user_data ctx) = base"
    and ok: "ok (ec_user_data ctx)" "send_wf (ec_frame_ctx ctx)"
    using assms(1,2) by (auto simp: chosen_def)
  note io = send_io_carries(1) [OF f(1-4)]
  have v: "rfc_valid f" using f(1) by (simp add: frame_of_def)
  from f(5) show ?thesis
  proof
    assume "send_sync f base k (ec_frame_ctx ctx) (wire (ec_user_data ctx))"
    from snk.send_continues [OF v io ok this assms(3)] show ?thesis
      using f frame_send_keeps [OF assms(3)] by blast
  next
    assume r: "k = 0 \<and> send_ready f (ec_frame_ctx ctx) \<and> wire (ec_user_data ctx) = base"
    then show ?thesis
      using snk.send_starts [OF v io [unfolded conjunct1 [OF r]] ok _ assms(3)] f frame_of_rekeyed [OF f(1)] frame_send_keeps [OF assms(3)]
      by blast
  qed
qed

end

text \<open>A message no length field can announce is refused before a byte of it goes out.\<close>

lemma too_long_refused:
  assumes "chosen wire ok base m ctx" "too_long m" "whole_omsg m"
  shows "\<exists>fctx. wslay_frame_send cbs (ec_frame_ctx ctx) (send_io ctx m) ctx = (Inl WSLAY_ERR_INVALID_ARGUMENT, fctx, ctx)"
proof -
  have c: "fc_ostate (ec_frame_ctx ctx) = PREP_HEADER" "ec_opayloadlen ctx = of_nat (length (om_data m))" "ec_opayloadoff ctx = 0"
    using assms(1,2) by (auto simp: chosen_def)
  have "length (om_data m) < 2 ^ 64" using assms(3) unsigned_less [of "om_data_length m"] by (simp add: whole_omsg_def)
  then have "\<not> ec_opayloadlen ctx < 2 ^ 63" "\<not> ec_opayloadlen ctx < 2 ^ 16" "\<not> ec_opayloadlen ctx < 126"
    using assms(2) by (simp_all add: c(2) too_long_def word_less_nat_alt unat_of_nat)
  then show ?thesis
    using c by (simp add: wslay_frame_send_def wslay_frame_prep_header_def wslay_frame_put_length_def send_io_def Let_def)
qed

text \<open>The outcomes of a round: the message is out, or part of it, or the connection failed.\<close>

definition part_of :: "bool \<Rightarrow> wslay_event_omsg \<Rightarrow> byte list \<Rightarrow> bool" where
  "part_of srv m part \<longleftrightarrow> (if too_long m then part = [] else \<exists>f. frame_of srv m f \<and> prefix part (rfc_frame f))"

definition send_round where
  "send_round wire ok base m ms ctx r c \<longleftrightarrow> ec_server c = ec_server ctx \<and> in_view c = in_view ctx \<and> ok (ec_user_data c) \<and>
     ((\<exists>f. r = (Go, c) \<and> frame_of (ec_server ctx) m f \<and> wire (ec_user_data c) = base @ rfc_frame f \<and>
         ec_queued_msg_count c = ec_queued_msg_count ctx - 1 \<and>
         (if is_close m then \<not> ec_write_enabled c \<and> wslay_event_get_close_sent c
          else sending wire ok (base @ rfc_frame f) c \<and> script c = ms)) \<or>
      r = (Break, c) \<and> sending wire ok base c \<and> script c = m # ms \<and> ec_queued_msg_count c = ec_queued_msg_count ctx \<or>
      r = (Return (wslay_error_code WSLAY_ERR_CALLBACK_FAILURE), c) \<and> \<not> ec_write_enabled c \<and> ec_queued_msg_count c = ec_queued_msg_count ctx \<and>
      (\<exists>part. wire (ec_user_data c) = base @ part \<and> part_of (ec_server ctx) m part))"

lemma sent_bit: "(s OR WSLAY_CLOSE_SENT) AND WSLAY_CLOSE_SENT > 0" for s :: byte
proof -
  have "(s OR 4) AND 4 = 4" by (rule bit_word_eqI) (auto simp: bit_simps)
  then show ?thesis by simp
qed

text \<open>Progress inside the message, and its end.\<close>

lemma chosen_sending:
  assumes "chosen wire ok base m ctx" "frame_of (ec_server ctx) m f" "send_sync f base k fctx (wire u)" "send_wf fctx" "ok u" "k \<le> length (om_data m)"
    and "c = ctx\<lparr>ec_user_data := u, ec_error := e, ec_frame_ctx := fctx, ec_opayloadoff := of_nat k\<rparr>"
  shows "sending wire ok base c" "script c = script ctx"
  using assms
  by (auto simp: chosen_def sending_def outbox_inv_def out_msgs_def closing_ok_def close_queued_def script_def ctrl_script_def)

lemma chosen_done:
  assumes ch: "chosen wire ok base m ctx" and sc: "script ctx = m # ms" and f: "frame_of (ec_server ctx) m f"
    and s: "send_ready f fctx" "wire u = base @ rfc_frame f" "send_wf fctx" "ok u" "frame_in_part fctx = frame_in_part (ec_frame_ctx ctx)"
    and c: "c = send_done m (ctx\<lparr>ec_user_data := u, ec_error := e, ec_frame_ctx := fctx, ec_opayloadoff := n\<rparr>)"
  shows "send_round wire ok base m ms ctx (Go, c) c"
proof (cases "is_close m")
  case True
  then have "\<not> ec_write_enabled c \<and> wslay_event_get_close_sent c"
    using sent_bit by (simp add: c send_done_def is_close_def Let_def wslay_event_get_close_sent_def)
  then show ?thesis using True f s(2,4,5) by (auto simp: send_round_def c send_done_def Let_def)
next
  case False
  then have c': "c = ctx\<lparr>ec_user_data := u, ec_error := e, ec_frame_ctx := fctx, ec_opayloadoff := n, ec_omsg := None,
      ec_queued_msg_count := ec_queued_msg_count ctx - 1, ec_queued_msg_length := ec_queued_msg_length ctx - om_data_length m\<rparr>"
    by (simp add: c send_done_def is_close_def Let_def)
  have o: "ec_omsg ctx = Some m" using ch by (simp add: chosen_def)
  have "ctrl_script c = ctrl_script ctx" by (simp add: c' ctrl_script_def close_queued_def)
  then have "script c = ms" using sc False o by (simp add: script_def c')
  moreover have "sending wire ok (base @ rfc_frame f) c"
    using ch s f False o
    by (auto simp: chosen_def sending_def c' outbox_inv_def out_msgs_def closing_ok_def close_queued_def send_ready_def frame_of_def)
  ultimately show ?thesis using False f s(2,4,5) by (auto simp: send_round_def c')
qed

context event_out begin

lemma send_non_fragmented_round:
  assumes ch: "chosen wire ok base m ctx" and sc: "script ctx = m # ms"
  shows "\<exists>c. send_round wire ok base m ms ctx (send_non_fragmented cbs m ctx) c"
proof (cases "too_long m")
  case True
  have "whole_omsg m" using ch by (auto simp: chosen_def out_msgs_def)
  from too_long_refused [OF ch True this] obtain fctx where
    fs: "wslay_frame_send (event_frame_callbacks cbs) (ec_frame_ctx ctx) (send_io ctx m) ctx = (Inl WSLAY_ERR_INVALID_ARGUMENT, fctx, ctx)"
    by blast
  from this have "send_non_fragmented cbs m ctx = (Return (wslay_error_code WSLAY_ERR_CALLBACK_FAILURE), ctx\<lparr>ec_frame_ctx := fctx, ec_write_enabled := False\<rparr>)"
    by (simp add: send_non_fragmented_def call_frame_send_def send_io_def send_error_def)
  then show ?thesis using ch True frame_send_in_part [OF fs] by (auto simp: send_round_def part_of_def chosen_def)
next
  case nl: False
  obtain res fctx c0 where fs: "wslay_frame_send (event_frame_callbacks cbs) (ec_frame_ctx ctx) (send_io ctx m) ctx = (res, fctx, c0)"
    by (metis prod_cases3)
  note ip = frame_send_in_part [OF fs]
  obtain f k where f: "frame_of (ec_server ctx) m f" "ec_opayloadlen ctx = of_nat (length (om_data m))" "ec_opayloadoff ctx = of_nat k"
      "k \<le> length (om_data m)" "send_result f base k (send_io ctx m) res fctx (wire (ec_user_data c0)) \<or>
       res = Inl WSLAY_ERR_INVALID_CALLBACK \<and> wire (ec_user_data c0) = base"
    and ok: "ok (ec_user_data c0)" and ao: "app_only ctx c0"
    using frame_sent [OF ch nl fs] by blast
  define u e where "u = ec_user_data c0" and "e = ec_error c0"
  define c1 where "c1 = ctx\<lparr>ec_user_data := u, ec_error := e, ec_frame_ctx := fctx\<rparr>"
  have "c0\<lparr>ec_frame_ctx := fctx\<rparr> = c1"
    using ao unfolding app_only_def c1_def u_def [symmetric] e_def [symmetric] by (metis wslay_event_context.unfold_congs(7))
  then have cf: "call_frame_send cbs (send_io ctx m) ctx = (res, c1)" using fs by (simp add: call_frame_send_def)
  have sn: "send_non_fragmented cbs m ctx = (case res of Inl e \<Rightarrow> send_error e c1
      | Inr n \<Rightarrow> (let c2 = c1\<lparr>ec_opayloadoff := ec_opayloadoff c1 + of_nat n\<rparr>
                in if ec_opayloadoff c2 = ec_opayloadlen c2 then (Go, send_done m c2) else (Break, c2)))"
    using cf by (simp add: send_non_fragmented_def send_io_def)
  have c1k: "c1 = ctx\<lparr>ec_user_data := u, ec_error := e, ec_frame_ctx := fctx, ec_opayloadoff := of_nat k\<rparr>"
    unfolding c1_def f(3) [symmetric] by simp
  show ?thesis
  proof (cases res)
    case (Inl x)
    show ?thesis
    proof (cases "x = WSLAY_ERR_WANT_WRITE \<and> (e = wslay_error_code WSLAY_ERR_WOULDBLOCK \<or> e = 0)")
      case True
      then have s: "send_sync f base k fctx (wire u)" "send_wf fctx" using f(5) Inl by (auto simp: send_result_def u_def)
      note cs = chosen_sending [OF ch f(1) s(1,2) ok [folded u_def] f(4) c1k]
      have "send_non_fragmented cbs m ctx = (Break, c1)" using sn Inl True by (auto simp: send_error_def c1_def)
      then show ?thesis using cs sc ok [folded u_def] ip unfolding send_round_def by (intro exI [of _ c1]) (simp add: c1_def)
    next
      case False
      then have "send_non_fragmented cbs m ctx = (Return (wslay_error_code WSLAY_ERR_CALLBACK_FAILURE), c1\<lparr>ec_write_enabled := False\<rparr>)"
        using sn Inl by (auto simp: send_error_def c1_def)
      moreover have "\<exists>part. wire u = base @ part \<and> prefix part (rfc_frame f)"
        using f(5) Inl send_sync_prefix [of f base k fctx "wire u"] by (auto simp: send_result_def u_def)
      then have "\<exists>part. wire u = base @ part \<and> part_of (ec_server ctx) m part" using f(1) nl by (auto simp: part_of_def)
      ultimately show ?thesis
        using f(1) ok [folded u_def] ip unfolding send_round_def by (intro exI [of _ "c1\<lparr>ec_write_enabled := False\<rparr>"]) (auto simp: c1_def)
    qed
  next
    case (Inr n)
    then have sr: "send_result f base k (send_io ctx m) (Inr n) fctx (wire u)" using f(5) by (simp add: u_def)
    have len: "length (fr_payload f) = length (om_data m)" "length (om_data m) < 2 ^ 63" using f(1) by (auto simp: frame_of_def rfc_valid_def)
    have n: "k + n \<le> length (om_data m)" "send_wf fctx"
      using sr send_io_carries(2) [OF f(1-4)] f(4) by (auto simp: send_result_def)
    define c2 where "c2 = ctx\<lparr>ec_user_data := u, ec_error := e, ec_frame_ctx := fctx, ec_opayloadoff := of_nat (k + n)\<rparr>"
    have c2: "c1\<lparr>ec_opayloadoff := ec_opayloadoff c1 + of_nat n\<rparr> = c2" by (simp add: c2_def c1_def f(3))
    have "unat (of_nat (k + n) :: uint64) = k + n" "unat (of_nat (length (om_data m)) :: uint64) = length (om_data m)"
      using n(1) len(2) by (simp_all only: unat_of_nat) simp_all
    then have eq: "(of_nat (k + n) :: uint64) = of_nat (length (om_data m)) \<longleftrightarrow> k + n = length (om_data m)" by metis
    have st: "send_non_fragmented cbs m ctx = (if k + n = length (om_data m) then (Go, send_done m c2) else (Break, c2))"
    proof -
      have "ec_opayloadoff c2 = of_nat (k + n)" "ec_opayloadlen c2 = of_nat (length (om_data m))" by (simp_all add: c2_def f(2))
      then show ?thesis unfolding sn Inr sum.case Let_def c2 by (simp only: eq)
    qed
    show ?thesis
    proof (cases "k + n = length (om_data m)")
      case True
      then have "send_ready f fctx" "wire u = base @ rfc_frame f" using sr len(1) by (auto simp: send_result_def)
      from chosen_done [OF ch sc f(1) this n(2) ok [folded u_def] ip refl, where e = e and n = "of_nat (k + n)", folded c2_def]
      show ?thesis using True st by auto
    next
      case False
      then have "send_sync f base (k + n) fctx (wire u)" using sr len(1) by (simp add: send_result_def)
      note cs = chosen_sending [OF ch f(1) this n(2) ok [folded u_def] n(1) c2_def]
      then show ?thesis using False st sc ok [folded u_def] ip unfolding send_round_def by (intro exI [of _ c2]) (simp add: c2_def)
    qed
  qed
qed

lemma send_step_round:
  assumes "sending wire ok base ctx" "script ctx = m # ms"
  shows "\<exists>c. send_round wire ok base m ms ctx (send_step cbs ctx) c"
proof -
  obtain c where c: "send_choose ctx = (Go, c)" "chosen wire ok base m c" "script c = m # ms" "ec_server c = ec_server ctx"
      "in_view c = in_view ctx" "ec_queued_msg_count c = ec_queued_msg_count ctx"
    using send_choose_script [OF assms] by blast
  obtain c' where "send_round wire ok base m ms c (send_non_fragmented cbs m c) c'"
    using send_non_fragmented_round [OF c(2,3)] by blast
  moreover have "send_step cbs ctx = send_non_fragmented cbs m c"
    using c(1,2) by (auto simp: send_step_def andthen_def chosen_def whole_omsg_def out_msgs_def)
  ultimately have "send_round wire ok base m ms c (send_step cbs ctx) c'" by simp
  then have "send_round wire ok base m ms ctx (send_step cbs ctx) c'" unfolding send_round_def c(4,5,6) .
  then show ?thesis ..
qed

end

text \<open>The result of the loop: \<open>done\<close> are the messages sent, \<open>fs\<close> the frames they became.\<close>

definition send_outcome where
  "send_outcome wire ok base ms ctx r c \<longleftrightarrow> ec_server c = ec_server ctx \<and> in_view c = in_view ctx \<and> ok (ec_user_data c) \<and> (\<exists>sent fs rest.
     ms = sent @ rest \<and> list_all2 (frame_of (ec_server ctx)) sent fs \<and>
     ec_queued_msg_count c = ec_queued_msg_count ctx - of_nat (length sent) \<and>
     (let base' = base @ concat (map rfc_frame fs)
      in if r = 0 then
           if ec_write_enabled c then script c = rest \<and> sending wire ok base' c \<and> (\<forall>m \<in> set sent. \<not> is_close m)
           else rest = [] \<and> sent \<noteq> [] \<and> is_close (last sent) \<and> wire (ec_user_data c) = base' \<and> wslay_event_get_close_sent c
         else r = wslay_error_code WSLAY_ERR_CALLBACK_FAILURE \<and> \<not> ec_write_enabled c \<and> rest \<noteq> [] \<and>
           (\<exists>part. wire (ec_user_data c) = base' @ part \<and> part_of (ec_server ctx) (hd rest) part)))"

lemma send_outcome_Cons:
  assumes "send_outcome wire ok (base @ rfc_frame f) ms c0 r c" "frame_of (ec_server ctx) m f" "ec_server c0 = ec_server ctx"
    "in_view c0 = in_view ctx" "\<not> is_close m" "ec_queued_msg_count c0 = ec_queued_msg_count ctx - 1"
  shows "send_outcome wire ok base (m # ms) ctx r c"
proof -
  obtain sent fs rest where s: "ms = sent @ rest \<and> list_all2 (frame_of (ec_server ctx)) sent fs \<and>
     ec_queued_msg_count c = ec_queued_msg_count ctx - 1 - of_nat (length sent) \<and>
     (let base' = (base @ rfc_frame f) @ concat (map rfc_frame fs)
      in if r = 0 then
           if ec_write_enabled c then script c = rest \<and> sending wire ok base' c \<and> (\<forall>m \<in> set sent. \<not> is_close m)
           else rest = [] \<and> sent \<noteq> [] \<and> is_close (last sent) \<and> wire (ec_user_data c) = base' \<and> wslay_event_get_close_sent c
         else r = wslay_error_code WSLAY_ERR_CALLBACK_FAILURE \<and> \<not> ec_write_enabled c \<and> rest \<noteq> [] \<and>
           (\<exists>part. wire (ec_user_data c) = base' @ part \<and> part_of (ec_server ctx) (hd rest) part))"
    and c: "ec_server c = ec_server ctx" "in_view c = in_view ctx" "ok (ec_user_data c)"
    using assms(1) unfolding send_outcome_def assms(3,4,6) by blast
  show ?thesis
    unfolding send_outcome_def c(1,2)
    by (intro conjI refl c(3), rule exI [of _ "m # sent"], rule exI [of _ "f # fs"], rule exI [of _ rest])
      (use s assms(2,5) in \<open>auto simp: Let_def split: if_splits\<close>)
qed

lemma script_idle: "sending wire ok base ctx \<Longrightarrow> \<not> wslay_event_want_write ctx \<Longrightarrow> script ctx = []"
  by (auto simp: wslay_event_want_write_def sending_def script_def ctrl_script_def outbox_inv_def queue_empty_iff)

lemma script_busy:
  assumes "sending wire ok base ctx" "wslay_event_want_write ctx"
  shows "\<exists>m ms. script ctx = m # ms"
proof -
  have that: "ctrl_script ctx \<noteq> []" if "ec_omsg ctx = None" "queue_list (ec_send_ctrl_queue ctx) \<noteq> []"
  proof (cases "close_queued ctx")
    case True
    then show ?thesis using closing_first [OF _ True that(1)] assms(1) by (auto simp: sending_def)
  qed (use that in \<open>simp add: ctrl_script_def\<close>)
  have h1: "(case ec_omsg ctx of None \<Rightarrow> [] | Some m \<Rightarrow> [m]) @ ctrl_script ctx @ queue_list (ec_send_queue ctx) \<noteq> []"
  proof (cases "ec_omsg ctx")
    case None
    have "queue_inv (ec_send_queue ctx)" "queue_inv (ec_send_ctrl_queue ctx)" using assms(1) by (simp_all add: sending_def outbox_inv_def)
    then have "queue_list (ec_send_queue ctx) \<noteq> [] \<or> queue_list (ec_send_ctrl_queue ctx) \<noteq> []"
      using assms(2) None by (auto simp: wslay_event_want_write_def queue_empty_iff)
    then show ?thesis using None that by auto
  qed simp
  have h2: "until_close xs = [] \<longleftrightarrow> xs = []" for xs by (cases xs) auto
  have "script ctx \<noteq> []" unfolding script_def h2 by (rule h1)
  then show ?thesis by (cases "script ctx") auto
qed

context event_out begin

text \<open>The loop ends: every round that goes on takes a message off the script.\<close>

lemma send_loop:
  assumes "sending wire ok base ctx" "script ctx = ms"
  shows "\<exists>r c. wslay_event_send cbs ctx = Some (Inr r, c) \<and> send_outcome wire ok base ms ctx r c"
  using assms
proof (induction ms arbitrary: base ctx)
  case Nil
  then have "\<not> wslay_event_want_write ctx" using script_busy [OF Nil(1)] by auto
  then have "wslay_event_send cbs ctx = Some (Inr 0, ctx)" by (subst wslay_event_send.simps) simp
  moreover have "ec_write_enabled ctx" "ok (ec_user_data ctx)" using Nil(1) by (simp_all add: sending_def)
  ultimately show ?case using Nil by (simp add: send_outcome_def)
next
  case (Cons m ms)
  have ww: "wslay_event_want_write ctx" using script_idle [OF Cons.prems(1)] Cons.prems(2) by auto
  obtain c where c: "send_round wire ok base m ms ctx (send_step cbs ctx) c" using send_step_round [OF Cons.prems] by blast
  then have srv: "ec_server c = ec_server ctx" "in_view c = in_view ctx" and okc: "ok (ec_user_data c)" by (simp_all add: send_round_def)
  from c consider
      f where "send_step cbs ctx = (Go, c)" "frame_of (ec_server ctx) m f" "wire (ec_user_data c) = base @ rfc_frame f"
        "ec_queued_msg_count c = ec_queued_msg_count ctx - 1"
        "if is_close m then \<not> ec_write_enabled c \<and> wslay_event_get_close_sent c
         else sending wire ok (base @ rfc_frame f) c \<and> script c = ms"
    | "send_step cbs ctx = (Break, c)" "sending wire ok base c" "script c = m # ms" "ec_queued_msg_count c = ec_queued_msg_count ctx"
    | part where "send_step cbs ctx = (Return (wslay_error_code WSLAY_ERR_CALLBACK_FAILURE), c)" "\<not> ec_write_enabled c"
        "ec_queued_msg_count c = ec_queued_msg_count ctx" "wire (ec_user_data c) = base @ part" "part_of (ec_server ctx) m part"
    unfolding send_round_def by blast
  then show ?case
  proof cases
    case go: 1
    have next1: "wslay_event_send cbs ctx = wslay_event_send cbs c" using ww go(1) by (subst wslay_event_send.simps) simp
    show ?thesis
    proof (cases "is_close m")
      case True
      then have nw: "\<not> ec_write_enabled c" "wslay_event_get_close_sent c" "ms = []"
        using go(5) Cons.prems(2) until_close_Cons [of _ m ms] by (auto simp: script_def)
      then have "wslay_event_send cbs c = Some (Inr 0, c)" by (subst wslay_event_send.simps) (simp add: wslay_event_want_write_def)
      moreover have "send_outcome wire ok base (m # ms) ctx 0 c"
        unfolding send_outcome_def srv
        by (intro conjI refl okc, rule exI [of _ "[m]"], rule exI [of _ "[f]"], rule exI [of _ "[]"]) (use nw go True in simp)
      ultimately show ?thesis using next1 by auto
    next
      case False
      then obtain r c' where "wslay_event_send cbs c = Some (Inr r, c')" "send_outcome wire ok (base @ rfc_frame f) ms c r c'"
        using Cons.IH [of "base @ rfc_frame f" c] go(5) False by auto
      then show ?thesis using next1 send_outcome_Cons [OF _ go(2) srv False go(4)] by auto
    qed
  next
    case brk: 2
    have "wslay_event_send cbs ctx = Some (Inr 0, c)" using ww brk(1) by (subst wslay_event_send.simps) simp
    moreover have "ec_write_enabled c" using brk(2) by (simp add: sending_def)
    then have "send_outcome wire ok base (m # ms) ctx 0 c"
      unfolding send_outcome_def srv
      by (intro conjI refl okc, rule_tac exI [of _ "[]"], rule_tac exI [of _ "[]"], rule_tac exI [of _ "m # ms"]) (use brk in simp)
    ultimately show ?thesis by auto
  next
    case ret: 3
    have "wslay_event_send cbs ctx = Some (Inr (wslay_error_code WSLAY_ERR_CALLBACK_FAILURE), c)"
      using ww ret(1) by (subst wslay_event_send.simps) simp
    moreover have "send_outcome wire ok base (m # ms) ctx (wslay_error_code WSLAY_ERR_CALLBACK_FAILURE) c"
      unfolding send_outcome_def srv
      by (intro conjI refl okc, rule exI [of _ "[]"], rule exI [of _ "[]"], rule exI [of _ "m # ms"]) (use ret in auto)
    ultimately show ?thesis by blast
  qed
qed

end

end
