(* ===== verification/Wslay_Test_Feed.thy ===== *)
theory Wslay_Test_Feed
  imports Wslay_Frame_Recv Wslay_Frame_Send
begin

text \<open>
  The callbacks of the repository's own frame tests (\<open>tests/frame.c\<close>): a feed that hands out, or
  takes in, its bytes in the pieces a script asks for, and a fixed mask. They satisfy both
  contracts, \<open>byte_source\<close> and \<open>byte_sink\<close>.

  The entries of \<open>feedseq\<close> after those that a test sets are the zeros of \<open>memset\<close>; the list
  holds the ones before.
\<close>

record scripted_data_feed =
  df_data :: "byte list"
  df_datamark :: nat
  df_datalimit :: nat
  df_feedseq :: "nat list"
  df_seqidx :: nat

definition scripted_data_feed_init :: "byte list \<Rightarrow> scripted_data_feed" where
  "scripted_data_feed_init ds =
     \<lparr>df_data = write_at (replicate 8192 0) 0 ds, df_datamark = 0, df_datalimit = length ds,
      df_feedseq = [length ds], df_seqidx = 0\<rparr>"

definition df_next :: "scripted_data_feed \<Rightarrow> nat" where
  "df_next df = (if df_seqidx df < length (df_feedseq df) then df_feedseq df ! df_seqidx df else 0)"

definition df_advance :: "nat \<Rightarrow> nat \<Rightarrow> scripted_data_feed \<Rightarrow> scripted_data_feed" where
  "df_advance wlen len df =
     (if wlen \<le> len then df\<lparr>df_datamark := df_datamark df + wlen, df_seqidx := Suc (df_seqidx df)\<rparr>
      else df\<lparr>df_datamark := df_datamark df + wlen,
              df_feedseq := (df_feedseq df)[df_seqidx df := df_next df - wlen]\<rparr>)"

definition scripted_recv_callback :: "nat \<Rightarrow> int \<Rightarrow> scripted_data_feed \<Rightarrow> int \<times> byte list \<times> scripted_data_feed" where
  "scripted_recv_callback len flags df =
     (let wlen = (if df_next df > len then len else df_next df)
      in (int wlen, arr_slice (df_data df) (df_datamark df) (df_datamark df + wlen), df_advance wlen len df))"

definition scripted_send_callback ::
    "byte list \<Rightarrow> int \<Rightarrow> bool \<Rightarrow> scripted_data_feed \<Rightarrow> int \<times> scripted_data_feed" where
  "scripted_send_callback ds flags user_data_sending df =
     (let len = length ds; wlen = (if df_next df > len then len else df_next df)
      in (int wlen, df_advance wlen len (df\<lparr>df_data := write_at (df_data df) (df_datamark df) (take wlen ds)\<rparr>)))"

definition static_genmask_callback :: "nat \<Rightarrow> 'w \<Rightarrow> int \<times> byte list \<times> 'w" where
  "static_genmask_callback len w = (0, [0x37, 0xfa, 0x21, 0x3d], w)"

definition feed_callbacks :: "scripted_data_feed wslay_frame_callbacks" where
  "feed_callbacks = \<lparr>send_callback = scripted_send_callback, recv_callback = scripted_recv_callback,
                     genmask_callback = static_genmask_callback\<rparr>"

text \<open>The script fits the data: what every test arranges.\<close>

definition df_ok :: "scripted_data_feed \<Rightarrow> bool" where
  "df_ok df \<longleftrightarrow> df_datamark df + sum_list (drop (df_seqidx df) (df_feedseq df)) \<le> df_datalimit df \<and>
     df_datalimit df \<le> length (df_data df)"

definition df_stream :: "scripted_data_feed \<Rightarrow> byte list" where
  "df_stream df = arr_slice (df_data df) (df_datamark df) (df_datalimit df)"

definition df_wire :: "scripted_data_feed \<Rightarrow> byte list" where
  "df_wire df = take (df_datamark df) (df_data df)"

lemma df_sum: "sum_list (drop (df_seqidx df) (df_feedseq df)) =
    df_next df + sum_list (drop (Suc (df_seqidx df)) (df_feedseq df))"
  by (cases "df_seqidx df < length (df_feedseq df)") (simp_all add: df_next_def Cons_nth_drop_Suc [symmetric])

lemma df_ok_bound: "df_ok df \<Longrightarrow> df_datamark df + df_next df \<le> df_datalimit df \<and> df_datalimit df \<le> length (df_data df)"
  using df_sum [of df] by (simp add: df_ok_def)

lemma df_ok_advance:
  "df_ok df \<Longrightarrow> wlen \<le> df_next df \<Longrightarrow> wlen \<le> len \<Longrightarrow> length ds = length (df_data df) \<Longrightarrow>
    df_ok (df_advance wlen len (df\<lparr>df_data := ds\<rparr>))"
  using df_sum [of df] by (simp add: df_ok_def df_advance_def)

interpretation feed_source: byte_source feed_callbacks df_stream df_ok
proof
  fix w len flags r bs w'
  assume ok: "df_ok w" and cb: "recv_callback feed_callbacks len flags w = (r, bs, w')"
  define wlen where "wlen = min len (df_next w)"
  have cb': "r = int wlen" "bs = arr_slice (df_data w) (df_datamark w) (df_datamark w + wlen)" "w' = df_advance wlen len w"
    using cb by (auto simp: feed_callbacks_def scripted_recv_callback_def Let_def wlen_def min_def split: if_splits)
  have b: "df_datamark w + wlen \<le> df_datalimit w" "df_datalimit w \<le> length (df_data w)"
    using df_ok_bound [OF ok] by (auto simp: wlen_def)
  show "df_ok w'" using df_ok_advance [OF ok, of wlen len "df_data w"] by (simp add: cb' wlen_def)
  show "length bs \<le> len \<and> r \<le> int len" using b by (simp add: cb' wlen_def)
  have st: "df_stream w = bs @ df_stream w'"
    using b by (simp add: df_stream_def cb' df_advance_def wlen_def slice_append)
  show "length bs = nat r \<and> df_stream w = bs @ df_stream w'" using st b by (simp add: cb')
  assume "r \<le> 0"
  then show "df_stream w' = df_stream w" using st by (simp add: cb')
qed

interpretation feed_sink: byte_sink feed_callbacks df_wire df_ok
proof
  fix w :: scripted_data_feed and ds fl u r w'
  assume ok: "df_ok w" and cb: "send_callback feed_callbacks ds fl u w = (r, w')"
  define wlen where "wlen = min (length ds) (df_next w)"
  have cb': "r = int wlen"
      "w' = df_advance wlen (length ds) (w\<lparr>df_data := write_at (df_data w) (df_datamark w) (take wlen ds)\<rparr>)"
    using cb by (auto simp: feed_callbacks_def scripted_send_callback_def Let_def wlen_def min_def split: if_splits)
  have b: "df_datamark w + wlen \<le> length (df_data w)" "wlen \<le> length ds"
    using df_ok_bound [OF ok] by (auto simp: wlen_def)
  show "df_ok w'" unfolding cb' using b by (intro df_ok_advance [OF ok]) (auto simp: wlen_def)
  have wr: "df_wire w' = df_wire w @ take wlen ds"
    using b by (simp add: df_wire_def cb' df_advance_def write_at_def)
  show "nat r \<le> length ds \<and> df_wire w' = df_wire w @ take (nat r) ds" using wr b by (simp add: cb')
  assume "r \<le> 0"
  then show "df_wire w' = df_wire w" using wr by (simp add: cb')
qed (auto simp: feed_callbacks_def static_genmask_callback_def)

end
