(* ===== verification/Wslay_Echo.thy ===== *)
theory Wslay_Echo
  imports Wslay_Event_Message Wslay_Event_Sending Wslay_Test_Feed
begin

text \<open>
  The application of \<open>examples/fork-echoserv.c\<close>: its callbacks and the event loop of
  \<open>communicate\<close>.

  The operating system is a parameter, \<open>os\<close>: \<open>os_recv\<close> and \<open>os_send\<close> are the system calls on the
  connection, repeated while they fail with \<open>EINTR\<close> as the callbacks do, \<open>os_poll\<close> likewise. They return
  the result, what they stored, and \<open>errno\<close>. \<open>user_data\<close> points to the session: the descriptor of the connection,
  with the state of the system behind it. The locales \<open>socket_os\<close> and \<open>socket_send\<close>
  say what \<open>recv (2)\<close> and \<open>send (2)\<close> promise of a stream socket. The example initialises no \<open>genmask_callback\<close>; a server never calls it.
\<close>

section \<open>The operating system\<close>

datatype errno = EAGAIN | EWOULDBLOCK | EOTHER

record pollfd =
  pf_in :: bool
  pf_out :: bool
  pf_err :: bool

record 'o os_calls =
  os_send :: "int \<Rightarrow> byte list \<Rightarrow> int \<Rightarrow> 'o \<Rightarrow> int \<times> errno \<times> 'o"
  os_recv :: "int \<Rightarrow> nat \<Rightarrow> 'o \<Rightarrow> int \<times> byte list \<times> errno \<times> 'o"
  os_poll :: "int \<Rightarrow> bool \<Rightarrow> bool \<Rightarrow> 'o \<Rightarrow> int \<times> pollfd \<times> 'o"
  os_MSG_MORE :: int

record 'o Session =
  se_fd :: int
  se_os :: 'o

section \<open>The callbacks\<close>

definition set_os :: "'o \<Rightarrow> 'o Session wslay_event_context \<Rightarrow> 'o Session wslay_event_context" where
  "set_os w ctx = ctx\<lparr>ec_user_data := (ec_user_data ctx)\<lparr>se_os := w\<rparr>\<rparr>"

definition errno_error :: "errno \<Rightarrow> wslay_error" where
  "errno_error e = (if e = EAGAIN \<or> e = EWOULDBLOCK then WSLAY_ERR_WOULDBLOCK else WSLAY_ERR_CALLBACK_FAILURE)"

definition echo_send_callback ::
    "'o os_calls \<Rightarrow> byte list \<Rightarrow> int \<Rightarrow> bool \<Rightarrow> 'o Session wslay_event_context \<Rightarrow> int \<times> 'o Session wslay_event_context" where
  "echo_send_callback os ds flags user_data_sending ctx =
     (let session = ec_user_data ctx;
          sflags = (if flags AND WSLAY_MSG_MORE \<noteq> 0 then os_MSG_MORE os else 0)
      in case os_send os (se_fd session) ds sflags (se_os session) of
           (r, errno, w) \<Rightarrow>
             (let ctx1 = set_os w ctx
              in (r, if r = -1 then wslay_event_set_error ctx1 (wslay_error_code (errno_error errno)) else ctx1)))"

definition echo_recv_callback ::
    "'o os_calls \<Rightarrow> nat \<Rightarrow> int \<Rightarrow> 'o Session wslay_event_context \<Rightarrow> int \<times> byte list \<times> 'o Session wslay_event_context" where
  "echo_recv_callback os len flags ctx =
     (let session = ec_user_data ctx
      in case os_recv os (se_fd session) len (se_os session) of
           (r, bs, errno, w) \<Rightarrow>
             (let ctx1 = set_os w ctx
              in if r = -1 then (r, bs, wslay_event_set_error ctx1 (wslay_error_code (errno_error errno)))
                 else if r = 0 then (-1, bs, wslay_event_set_error ctx1 (wslay_error_code WSLAY_ERR_CALLBACK_FAILURE))
                 else (r, bs, ctx1)))"

definition echo_on_msg_recv_callback ::
    "wslay_event_on_msg_recv_arg \<Rightarrow> 'u wslay_event_context \<Rightarrow> 'u wslay_event_context" where
  "echo_on_msg_recv_callback arg ctx =
     (if \<not> wslay_is_ctrl_frame (mr_opcode arg) then
        snd (wslay_event_queue_msg ctx
               \<lparr>em_opcode = mr_opcode arg, em_msg = (case mr_msg arg of None \<Rightarrow> [] | Some ds \<Rightarrow> ds),
                em_msg_length = mr_msg_length arg\<rparr>)
      else ctx)"

definition echo_callbacks :: "'o os_calls \<Rightarrow> 'o Session wslay_event_context wslay_event_callbacks" where
  "echo_callbacks os =
     \<lparr>ev_recv_callback = echo_recv_callback os, ev_send_callback = echo_send_callback os,
      ev_genmask_callback = (\<lambda>len ctx. (-1, [], ctx)), ev_on_frame_recv_start_callback = None,
      ev_on_frame_recv_chunk_callback = None, ev_on_frame_recv_end_callback = None,
      ev_on_msg_recv_callback = Some echo_on_msg_recv_callback, ev_read_callback = (\<lambda>cb len src ctx. (-1, [], False, ctx))\<rparr>"

section \<open>The event loop\<close>

text \<open>\<open>f (ctx) != 0\<close> fails the connection.\<close>

definition must_be_zero :: "((fault + int) \<times> 'c) option \<Rightarrow> step \<times> 'c \<Rightarrow> step \<times> 'c" where
  "must_be_zero res = (\<lambda>(s, c). case res of
        None \<Rightarrow> (Hang, c)
      | Some (Inl f, c') \<Rightarrow> (Crash f, c')
      | Some (Inr r, c') \<Rightarrow> (if r \<noteq> 0 then Return (-1) else s, c'))"

definition communicate_step ::
    "'o os_calls \<Rightarrow> bool \<times> bool \<Rightarrow> 'o Session wslay_event_context \<Rightarrow> step \<times> 'o Session wslay_event_context" where
  "communicate_step os events ctx =
     (case os_poll os (se_fd (ec_user_data ctx)) (fst events) (snd events) (se_os (ec_user_data ctx)) of
        (r, revents, w) \<Rightarrow>
          (let ctx1 = set_os w ctx
           in if r = -1 then (Return (-1), ctx1)
              else andthen (if pf_in revents then must_be_zero (wslay_event_recv (echo_callbacks os) ctx1) (Go, ctx1) else (Go, ctx1))
                (\<lambda>ctx2. andthen (if pf_out revents then must_be_zero (wslay_event_send (echo_callbacks os) ctx2) (Go, ctx2) else (Go, ctx2))
                (\<lambda>ctx3. if pf_err revents then (Return (-1), ctx3) else (Go, ctx3)))))"

partial_function (option) communicate_loop ::
    "'o os_calls \<Rightarrow> bool \<times> bool \<Rightarrow> 'o Session wslay_event_context \<Rightarrow> ((fault + int) \<times> 'o Session wslay_event_context) option" where
  "communicate_loop os events ctx =
     (if wslay_event_want_read ctx \<or> wslay_event_want_write ctx then
        (case communicate_step os events ctx of
           (Go, ctx') \<Rightarrow> communicate_loop os (wslay_event_want_read ctx', wslay_event_want_write ctx') ctx'
         | (Break, ctx') \<Rightarrow> Some (Inr 0, ctx')
         | (Return r, ctx') \<Rightarrow> Some (Inr r, ctx')
         | (Crash f, ctx') \<Rightarrow> Some (Inl f, ctx')
         | (Hang, ctx') \<Rightarrow> None)
      else Some (Inr 0, ctx))"

section \<open>The contract\<close>

text \<open>What \<open>recv (2)\<close> promises of a stream socket: the bytes come in order and none is lost.\<close>

locale socket_os =
  fixes os :: "'o os_calls"
    and stream :: "'o \<Rightarrow> byte list"
    and ok :: "'o \<Rightarrow> bool"
  assumes os_ok: "ok w \<Longrightarrow> os_recv os fd len w = (r, bs, e, w') \<Longrightarrow> ok w'"
    and os_bound: "ok w \<Longrightarrow> os_recv os fd len w = (r, bs, e, w') \<Longrightarrow> length bs \<le> len \<and> r \<le> int len"
    and os_some: "ok w \<Longrightarrow> os_recv os fd len w = (r, bs, e, w') \<Longrightarrow> 0 < r \<Longrightarrow> length bs = nat r \<and> stream w = bs @ stream w'"
    and os_none: "ok w \<Longrightarrow> os_recv os fd len w = (r, bs, e, w') \<Longrightarrow> r \<le> 0 \<Longrightarrow> stream w' = stream w"
begin

lemma echo_recv:
  assumes "echo_recv_callback os len fl ctx = (r, bs, ctx')" "ok (se_os (ec_user_data ctx))"
  shows "ok (se_os (ec_user_data ctx'))" "length bs \<le> len \<and> r \<le> int len"
    "0 < r \<Longrightarrow> length bs = nat r \<and> stream (se_os (ec_user_data ctx)) = bs @ stream (se_os (ec_user_data ctx'))"
    "r \<le> 0 \<Longrightarrow> stream (se_os (ec_user_data ctx')) = stream (se_os (ec_user_data ctx))"
proof -
  obtain r0 bs0 e w where o: "os_recv os (se_fd (ec_user_data ctx)) len (se_os (ec_user_data ctx)) = (r0, bs0, e, w)" by (metis prod_cases4)
  have "bs = bs0" "r = (if r0 = 0 then -1 else r0)" "se_os (ec_user_data ctx') = w"
    using assms(1) by (auto simp: echo_recv_callback_def o set_os_def wslay_event_set_error_def Let_def split: if_splits)
  then show "ok (se_os (ec_user_data ctx'))" "length bs \<le> len \<and> r \<le> int len"
    "0 < r \<Longrightarrow> length bs = nat r \<and> stream (se_os (ec_user_data ctx)) = bs @ stream (se_os (ec_user_data ctx'))"
    "r \<le> 0 \<Longrightarrow> stream (se_os (ec_user_data ctx')) = stream (se_os (ec_user_data ctx))"
    using os_ok [OF assms(2) o] os_bound [OF assms(2) o] os_some [OF assms(2) o] os_none [OF assms(2) o]
    by (auto split: if_splits)
qed

end

lemma echo_recv_keeps:
  "echo_recv_callback os len fl ctx = (r, bs, ctx') \<Longrightarrow> recv_part ctx' = recv_part ctx \<and> send_part ctx' = send_part ctx"
  by (auto simp: echo_recv_callback_def set_os_def wslay_event_set_error_def Let_def split: prod.splits if_splits)

lemma echo_msg_keeps:
  "recv_part (echo_on_msg_recv_callback arg ctx) = recv_part ctx" "ec_user_data (echo_on_msg_recv_callback arg ctx) = ec_user_data ctx"
  by (simp_all add: echo_on_msg_recv_callback_def)

sublocale socket_os \<subseteq> echo: event_peer "echo_callbacks os" "\<lambda>s. stream (se_os s)" "\<lambda>s. ok (se_os s)"
proof
  fix w len flags r bs w'
  assume ok: "ok (se_os (ec_user_data w))" and "recv_callback (event_frame_callbacks (echo_callbacks os)) len flags w = (r, bs, w')"
  then have cb: "echo_recv_callback os len flags w = (r, bs, w')"
    by (simp add: event_frame_callbacks_def wslay_event_frame_recv_callback_def echo_callbacks_def)
  note e = echo_recv [OF cb ok]
  show "ok (se_os (ec_user_data w'))" "length bs \<le> len \<and> r \<le> int len"
    "0 < r \<Longrightarrow> length bs = nat r \<and> stream (se_os (ec_user_data w)) = bs @ stream (se_os (ec_user_data w'))"
    "r \<le> 0 \<Longrightarrow> stream (se_os (ec_user_data w')) = stream (se_os (ec_user_data w))"
    using e by auto
qed (auto simp: echo_callbacks_def echo_msg_keeps quiet_def dest: echo_recv_keeps)

context socket_os begin

lemma echo_peer: "event_peer (echo_callbacks os) (\<lambda>s. stream (se_os s)) (\<lambda>s. ok (se_os s))"
  by (rule echo.event_peer_axioms)

end

text \<open>What \<open>send (2)\<close> promises: it takes a prefix of what it is given, or fails and takes nothing.\<close>

locale socket_send =
  fixes os :: "'o os_calls"
    and wire :: "'o \<Rightarrow> byte list"
    and ok :: "'o \<Rightarrow> bool"
  assumes os_ok: "ok w \<Longrightarrow> os_send os fd ds fl w = (r, e, w') \<Longrightarrow> ok w'"
    and os_some: "ok w \<Longrightarrow> os_send os fd ds fl w = (r, e, w') \<Longrightarrow> 0 < r \<Longrightarrow> nat r \<le> length ds \<and> wire w' = wire w @ take (nat r) ds"
    and os_none: "ok w \<Longrightarrow> os_send os fd ds fl w = (r, e, w') \<Longrightarrow> r \<le> 0 \<Longrightarrow> wire w' = wire w"
begin

lemma echo_send:
  assumes "echo_send_callback os ds fl u ctx = (r, ctx')" "ok (se_os (ec_user_data ctx))"
  shows "ok (se_os (ec_user_data ctx'))"
    "0 < r \<Longrightarrow> nat r \<le> length ds \<and> wire (se_os (ec_user_data ctx')) = wire (se_os (ec_user_data ctx)) @ take (nat r) ds"
    "r \<le> 0 \<Longrightarrow> wire (se_os (ec_user_data ctx')) = wire (se_os (ec_user_data ctx))"
proof -
  define sfl where "sfl = (if fl AND WSLAY_MSG_MORE \<noteq> 0 then os_MSG_MORE os else 0)"
  obtain r0 e w where o: "os_send os (se_fd (ec_user_data ctx)) ds sfl (se_os (ec_user_data ctx)) = (r0, e, w)" by (metis prod_cases3)
  have "r = r0" "se_os (ec_user_data ctx') = w"
    using assms(1) unfolding echo_send_callback_def Let_def sfl_def [symmetric] o
    by (auto simp: set_os_def wslay_event_set_error_def split: if_splits)
  then show "ok (se_os (ec_user_data ctx'))"
    "0 < r \<Longrightarrow> nat r \<le> length ds \<and> wire (se_os (ec_user_data ctx')) = wire (se_os (ec_user_data ctx)) @ take (nat r) ds"
    "r \<le> 0 \<Longrightarrow> wire (se_os (ec_user_data ctx')) = wire (se_os (ec_user_data ctx))"
    using os_ok [OF assms(2) o] os_some [OF assms(2) o] os_none [OF assms(2) o] by auto
qed

end

lemma echo_send_keeps: "echo_send_callback os ds fl u ctx = (r, ctx') \<Longrightarrow> app_only ctx ctx'"
  by (auto simp: echo_send_callback_def app_only_def set_os_def wslay_event_set_error_def Let_def split: prod.splits if_splits)

sublocale socket_send \<subseteq> echo: event_out "echo_callbacks os" "\<lambda>s. wire (se_os s)" "\<lambda>s. ok (se_os s)"
proof
  fix w ds fl u r w'
  assume ok: "ok (se_os (ec_user_data w))" and "send_callback (event_frame_callbacks (echo_callbacks os)) ds fl u w = (r, w')"
  then have cb: "echo_send_callback os ds fl u w = (r, w')"
    by (simp add: event_frame_callbacks_def wslay_event_frame_send_callback_def echo_callbacks_def)
  note e = echo_send [OF cb ok]
  show "ok (se_os (ec_user_data w'))"
    "0 < r \<Longrightarrow> nat r \<le> length ds \<and> wire (se_os (ec_user_data w')) = wire (se_os (ec_user_data w)) @ take (nat r) ds"
    "r \<le> 0 \<Longrightarrow> wire (se_os (ec_user_data w')) = wire (se_os (ec_user_data w))"
    using e by auto
qed (auto simp: echo_callbacks_def event_frame_callbacks_def wslay_event_frame_genmask_callback_def app_only_def dest: echo_send_keeps)

context socket_send begin

lemma echo_out: "event_out (echo_callbacks os) (\<lambda>s. wire (se_os s)) (\<lambda>s. ok (se_os s))"
  by (rule echo.event_out_axioms)

end

text \<open>A system that hands out, or takes in, the bytes of the tests' feed.\<close>

definition feed_os :: "scripted_data_feed os_calls" where
  "feed_os =
     \<lparr>os_send = (\<lambda>fd ds fl df. case scripted_send_callback ds fl False df of (r, df') \<Rightarrow> (r, EAGAIN, df')),
      os_recv = (\<lambda>fd len df. case scripted_recv_callback len 0 df of (r, bs, df') \<Rightarrow> (if r = 0 then -1 else r, bs, EAGAIN, df')),
      os_poll = (\<lambda>fd ein eout df. (1, \<lparr>pf_in = ein, pf_out = eout, pf_err = False\<rparr>, df)), os_MSG_MORE = 0x8000\<rparr>"

interpretation feed_socket: socket_os feed_os df_stream df_ok
proof
  fix w fd len r bs e w'
  assume ok: "df_ok w" and os: "os_recv feed_os fd len w = (r, bs, e, w')"
  obtain r0 where cb: "recv_callback feed_callbacks len 0 w = (r0, bs, w')" and r: "r = (if r0 = 0 then -1 else r0)"
    using os by (auto simp: feed_os_def feed_callbacks_def split: prod.splits)
  show "df_ok w'" "length bs \<le> len \<and> r \<le> int len" "0 < r \<Longrightarrow> length bs = nat r \<and> df_stream w = bs @ df_stream w'"
    "r \<le> 0 \<Longrightarrow> df_stream w' = df_stream w"
    using feed_source.recv_ok [OF ok cb] feed_source.recv_bound [OF ok cb] feed_source.recv_some [OF ok cb]
      feed_source.recv_none [OF ok cb] r by (auto split: if_splits)
qed

interpretation feed_socket_out: socket_send feed_os df_wire df_ok
proof
  fix w fd ds fl r e w'
  assume ok: "df_ok w" and os: "os_send feed_os fd ds fl w = (r, e, w')"
  then have cb: "send_callback feed_callbacks ds fl False w = (r, w')"
    by (auto simp: feed_os_def feed_callbacks_def split: prod.splits)
  show "df_ok w'" "0 < r \<Longrightarrow> nat r \<le> length ds \<and> df_wire w' = df_wire w @ take (nat r) ds" "r \<le> 0 \<Longrightarrow> df_wire w' = df_wire w"
    using feed_sink.send_ok [OF ok cb] feed_sink.send_some [OF ok cb] feed_sink.send_none [OF ok cb] by auto
qed

end
