(* ===== verification/Wslay_Frame_Props.thy ===== *)
theory Wslay_Frame_Props
  imports Wslay_Test_Feed
begin

text \<open>
  What the frame layer guarantees to its callers, for any callbacks that keep their contracts,
  with instances on the callbacks of \<open>tests/frame.c\<close>.
\<close>

section \<open>Receiving\<close>

text \<open>C2. \<open>wslay_frame_recv\<close> decodes RFC 6455 frames, however the stream is cut into reads: called
  with the receiver inside frame \<open>f\<close>, \<open>k\<close> payload bytes of it already delivered, it either
  asks for more input and stays exactly there, or delivers the next bytes of the unmasked payload
  with the fields of the frame's header, and is after the last of them at the start of
  the next frame.\<close>

theorem wslay_frame_recv_decodes:
  assumes "byte_source cbs stream ok" "ok w" "fc_inv ctx" "rfc_valid f"
    and "recv_sync f k rest ctx (window ctx @ stream w)"
  shows "case wslay_frame_recv cbs ctx w of (res, ctx', w') \<Rightarrow> ok w' \<and> fc_inv ctx' \<and>
    (case res of Inl e \<Rightarrow> e = WSLAY_ERR_WANT_READ \<and> recv_sync f k rest ctx' (window ctx' @ stream w')
     | Inr io \<Rightarrow> \<exists>n. recv_delivers f k rest n io ctx' (window ctx' @ stream w'))"
  using byte_source.recv_simulates [OF assms(1,3-5) _ assms(2)] by (auto split: prod.split)

definition hello_frame :: ws_frame where
  "hello_frame = \<lparr>fr_fin = True, fr_rsv = 0, fr_opcode = 1, fr_key = Some [0x37, 0xfa, 0x21, 0x3d],
                  fr_payload = [0x48, 0x65, 0x6c, 0x6c, 0x6f]\<rparr>"

definition hello_bytes :: "byte list" where
  "hello_bytes = [0x81, 0x85, 0x37, 0xfa, 0x21, 0x3d, 0x7f, 0x9f, 0x4d, 0x51, 0x58]"

definition hello_feed :: scripted_data_feed where
  "hello_feed = (scripted_data_feed_init hello_bytes)\<lparr>df_feedseq := replicate 11 1\<rparr>"

lemma hello_rfc: "rfc_frame hello_frame = hello_bytes"
  by code_simp

lemma hello_valid: "rfc_valid hello_frame"
  by (simp add: rfc_valid_def hello_frame_def)

lemma hello_feed: "df_ok hello_feed" "df_stream hello_feed = hello_bytes"
  by (simp_all add: hello_feed_def df_ok_def df_stream_def scripted_data_feed_init_def arr_slice_def write_at_def
      hello_bytes_def sum_list_replicate)

lemma init_window: "fc_inv wslay_frame_context_init" "window wslay_frame_context_init = []"
  by (simp_all add: fc_inv_def wslay_frame_context_init_def window_def)

lemma init_sync: "recv_sync f 0 rest wslay_frame_context_init (rfc_frame f @ rest)"
  by (simp add: recv_sync_def at_header1_def wslay_frame_context_init_def)

theorem wslay_frame_recv_decodes_witness:
  "case wslay_frame_recv feed_callbacks wslay_frame_context_init hello_feed of (res, ctx', w') \<Rightarrow> df_ok w' \<and> fc_inv ctx' \<and>
    (case res of Inl e \<Rightarrow> e = WSLAY_ERR_WANT_READ \<and> recv_sync hello_frame 0 [] ctx' (window ctx' @ df_stream w')
     | Inr io \<Rightarrow> \<exists>n. recv_delivers hello_frame 0 [] n io ctx' (window ctx' @ df_stream w'))"
  using wslay_frame_recv_decodes [OF feed_source.byte_source_axioms hello_feed(1) init_window(1) hello_valid, of 0 "[]"]
    init_sync [of hello_frame "[]"]
  by (simp add: init_window hello_feed(2) hello_rfc)

text \<open>C20. On any input whatever, \<open>wslay_frame_recv\<close> keeps its buffer in bounds and its state
  well formed, fails only with \<open>WSLAY_ERR_WANT_READ\<close> or \<open>WSLAY_ERR_PROTO\<close> (never with the
  \<open>WSLAY_ERR_INVALID_ARGUMENT\<close> at its end), hands out at most one buffer of data, loses no byte
  of the stream, and consumes at least one byte whenever it returns 0.\<close>

theorem wslay_frame_recv_safe:
  assumes "byte_source cbs stream ok" "ok w" "recv_wf ctx"
  shows "case wslay_frame_recv cbs ctx w of (res, ctx', w') \<Rightarrow> ok w' \<and> recv_wf ctx' \<and>
    (\<exists>c. window ctx @ stream w = c @ window ctx' @ stream w' \<and>
      (case res of Inl e \<Rightarrow> e \<in> {WSLAY_ERR_WANT_READ, WSLAY_ERR_PROTO}
       | Inr io \<Rightarrow> c \<noteq> [] \<and> length (iocb_data io) \<le> 4096 \<and> iocb_data_length io = of_nat (length (iocb_data io))))"
proof -
  obtain res ctx' w' where r: "wslay_frame_recv cbs ctx w = (res, ctx', w')" by (metis prod_cases3)
  from byte_source.recv_any [OF assms(1,3,2) r] show ?thesis
    unfolding r byte_source.recv_stops_def [OF assms(1)] by (auto split: sum.splits)
qed

theorem wslay_frame_recv_safe_witness:
  "case wslay_frame_recv feed_callbacks wslay_frame_context_init hello_feed of (res, ctx', w') \<Rightarrow> df_ok w' \<and> recv_wf ctx' \<and>
    (\<exists>c. window wslay_frame_context_init @ df_stream hello_feed = c @ window ctx' @ df_stream w' \<and>
      (case res of Inl e \<Rightarrow> e \<in> {WSLAY_ERR_WANT_READ, WSLAY_ERR_PROTO}
       | Inr io \<Rightarrow> c \<noteq> [] \<and> length (iocb_data io) \<le> 4096 \<and> iocb_data_length io = of_nat (length (iocb_data io))))"
  by (rule wslay_frame_recv_safe [OF feed_source.byte_source_axioms hello_feed(1) recv_wf_init])


definition bad_ping :: wslay_frame_context where
  "bad_ping = wslay_frame_context_init
     \<lparr>fc_ibuf := [0x09, 0x00, 0, 0, 0, 0, 0, 0, 0, 0] @ replicate 4086 0, fc_ibuflimit := 10\<rparr>"


section \<open>Sending\<close>

definition hello_iocb :: "bool \<Rightarrow> wslay_frame_iocb" where
  "hello_iocb m = \<lparr>iocb_fin = 1, iocb_rsv = 0, iocb_opcode = 1, iocb_payload_length = 5, iocb_mask = m,
     iocb_data = [0x48, 0x65, 0x6c, 0x6c, 0x6f], iocb_data_length = 5\<rparr>"

definition empty_feed :: "nat list \<Rightarrow> scripted_data_feed" where
  "empty_feed seq = \<lparr>df_data = replicate 64 0, df_datamark = 0, df_datalimit = 64, df_feedseq = seq, df_seqidx = 0\<rparr>"

lemma hello_carries: "iocb_carries hello_frame 0 (hello_iocb True)"
  by (simp add: iocb_carries_def hello_frame_def hello_iocb_def)

lemma init_send: "send_wf wslay_frame_context_init" "send_ready f wslay_frame_context_init"
  by (simp_all add: send_wf_def send_ready_def wslay_frame_context_init_def)

lemma empty_feed: "sum_list seq \<le> 64 \<Longrightarrow> df_ok (empty_feed seq)" "df_wire (empty_feed seq) = []"
  by (simp_all add: df_ok_def empty_feed_def df_wire_def)

text \<open>C18. \<open>wslay_frame_send\<close>, called at a frame boundary, starts the RFC 6455 encoding of the frame
  that the control block describes, under the key the mask callback returned: what it puts on the
  wire is a prefix of the encoding, it reports how much payload went out (some, if some was
  offered), and on \<open>WSLAY_ERR_WANT_WRITE\<close> it stands where it stopped. Only a failing mask
  callback makes it give up, with nothing sent.\<close>

theorem wslay_frame_send_starts:
  assumes "byte_sink cbs wire ok" "ok w" "rfc_valid f" "iocb_carries f 0 io" "send_wf ctx" "send_ready f ctx"
  shows "case wslay_frame_send cbs ctx io w of (res, ctx', w') \<Rightarrow> ok w' \<and>
    (res = Inl WSLAY_ERR_INVALID_CALLBACK \<and> fr_key f \<noteq> None \<and> fc_ostate ctx' = PREP_HEADER \<and> wire w' = wire w \<or>
     (\<exists>f'. rekeyed f f' \<and> send_result f' (wire w) 0 io res ctx' (wire w')))"
  using byte_sink.send_starts [OF assms(1,3,4,2,5,6)] by (auto split: prod.split)

theorem wslay_frame_send_starts_witness:
  "case wslay_frame_send feed_callbacks wslay_frame_context_init (hello_iocb True) (empty_feed [4, 3, 9]) of
    (res, ctx', w') \<Rightarrow> df_ok w' \<and>
    (res = Inl WSLAY_ERR_INVALID_CALLBACK \<and> fr_key hello_frame \<noteq> None \<and> fc_ostate ctx' = PREP_HEADER \<and> df_wire w' = [] \<or>
     (\<exists>f'. rekeyed hello_frame f' \<and> send_result f' [] 0 (hello_iocb True) res ctx' (df_wire w')))"
  using wslay_frame_send_starts [OF feed_sink.byte_sink_axioms empty_feed(1) hello_valid hello_carries init_send, of "[4, 3, 9]"]
  by (simp add: empty_feed(2))

text \<open>C17. Called again inside frame \<open>f\<close>, with \<open>k\<close> payload bytes of it out and the data from
  there on, \<open>wslay_frame_send\<close> continues the same encoding, whatever piece of it the send callback
  accepts; it fails only with \<open>WSLAY_ERR_WANT_WRITE\<close>, and after the last byte it is ready for
  the next frame with exactly the encoding of \<open>f\<close> on the wire.\<close>

theorem wslay_frame_send_continues:
  assumes "byte_sink cbs wire ok" "ok w" "rfc_valid f" "iocb_carries f k io" "send_wf ctx"
    and "send_sync f base k ctx (wire w)"
  shows "case wslay_frame_send cbs ctx io w of (res, ctx', w') \<Rightarrow> ok w' \<and> send_result f base k io res ctx' (wire w')"
  using byte_sink.send_continues [OF assms(1,3,4,2,5,6)] by (auto split: prod.split)

definition half_sent :: wslay_frame_context where
  "half_sent = wslay_frame_context_init\<lparr>fc_ostate := SEND_PAYLOAD, fc_omask := 1,
     fc_omaskkey := [0x37, 0xfa, 0x21, 0x3d], fc_opayloadlen := 5, fc_opayloadoff := 2\<rparr>"

definition half_wire :: scripted_data_feed where
  "half_wire = (empty_feed [1, 1, 1])\<lparr>df_data := take 8 hello_bytes @ replicate 56 0, df_datamark := 8\<rparr>"

lemma half_sync: "send_sync hello_frame [] 2 half_sent (df_wire half_wire)"
proof -
  have "df_wire half_wire = rfc_header hello_frame @ take 2 (rfc_body hello_frame)" by code_simp
  then show ?thesis
    by (simp add: send_sync_def at_send_payload_def send_keyed_def half_sent_def wslay_frame_context_init_def
        hello_frame_def rfc_key_def)
qed

theorem wslay_frame_send_continues_witness:
  "case wslay_frame_send feed_callbacks half_sent ((hello_iocb True)\<lparr>iocb_data := [0x6c, 0x6c, 0x6f], iocb_data_length := 3\<rparr>)
     half_wire of (res, ctx', w') \<Rightarrow> df_ok w' \<and>
    send_result hello_frame [] 2 ((hello_iocb True)\<lparr>iocb_data := [0x6c, 0x6c, 0x6f], iocb_data_length := 3\<rparr>)
      res ctx' (df_wire w')"
  by (rule wslay_frame_send_continues [OF feed_sink.byte_sink_axioms _ hello_valid _ _ half_sync])
    (simp_all add: half_wire_def empty_feed_def df_ok_def hello_bytes_def iocb_carries_def hello_frame_def hello_iocb_def
      send_wf_def half_sent_def wslay_frame_context_init_def)


lemma hello_sent:
  "fst (wslay_frame_send feed_callbacks wslay_frame_context_init (hello_iocb True) (empty_feed [16, 16])) = Inr 5"
  "df_wire (snd (snd (wslay_frame_send feed_callbacks wslay_frame_context_init (hello_iocb True) (empty_feed [16, 16])))) = hello_bytes"
  by code_simp+



end
