(* ===== verification/Wslay_Event_Props.thy ===== *)
theory Wslay_Event_Props
  imports Wslay_Event_Control Wslay_Echo Wslay_Frame_Props
begin

text \<open>
  What \<open>wslay_event_recv\<close> guarantees to the application, for any callbacks that keep their contract,
  with instances on the echo server of \<open>examples/fork-echoserv.c\<close>.
\<close>

section \<open>A server and its peer\<close>

definition echo_server :: "'o \<Rightarrow> 'o Session wslay_event_context" where
  "echo_server w = (fresh_context mem_unlimited \<lparr>se_fd = 3, se_os = w\<rparr>)\<lparr>ec_server := True\<rparr>"

abbreviation echo_stream :: "('o \<Rightarrow> byte list) \<Rightarrow> 'o Session \<Rightarrow> byte list" where
  "echo_stream stream s \<equiv> stream (se_os s)"

abbreviation echo_ok :: "('o \<Rightarrow> bool) \<Rightarrow> 'o Session \<Rightarrow> bool" where
  "echo_ok ok s \<equiv> ok (se_os s)"

lemmas echo_server_simps = echo_server_def fresh_context_def fresh_imsg_def mem_unlimited_def imsg_get_def

lemma echo_server_ready:
  "idle (echo_server w)" "can_queue (echo_server w)" "ctrl_ready (echo_server w)" "outbox_inv (echo_server w)"
  by (auto simp: echo_server_simps idle_def can_queue_def ctrl_ready_def ctrl_slot_def outbox_inv_def outbox_of_def
      wslay_event_is_msg_queueable_def assembled_init)

lemma max_length: "n < 2 ^ 64 \<Longrightarrow> n \<le> unat (- 1 :: uint64)"
  by (simp add: unsigned_minus_1_eq_mask mask_eq_exp_minus_1)

lemma echo_server_receiving:
  assumes "ok w" "stream w = wire_bytes fs @ rest" "msg_frames True op fs" "data_opcode op" "length (payloads fs) < 2 ^ 64"
  shows "receiving (echo_stream stream) (echo_ok ok) op fs 0 [] rest (echo_server w)"
proof -
  obtain f fs' where fs: "fs = f # fs'" using assms(3) by (cases fs) auto
  have f: "fr_opcode f = op" using assms(3) by (simp add: fs)
  have "recv_sync f 0 (wire_bytes fs' @ rest) wslay_frame_context_init (rfc_frame f @ wire_bytes fs' @ rest)"
    by (rule init_sync)
  moreover have "msg_state op f 0 [] (echo_server w)"
    using echo_server_ready(1) assms(4) f by (auto simp: msg_state_def utf8_after_def data_opcode_def)
  moreover have "length (payloads fs) \<le> unat (- 1 :: uint64)" using max_length [OF assms(5)] .
  ultimately show ?thesis
    using assms f init_window
    by (simp add: receiving_def fs echo_server_def fresh_context_def wslay_event_config_get_no_buffering_def mem_unlimited_def)
qed

section \<open>Messages\<close>

text \<open>C1. However the network cuts the stream, and whatever the frames the peer cut its message into,
  \<open>wslay_event_recv\<close>, called anywhere inside a data message, does one of three things: it returns because
  the source has nothing now, still inside the same message; it finds that a text message is not UTF-8 and closes with 1007;
  or it calls \<open>on_msg_recv_callback\<close> once, with the opcode and the whole unmasked payload, and goes on
  with exactly the bytes that follow the message.\<close>

theorem wslay_event_recv_delivers_message:
  assumes "event_peer cbs stream ok" "ev_on_msg_recv_callback cbs = Some h" "receiving stream ok op fs k bs rest ctx"
  shows "\<exists>c. message_received cbs h stream ok op (whole fs k bs) rest ctx c"
  using event_peer.recv_message_loop [OF assms(1,3,2)] .

lemma hello_receiving:
  "receiving (echo_stream df_stream) (echo_ok df_ok) 1 [hello_frame] 0 [] [] (echo_server hello_feed)"
  by (rule echo_server_receiving)
    (use hello_feed hello_valid in \<open>simp_all add: hello_rfc data_opcode_def\<close>, simp_all add: hello_frame_def)

theorem wslay_event_recv_delivers_message_witness:
  "\<exists>c. message_received (echo_callbacks feed_os) echo_on_msg_recv_callback (echo_stream df_stream) (echo_ok df_ok) 1
     (whole [hello_frame] 0 []) [] (echo_server hello_feed) c"
  by (rule wslay_event_recv_delivers_message [OF feed_socket.echo_peer _ hello_receiving]) (simp add: echo_callbacks_def)

text \<open>What a call returns that stops for lack of input: 0 while the source would block; \<open>WSLAY_ERR_CALLBACK_FAILURE\<close>, with
  an empty close frame queued, when it failed.\<close>

definition out_of_input :: "outbox \<Rightarrow> ((fault + int) \<times> 'u wslay_event_context) option \<Rightarrow> bool" where
  "out_of_input ob res \<longleftrightarrow> (\<exists>r ctx'. res = Some (Inr r, ctx') \<and>
     (r = 0 \<and> outbox_of ctx' = ob \<or>
      r = wslay_error_code WSLAY_ERR_CALLBACK_FAILURE \<and> outbox_of ctx' = outbox_close (outbox_put (whole_msg (close_msg 0 [])) ob)))"

lemma recv_error_out_of_input:
  assumes "can_queue c"
  shows "out_of_input (outbox_of c) (loop_exit (recv_error WSLAY_ERR_WANT_READ c))"
proof -
  obtain r c' where w: "wslay_event_queue_close_wrapper c 0 [] = (r, c')" by fastforce
  show ?thesis
    using close_wrapper_open [OF assms _ w] w
    by (auto simp: recv_error_def loop_exit_def out_of_input_def closed_with_def)
qed

text \<open>What echoing does to the outbox.\<close>

definition echo_msg :: "nat \<Rightarrow> byte list \<Rightarrow> wslay_event_msg" where
  "echo_msg op m = \<lparr>em_opcode = of_nat op, em_msg = m, em_msg_length = of_nat (length m)\<rparr>"

lemma echo_queues:
  assumes "can_queue c" "data_opcode op" "c' = echo_on_msg_recv_callback (recv_arg 0 (of_nat op) m) c"
  shows "outbox_of c' = outbox_put (whole_msg (echo_msg op m)) (outbox_of c) \<and> can_queue c' \<and> ec_read_enabled c' = ec_read_enabled c"
proof -
  have nc: "\<not> wslay_is_ctrl_frame (of_nat op)" using assms(2) by (auto simp: data_opcode_def wslay_is_ctrl_frame_def)
  obtain r where q: "wslay_event_queue_msg c (echo_msg op m) = (r, c')"
    using nc assms(3) by (auto simp: echo_on_msg_recv_callback_def recv_arg_def echo_msg_def prod_eq_iff split: if_splits)
  have spec: "outbox_inv c'" "outbox_only c c'" "outbox_of c' = outbox_put (whole_msg (echo_msg op m)) (outbox_of c)"
    using queue_msg_spec [OF _ q] assms(1) nc by (auto simp: can_queue_def queued_or_nomem_def echo_msg_def)
  have "mem_ok (ec_mem c') = mem_ok (ec_mem c)" using recv_part_simps(11) [of c' c] queue_msg_keeps(1) [of c "echo_msg op m"] q by simp
  moreover have "ec_read_enabled (sans_outbox c') = ec_read_enabled (sans_outbox c)" using spec(2) by (simp add: outbox_only_def)
  ultimately show ?thesis using spec assms(1) by (simp add: can_queue_def sans_outbox_def outbox_put_def Let_def)
qed

text \<open>What a call of \<open>wslay_event_recv\<close> does with one data message and nothing more.\<close>

lemma echo_recv_outcome:
  assumes os: "socket_os os stream ok" and r: "receiving (echo_stream stream) (echo_ok ok) op fs 0 [] [] ctx" and q: "can_queue ctx"
  defines "res \<equiv> wslay_event_recv (echo_callbacks os) ctx"
  shows "out_of_input (outbox_of ctx) res \<or>
    op = 1 \<and> \<not> utf8_text (payloads fs) \<and> (\<exists>ctx'. res = Some (Inr 0, ctx') \<and> closed_with 1007 [] ctx ctx') \<or>
    (op = 1 \<longrightarrow> utf8_text (payloads fs)) \<and> out_of_input (outbox_put (whole_msg (echo_msg op (payloads fs))) (outbox_of ctx)) res"
proof -
  have dop: "data_opcode op" and mem: "\<And>n. mem_ok (ec_mem ctx) n" and en: "ec_read_enabled ctx"
    using r by (auto simp: receiving_def split: list.splits)
  obtain c where mr: "message_received (echo_callbacks os) echo_on_msg_recv_callback (echo_stream stream) (echo_ok ok) op (payloads fs) [] ctx c"
    using event_peer.recv_message_loop [OF socket_os.echo_peer [OF os] r] by (auto simp: whole_def echo_callbacks_def)
  have sp: "send_part c = send_part ctx" "mem_ok (ec_mem c) = mem_ok (ec_mem ctx)"
    using mr by (auto simp: message_received_def out_part_def)
  have qc: "can_queue c" using q can_queue_cong [OF sp] by simp
  have oc: "outbox_of c = outbox_of ctx" "ec_read_enabled c" using send_part_simps [OF sp(1)] en by simp_all
  from conjunct2 [OF mr [unfolded message_received_def]] show ?thesis
  proof (elim disjE conjE)
    assume "\<exists>fs' k bs. receiving (echo_stream stream) (echo_ok ok) op fs' k bs [] c \<and> whole fs' k bs = payloads fs \<and>
        wslay_event_recv (echo_callbacks os) ctx = loop_exit (recv_error WSLAY_ERR_WANT_READ c)"
    then show ?thesis using recv_error_out_of_input [OF qc] by (auto simp: res_def oc)
  next
    assume "op = 1" "\<not> utf8_text (payloads fs)"
      "wslay_event_recv (echo_callbacks os) ctx = loop_exit (close_and_break WSLAY_CODE_INVALID_FRAME_PAYLOAD_DATA c)"
    then show ?thesis
      using close_and_break_open [OF qc, of WSLAY_CODE_INVALID_FRAME_PAYLOAD_DATA] by (auto simp: res_def loop_exit_def closed_with_def oc)
  next
    let ?c = "echo_on_msg_recv_callback (recv_arg 0 (of_nat op) (payloads fs)) c"
    assume ut: "op = 1 \<longrightarrow> utf8_text (payloads fs)" and re: "wslay_event_recv (echo_callbacks os) ctx = wslay_event_recv (echo_callbacks os) (forget_msg ?c)"
      and fr: "echo_ok ok (ec_user_data c)" "fc_inv (ec_frame_ctx c)" "frame_boundary (ec_frame_ctx c)"
        "window (ec_frame_ctx c) @ echo_stream stream (ec_user_data c) = []"
    note eq = echo_queues [OF qc dop refl, of "payloads fs", unfolded oc]
    have fg: "ec_user_data (forget_msg ?c) = ec_user_data c" "ec_frame_ctx (forget_msg ?c) = ec_frame_ctx c"
        "send_part (forget_msg ?c) = send_part ?c" "mem_ok (ec_mem (forget_msg ?c)) = mem_ok (ec_mem ?c)"
      using echo_msg_keeps [of "recv_arg 0 (of_nat op) (payloads fs)" c] recv_part_simps(9) [OF echo_msg_keeps(1), of "recv_arg 0 (of_nat op) (payloads fs)" c]
      by (simp_all add: forget_msg_def)
    then obtain c2 where c2: "wslay_event_recv (echo_callbacks os) (forget_msg ?c) = loop_exit (recv_error WSLAY_ERR_WANT_READ c2)"
        "out_part c2 = out_part (forget_msg ?c)"
      using event_peer.recv_dry [OF socket_os.echo_peer [OF os], of "forget_msg ?c"] fr eq oc(2) send_part_simps(3) [OF fg(3)] by auto
    have s2: "send_part c2 = send_part ?c" "mem_ok (ec_mem c2) = mem_ok (ec_mem ?c)" using c2(2) fg by (simp_all add: out_part_def)
    have "out_of_input (outbox_of c2) (wslay_event_recv (echo_callbacks os) ctx)"
      unfolding re c2(1) by (rule recv_error_out_of_input) (use can_queue_cong [OF s2] eq in simp)
    then show ?thesis using ut eq send_part_simps(1) [OF s2(1)] by (simp add: res_def)
  qed
qed

text \<open>The echo server echoes. Let the connection carry the frames of one data message and nothing more. Then a call of
  \<open>wslay_event_recv\<close> ends, and either part of the message is still missing and nothing is
  queued, or the message is a text that is not UTF-8 and a close frame with status 1007 is queued, or the message is queued back to the
  peer, with its opcode and its bytes, as a single message.\<close>

theorem echo_server_echoes:
  assumes os: "socket_os os stream ok" and r: "receiving (echo_stream stream) (echo_ok ok) op fs 0 [] [] ctx" and q: "can_queue ctx"
  defines "res \<equiv> wslay_event_recv (echo_callbacks os) ctx"
  shows "out_of_input (outbox_of ctx) res \<or>
    op = 1 \<and> \<not> utf8_text (payloads fs) \<and> (\<exists>ctx'. res = Some (Inr 0, ctx') \<and> closed_with 1007 [] ctx ctx') \<or>
    (op = 1 \<longrightarrow> utf8_text (payloads fs)) \<and> out_of_input (outbox_put (whole_msg (echo_msg op (payloads fs))) (outbox_of ctx)) res"
  unfolding res_def using echo_recv_outcome [OF os r q] .

theorem echo_server_echoes_witness:
  "out_of_input (outbox_of (echo_server hello_feed)) (wslay_event_recv (echo_callbacks feed_os) (echo_server hello_feed)) \<or>
    \<not> utf8_text (payloads [hello_frame]) \<and> (\<exists>ctx'. wslay_event_recv (echo_callbacks feed_os) (echo_server hello_feed) = Some (Inr 0, ctx') \<and>
      closed_with 1007 [] (echo_server hello_feed) ctx') \<or>
    utf8_text (payloads [hello_frame]) \<and>
      out_of_input (outbox_put (whole_msg (echo_msg 1 (payloads [hello_frame]))) (outbox_of (echo_server hello_feed)))
        (wslay_event_recv (echo_callbacks feed_os) (echo_server hello_feed))"
  using echo_server_echoes [OF feed_socket.socket_os_axioms hello_receiving echo_server_ready(2)] by simp

section \<open>Control frames\<close>

text \<open>C24. A ping is answered with a pong that carries the same payload, unless the outbox is closed, in which
  case it is dropped; the application hears of it either way. When it arrives between the fragments of a message it is handled in
  the second slot: the message under construction in the first one stays as it was, and the receiver is
  ready for its next fragment.\<close>

theorem wslay_event_recv_ping:
  assumes "event_peer cbs stream ok" "ctrl_frame (ec_server ctx) f" "fr_opcode f = 9" "ctrl_ready ctx" "outbox_inv ctx"
    and "length (fr_payload f) \<le> unat (ec_max_recv_msg_length ctx)"
  shows "\<exists>c. recv_frame cbs (delivered_io f 0 (length (fr_payload f))) ctx =
      (Go, forget_msg (call_on_msg_recv cbs (payload_ptr (fr_payload f)) (of_nat (length (fr_payload f))) 0 c)) \<and>
    outbox_inv c \<and> ec_imsg c = ctrl_slot ctx \<and> (\<forall>s. s \<noteq> ctrl_slot ctx \<longrightarrow> ec_imsgs c s = ec_imsgs ctx s) \<and>
    outbox_of c = (if ob_open (outbox_of ctx) then outbox_put (whole_msg (pong_msg (fr_payload f))) (outbox_of ctx) else outbox_of ctx)"
proof -
  let ?p = "fr_payload f" and ?io = "delivered_io f 0 (length (fr_payload f))"
  obtain c where c: "ctrl_dispatched cbs stream ok f ?io ctx c"
    using event_peer.recv_frame_ctrl [OF assms(1,2,4,6) _ refl] assms(3) by auto
  have a: "send_part c = send_part ctx" "mem_ok (ec_mem c) = mem_ok (ec_mem ctx)" "\<forall>s. s \<noteq> ctrl_slot ctx \<longrightarrow> ec_imsgs c s = ec_imsgs ctx s"
      "ec_imsg c = ctrl_slot ctx" "im_opcode (imsg_get c) = WSLAY_PING" "im_msg_length (imsg_get c) = of_nat (length ?p)"
    using c assms(3) by (auto simp: ctrl_dispatched_def aside_def)
  have "outbox_inv c" "mem_ok (ec_mem c) n" for n using assms(4,5) a(2) send_part_simps(2) [OF a(1)] by (simp_all add: ctrl_ready_def)
  then obtain c' where c': "recv_ping (payload_ptr ?p) c = (Go, 0, c')" "recv_part c' = recv_part c" "outbox_inv c'"
      "outbox_of c' = (if ob_open (outbox_of c) then outbox_put (whole_msg (pong_msg ?p)) (outbox_of c) else outbox_of c)"
    using recv_ping_pong [OF a(6) ctrl_opcodes(6) [OF assms(2)]] by blast
  have "recv_frame cbs ?io ctx = (Go, forget_msg (call_on_msg_recv cbs (payload_ptr ?p) (of_nat (length ?p)) 0 c'))"
    using c c'(1) a(5) by (simp add: ctrl_dispatched_def recv_dispatch_def andthen_def)
  then show ?thesis
    using c' a recv_part_simps(2,3) [OF c'(2)] send_part_simps(1) [OF a(1)] by (intro exI [of _ c']) simp
qed

definition ping_frame :: ws_frame where
  "ping_frame = \<lparr>fr_fin = True, fr_rsv = 0, fr_opcode = 9, fr_key = Some [1, 2, 3, 4], fr_payload = [0x61, 0x62]\<rparr>"

theorem wslay_event_recv_ping_witness:
  "\<exists>c. recv_frame (echo_callbacks feed_os) (delivered_io ping_frame 0 (length (fr_payload ping_frame))) (echo_server hello_feed) =
      (Go, forget_msg (call_on_msg_recv (echo_callbacks feed_os) (Some [0x61, 0x62]) 2 0 c)) \<and>
    outbox_of c = outbox_put (whole_msg (pong_msg [0x61, 0x62])) (outbox_of (echo_server hello_feed))"
proof -
  have f: "ctrl_frame (ec_server (echo_server hello_feed)) ping_frame" "fr_opcode ping_frame = 9" "fr_payload ping_frame = [0x61, 0x62]"
    by (simp_all add: ping_frame_def ctrl_frame_def rfc_valid_def echo_server_def)
  have "length (fr_payload ping_frame) \<le> unat (ec_max_recv_msg_length (echo_server hello_feed))"
    by (simp add: f(3) echo_server_def fresh_context_def unsigned_minus_1_eq_mask mask_eq_exp_minus_1)
  from wslay_event_recv_ping [OF feed_socket.echo_peer f(1,2) echo_server_ready(3,4) this] echo_server_ready(2) [of hello_feed]
  show ?thesis by (auto simp: f(3) payload_ptr_def can_queue_def)
qed

lemma close_received_bit:
  assumes "ec_close_status c = s OR WSLAY_CLOSE_RECEIVED OR WSLAY_CLOSE_QUEUED"
  shows "wslay_event_get_close_received c"
proof -
  have "(s OR 1 OR 2) AND 1 = 1" by (rule bit_word_eqI) (auto simp: bit_simps bit_1_iff)
  then show ?thesis unfolding wslay_event_get_close_received_def assms by simp
qed


definition close_frame :: ws_frame where
  "close_frame = \<lparr>fr_fin = True, fr_rsv = 0, fr_opcode = 8, fr_key = Some [1, 2, 3, 4], fr_payload = [0x03, 0xe8, 0x62, 0x79, 0x65]\<rparr>"

lemma close_frame_simps:
  "ctrl_frame (ec_server (echo_server hello_feed)) close_frame" "fr_opcode close_frame = 8" "fr_payload close_frame = [0x03, 0xe8, 0x62, 0x79, 0x65]"
  "length (fr_payload close_frame) \<le> unat (ec_max_recv_msg_length (echo_server hello_feed))"
  "close_code [0x03, 0xe8, 0x62, 0x79, 0x65] = 1000" "wslay_event_is_valid_status_code 1000" "utf8_text [0x62, 0x79, 0x65]"
proof -
  show "utf8_text [0x62, 0x79, 0x65]" by (rule utf8_accepted_texts) code_simp
  show "close_code [0x03, 0xe8, 0x62, 0x79, 0x65] = 1000" by code_simp
qed (simp_all add: close_frame_def ctrl_frame_def rfc_valid_def echo_server_def fresh_context_def
    unsigned_minus_1_eq_mask mask_eq_exp_minus_1 wslay_event_is_valid_status_code_def)


text \<open>C32. The peer's answer to our own close frame is not handled as the documentation has it: with a close frame queued before,
  a valid close frame from the peer makes the round return 1, before the application is told. \<open>wslay_event_queue_close\<close>
  refuses the second close frame with 1, which its wrapper takes for a failure because it expects
  \<open>WSLAY_ERR_NO_MORE_MSG\<close>.\<close>

theorem wslay_event_recv_close_reply:
  assumes "event_peer cbs stream ok" "ctrl_frame (ec_server ctx) f" "fr_opcode f = 8" "ctrl_ready ctx" "\<not> ob_open (outbox_of ctx)"
    and "length (fr_payload f) \<le> unat (ec_max_recv_msg_length ctx)"
    and "utf8_text (drop 2 (fr_payload f))" "length (fr_payload f) < 2 \<or> wslay_event_is_valid_status_code (close_code (fr_payload f))"
  shows "\<exists>c. recv_frame cbs (delivered_io f 0 (length (fr_payload f))) ctx = (Return 1, c) \<and> \<not> ec_read_enabled c \<and>
    wslay_event_get_status_code_received c = (if close_code (fr_payload f) = 0 then 1005 else close_code (fr_payload f))"
proof -
  let ?p = "fr_payload f" and ?io = "delivered_io f 0 (length (fr_payload f))"
  obtain c where c: "ctrl_dispatched cbs stream ok f ?io ctx c"
    using event_peer.recv_frame_close [OF assms(1-4,6) refl] assms(7) by auto
  then have a: "send_part c = send_part ctx" "im_opcode (imsg_get c) = WSLAY_CONNECTION_CLOSE" "im_msg_length (imsg_get c) = of_nat (length ?p)"
    using assms(3) by (auto simp: ctrl_dispatched_def aside_def)
  define c1 where "c1 = c\<lparr>ec_close_status := ec_close_status c OR WSLAY_CLOSE_RECEIVED,
    ec_status_code_recv := (if close_code ?p = 0 then WSLAY_CODE_NO_STATUS_RCVD else close_code ?p)\<rparr>"
  have "\<not> ob_open (outbox_of c1)"
    using assms(5) send_part_simps(1) [OF a(1)] by (simp add: c1_def outbox_of_def wslay_event_is_msg_queueable_def received_bit)
  then have w: "wslay_event_queue_close_wrapper c1 x y = (1, c1\<lparr>ec_read_enabled := False\<rparr>)" for x y by (rule close_wrapper_closed)
  have "length ?p \<le> 125" using ctrl_opcodes(6) [OF assms(2)] .
  then have len: "im_msg_length (imsg_get c) \<ge> 2 \<longleftrightarrow> 2 \<le> length ?p" by (simp add: a(3) word_le_nat_alt unat_of_nat)
  have "recv_close (payload_ptr ?p) c = (Return 1, close_code ?p, c1\<lparr>ec_read_enabled := False\<rparr>)"
  proof (cases "2 \<le> length ?p")
    case True
    then have p: "payload_ptr ?p = Some ?p" "close_code ?p = ntohs_bytes ?p" by (auto simp: payload_ptr_def close_code_def)
    then show ?thesis using True assms(8) len w unfolding c1_def p(2) by (simp add: recv_close_def Let_def)
  next
    case False
    then have "close_code ?p = 0" by (simp add: close_code_def)
    then show ?thesis using False len w unfolding c1_def by (simp add: recv_close_def Let_def)
  qed
  then have "recv_frame cbs ?io ctx = (Return 1, c1\<lparr>ec_read_enabled := False\<rparr>)"
    using c a(2) by (simp add: ctrl_dispatched_def recv_dispatch_def andthen_def)
  then show ?thesis by (intro exI [of _ "c1\<lparr>ec_read_enabled := False\<rparr>"]) (simp add: c1_def wslay_event_get_status_code_received_def)
qed

definition closing_server :: "scripted_data_feed Session wslay_event_context" where
  "closing_server = (echo_server hello_feed)\<lparr>ec_close_status := WSLAY_CLOSE_QUEUED\<rparr>"

theorem wslay_event_recv_close_reply_witness:
  "\<exists>c. recv_frame (echo_callbacks feed_os) (delivered_io close_frame 0 (length (fr_payload close_frame))) closing_server = (Return 1, c) \<and>
    wslay_event_get_status_code_received c = 1000"
proof -
  have s: "ec_server closing_server" "ctrl_ready closing_server" "\<not> ob_open (outbox_of closing_server)"
      "ec_max_recv_msg_length closing_server = ec_max_recv_msg_length (echo_server hello_feed)"
    using echo_server_ready(3) [of hello_feed]
    by (simp_all add: closing_server_def ctrl_ready_def ctrl_slot_def outbox_of_def wslay_event_is_msg_queueable_def echo_server_def)
  have "ec_server (echo_server hello_feed)" by (simp add: echo_server_def)
  then show ?thesis
    using wslay_event_recv_close_reply [OF feed_socket.echo_peer _ close_frame_simps(2) s(2,3)] close_frame_simps s by auto
qed

section \<open>Errors\<close>

text \<open>C30. A frame that the protocol does not allow at this point (reserved bits, a mask in the wrong direction, a
  continuation without a message, a new data frame inside a message, an unknown opcode) ends the call with 0 after
  queueing a close frame with status 1002; nothing is read after it.\<close>

theorem wslay_event_recv_protocol_error:
  assumes "protocol_error io ctx" "can_queue ctx"
  shows "\<exists>ctx'. recv_frame cbs io ctx = (Break, ctx') \<and> closed_with 1002 [] ctx ctx'"
  using recv_frame_protocol_error [OF assms] .

theorem wslay_event_recv_protocol_error_witness:
  "\<exists>ctx'. recv_frame (echo_callbacks feed_os) (delivered_io (hello_frame\<lparr>fr_key := None\<rparr>) 0 5) (echo_server hello_feed) = (Break, ctx') \<and>
    closed_with 1002 [] (echo_server hello_feed) ctx'"
  by (rule wslay_event_recv_protocol_error [OF _ echo_server_ready(2)]) (simp add: protocol_error_def delivered_io_def echo_server_def)

text \<open>A frame that would take a data message over \<open>max_recv_msg_length\<close> is refused as soon as its header is
  known: a close frame with status 1009 is queued, and none of the frame's bytes is stored.\<close>

theorem wslay_event_recv_too_big:
  assumes f: "rfc_valid f" "fr_rsv f = 0" "(fr_key f \<noteq> None) = ec_server ctx" and op: "data_opcode op" and st: "msg_state op f 0 bs ctx"
    and q: "can_queue ctx" and big: "length bs + length (fr_payload f) < 2 ^ 64"
      "unat (ec_max_recv_msg_length ctx) < length bs + length (fr_payload f)"
  shows "\<exists>ctx'. recv_frame cbs (delivered_io f 0 n) ctx = (Break, ctx') \<and> closed_with 1009 [] ctx ctx'"
proof -
  let ?io = "delivered_io f 0 n"
  obtain c where c: "recv_classify ?io ctx = (Go, True, c)" "kept (\<lambda>u. []) (\<lambda>u. True) ctx c"
      "im_msg_length (imsg_get c) = of_nat (length bs)"
    using classify_piece [OF st op, of n "\<lambda>u. []" "\<lambda>u. True"] by (auto simp: msg_chunks_def msg_size_def)
  have k: "send_part c = send_part ctx" "mem_ok (ec_mem c) = mem_ok (ec_mem ctx)" "ec_max_recv_msg_length c = ec_max_recv_msg_length ctx"
    using c(2) by (simp_all add: kept_def)
  have "im_msg_length (imsg_get c) + iocb_payload_length ?io > ec_max_recv_msg_length c"
    using big by (simp add: c(3) k(3) delivered_io_def word_less_nat_alt unat_of_nat flip: of_nat_add)
  then obtain c' where c': "recv_new_frame cbs ?io c = (Break, c')" "closed_with WSLAY_CODE_MESSAGE_TOO_BIG [] c c'"
    using recv_new_frame_too_big can_queue_cong [OF k(1,2)] q by blast
  have "recv_check_header ?io ctx = (Go, ctx)" using f by (simp add: recv_check_header_def delivered_io_def)
  then have "recv_frame cbs ?io ctx = (Break, c')" using c(1) c'(1) by (simp add: recv_frame_def andthen_def)
  then show ?thesis using c'(2) send_part_simps(1) [OF k(1)] by (simp add: closed_with_def)
qed

theorem wslay_event_recv_too_big_witness:
  "\<exists>ctx'. recv_frame (echo_callbacks feed_os) (delivered_io hello_frame 0 2)
      (wslay_event_config_set_max_recv_msg_length (echo_server hello_feed) 4) = (Break, ctx') \<and>
    closed_with 1009 [] (wslay_event_config_set_max_recv_msg_length (echo_server hello_feed) 4) ctx'"
proof -
  let ?c = "wslay_event_config_set_max_recv_msg_length (echo_server hello_feed) 4"
  have m: "msg_state 1 hello_frame 0 [] ?c" "can_queue ?c"
    using echo_server_ready(1,2) [of hello_feed]
    by (auto simp: wslay_event_config_set_max_recv_msg_length_def msg_state_def idle_def hello_frame_def utf8_after_def
        imsg_get_def can_queue_def outbox_inv_def outbox_of_def wslay_event_is_msg_queueable_def)
  show ?thesis
    by (rule wslay_event_recv_too_big [OF hello_valid _ _ _ m])
      (simp_all add: hello_frame_def data_opcode_def wslay_event_config_set_max_recv_msg_length_def echo_server_def)
qed



end
