(* ===== verification/Wslay_Event_Invariant.thy ===== *)
theory Wslay_Event_Invariant
  imports Wslay_Event_Sending
begin

text \<open>
  Invariants of the sending side across \<open>wslay_event_recv\<close>. The loop touches what goes out only by queueing
  messages and through the application's callbacks, so a property of the sending side that those keep
  holds in every state the loop passes through. The locale \<open>event_invariant\<close> is that rule.
\<close>

section \<open>What the sending side is\<close>

definition frame_out_part where
  "frame_out_part c = (fc_oheader c, fc_oheadermark c, fc_oheaderlimit c, fc_opayloadlen c, fc_opayloadoff c, fc_omask c, fc_omaskkey c, fc_ostate c)"

definition out_view where
  "out_view ctx = ((ec_send_queue ctx, ec_send_ctrl_queue ctx, ec_omsg ctx, ec_opayloadlen ctx, ec_opayloadoff ctx, ec_obuf ctx,
     ec_obuflimit ctx, ec_obufmark ctx), (ec_queued_msg_count ctx, ec_queued_msg_length ctx, ec_write_enabled ctx,
     ec_close_status ctx AND NOT WSLAY_CLOSE_RECEIVED, ec_config ctx, ec_server ctx, frame_out_part (ec_frame_ctx ctx), ec_user_data ctx))"

lemma received_dropped: "(s OR WSLAY_CLOSE_RECEIVED) AND NOT WSLAY_CLOSE_RECEIVED = s AND NOT WSLAY_CLOSE_RECEIVED" for s :: byte
  by (rule bit_word_eqI) (auto simp: bit_simps)

lemma out_view_upd [simp]:
  "out_view (ctx\<lparr>ec_mem := m\<rparr>) = out_view ctx" "out_view (ctx\<lparr>ec_imsgs := ms\<rparr>) = out_view ctx"
  "out_view (ctx\<lparr>ec_imsg := s\<rparr>) = out_view ctx" "out_view (ctx\<lparr>ec_ipayloadlen := l\<rparr>) = out_view ctx"
  "out_view (ctx\<lparr>ec_ipayloadoff := l\<rparr>) = out_view ctx" "out_view (ctx\<lparr>ec_error := e\<rparr>) = out_view ctx"
  "out_view (ctx\<lparr>ec_read_enabled := b\<rparr>) = out_view ctx" "out_view (ctx\<lparr>ec_status_code_recv := c\<rparr>) = out_view ctx"
  "out_view (imsg_put m' ctx) = out_view ctx"
  "out_view (ctx\<lparr>ec_close_status := ec_close_status ctx OR WSLAY_CLOSE_RECEIVED\<rparr>) = out_view ctx"
  "frame_out_part f = frame_out_part (ec_frame_ctx ctx) \<Longrightarrow> out_view (ctx\<lparr>ec_frame_ctx := f\<rparr>) = out_view ctx"
  by (simp_all add: out_view_def imsg_put_def received_dropped [simplified])

section \<open>The frame layer keeps its sending half while it receives\<close>

lemma unmask_out_part: "frame_out_part (wslay_frame_unmask n c) = frame_out_part c"
  by (induction n arbitrary: c) (simp_all add: frame_out_part_def)

lemma recv_out_part: "frame_out_part (fst (snd (wslay_recv cbs c w))) = frame_out_part c"
  by (auto simp: wslay_recv_def wslay_shift_ibuf_def frame_out_part_def Let_def split: prod.split)

lemma fill_out_part: "frame_out_part (fst (snd (wslay_frame_fill cbs c w))) = frame_out_part c"
  using recv_out_part [of cbs c w] unfolding wslay_frame_fill_def by (auto split: prod.splits option.splits)

lemma block_out_part:
  assumes "\<And>c. frame_out_part (snd (parse c)) = frame_out_part c"
  shows "frame_out_part (fst (snd (wslay_frame_block st parse cbs c w))) = frame_out_part c"
  using fill_out_part [of cbs c w] assms unfolding wslay_frame_block_def
  by (auto split: prod.splits option.splits) (metis snd_conv)

lemma parse_out_part:
  "frame_out_part (snd (wslay_frame_parse_header1 c)) = frame_out_part c"
  "frame_out_part (snd (wslay_frame_parse_ext c)) = frame_out_part c"
  "frame_out_part (snd (wslay_frame_parse_maskkey c)) = frame_out_part c"
  by (simp_all add: wslay_frame_parse_header1_def wslay_frame_parse_ext_def wslay_frame_parse_maskkey_def
      wslay_frame_after_length_def frame_out_part_def Let_def)

lemma take_payload_out_part: "frame_out_part (snd (wslay_frame_take_payload c)) = frame_out_part c"
proof -
  have "frame_out_part (snd (wslay_frame_take_payload c)) = frame_out_part (let rempayloadlen = fc_ipayloadlen c - fc_ipayloadoff c;
          readmark = fc_ibufmark c;
          readlimit = (if of_nat (WSLAY_AVAIL_IBUF c) < rempayloadlen then fc_ibuflimit c
                       else fc_ibufmark c + unat rempayloadlen)
      in if fc_imask c \<noteq> 0 then wslay_frame_unmask (readlimit - readmark) c else c)"
    by (simp add: wslay_frame_take_payload_def Let_def frame_out_part_def)
  then show ?thesis by (simp add: Let_def unmask_out_part)
qed

lemma recv_payload_out_part: "frame_out_part (fst (snd (wslay_frame_recv_payload cbs c w))) = frame_out_part c"
  using recv_out_part [of cbs c w] take_payload_out_part
  by (auto simp: wslay_frame_recv_payload_def split: prod.splits option.splits) (metis snd_conv)+

lemma frame_recv_out_part:
  "wslay_frame_recv cbs c w = (res, c', w') \<Longrightarrow> frame_out_part c' = frame_out_part c"
proof -
  have "frame_out_part (fst (snd (wslay_frame_recv cbs c w))) = frame_out_part c"
    unfolding wslay_frame_recv_def
    by (simp add: case_prod_unfold block_out_part parse_out_part recv_payload_out_part split: option.split)
  then show "wslay_frame_recv cbs c w = (res, c', w') \<Longrightarrow> frame_out_part c' = frame_out_part c" by simp
qed

section \<open>The buffer of a message has the length of the message\<close>

lemma flatten_loop_length:
  assumes "wslay_event_flatten_loop q buf off = Some res" "res = Inr (r, buf', q')"
  shows "length buf' = length buf"
proof -
  have "\<forall>r buf' q'. res = Inr (r, buf', q') \<longrightarrow> length buf' = length buf"
    by (rule wslay_event_flatten_loop.raw_induct [OF _ assms(1), where P = "\<lambda>q buf off res. \<forall>r buf' q'. res = Inr (r, buf', q') \<longrightarrow> length buf' = length buf"])
      (auto simp: Let_def split: if_splits option.splits prod.splits)
  then show ?thesis using assms(2) by blast
qed

lemma flatten_queue_length:
  "wslay_event_flatten_queue mem q len = Some (Inr (Some buf, q', mem')) \<Longrightarrow> length buf = unat len"
  by (auto simp: wslay_event_flatten_queue_def dest!: flatten_loop_length split: if_splits prod.splits tptr.splits option.splits sum.splits)

section \<open>The rule\<close>

lemma frame_recv_pred:
  assumes recv_call: "\<And>v len fl r bs v'. P v \<Longrightarrow> recv_callback cbs len fl v = (r, bs, v') \<Longrightarrow> P v'" and "P w"
    and "wslay_frame_recv cbs fctx w = (res, fctx', w')"
  shows "P w'"
proof -
  have recv: "P (snd (snd (wslay_recv cbs c v)))" if "P v" for c v
    using recv_call that unfolding wslay_recv_def Let_def by (auto split: prod.split)
  have fill: "P (snd (snd (wslay_frame_fill cbs c v)))" if "P v" for c v
    using recv [OF that, of c] that unfolding wslay_frame_fill_def by (auto split: prod.splits option.splits)
  have block: "P (snd (snd (wslay_frame_block st p cbs c v)))" if "P v" for st p c v
    using fill [OF that, of c] that unfolding wslay_frame_block_def by (auto split: prod.splits option.splits)
  have payload: "P (snd (snd (wslay_frame_recv_payload cbs c v)))" if "P v" for c v
    using recv [OF that, of c] that unfolding wslay_frame_recv_payload_def by (auto split: prod.splits option.splits)
  have "P (snd (snd (wslay_frame_recv cbs fctx w)))"
    unfolding wslay_frame_recv_def by (simp add: case_prod_unfold block payload assms(2) split: option.split)
  then show ?thesis using assms(3) by simp
qed

text \<open>The message or the notification carries as many bytes as its length field says; a control message has a known
  opcode.\<close>

definition sound_msg :: "wslay_event_msg \<Rightarrow> bool" where
  "sound_msg arg \<longleftrightarrow> length (em_msg arg) = unat (em_msg_length arg) \<and>
     (wslay_is_ctrl_frame (em_opcode arg) \<longrightarrow> unat (em_opcode arg) < 16)"

definition sound_arg :: "wslay_event_on_msg_recv_arg \<Rightarrow> bool" where
  "sound_arg arg \<longleftrightarrow> length (case mr_msg arg of None \<Rightarrow> [] | Some ds \<Rightarrow> ds) = unat (mr_msg_length arg)"

lemma andthen_inv:
  "J (snd p) \<Longrightarrow> (\<And>c. J c \<Longrightarrow> J (snd (f c))) \<Longrightarrow> J (snd (andthen p f))"
  by (auto simp: andthen_def split: prod.split step.split)

text \<open>An application that buffers its messages, and a property of the sending side that the operations on the outbox
  and the callbacks keep.\<close>

locale event_invariant =
  fixes cbs :: "'u wslay_event_context wslay_event_callbacks"
    and J :: "'u wslay_event_context \<Rightarrow> bool"
  assumes same_view: "J ctx \<Longrightarrow> out_view ctx' = out_view ctx \<Longrightarrow> J ctx'"
    and buffering: "J ctx \<Longrightarrow> \<not> wslay_event_config_get_no_buffering ctx"
    and queue_msg: "J ctx \<Longrightarrow> sound_msg arg \<Longrightarrow> J (snd (wslay_event_queue_msg ctx arg))"
    and queue_close: "J ctx \<Longrightarrow> J (snd (wslay_event_queue_close ctx code reason))"
    and recv_call: "J ctx \<Longrightarrow> ev_recv_callback cbs len fl ctx = (r, bs, ctx') \<Longrightarrow> J ctx' \<and> ec_frame_ctx ctx' = ec_frame_ctx ctx"
    and start_call: "ev_on_frame_recv_start_callback cbs = Some f \<Longrightarrow> J ctx \<Longrightarrow> J (f a ctx)"
    and chunk_call: "ev_on_frame_recv_chunk_callback cbs = Some g \<Longrightarrow> J ctx \<Longrightarrow> J (g b ctx)"
    and end_call: "ev_on_frame_recv_end_callback cbs = Some h \<Longrightarrow> J ctx \<Longrightarrow> J (h ctx)"
    and msg_call: "ev_on_msg_recv_callback cbs = Some k \<Longrightarrow> sound_arg c \<Longrightarrow> J ctx \<Longrightarrow> J (k c ctx)"
begin

lemma upd [simp]:
  assumes "J ctx"
  shows "J (ctx\<lparr>ec_mem := m\<rparr>)" "J (ctx\<lparr>ec_imsgs := ms\<rparr>)" "J (ctx\<lparr>ec_imsg := s\<rparr>)" "J (ctx\<lparr>ec_ipayloadlen := l\<rparr>)"
    "J (ctx\<lparr>ec_ipayloadoff := l\<rparr>)" "J (ctx\<lparr>ec_error := e\<rparr>)" "J (ctx\<lparr>ec_read_enabled := b\<rparr>)" "J (ctx\<lparr>ec_status_code_recv := c\<rparr>)"
    "J (imsg_put m' ctx)" "J (ctx\<lparr>ec_close_status := ec_close_status ctx OR WSLAY_CLOSE_RECEIVED\<rparr>)"
  by (rule same_view [OF assms], simp)+

lemmas and_inv = andthen_inv [where J = J]

lemma start_inv: "J ctx \<Longrightarrow> J (wslay_event_call_on_frame_recv_start_callback cbs io ctx)"
  by (auto simp: wslay_event_call_on_frame_recv_start_callback_def start_call split: option.split)

lemma chunk_inv: "J ctx \<Longrightarrow> J (wslay_event_call_on_frame_recv_chunk_callback cbs io ctx)"
  by (auto simp: wslay_event_call_on_frame_recv_chunk_callback_def chunk_call split: option.split)

lemma end_inv: "J ctx \<Longrightarrow> J (wslay_event_call_on_frame_recv_end_callback cbs ctx)"
  by (auto simp: wslay_event_call_on_frame_recv_end_callback_def end_call split: option.split)

lemma msg_inv:
  "J ctx \<Longrightarrow> length (case msg of None \<Rightarrow> [] | Some ds \<Rightarrow> ds) = unat len \<Longrightarrow> J (call_on_msg_recv cbs msg len code ctx)"
  by (auto simp: call_on_msg_recv_def sound_arg_def msg_call split: option.split)

lemma wrapper_inv: "J ctx \<Longrightarrow> J (snd (wslay_event_queue_close_wrapper ctx code reason))"
  using queue_close [of "ctx\<lparr>ec_read_enabled := False\<rparr>" code reason]
  by (simp add: wslay_event_queue_close_wrapper_def case_prod_unfold)

lemma close_and_break_inv: "J ctx \<Longrightarrow> J (snd (close_and_break code ctx))"
  using wrapper_inv [of ctx code "[]"] by (simp add: close_and_break_def case_prod_unfold)

lemma check_header_inv: "J ctx \<Longrightarrow> J (snd (recv_check_header io ctx))"
  by (simp add: recv_check_header_def close_and_break_inv)

lemma classify_inv: "J ctx \<Longrightarrow> J (snd (snd (recv_classify io ctx)))"
  using close_and_break_inv [of ctx WSLAY_CODE_PROTOCOL_ERROR]
  by (auto simp: recv_classify_def Let_def case_prod_unfold)

lemma new_frame_inv: "J ctx \<Longrightarrow> J (snd (recv_new_frame cbs io ctx))"
proof -
  assume "J ctx"
  then have "J (wslay_event_call_on_frame_recv_start_callback cbs io (ctx\<lparr>ec_ipayloadlen := iocb_payload_length io\<rparr>))"
    by (intro start_inv) simp
  with \<open>J ctx\<close> show ?thesis
    by (auto simp: recv_new_frame_def Let_def close_and_break_inv split: sum.split prod.split)
qed

lemma utf8_inv: "J ctx \<Longrightarrow> J (snd (recv_utf8 io ctx))"
  unfolding recv_utf8_def Let_def
  by (rule andthen_inv) (auto simp: case_prod_unfold wrapper_inv)

lemma store_inv: "J ctx \<Longrightarrow> J (snd (recv_store cbs io ctx))"
  using chunk_inv [of ctx io] by (auto simp: recv_store_def Let_def split: sum.split)

lemma recv_close_inv: "J ctx \<Longrightarrow> J (snd (snd (recv_close msg ctx)))"
proof -
  assume J: "J ctx"
  have "J (snd (wslay_event_queue_close_wrapper (ctx\<lparr>ec_close_status := ec_close_status ctx OR WSLAY_CLOSE_RECEIVED,
      ec_status_code_recv := c\<rparr>) code reason))" for c code reason
    by (rule wrapper_inv) (use J in simp)
  note w = this [unfolded prod.case_eq_if]
  show ?thesis
  proof (cases msg)
    case None
    then show ?thesis using J w by (simp add: recv_close_def Let_def case_prod_unfold)
  next
    case (Some ds)
    show ?thesis
      using J w close_and_break_inv [OF J, of WSLAY_CODE_PROTOCOL_ERROR] unfolding recv_close_def Let_def Some option.case case_prod_unfold
      by (cases "2 \<le> im_msg_length (imsg_get ctx)"; cases "wslay_event_is_valid_status_code (ntohs_bytes ds)") simp_all
  qed
qed

lemma recv_ping_inv:
  assumes "J ctx" "length (case msg of None \<Rightarrow> [] | Some ds \<Rightarrow> ds) = unat (im_msg_length (imsg_get ctx))"
  shows "J (snd (snd (recv_ping msg ctx)))"
  using queue_msg [OF assms(1), of "\<lparr>em_opcode = WSLAY_PONG, em_msg = (case msg of None \<Rightarrow> [] | Some ds \<Rightarrow> ds),
      em_msg_length = im_msg_length (imsg_get ctx)\<rparr>"] assms(2)
  by (auto simp: recv_ping_def sound_msg_def case_prod_unfold)

lemma deliver_inv: "J ctx \<Longrightarrow> J (snd (recv_deliver cbs io ctx))"
proof -
  assume J: "J ctx"
  have deliver: "J (snd (case recv_dispatch msg c of (s, code, c') \<Rightarrow> andthen (s, c') (\<lambda>c'. (Go, call_on_msg_recv cbs msg len code c'))))"
    if "J c" "len = im_msg_length (imsg_get c)" "length (case msg of None \<Rightarrow> [] | Some ds \<Rightarrow> ds) = unat len" for msg len c
  proof -
    have "J (snd (snd (recv_dispatch msg c)))"
      using that by (simp add: recv_dispatch_def recv_close_inv recv_ping_inv)
    then show ?thesis by (auto simp: case_prod_unfold that(3) intro!: and_inv msg_inv)
  qed
  have b: "buffered io ctx" using buffering [OF J] by (simp add: buffered_def)
  show ?thesis
  proof (cases "wslay_event_flatten_queue (ec_mem ctx) (im_chunks (imsg_get ctx)) (im_msg_length (imsg_get ctx))")
    case None
    then show ?thesis using J b by (simp add: recv_deliver_def Let_def)
  next
    case (Some res)
    show ?thesis
    proof (cases res)
      case (Inl f)
      then show ?thesis using J b Some by (simp add: recv_deliver_def Let_def)
    next
      case (Inr p)
      obtain msg q mem where p: "p = (msg, q, mem)" by (cases p) auto
      let ?c = "imsg_put ((imsg_get ctx)\<lparr>im_chunks := q\<rparr>) (ctx\<lparr>ec_mem := mem\<rparr>)"
      have c: "J ?c" "im_msg_length (imsg_get ?c) = im_msg_length (imsg_get ctx)" using J by (auto)
      show ?thesis
      proof (cases "im_msg_length (imsg_get ctx) \<noteq> 0 \<and> msg = None")
        case True
        then show ?thesis using c(1) b Some Inr p by (auto simp: recv_deliver_def Let_def)
      next
        case False
        then have "length (case msg of None \<Rightarrow> [] | Some ds \<Rightarrow> ds) = unat (im_msg_length (imsg_get ctx))"
          using flatten_queue_length [of "ec_mem ctx" "im_chunks (imsg_get ctx)" "im_msg_length (imsg_get ctx)"] Some Inr p
          by (cases msg) auto
        note d = deliver [OF c(1) c(2) [symmetric] this]
        have "recv_deliver cbs io ctx = (case recv_dispatch msg ?c of (s, code, c') \<Rightarrow>
            andthen (s, c') (\<lambda>c'. (Go, call_on_msg_recv cbs msg (im_msg_length (imsg_get ctx)) code c')))"
          using False b Some Inr p by (auto simp: recv_deliver_def Let_def)
        then show ?thesis using d by simp
      qed
    qed
  qed
qed

lemma finish_msg_inv: "J ctx \<Longrightarrow> J (snd (recv_finish_msg cbs io ctx))"
proof -
  assume J: "J ctx"
  show ?thesis
    unfolding recv_finish_msg_def
  proof (rule and_inv)
    fix c
    assume "J c"
    then show "J (snd (case wslay_event_imsg_reset (imsg_get c) of Inl f \<Rightarrow> (Crash f, c)
        | Inr m \<Rightarrow> (let ctx2 = imsg_put m c in (Go, if ec_imsg ctx2 = Imsg1 then ctx2\<lparr>ec_imsg := Imsg0\<rparr> else ctx2))))"
      by (cases "wslay_event_imsg_reset (imsg_get c)") (simp_all add: Let_def)
  qed (simp add: J deliver_inv)
qed

lemma finish_frame_inv: "J ctx \<Longrightarrow> J (snd (recv_finish_frame cbs io ctx))"
proof -
  assume J: "J ctx"
  note e = end_inv [OF J]
  have "J (snd (andthen (if im_fin (imsg_get (wslay_event_call_on_frame_recv_end_callback cbs ctx)) \<noteq> 0
        then recv_finish_msg cbs io (wslay_event_call_on_frame_recv_end_callback cbs ctx)
        else (Go, wslay_event_call_on_frame_recv_end_callback cbs ctx))
      (\<lambda>c. (Go, c\<lparr>ec_ipayloadlen := 0, ec_ipayloadoff := 0\<rparr>))))"
    by (rule and_inv) (simp_all add: e finish_msg_inv)
  then show ?thesis using J by (simp add: recv_finish_frame_def Let_def close_and_break_inv)
qed

lemma frame_inv: "J ctx \<Longrightarrow> J (snd (recv_frame cbs io ctx))"
  unfolding recv_frame_def
  by (intro and_inv check_header_inv utf8_inv store_inv finish_frame_inv)
    (auto simp: case_prod_unfold classify_inv new_frame_inv intro!: and_inv)

lemma error_inv: "J ctx \<Longrightarrow> J (snd (recv_error e ctx))"
  by (simp add: recv_error_def case_prod_unfold wrapper_inv)

lemma step_inv:
  assumes "J ctx"
  shows "J (snd (recv_step cbs ctx))"
proof -
  obtain res fctx c where r: "wslay_frame_recv (event_frame_callbacks cbs) (ec_frame_ctx ctx) ctx = (res, fctx, c)" by (metis prod_cases3)
  have "J c \<and> ec_frame_ctx c = ec_frame_ctx ctx"
  proof (rule frame_recv_pred [OF _ _ r])
    fix v len fl ret bs v'
    assume "J v \<and> ec_frame_ctx v = ec_frame_ctx ctx" "recv_callback (event_frame_callbacks cbs) len fl v = (ret, bs, v')"
    then show "J v' \<and> ec_frame_ctx v' = ec_frame_ctx ctx"
      using recv_call [of v len fl ret bs v'] by (simp add: event_frame_callbacks_def wslay_event_frame_recv_callback_def)
  qed (use assms in simp)
  then have c: "J c" "ec_frame_ctx c = ec_frame_ctx ctx" by simp_all
  have "J (c\<lparr>ec_frame_ctx := fctx\<rparr>)"
    by (rule same_view [OF c(1)]) (simp add: frame_recv_out_part [OF r] c(2))
  then show ?thesis by (cases res) (simp_all add: recv_step_def r error_inv frame_inv Let_def)
qed

lemma recv_inv:
  assumes "wslay_event_recv cbs ctx = Some (res, c)" "J ctx"
  shows "J c"
proof -
  have "cbs = cbs \<longrightarrow> J ctx \<longrightarrow> J (snd (res, c))"
  proof (rule wslay_event_recv.raw_induct [OF _ assms(1), where P = "\<lambda>cbs' ctx res. cbs' = cbs \<longrightarrow> J ctx \<longrightarrow> J (snd res)"], intro impI)
    fix f cbs' ctx res
    assume IH: "\<And>a b r. f a b = Some r \<Longrightarrow> a = cbs \<longrightarrow> J b \<longrightarrow> J (snd r)" and c: "cbs' = cbs" "J ctx"
      and eq: "(if \<not> ec_read_enabled ctx then Some (Inr 0, ctx)
          else case recv_step cbs' ctx of (Go, ctx') \<Rightarrow> f cbs' ctx' | (Break, ctx') \<Rightarrow> Some (Inr 0, ctx')
            | (Return r, ctx') \<Rightarrow> Some (Inr r, ctx') | (Crash f, ctx') \<Rightarrow> Some (Inl f, ctx') | (Hang, ctx') \<Rightarrow> None) = Some res"
    obtain s d where d: "recv_step cbs ctx = (s, d)" by fastforce
    then have "J d" using step_inv [OF c(2)] by simp
    show "J (snd res)"
    proof (cases "ec_read_enabled ctx")
      case True
      then have "(case s of Go \<Rightarrow> f cbs d | Break \<Rightarrow> Some (Inr 0, d) | Return r \<Rightarrow> Some (Inr r, d) | Crash f \<Rightarrow> Some (Inl f, d)
          | Hang \<Rightarrow> None) = Some res" using eq [unfolded c(1)] by (simp add: d)
      with \<open>J d\<close> IH [of cbs d res] show ?thesis by (cases s) auto
    qed (use eq c in auto)
  qed
  then show ?thesis using assms(2) by simp
qed

end

end
