(* ===== verification/Wslay_Event_Wire.thy ===== *)
theory Wslay_Event_Wire
  imports Wslay_Event_Invariant
begin

text \<open>
  The bytes an endpoint has sent, at any time: whole frames of RFC 6455, then at most a part of one more, and nothing after a
  close frame. \<open>wire_ok\<close> is the invariant; queueing, closing, \<open>wslay_event_send\<close> and, through the rule of
  \<open>Wslay_Event_Invariant\<close>, \<open>wslay_event_recv\<close> keep it.
\<close>

section \<open>The invariant\<close>

definition frame_out :: "bool \<Rightarrow> ws_frame \<Rightarrow> bool" where
  "frame_out srv f \<longleftrightarrow> rfc_valid f \<and> fr_fin f \<and> fr_rsv f = 0 \<and> (fr_key f = None) = srv"

definition frames_out :: "bool \<Rightarrow> byte list \<Rightarrow> bool" where
  "frames_out srv l \<longleftrightarrow> (\<exists>fs part. l = concat (map rfc_frame fs) @ part \<and> (\<forall>f \<in> set fs. frame_out srv f) \<and>
     (\<forall>f \<in> set (butlast fs). fr_opcode f \<noteq> 8) \<and>
     (part = [] \<or> (\<exists>f. frame_out srv f \<and> prefix part (rfc_frame f)) \<and> (\<forall>f \<in> set fs. fr_opcode f \<noteq> 8)))"

definition open_frames :: "bool \<Rightarrow> ws_frame list \<Rightarrow> bool" where
  "open_frames srv fs \<longleftrightarrow> (\<forall>f \<in> set fs. frame_out srv f \<and> fr_opcode f \<noteq> 8)"

definition wire_ok :: "bool \<Rightarrow> ('u \<Rightarrow> byte list) \<Rightarrow> ('u \<Rightarrow> bool) \<Rightarrow> 'u wslay_event_context \<Rightarrow> bool" where
  "wire_ok srv wire ok ctx \<longleftrightarrow> ec_server ctx = srv \<and> \<not> wslay_event_config_get_no_buffering ctx \<and>
     (if ec_write_enabled ctx then \<exists>fs. open_frames srv fs \<and> sending wire ok (concat (map rfc_frame fs)) ctx
      else ok (ec_user_data ctx) \<and> frames_out srv (wire (ec_user_data ctx)))"

lemma frame_of_out: "frame_of srv m f \<Longrightarrow> frame_out srv f"
  by (simp add: frame_of_def frame_out_def)

lemma frame_of_close:
  assumes "frame_of srv m f" "whole_omsg m"
  shows "fr_opcode f = 8 \<longleftrightarrow> is_close m"
proof -
  have f: "fr_opcode f < 16" "of_nat (fr_opcode f) = om_opcode m AND 0xf" using assms(1) by (auto simp: frame_of_def rfc_valid_def)
  then have "unat (of_nat (fr_opcode f) :: byte) = unat (om_opcode m) mod 16" by (simp only: unat_low4)
  then have u: "fr_opcode f = unat (om_opcode m) mod 16" using f(1) by (simp add: unat_of_nat)
  show ?thesis
  proof
    assume 8: "fr_opcode f = 8"
    then have "wslay_is_ctrl_frame (om_opcode m)"
      using u ctrl_byte [of "om_opcode m"] by (simp add: ctrl_low [of "om_opcode m"])
    then have "unat (om_opcode m) = 8" using assms(2) 8 u by (simp add: whole_omsg_def)
    then show "is_close m" by (simp add: is_close_def word_unat_eq_iff)
  next
    assume "is_close m"
    then show "fr_opcode f = 8" using u by (simp add: is_close_def)
  qed
qed

lemma sending_wire:
  assumes "sending wire ok base ctx"
  shows "\<exists>part. wire (ec_user_data ctx) = base @ part \<and>
    (part = [] \<or> (\<exists>m f. frame_of (ec_server ctx) m f \<and> prefix part (rfc_frame f)))"
  using assms send_sync_prefix by (fastforce simp: sending_def split: option.splits)

lemma open_frames_butlast: "open_frames srv fs \<Longrightarrow> \<forall>f \<in> set (butlast fs). fr_opcode f \<noteq> 8"
  by (auto simp: open_frames_def dest: in_set_butlastD)

lemma wire_ok_frames: "wire_ok srv wire ok ctx \<Longrightarrow> frames_out srv (wire (ec_user_data ctx))"
proof (cases "ec_write_enabled ctx")
  case True
  assume w: "wire_ok srv wire ok ctx"
  then obtain fs where fs: "open_frames srv fs" "sending wire ok (concat (map rfc_frame fs)) ctx" "ec_server ctx = srv"
    using True by (auto simp: wire_ok_def)
  obtain part where p: "wire (ec_user_data ctx) = concat (map rfc_frame fs) @ part"
      "part = [] \<or> (\<exists>m f. frame_of srv m f \<and> prefix part (rfc_frame f))"
    using sending_wire [OF fs(2)] fs(3) by auto
  have "part = [] \<or> (\<exists>f. frame_out srv f \<and> prefix part (rfc_frame f)) \<and> (\<forall>f \<in> set fs. fr_opcode f \<noteq> 8)"
    using p(2) fs(1) frame_of_out by (auto simp: open_frames_def)
  then show ?thesis
    using p(1) open_frames_butlast [OF fs(1)] fs(1) unfolding frames_out_def
    by (intro exI [of _ fs] exI [of _ part]) (simp add: open_frames_def)
qed (simp add: wire_ok_def)

section \<open>It rests on the sending side only\<close>

lemma send_sync_view: "frame_out_part c = frame_out_part c' \<Longrightarrow> send_sync f base k c l = send_sync f base k c' l"
  by (simp add: frame_out_part_def send_sync_def at_send_header_def at_send_payload_def send_keyed_def)

lemma queued_view: "s AND NOT WSLAY_CLOSE_RECEIVED = s' AND NOT WSLAY_CLOSE_RECEIVED \<Longrightarrow> s AND WSLAY_CLOSE_QUEUED = s' AND WSLAY_CLOSE_QUEUED"
  for s s' :: byte
proof -
  have "(x AND NOT 1) AND 2 = x AND 2" for x :: byte by (rule bit_word_eqI) (auto simp: bit_simps)
  then show "s AND NOT 1 = s' AND NOT 1 \<Longrightarrow> s AND 2 = s' AND 2" by metis
qed

lemma sending_view:
  assumes "out_view ctx' = out_view ctx"
  shows "sending wire ok base ctx' = sending wire ok base ctx"
proof -
  have eqs: "ec_send_queue ctx' = ec_send_queue ctx" "ec_send_ctrl_queue ctx' = ec_send_ctrl_queue ctx" "ec_omsg ctx' = ec_omsg ctx"
    "ec_opayloadlen ctx' = ec_opayloadlen ctx" "ec_opayloadoff ctx' = ec_opayloadoff ctx" "ec_write_enabled ctx' = ec_write_enabled ctx"
    "ec_server ctx' = ec_server ctx" "ec_user_data ctx' = ec_user_data ctx"
    and fr: "frame_out_part (ec_frame_ctx ctx') = frame_out_part (ec_frame_ctx ctx)"
    and cs: "ec_close_status ctx' AND NOT WSLAY_CLOSE_RECEIVED = ec_close_status ctx AND NOT WSLAY_CLOSE_RECEIVED"
    using assms unfolding out_view_def by simp_all
  have "outbox_inv ctx' = outbox_inv ctx" "out_msgs ctx' = out_msgs ctx" "closing_ok ctx' = closing_ok ctx"
    using eqs queued_view [OF cs] by (simp_all add: outbox_inv_def out_msgs_def closing_ok_def close_queued_def)
  moreover have "send_wf (ec_frame_ctx ctx') = send_wf (ec_frame_ctx ctx)" "fc_ostate (ec_frame_ctx ctx') = fc_ostate (ec_frame_ctx ctx)"
      "fc_omask (ec_frame_ctx ctx') = fc_omask (ec_frame_ctx ctx)"
    using fr by (simp_all add: frame_out_part_def send_wf_def)
  ultimately show ?thesis unfolding sending_def eqs send_sync_view [OF fr] by (simp split: option.split)
qed

lemma wire_ok_view:
  assumes "wire_ok srv wire ok ctx" "out_view ctx' = out_view ctx"
  shows "wire_ok srv wire ok ctx'"
  using assms(1) sending_view [OF assms(2)] assms(2)
  unfolding wire_ok_def wslay_event_config_get_no_buffering_def out_view_def by auto

section \<open>Queueing keeps it\<close>

lemma outbox_only_same:
  assumes "outbox_only ctx ctx'"
  shows "ec_omsg ctx' = ec_omsg ctx" "ec_opayloadlen ctx' = ec_opayloadlen ctx" "ec_opayloadoff ctx' = ec_opayloadoff ctx"
    "ec_write_enabled ctx' = ec_write_enabled ctx" "ec_server ctx' = ec_server ctx" "ec_user_data ctx' = ec_user_data ctx"
    "ec_frame_ctx ctx' = ec_frame_ctx ctx" "ec_config ctx' = ec_config ctx"
proof -
  show "ec_omsg ctx' = ec_omsg ctx" "ec_opayloadlen ctx' = ec_opayloadlen ctx" "ec_opayloadoff ctx' = ec_opayloadoff ctx"
    "ec_write_enabled ctx' = ec_write_enabled ctx" "ec_server ctx' = ec_server ctx" "ec_user_data ctx' = ec_user_data ctx"
    "ec_frame_ctx ctx' = ec_frame_ctx ctx" "ec_config ctx' = ec_config ctx"
    using assms [unfolded outbox_only_def, THEN arg_cong, of ec_omsg] assms [unfolded outbox_only_def, THEN arg_cong, of ec_opayloadlen]
      assms [unfolded outbox_only_def, THEN arg_cong, of ec_opayloadoff] assms [unfolded outbox_only_def, THEN arg_cong, of ec_write_enabled]
      assms [unfolded outbox_only_def, THEN arg_cong, of ec_server] assms [unfolded outbox_only_def, THEN arg_cong, of ec_user_data]
      assms [unfolded outbox_only_def, THEN arg_cong, of ec_frame_ctx] assms [unfolded outbox_only_def, THEN arg_cong, of ec_config]
    by (simp_all add: sans_outbox_def)
qed

text \<open>A message more in a queue of an open outbox: the sender stays where it is.\<close>

lemma sending_put:
  assumes s: "sending wire ok base ctx" and o: "outbox_only ctx ctx'" "outbox_inv ctx'"
    and q: "set (ob_ctrl (outbox_of ctx')) \<union> set (ob_data (outbox_of ctx')) \<subseteq> insert m (out_msgs ctx)" "whole_omsg m"
    and c: "closing_ok ctx'"
  shows "sending wire ok base ctx'"
proof -
  note e = outbox_only_same [OF o(1)]
  have "out_msgs ctx' \<subseteq> insert m (out_msgs ctx)" using q(1) e(1) by (auto simp: out_msgs_def outbox_of_def)
  then have "\<forall>x \<in> out_msgs ctx'. whole_omsg x" using s q(2) by (auto simp: sending_def)
  then show ?thesis using s o(2) c unfolding sending_def e by simp
qed

lemma outbox_put_set:
  "set (ob_ctrl (outbox_put m ob)) \<union> set (ob_data (outbox_put m ob)) = insert m (set (ob_ctrl ob) \<union> set (ob_data ob))"
  by (auto simp: outbox_put_def Let_def)

lemma outbox_of_msgs: "set (ob_ctrl (outbox_of ctx)) \<union> set (ob_data (outbox_of ctx)) \<subseteq> out_msgs ctx"
  by (auto simp: outbox_of_def out_msgs_def)

lemma whole_msg_whole:
  assumes "sound_msg arg" "\<not> (wslay_is_ctrl_frame (em_opcode arg) \<and> em_msg_length arg > 125)"
  shows "whole_omsg (whole_msg arg)"
  using assms by (auto simp: sound_msg_def whole_omsg_def whole_msg_def word_less_nat_alt not_less)

lemma sending_queue_msg:
  assumes "sending wire ok base ctx" "sound_msg arg" "wslay_event_queue_msg ctx arg = (r, ctx')"
  shows "sending wire ok base ctx'"
proof -
  have inv: "outbox_inv ctx" using assms(1) by (simp add: sending_def)
  note spec = queue_msg_spec [OF inv assms(3)]
  show ?thesis
  proof (cases "\<not> ob_open (outbox_of ctx) \<or> wslay_is_ctrl_frame (em_opcode arg) \<and> em_msg_length arg > 125")
    case True
    then have "ctx' = ctx" using spec by (auto split: if_splits)
    then show ?thesis using assms(1) by simp
  next
    case False
    then have q: "queued_or_nomem (whole_msg arg) ctx r ctx'" "whole_omsg (whole_msg arg)"
      using spec whole_msg_whole [OF assms(2)] by auto
    then have o: "outbox_only ctx ctx'" "outbox_of ctx' = outbox_put (whole_msg arg) (outbox_of ctx) \<or> outbox_of ctx' = outbox_of ctx"
      by (auto simp: queued_or_nomem_def)
    have "set (ob_ctrl (outbox_of ctx')) \<union> set (ob_data (outbox_of ctx')) \<subseteq> insert (whole_msg arg) (out_msgs ctx)"
      using o(2) outbox_put_set [of "whole_msg arg" "outbox_of ctx"] outbox_of_msgs [of ctx] by auto
    moreover have "closing_ok ctx'"
    proof -
      have "\<not> close_queued ctx" using False by (simp add: outbox_of_def wslay_event_is_msg_queueable_def close_queued_def)
      then show ?thesis using spec by (simp add: closing_ok_def close_queued_def)
    qed
    ultimately show ?thesis using sending_put [OF assms(1) o(1)] spec q(2) by blast
  qed
qed

lemma close_msg_whole: "length reason \<le> 123 \<Longrightarrow> whole_omsg (whole_msg (close_msg code reason)) \<and> is_close (whole_msg (close_msg code reason))"
  using close_msg_length [of reason code]
  by (auto simp: whole_msg_def close_msg_def whole_omsg_def is_close_def Let_def unat_of_nat)

lemma sending_queue_close:
  assumes "sending wire ok base ctx" "wslay_event_queue_close ctx code reason = (r, ctx')"
  shows "sending wire ok base ctx'"
proof -
  have inv: "outbox_inv ctx" using assms(1) by (simp add: sending_def)
  note spec = queue_close_spec [OF inv assms(2)]
  let ?m = "whole_msg (close_msg code reason)"
  show ?thesis
  proof (cases "\<not> ob_open (outbox_of ctx) \<or> length reason > 123")
    case True
    then have "ctx' = ctx" using spec by (auto split: if_splits)
    then show ?thesis using assms(1) by simp
  next
    case False
    then have m: "whole_omsg ?m" "is_close ?m" and o: "outbox_only ctx ctx'" "outbox_inv ctx'"
      and q: "outbox_of ctx' = outbox_close (outbox_put ?m (outbox_of ctx)) \<or> outbox_of ctx' = outbox_of ctx"
      using spec close_msg_whole [of reason code] by (auto split: if_splits)
    have "set (ob_ctrl (outbox_of ctx')) \<union> set (ob_data (outbox_of ctx')) \<subseteq> insert ?m (out_msgs ctx)"
      using q outbox_put_set [of ?m "outbox_of ctx"] outbox_of_msgs [of ctx] by (auto simp: outbox_close_def)
    moreover have "closing_ok ctx'"
      using q
    proof
      assume "outbox_of ctx' = outbox_close (outbox_put ?m (outbox_of ctx))"
      then have "ob_ctrl (outbox_of ctx') = ob_ctrl (outbox_of ctx) @ [?m]"
        using m(2) by (simp add: outbox_close_def outbox_put_def Let_def is_close_def wslay_is_ctrl_frame_def)
      then show ?thesis using m(2) by (simp add: closing_ok_def outbox_of_def)
    next
      assume "outbox_of ctx' = outbox_of ctx"
      then have "wslay_event_is_msg_queueable ctx'" using False by (simp add: outbox_of_def)
      then show ?thesis by (simp add: closing_ok_def close_queued_def wslay_event_is_msg_queueable_def)
    qed
    ultimately show ?thesis using sending_put [OF assms(1) o] m(1) by blast
  qed
qed

lemma shut_queue: "\<not> ec_write_enabled ctx \<Longrightarrow> snd (wslay_event_queue_msg ctx arg) = ctx"
  "\<not> ec_write_enabled ctx \<Longrightarrow> snd (wslay_event_queue_close ctx code reason) = ctx"
  by (simp_all add: wslay_event_queue_msg_def wslay_event_queue_close_def wslay_event_is_msg_queueable_def)

lemma queue_msg_outbox_only: "outbox_inv ctx \<Longrightarrow> outbox_only ctx (snd (wslay_event_queue_msg ctx arg))"
  using queue_msg_spec [of ctx arg "fst (wslay_event_queue_msg ctx arg)" "snd (wslay_event_queue_msg ctx arg)"]
  by (auto simp: queued_or_nomem_def outbox_only_def split: if_splits)

lemma queue_close_outbox_only: "outbox_inv ctx \<Longrightarrow> outbox_only ctx (snd (wslay_event_queue_close ctx code reason))"
  using queue_close_spec [of ctx code reason "fst (wslay_event_queue_close ctx code reason)" "snd (wslay_event_queue_close ctx code reason)"]
  by (auto simp: outbox_only_def split: if_splits)

lemma wire_ok_queue_msg:
  assumes "wire_ok srv wire ok ctx" "sound_msg arg"
  shows "wire_ok srv wire ok (snd (wslay_event_queue_msg ctx arg))"
proof (cases "ec_write_enabled ctx")
  case True
  then obtain fs where fs: "open_frames srv fs" "sending wire ok (concat (map rfc_frame fs)) ctx" using assms(1) by (auto simp: wire_ok_def)
  then have "outbox_inv ctx" by (simp add: sending_def)
  note e = outbox_only_same [OF queue_msg_outbox_only [OF this, of arg]]
  have "sending wire ok (concat (map rfc_frame fs)) (snd (wslay_event_queue_msg ctx arg))"
    by (rule sending_queue_msg [OF fs(2) assms(2)]) (rule prod.collapse [symmetric])
  then show ?thesis
    using assms(1) fs(1) True unfolding wire_ok_def wslay_event_config_get_no_buffering_def e by auto
qed (simp add: shut_queue assms)

lemma wire_ok_queue_close:
  assumes "wire_ok srv wire ok ctx"
  shows "wire_ok srv wire ok (snd (wslay_event_queue_close ctx code reason))"
proof (cases "ec_write_enabled ctx")
  case True
  then obtain fs where fs: "open_frames srv fs" "sending wire ok (concat (map rfc_frame fs)) ctx" using assms(1) by (auto simp: wire_ok_def)
  then have "outbox_inv ctx" by (simp add: sending_def)
  note e = outbox_only_same [OF queue_close_outbox_only [OF this, of code reason]]
  have "sending wire ok (concat (map rfc_frame fs)) (snd (wslay_event_queue_close ctx code reason))"
    by (rule sending_queue_close [OF fs(2)]) (rule prod.collapse [symmetric])
  then show ?thesis
    using assms(1) fs(1) True unfolding wire_ok_def wslay_event_config_get_no_buffering_def e by auto
qed (simp add: shut_queue assms)

section \<open>Sending keeps it\<close>

lemma until_close_not_last: "until_close xs = sent @ rest \<Longrightarrow> rest \<noteq> [] \<Longrightarrow> m \<in> set sent \<Longrightarrow> \<not> is_close m"
proof (induction xs arbitrary: sent)
  case (Cons x xs)
  then show ?case by (cases sent) (auto split: if_splits)
qed simp

lemma until_close_butlast: "until_close xs = sent @ rest \<Longrightarrow> m \<in> set (butlast sent) \<Longrightarrow> \<not> is_close m"
proof (induction xs arbitrary: sent)
  case (Cons x xs)
  then show ?case by (cases sent) (auto split: if_splits)
qed simp

lemma script_whole: "sending wire ok base ctx \<Longrightarrow> m \<in> set (script ctx) \<Longrightarrow> whole_omsg m"
proof -
  have sub: "set (until_close xs) \<subseteq> set xs" for xs by (induction xs) auto
  assume s: "sending wire ok base ctx" and m: "m \<in> set (script ctx)"
  have "m \<in> out_msgs ctx"
    using subsetD [OF sub m [unfolded script_def]] by (auto simp: out_msgs_def ctrl_script_def split: option.splits if_splits)
  then show ?thesis using s by (simp add: sending_def)
qed

lemma sent_frames_open:
  assumes "list_all2 (frame_of srv) sent fs" "\<forall>m \<in> set sent. whole_omsg m"
  shows "(\<forall>f \<in> set fs. frame_out srv f) \<and> ((\<forall>m \<in> set sent. \<not> is_close m) \<longrightarrow> open_frames srv fs)"
  using assms by (induction rule: list_all2_induct) (auto simp: open_frames_def frame_of_out frame_of_close)

lemma sent_frames_last:
  assumes "list_all2 (frame_of srv) sent fs" "\<forall>m \<in> set sent. whole_omsg m" "\<forall>m \<in> set (butlast sent). \<not> is_close m"
  shows "\<forall>f \<in> set (butlast fs). fr_opcode f \<noteq> 8"
  using assms by (induction rule: list_all2_induct) (auto simp: frame_of_close list_all2_Cons1 split: if_splits)

lemma part_of_out: "part_of srv m part \<Longrightarrow> part = [] \<or> (\<exists>f. frame_out srv f \<and> prefix part (rfc_frame f))"
  by (auto simp: part_of_def frame_of_out split: if_splits)

lemma send_outcome_wire:
  assumes s: "sending wire ok (concat (map rfc_frame fs)) ctx" and fs: "open_frames (ec_server ctx) fs" "\<not> wslay_event_config_get_no_buffering ctx"
    and o: "send_outcome wire ok (concat (map rfc_frame fs)) (script ctx) ctx r c"
  shows "wire_ok (ec_server ctx) wire ok c"
proof -
  let ?srv = "ec_server ctx" and ?base = "concat (map rfc_frame fs)"
  obtain sent fs' rest where m: "script ctx = sent @ rest" "list_all2 (frame_of ?srv) sent fs'"
    and res: "let base' = ?base @ concat (map rfc_frame fs')
      in if r = 0 then
           if ec_write_enabled c then script c = rest \<and> sending wire ok base' c \<and> (\<forall>m \<in> set sent. \<not> is_close m)
           else rest = [] \<and> sent \<noteq> [] \<and> is_close (last sent) \<and> wire (ec_user_data c) = base' \<and> wslay_event_get_close_sent c
         else r = wslay_error_code WSLAY_ERR_CALLBACK_FAILURE \<and> \<not> ec_write_enabled c \<and> rest \<noteq> [] \<and>
           (\<exists>part. wire (ec_user_data c) = base' @ part \<and> part_of ?srv (hd rest) part)"
    and c: "ec_server c = ?srv" "in_view c = in_view ctx" "ok (ec_user_data c)"
    using o unfolding send_outcome_def by blast
  have cfg: "ec_config c = ec_config ctx" using c(2) unfolding in_view_def by simp
  have wh: "\<forall>m \<in> set sent. whole_omsg m" using script_whole [OF s] m(1) by simp
  have base: "?base @ concat (map rfc_frame fs') = concat (map rfc_frame (fs @ fs'))" by simp
  have out: "\<forall>f \<in> set (fs @ fs'). frame_out ?srv f" using sent_frames_open [OF m(2) wh] fs(1) by (auto simp: open_frames_def)
  have nb: "\<not> wslay_event_config_get_no_buffering c" using fs(2) cfg by (simp add: wslay_event_config_get_no_buffering_def)
  consider "r = 0" "ec_write_enabled c" | "r = 0" "\<not> ec_write_enabled c" | "r \<noteq> 0" by blast
  then show ?thesis
  proof cases
    case 1
    then have "open_frames ?srv (fs @ fs')" "sending wire ok (concat (map rfc_frame (fs @ fs'))) c"
      using res sent_frames_open [OF m(2) wh] fs(1) by (auto simp: open_frames_def)
    then show ?thesis using 1 c nb unfolding wire_ok_def by auto
  next
    case 2
    have last: "\<forall>f \<in> set (butlast (fs @ fs')). fr_opcode f \<noteq> 8"
      using sent_frames_last [OF m(2) wh] until_close_butlast [OF m(1) [unfolded script_def]] fs(1)
      by (auto simp: butlast_append open_frames_def dest: in_set_butlastD split: if_splits)
    have "wire (ec_user_data c) = concat (map rfc_frame (fs @ fs')) @ []" using 2 res by simp
    then have "frames_out ?srv (wire (ec_user_data c))" unfolding frames_out_def using out last by blast
    then show ?thesis using 2 c nb unfolding wire_ok_def by simp
  next
    case 3
    then obtain part where p: "wire (ec_user_data c) = concat (map rfc_frame (fs @ fs')) @ part" "part_of ?srv (hd rest) part" "rest \<noteq> []"
        "\<not> ec_write_enabled c"
      using res by auto
    have "\<forall>m \<in> set sent. \<not> is_close m" using until_close_not_last [OF m(1) [unfolded script_def] p(3)] by blast
    then have no: "open_frames ?srv (fs @ fs')" using sent_frames_open [OF m(2) wh] fs(1) by (auto simp: open_frames_def)
    have "frames_out ?srv (wire (ec_user_data c))"
      unfolding frames_out_def
      by (rule exI [of _ "fs @ fs'"], rule exI [of _ part], intro conjI p(1) out open_frames_butlast [OF no])
        (use part_of_out [OF p(2)] no in \<open>auto simp: open_frames_def\<close>)
    then show ?thesis using p(4) c nb unfolding wire_ok_def by simp
  qed
qed

context event_out begin

lemma wire_ok_send:
  assumes "wire_ok srv wire ok ctx" "wslay_event_send cbs ctx = Some (res, c)"
  shows "wire_ok srv wire ok c"
proof (cases "ec_write_enabled ctx")
  case True
  then obtain fs where fs: "open_frames (ec_server ctx) fs" "sending wire ok (concat (map rfc_frame fs)) ctx"
      "\<not> wslay_event_config_get_no_buffering ctx" "ec_server ctx = srv"
    using assms(1) by (auto simp: wire_ok_def)
  obtain r where "send_outcome wire ok (concat (map rfc_frame fs)) (script ctx) ctx r c"
    using send_loop [OF fs(2) refl] assms(2) by auto
  from send_outcome_wire [OF fs(2,1,3) this] show ?thesis using fs(4) by simp
next
  case False
  then have "\<not> wslay_event_want_write ctx" by (simp add: wslay_event_want_write_def)
  then have "c = ctx" using assms(2) by (subst (asm) wslay_event_send.simps) simp
  then show ?thesis using assms(1) by simp
qed

text \<open>The receiving side is not touched.\<close>

lemma wire_ok_send_view:
  assumes "wire_ok srv wire ok ctx" "wslay_event_send cbs ctx = Some (res, c)"
  shows "in_view c = in_view ctx \<and> ok (ec_user_data c)"
proof (cases "ec_write_enabled ctx")
  case True
  then obtain fs where "sending wire ok (concat (map rfc_frame fs)) ctx" using assms(1) by (auto simp: wire_ok_def)
  from send_loop [OF this refl] show ?thesis using assms(2) by (auto simp: send_outcome_def)
next
  case False
  then have "\<not> wslay_event_want_write ctx" by (simp add: wslay_event_want_write_def)
  then have "c = ctx" using assms(2) by (subst (asm) wslay_event_send.simps) simp
  then show ?thesis using assms(1) False by (simp add: wire_ok_def)
qed

lemma wire_ok_send_ends:
  assumes "wire_ok srv wire ok ctx"
  shows "\<exists>r c. wslay_event_send cbs ctx = Some (Inr r, c)"
proof (cases "ec_write_enabled ctx")
  case True
  then obtain fs where "sending wire ok (concat (map rfc_frame fs)) ctx" using assms(1) by (auto simp: wire_ok_def)
  from send_loop [OF this refl] show ?thesis by blast
next
  case False
  then show ?thesis by (subst wslay_event_send.simps) (simp add: wslay_event_want_write_def)
qed

end

end
