(* ===== verification/Wslay_Event_Termination.thy ===== *)
theory Wslay_Event_Termination
  imports Wslay_Event_App
begin

text \<open>
  \<open>wslay_event_recv\<close> ends, whatever bytes the peer sends and whatever the application does within its
  contract: every round that goes on takes a byte off the stream, and the loop over the chunks of a message
  ends on the queues the functions build.
\<close>

section \<open>Queues of chunks\<close>

definition chunks_ok :: "wslay_event_imsg \<Rightarrow> bool" where
  "chunks_ok m \<longleftrightarrow> (case im_chunks m of Live q \<Rightarrow> queue_inv q | _ \<Rightarrow> True)"

lemma chunks_ok_upd [simp]:
  "chunks_ok (m\<lparr>im_fin := x\<rparr>) = chunks_ok m" "chunks_ok (m\<lparr>im_utf8state := s\<rparr>) = chunks_ok m"
  "chunks_ok (m\<lparr>im_opcode := y\<rparr>) = chunks_ok m" "chunks_ok (wslay_event_imsg_set m fin rsv op) = chunks_ok m"
  by (simp_all add: chunks_ok_def wslay_event_imsg_set_def)

lemma reset_chunks_ok: "wslay_event_imsg_reset m = Inr m' \<Longrightarrow> chunks_ok m'"
  by (auto simp: wslay_event_imsg_reset_def Let_def chunks_ok_def split: tptr.splits)

lemma append_chunks_ok:
  assumes "wslay_event_imsg_append_chunk mem m len = Inr (r, m', mem')" "chunks_ok m"
  shows "chunks_ok m'"
  using assms
  by (auto simp: wslay_event_imsg_append_chunk_def chunks_ok_def split: if_splits prod.splits tptr.splits)
    (metis queue_inv_push snd_conv)+

lemma store_chunks_ok: "store_chunk off ds m = Inr m' \<Longrightarrow> chunks_ok m \<Longrightarrow> chunks_ok m'"
  by (auto simp: store_chunk_def chunks_ok_def split: tptr.splits option.splits if_splits)

text \<open>Flattening ends on any well-formed queue, with an empty one or a fault.\<close>

lemma flatten_loop_ends:
  assumes "queue_inv q"
  shows "\<exists>res. wslay_event_flatten_loop q buf off = Some res \<and> (\<forall>r b q'. res = Inr (r, b, q') \<longrightarrow> queue_inv q')"
  using assms
proof (induction "queue_list q" arbitrary: q buf off)
  case Nil
  then show ?case by (subst wslay_event_flatten_loop.simps) (simp add: queue_empty_iff)
next
  case (Cons c cs)
  note ql = Cons.hyps(2) [symmetric]
  define q1 where "q1 = snd (wslay_queue_pop q)"
  have q1: "queue_inv q1" "queue_list q1 = cs" "wslay_queue_pop q = (0, q1)"
    using queue_pop_Cons [OF Cons.prems(1) ql] by (auto simp: q1_def prod_eq_iff)
  define off' buf' where "off' = off + unat (chunk_data_length c)"
    and "buf' = write_at buf off (take (unat (chunk_data_length c)) (chunk_data c))"
  have "wslay_event_flatten_loop q buf off =
      (if off' > length buf then Some (Inl BufferOverflow) else wslay_event_flatten_loop q1 buf' off')"
    using Cons.prems queue_top_list [OF Cons.prems] ql q1(3)
    by (subst wslay_event_flatten_loop.simps) (simp add: queue_empty_iff off'_def buf'_def Let_def)
  then show ?case using Cons.hyps(1) [of q1 buf' off'] q1 by auto
qed

lemma flatten_queue_ends:
  assumes "case p of Live q \<Rightarrow> queue_inv q | _ \<Rightarrow> True"
  shows "\<exists>res. wslay_event_flatten_queue mem p len = Some res \<and>
    (\<forall>r p' mem'. res = Inr (r, p', mem') \<longrightarrow> (case p' of Live q \<Rightarrow> queue_inv q | _ \<Rightarrow> True))"
proof (cases p)
  case (Live q)
  then obtain res where "wslay_event_flatten_loop q (replicate (unat len) 0) 0 = Some res" "\<forall>r b q'. res = Inr (r, b, q') \<longrightarrow> queue_inv q'"
    using flatten_loop_ends [of q "replicate (unat len) 0" 0] assms by auto
  then show ?thesis using assms Live
    by (auto simp: wslay_event_flatten_queue_def split: prod.split sum.split option.split)
qed (auto simp: wslay_event_flatten_queue_def split: prod.split)

section \<open>A round keeps the receiver\<close>

definition slots_ok :: "'u wslay_event_context \<Rightarrow> bool" where
  "slots_ok ctx \<longleftrightarrow> (\<forall>s. chunks_ok (ec_imsgs ctx s))"

lemma slots_ok_put: "slots_ok ctx \<Longrightarrow> chunks_ok m \<Longrightarrow> slots_ok (imsg_put m ctx)"
  by (simp add: slots_ok_def imsg_put_def)

lemma slots_ok_get: "slots_ok ctx \<Longrightarrow> chunks_ok (imsg_get ctx)"
  by (simp add: slots_ok_def imsg_get_def)

lemma slots_ok_upd [simp]:
  "slots_ok (ctx\<lparr>ec_mem := m\<rparr>) = slots_ok ctx" "slots_ok (ctx\<lparr>ec_imsg := s\<rparr>) = slots_ok ctx"
  "slots_ok (ctx\<lparr>ec_ipayloadlen := l\<rparr>) = slots_ok ctx" "slots_ok (ctx\<lparr>ec_ipayloadoff := l\<rparr>) = slots_ok ctx"
  "slots_ok (ctx\<lparr>ec_error := e\<rparr>) = slots_ok ctx" "slots_ok (ctx\<lparr>ec_read_enabled := b\<rparr>) = slots_ok ctx"
  "slots_ok (ctx\<lparr>ec_status_code_recv := c\<rparr>) = slots_ok ctx" "slots_ok (ctx\<lparr>ec_close_status := d\<rparr>) = slots_ok ctx"
  "slots_ok (ctx\<lparr>ec_frame_ctx := f\<rparr>) = slots_ok ctx"
  by (simp_all add: slots_ok_def)

definition kept_by :: "('c \<Rightarrow> bool) \<Rightarrow> step \<times> 'c \<Rightarrow> bool" where
  "kept_by K p \<longleftrightarrow> fst p \<noteq> Hang \<and> K (snd p)"

lemma kept_by_pair [simp]: "kept_by K (s, c) \<longleftrightarrow> s \<noteq> Hang \<and> K c"
  by (simp add: kept_by_def)

lemma kept_by_andthen: "kept_by K p \<Longrightarrow> (\<And>c. K c \<Longrightarrow> kept_by K (f c)) \<Longrightarrow> kept_by K (andthen p f)"
  by (auto simp: kept_by_def andthen_def split: prod.split step.split)

text \<open>Nothing but \<open>wslay_frame_recv\<close> reads from the stream or touches the frame context.\<close>

definition unread_of where
  "unread_of stream ok F S ctx \<longleftrightarrow> slots_ok ctx \<and> ec_frame_ctx ctx = F \<and> stream (ec_user_data ctx) = S \<and> ok (ec_user_data ctx)"

definition receiver_ok :: "('u \<Rightarrow> bool) \<Rightarrow> 'u wslay_event_context \<Rightarrow> bool" where
  "receiver_ok ok ctx \<longleftrightarrow> slots_ok ctx \<and> recv_wf (ec_frame_ctx ctx) \<and> ok (ec_user_data ctx)"

definition pending :: "('u \<Rightarrow> byte list) \<Rightarrow> 'u wslay_event_context \<Rightarrow> nat" where
  "pending stream ctx = length (window (ec_frame_ctx ctx)) + length (stream (ec_user_data ctx))"

context event_peer begin

abbreviation unread :: "wslay_frame_context \<Rightarrow> byte list \<Rightarrow> 'u wslay_event_context \<Rightarrow> bool" where
  "unread \<equiv> unread_of stream ok"

lemmas unread_def = unread_of_def [where stream = stream and ok = ok]

lemma unread_cong:
  "recv_part ctx' = recv_part ctx \<Longrightarrow> quiet stream ok ctx ctx' \<Longrightarrow> unread F S ctx \<Longrightarrow> unread F S ctx'"
  by (auto simp: unread_def quiet_def slots_ok_def recv_part_def)

lemma unread_upd [simp]:
  "unread F S (ctx\<lparr>ec_mem := m\<rparr>) = unread F S ctx" "unread F S (ctx\<lparr>ec_imsg := s\<rparr>) = unread F S ctx"
  "unread F S (ctx\<lparr>ec_ipayloadlen := l\<rparr>) = unread F S ctx" "unread F S (ctx\<lparr>ec_ipayloadoff := l\<rparr>) = unread F S ctx"
  "unread F S (ctx\<lparr>ec_error := e\<rparr>) = unread F S ctx" "unread F S (ctx\<lparr>ec_read_enabled := b\<rparr>) = unread F S ctx"
  "unread F S (ctx\<lparr>ec_status_code_recv := c\<rparr>) = unread F S ctx" "unread F S (ctx\<lparr>ec_close_status := d\<rparr>) = unread F S ctx"
  by (simp_all add: unread_def)

lemma unread_put: "unread F S ctx \<Longrightarrow> chunks_ok m \<Longrightarrow> unread F S (imsg_put m ctx)"
  by (simp add: unread_def slots_ok_put)

lemma unread_get: "unread F S ctx \<Longrightarrow> chunks_ok (imsg_get ctx)"
  by (simp add: unread_def slots_ok_get)

lemma unread_wrapper: "unread F S (snd (wslay_event_queue_close_wrapper ctx code reason)) = unread F S ctx"
  using close_wrapper_keeps [of ctx code reason] by (simp add: unread_def slots_ok_def recv_part_def)

lemma unread_queue_msg: "unread F S (snd (wslay_event_queue_msg ctx arg)) = unread F S ctx"
  using queue_msg_keeps [of ctx arg] by (simp add: unread_def slots_ok_def recv_part_def)

lemma close_and_break_kept: "unread F S ctx \<Longrightarrow> kept_by (unread F S) (close_and_break code ctx)"
  by (simp add: close_and_break_def case_prod_unfold unread_wrapper)

lemma check_header_kept: "unread F S ctx \<Longrightarrow> kept_by (unread F S) (recv_check_header io ctx)"
  by (simp add: recv_check_header_def close_and_break_kept)

lemma classify_kept:
  assumes "unread F S ctx"
  shows "fst (recv_classify io ctx) \<noteq> Hang \<and> unread F S (snd (snd (recv_classify io ctx)))"
proof -
  have g: "unread F S (ctx\<lparr>ec_imsg := Imsg1\<rparr>)" using assms by simp
  note u = unread_get [OF assms] unread_get [OF g]
  show ?thesis
    using close_and_break_kept [OF assms, of WSLAY_CODE_PROTOCOL_ERROR] assms u
    by (auto simp: recv_classify_def Let_def case_prod_unfold kept_by_def unread_put)
qed

lemma start_kept: "unread F S ctx \<Longrightarrow> unread F S (wslay_event_call_on_frame_recv_start_callback cbs io ctx)"
  using start_keeps start_quiet
  by (auto simp: wslay_event_call_on_frame_recv_start_callback_def split: option.split intro: unread_cong)

lemma chunk_kept: "unread F S ctx \<Longrightarrow> unread F S (wslay_event_call_on_frame_recv_chunk_callback cbs io ctx)"
  using chunk_keeps chunk_quiet
  by (auto simp: wslay_event_call_on_frame_recv_chunk_callback_def split: option.split intro: unread_cong)

lemma end_kept: "unread F S ctx \<Longrightarrow> unread F S (wslay_event_call_on_frame_recv_end_callback cbs ctx)"
  using end_keeps end_quiet
  by (auto simp: wslay_event_call_on_frame_recv_end_callback_def split: option.split intro: unread_cong)

lemma msg_kept: "unread F S ctx \<Longrightarrow> unread F S (call_on_msg_recv cbs msg len code ctx)"
proof -
  assume u: "unread F S ctx"
  have "unread F S (k a c)" if "ev_on_msg_recv_callback cbs = Some k" "unread F S c" for k a c
    by (rule unread_cong [OF msg_keeps [OF that(1)] msg_quiet [OF that(1)] that(2)])
  with u show ?thesis by (auto simp: call_on_msg_recv_def split: option.split)
qed

lemma new_frame_kept:
  assumes "unread F S ctx"
  shows "kept_by (unread F S) (recv_new_frame cbs io ctx)"
proof -
  define c where "c = wslay_event_call_on_frame_recv_start_callback cbs io (ctx\<lparr>ec_ipayloadlen := iocb_payload_length io\<rparr>)"
  have c: "unread F S c" using assms by (simp add: c_def start_kept)
  show ?thesis
    using assms c append_chunks_ok [OF _ unread_get [OF c]]
    by (auto simp: recv_new_frame_def Let_def c_def [symmetric] close_and_break_kept unread_put split: sum.split prod.split)
qed

lemma utf8_kept: "unread F S ctx \<Longrightarrow> kept_by (unread F S) (recv_utf8 io ctx)"
  unfolding recv_utf8_def Let_def
  by (rule kept_by_andthen) (auto simp: case_prod_unfold unread_wrapper unread_put unread_get)

lemma store_kept:
  assumes "unread F S ctx"
  shows "kept_by (unread F S) (recv_store cbs io ctx)"
proof -
  have c: "unread F S (wslay_event_call_on_frame_recv_chunk_callback cbs io ctx)" using assms by (rule chunk_kept)
  show ?thesis
    using c store_chunks_ok [OF _ unread_get [OF c]] by (auto simp: recv_store_def Let_def unread_put split: sum.split)
qed

lemma dispatch_kept:
  assumes "unread F S ctx"
  shows "fst (recv_dispatch msg ctx) \<noteq> Hang \<and> unread F S (snd (snd (recv_dispatch msg ctx)))"
  using assms close_and_break_kept [OF assms, of WSLAY_CODE_PROTOCOL_ERROR]
  by (auto simp: recv_dispatch_def recv_close_def recv_ping_def Let_def case_prod_unfold unread_wrapper unread_queue_msg kept_by_def
      split: option.split)

lemma deliver_kept:
  assumes u: "unread F S ctx"
  shows "kept_by (unread F S) (recv_deliver cbs io ctx)"
proof -
  have deliver: "kept_by (unread F S) (case recv_dispatch msg c of (s, code, c') \<Rightarrow> andthen (s, c') (\<lambda>c'. (Go, call_on_msg_recv cbs msg len code c')))"
    if "unread F S c" for msg len c
    using dispatch_kept [OF that, of msg] by (auto simp: case_prod_unfold msg_kept intro!: kept_by_andthen)
  obtain res where r: "wslay_event_flatten_queue (ec_mem ctx) (im_chunks (imsg_get ctx)) (im_msg_length (imsg_get ctx)) = Some res"
      "\<And>x p' mem'. res = Inr (x, p', mem') \<Longrightarrow> (case p' of Live q \<Rightarrow> queue_inv q | _ \<Rightarrow> True)"
    using flatten_queue_ends [of "im_chunks (imsg_get ctx)"] unread_get [OF u] unfolding chunks_ok_def by metis
  have put: "unread F S (imsg_put ((imsg_get ctx)\<lparr>im_chunks := p'\<rparr>) (ctx\<lparr>ec_mem := mem'\<rparr>))" if "res = Inr (x, p', mem')" for x p' mem'
    using u r(2) [OF that] by (intro unread_put) (simp_all add: chunks_ok_def)
  show ?thesis
  proof (cases res)
    case (Inl f)
    then show ?thesis using u r(1) deliver [OF u] by (simp add: recv_deliver_def Let_def)
  next
    case (Inr p)
    obtain x q m where p: "p = (x, q, m)" by (cases p) auto
    note w = put [unfolded Inr p, OF refl]
    show ?thesis using w deliver [OF w] deliver [OF u] r(1) by (auto simp: recv_deliver_def Let_def Inr p)
  qed
qed

lemma finish_msg_kept: "unread F S ctx \<Longrightarrow> kept_by (unread F S) (recv_finish_msg cbs io ctx)"
  unfolding recv_finish_msg_def
proof (rule kept_by_andthen)
  fix c
  assume "unread F S c"
  then show "kept_by (unread F S) (case wslay_event_imsg_reset (imsg_get c) of Inl f \<Rightarrow> (Crash f, c)
      | Inr m \<Rightarrow> (let ctx2 = imsg_put m c in (Go, if ec_imsg ctx2 = Imsg1 then ctx2\<lparr>ec_imsg := Imsg0\<rparr> else ctx2)))"
    by (cases "wslay_event_imsg_reset (imsg_get c)") (simp_all add: Let_def unread_put reset_chunks_ok)
qed (simp add: deliver_kept)

lemma finish_frame_kept:
  assumes "unread F S ctx"
  shows "kept_by (unread F S) (recv_finish_frame cbs io ctx)"
proof -
  note e = end_kept [OF assms]
  have "kept_by (unread F S) (andthen (if im_fin (imsg_get (wslay_event_call_on_frame_recv_end_callback cbs ctx)) \<noteq> 0
        then recv_finish_msg cbs io (wslay_event_call_on_frame_recv_end_callback cbs ctx)
        else (Go, wslay_event_call_on_frame_recv_end_callback cbs ctx))
      (\<lambda>c. (Go, c\<lparr>ec_ipayloadlen := 0, ec_ipayloadoff := 0\<rparr>)))"
    by (rule kept_by_andthen) (simp_all add: e finish_msg_kept)
  then show ?thesis using assms by (simp add: recv_finish_frame_def Let_def close_and_break_kept)
qed

lemma frame_kept:
  assumes "unread F S ctx"
  shows "kept_by (unread F S) (recv_frame cbs io ctx)"
  unfolding recv_frame_def
proof (intro kept_by_andthen check_header_kept [OF assms] utf8_kept store_kept finish_frame_kept)
  fix c
  assume c: "unread F S c"
  show "kept_by (unread F S) (case recv_classify io c of (s, new_frame, ctx2) \<Rightarrow>
      andthen (s, ctx2) (\<lambda>ctx2. if new_frame then recv_new_frame cbs io ctx2 else (Go, ctx2)))"
    using classify_kept [OF c, of io] by (auto simp: case_prod_unfold new_frame_kept intro!: kept_by_andthen)
qed

section \<open>The loop ends\<close>

lemma recv_step_ends:
  assumes "receiver_ok ok ctx" "recv_step cbs ctx = (s, ctx')"
  shows "s \<noteq> Hang \<and> receiver_ok ok ctx' \<and> (s = Go \<longrightarrow> pending stream ctx' < pending stream ctx)"
proof -
  obtain res fctx c where r: "wslay_frame_recv (event_frame_callbacks cbs) (ec_frame_ctx ctx) ctx = (res, fctx, c)" by (metis prod_cases3)
  have wf: "recv_wf (ec_frame_ctx ctx)" "ok (ec_user_data ctx)" using assms(1) by (simp_all add: receiver_ok_def)
  have "ec_imsgs c = ec_imsgs ctx" using frame_recv_keeps [OF r] recv_part_simps(2) by blast
  then have sl: "slots_ok (c\<lparr>ec_frame_ctx := fctx\<rparr>)" using assms(1) by (simp add: receiver_ok_def slots_ok_def)
  note any = src.recv_any [OF wf r]
  show ?thesis
  proof (cases res)
    case (Inl e)
    then have "ok (ec_user_data c)" "recv_wf fctx" using any by (auto simp: src.recv_stops_def)
    then have u: "unread fctx (stream (ec_user_data c)) (c\<lparr>ec_frame_ctx := fctx\<rparr>)" using sl by (simp add: unread_def)
    have "(s, ctx') = recv_error e (c\<lparr>ec_frame_ctx := fctx\<rparr>)" using assms(2) r Inl by (simp add: recv_step_def)
    then have "s \<noteq> Hang \<and> s \<noteq> Go \<and> unread fctx (stream (ec_user_data c)) ctx'"
      using u unread_wrapper [of fctx "stream (ec_user_data c)" "c\<lparr>ec_frame_ctx := fctx\<rparr>" 0 "[]"]
      by (auto simp: recv_error_def case_prod_unfold split: if_splits)
    then show ?thesis using \<open>recv_wf fctx\<close> by (simp add: unread_def receiver_ok_def)
  next
    case (Inr io)
    then have c: "ok (ec_user_data c)" "recv_wf fctx"
        "\<exists>k. k \<noteq> [] \<and> window (ec_frame_ctx ctx) @ stream (ec_user_data ctx) = k @ window fctx @ stream (ec_user_data c)"
      using any by simp_all
    then have u: "unread fctx (stream (ec_user_data c)) (c\<lparr>ec_frame_ctx := fctx\<rparr>)" using sl by (simp add: unread_def)
    have "(s, ctx') = recv_frame cbs io (c\<lparr>ec_frame_ctx := fctx\<rparr>)" using assms(2) r Inr by (simp add: recv_step_def)
    then have k: "s \<noteq> Hang" "unread fctx (stream (ec_user_data c)) ctx'" using frame_kept [OF u, of io] by (auto simp: kept_by_def dest: sym)
    obtain k where "k \<noteq> []" "window (ec_frame_ctx ctx) @ stream (ec_user_data ctx) = k @ window fctx @ stream (ec_user_data c)" using c(3) by blast
    then have "length (window (ec_frame_ctx ctx) @ stream (ec_user_data ctx)) > length (window fctx @ stream (ec_user_data c))" by simp
    then show ?thesis using k c(2) by (simp add: unread_def receiver_ok_def pending_def)
  qed
qed

lemma recv_ends:
  assumes "receiver_ok ok ctx"
  shows "\<exists>res c. wslay_event_recv cbs ctx = Some (res, c) \<and> receiver_ok ok c"
  using assms
proof (induction "pending stream ctx" arbitrary: ctx rule: less_induct)
  case less
  obtain s c where s: "recv_step cbs ctx = (s, c)" by fastforce
  note e = recv_step_ends [OF less.prems s]
  show ?case
  proof (cases "ec_read_enabled ctx \<and> s = Go")
    case True
    then obtain res c' where "wslay_event_recv cbs c = Some (res, c')" "receiver_ok ok c'"
      using less.hyps [of c] e by auto
    then show ?thesis using True e s by (subst wslay_event_recv.simps) auto
  next
    case False
    then show ?thesis using e s less.prems
      by (subst wslay_event_recv.simps) (cases s; auto)
  qed
qed

end

end
