(* ===== verification/Wslay_Echo_Loop.thy ===== *)
theory Wslay_Echo_Loop
  imports Wslay_Event_Props Wslay_Event_Wire Wslay_Event_Termination
begin

text \<open>
  The event loop of the echo server over a connection that works both ways: the states it passes through, what is on
  the wire in each, and that no round of it hangs.
\<close>

section \<open>A connection that works both ways\<close>

locale socket_duplex = socket_send os wire ok
  for os :: "'o os_calls" and wire :: "'o \<Rightarrow> byte list" and ok :: "'o \<Rightarrow> bool" +
  assumes os_recv_keeps: "ok w \<Longrightarrow> os_recv os fd len w = (r, bs, e, w') \<Longrightarrow> ok w' \<and> wire w' = wire w"
    and os_poll_keeps: "ok w \<Longrightarrow> os_poll os fd ein eout w = (r', revents, w') \<Longrightarrow> ok w' \<and> wire w' = wire w"

abbreviation echo_wire_ok :: "('o \<Rightarrow> byte list) \<Rightarrow> ('o \<Rightarrow> bool) \<Rightarrow> 'o Session wslay_event_context \<Rightarrow> bool" where
  "echo_wire_ok wire ok \<equiv> wire_ok True (\<lambda>s. wire (se_os s)) (\<lambda>s. ok (se_os s))"

lemma wire_ok_app:
  assumes w: "wire_ok srv wire ok ctx" and a: "app_only ctx ctx'"
    and u: "ok (ec_user_data ctx) \<Longrightarrow> ok (ec_user_data ctx') \<and> wire (ec_user_data ctx') = wire (ec_user_data ctx)"
  shows "wire_ok srv wire ok ctx'"
proof -
  define v e where "v = ec_user_data ctx'" and "e = ec_error ctx'"
  have c: "ctx' = ctx\<lparr>ec_user_data := v, ec_error := e\<rparr>" using a by (simp add: app_only_def v_def e_def)
  have ok: "ok (ec_user_data ctx)" using w by (auto simp: wire_ok_def sending_def split: if_splits)
  then have u': "ok v" "wire v = wire (ec_user_data ctx)" using u by (simp_all add: v_def)
  have "sending wire ok base ctx' = sending wire ok base ctx" for base
    using u' ok
    by (simp add: c sending_def outbox_inv_def out_msgs_def closing_ok_def close_queued_def cong: option.case_cong)
  then show ?thesis
    using w u' ok by (simp add: wire_ok_def c wslay_event_config_get_no_buffering_def)
qed

lemma echo_recv_app: "echo_recv_callback os len fl ctx = (r, bs, ctx') \<Longrightarrow> app_only ctx ctx'"
  by (auto simp: echo_recv_callback_def app_only_def set_os_def wslay_event_set_error_def Let_def split: prod.splits if_splits)

sublocale socket_duplex \<subseteq> inv: event_invariant "echo_callbacks os" "echo_wire_ok wire ok"
proof
  fix ctx ctx' :: "'o Session wslay_event_context"
  show "out_view ctx' = out_view ctx \<Longrightarrow> echo_wire_ok wire ok ctx'" if "echo_wire_ok wire ok ctx"
    by (rule wire_ok_view [OF that])
  show "\<not> wslay_event_config_get_no_buffering ctx" if "echo_wire_ok wire ok ctx"
    using that by (simp add: wire_ok_def)
  fix len fl r bs
  assume w: "echo_wire_ok wire ok ctx" and "ev_recv_callback (echo_callbacks os) len fl ctx = (r, bs, ctx')"
  then have cb: "echo_recv_callback os len fl ctx = (r, bs, ctx')" by (simp add: echo_callbacks_def)
  obtain r0 e v where o: "os_recv os (se_fd (ec_user_data ctx)) len (se_os (ec_user_data ctx)) = (r0, bs, e, v)" "se_os (ec_user_data ctx') = v"
    using cb by (auto simp: echo_recv_callback_def set_os_def wslay_event_set_error_def Let_def split: prod.splits if_splits)
  have "ec_frame_ctx ctx' = ec_frame_ctx ctx" using arg_cong [OF echo_recv_app [OF cb, unfolded app_only_def], of ec_frame_ctx] by simp
  with wire_ok_app [OF w echo_recv_app [OF cb]] os_recv_keeps [OF _ o(1)] o(2)
  show "echo_wire_ok wire ok ctx' \<and> ec_frame_ctx ctx' = ec_frame_ctx ctx" by simp
next
  fix k c and ctx :: "'o Session wslay_event_context"
  assume "ev_on_msg_recv_callback (echo_callbacks os) = Some k" "sound_arg c" "echo_wire_ok wire ok ctx"
  then show "echo_wire_ok wire ok (k c ctx)"
    by (auto simp: echo_callbacks_def echo_on_msg_recv_callback_def sound_arg_def sound_msg_def intro!: wire_ok_queue_msg)
qed (auto simp: wire_ok_queue_msg wire_ok_queue_close echo_callbacks_def)

text \<open>Receiving sends nothing: what is on the wire and the message in progress stay.\<close>

definition wire_held :: "('o \<Rightarrow> byte list) \<Rightarrow> ('o \<Rightarrow> bool) \<Rightarrow> byte list \<Rightarrow> 'o Session wslay_event_context \<Rightarrow> bool" where
  "wire_held wire ok l ctx \<longleftrightarrow> echo_wire_ok wire ok ctx \<and> ec_omsg ctx = None \<and> wire (se_os (ec_user_data ctx)) = l"

lemma wire_ok_omsg:
  assumes "wire_ok srv wire ok ctx"
  shows "ec_omsg (snd (wslay_event_queue_msg ctx arg)) = ec_omsg ctx" "ec_omsg (snd (wslay_event_queue_close ctx code reason)) = ec_omsg ctx"
proof -
  have "ec_write_enabled ctx \<Longrightarrow> outbox_inv ctx" using assms by (auto simp: wire_ok_def sending_def)
  then show "ec_omsg (snd (wslay_event_queue_msg ctx arg)) = ec_omsg ctx" "ec_omsg (snd (wslay_event_queue_close ctx code reason)) = ec_omsg ctx"
    using outbox_only_same(1) [OF queue_msg_outbox_only] outbox_only_same(1) [OF queue_close_outbox_only] shut_queue by metis+
qed

sublocale socket_duplex \<subseteq> held: event_invariant "echo_callbacks os" "wire_held wire ok l"
proof
  fix ctx ctx' :: "'o Session wslay_event_context"
  show "wire_held wire ok l ctx'" if "wire_held wire ok l ctx" "out_view ctx' = out_view ctx"
  proof -
    have "ec_omsg ctx' = ec_omsg ctx" "ec_user_data ctx' = ec_user_data ctx" using that(2) unfolding out_view_def by simp_all
    then show ?thesis using that wire_ok_view [OF _ that(2)] by (simp add: wire_held_def)
  qed
  show "\<not> wslay_event_config_get_no_buffering ctx" if "wire_held wire ok l ctx"
    using that inv.buffering by (simp add: wire_held_def)
  fix len fl r bs
  assume w: "wire_held wire ok l ctx" and r: "ev_recv_callback (echo_callbacks os) len fl ctx = (r, bs, ctx')"
  then have cb: "echo_recv_callback os len fl ctx = (r, bs, ctx')" by (simp add: echo_callbacks_def)
  have ok: "ok (se_os (ec_user_data ctx))" using w by (auto simp: wire_held_def wire_ok_def sending_def split: if_splits)
  obtain r0 e v where o: "os_recv os (se_fd (ec_user_data ctx)) len (se_os (ec_user_data ctx)) = (r0, bs, e, v)" "se_os (ec_user_data ctx') = v"
    using cb by (auto simp: echo_recv_callback_def set_os_def wslay_event_set_error_def Let_def split: prod.splits if_splits)
  have "ec_omsg ctx' = ec_omsg ctx" using arg_cong [OF echo_recv_app [OF cb, unfolded app_only_def], of ec_omsg] by simp
  then show "wire_held wire ok l ctx' \<and> ec_frame_ctx ctx' = ec_frame_ctx ctx"
    using w inv.recv_call [OF _ r] os_recv_keeps [OF ok o(1)] o(2) by (simp add: wire_held_def)
next
  fix ctx :: "'o Session wslay_event_context" and arg
  assume w: "wire_held wire ok l ctx" "sound_msg arg"
  then have "echo_wire_ok wire ok ctx" by (simp add: wire_held_def)
  with w show "wire_held wire ok l (snd (wslay_event_queue_msg ctx arg))"
    by (simp add: wire_held_def wire_ok_queue_msg wire_ok_omsg [where srv = True and wire = "\<lambda>s. wire (se_os s)" and ok = "\<lambda>s. ok (se_os s)"])
next
  fix ctx :: "'o Session wslay_event_context" and code reason
  assume w: "wire_held wire ok l ctx"
  then have "echo_wire_ok wire ok ctx" by (simp add: wire_held_def)
  with w show "wire_held wire ok l (snd (wslay_event_queue_close ctx code reason))"
    by (simp add: wire_held_def wire_ok_queue_close wire_ok_omsg [where srv = True and wire = "\<lambda>s. wire (se_os s)" and ok = "\<lambda>s. ok (se_os s)"])
next
  fix k c and ctx :: "'o Session wslay_event_context"
  assume k: "ev_on_msg_recv_callback (echo_callbacks os) = Some k" "sound_arg c" and w: "wire_held wire ok l ctx"
  then have "echo_wire_ok wire ok ctx" by (simp add: wire_held_def)
  with w k inv.msg_call [OF k] show "wire_held wire ok l (k c ctx)"
    by (auto simp: wire_held_def echo_callbacks_def echo_msg_keeps echo_on_msg_recv_callback_def
        wire_ok_omsg [where srv = True and wire = "\<lambda>s. wire (se_os s)" and ok = "\<lambda>s. ok (se_os s)"])
qed (simp_all add: echo_callbacks_def)

section \<open>The states of the loop\<close>

inductive communicates :: "'o os_calls \<Rightarrow> 'o Session wslay_event_context \<Rightarrow> 'o Session wslay_event_context \<Rightarrow> bool"
  for os ctx0 where
  start: "communicates os ctx0 ctx0"
| step: "communicates os ctx0 ctx \<Longrightarrow> communicate_step os events ctx = (s, ctx') \<Longrightarrow> communicates os ctx0 ctx'"

lemma loop_communicates:
  assumes "communicate_loop os events ctx = Some (res, c)"
  shows "communicates os ctx c"
proof -
  have "os = os \<longrightarrow> communicates os ctx0 ctx \<longrightarrow> communicates os ctx0 (snd (res, c))" for ctx0
  proof (rule communicate_loop.raw_induct [OF _ assms, where P = "\<lambda>os' e x r. os' = os \<longrightarrow> communicates os ctx0 x \<longrightarrow> communicates os ctx0 (snd r)"],
      intro impI)
    fix f os' e x r
    assume IH: "\<And>o' e x r. f o' e x = Some r \<Longrightarrow> o' = os \<longrightarrow> communicates os ctx0 x \<longrightarrow> communicates os ctx0 (snd r)"
      and c: "os' = os" "communicates os ctx0 x"
      and eq: "(if wslay_event_want_read x \<or> wslay_event_want_write x
          then case communicate_step os' e x of
            (Go, ctx') \<Rightarrow> f os' (wslay_event_want_read ctx', wslay_event_want_write ctx') ctx'
          | (Break, ctx') \<Rightarrow> Some (Inr 0, ctx') | (Return r, ctx') \<Rightarrow> Some (Inr r, ctx')
          | (Crash f, ctx') \<Rightarrow> Some (Inl f, ctx') | (Hang, ctx') \<Rightarrow> None
          else Some (Inr 0, x)) = Some r"
    obtain s d where d: "communicate_step os e x = (s, d)" by fastforce
    have cd: "communicates os ctx0 d" by (rule communicates.step [OF c(2) d])
    show "communicates os ctx0 (snd r)"
    proof (cases "wslay_event_want_read x \<or> wslay_event_want_write x")
      case True
      then show ?thesis using eq [unfolded c(1)] cd IH [of os _ d r] by (cases s) (auto simp: d)
    next
      case False
      then show ?thesis using eq c(2) by auto
    qed
  qed
  then show ?thesis using communicates.start [of os ctx] by auto
qed

context socket_duplex begin

lemma set_os_wire:
  "echo_wire_ok wire ok ctx \<Longrightarrow> ok w \<and> wire w = wire (se_os (ec_user_data ctx)) \<Longrightarrow> echo_wire_ok wire ok (set_os w ctx)"
  by (rule wire_ok_app [where ctx = ctx]) (auto simp: app_only_def set_os_def)

end

section \<open>No round hangs\<close>

text \<open>Both contracts at once.\<close>

locale socket = socket_duplex os wire ok + rd: socket_os os stream ok
  for os :: "'o os_calls" and wire :: "'o \<Rightarrow> byte list" and stream :: "'o \<Rightarrow> byte list" and ok :: "'o \<Rightarrow> bool"

abbreviation echo_receiver_ok :: "('o \<Rightarrow> bool) \<Rightarrow> 'o Session wslay_event_context \<Rightarrow> bool" where
  "echo_receiver_ok ok \<equiv> receiver_ok (\<lambda>s. ok (se_os s))"

lemma recv_wf_in_part: "frame_in_part c' = frame_in_part c \<Longrightarrow> recv_wf c' = recv_wf c"
  by (simp add: frame_in_part_def recv_wf_def recv_shape_def fc_inv_def)

lemma receiver_ok_view:
  assumes "in_view ctx' = in_view ctx" "ok (ec_user_data ctx')" "receiver_ok ok ctx"
  shows "receiver_ok ok ctx'"
proof -
  have "recv_wf (ec_frame_ctx ctx') = recv_wf (ec_frame_ctx ctx)" "ec_imsgs ctx' = ec_imsgs ctx"
    using assms(1) recv_wf_in_part unfolding in_view_def by blast+
  then show ?thesis using assms(2,3) by (simp add: receiver_ok_def slots_ok_def)
qed

text \<open>The state of a session: its sending half and its receiving half are well formed.\<close>

definition session_ok :: "('o \<Rightarrow> byte list) \<Rightarrow> ('o \<Rightarrow> bool) \<Rightarrow> 'o Session wslay_event_context \<Rightarrow> bool" where
  "session_ok wire ok ctx \<longleftrightarrow> echo_wire_ok wire ok ctx \<and> echo_receiver_ok ok ctx"

lemma must_be_zero_kept:
  assumes "K ctx" "\<exists>r c. res = Some (r, c)" "\<And>r c. res = Some (r, c) \<Longrightarrow> K c"
  shows "kept_by K (must_be_zero res (Go, ctx))"
  using assms by (auto simp: must_be_zero_def split: sum.split)

lemma receiver_ok_set_os: "echo_receiver_ok ok ctx \<Longrightarrow> ok w \<Longrightarrow> echo_receiver_ok ok (set_os w ctx)"
  by (simp add: receiver_ok_def set_os_def slots_ok_def)

context socket begin

lemma session_recv:
  assumes "session_ok wire ok c"
  shows "kept_by (session_ok wire ok) (must_be_zero (wslay_event_recv (echo_callbacks os) c) (Go, c))"
proof (rule must_be_zero_kept [where K = "session_ok wire ok", OF assms])
  have k: "echo_receiver_ok ok c" "echo_wire_ok wire ok c" using assms by (simp_all add: session_ok_def)
  obtain res c' where e: "wslay_event_recv (echo_callbacks os) c = Some (res, c')" "echo_receiver_ok ok c'"
    using rd.echo.recv_ends [OF k(1)] by blast
  then show "\<exists>r c'. wslay_event_recv (echo_callbacks os) c = Some (r, c')" by blast
  show "session_ok wire ok c''" if "wslay_event_recv (echo_callbacks os) c = Some (r', c'')" for r' c''
    using that e inv.recv_inv [OF that k(2)] by (simp add: session_ok_def)
qed

lemma session_send:
  assumes "session_ok wire ok c"
  shows "kept_by (session_ok wire ok) (must_be_zero (wslay_event_send (echo_callbacks os) c) (Go, c))"
proof (rule must_be_zero_kept [where K = "session_ok wire ok", OF assms])
  have k: "echo_receiver_ok ok c" "echo_wire_ok wire ok c" using assms by (simp_all add: session_ok_def)
  show "\<exists>r c'. wslay_event_send (echo_callbacks os) c = Some (r, c')" using echo.wire_ok_send_ends [OF k(2)] by blast
  show "session_ok wire ok c''" if "wslay_event_send (echo_callbacks os) c = Some (r', c'')" for r' c''
  proof -
    have "in_view c'' = in_view c" "ok (se_os (ec_user_data c''))" using echo.wire_ok_send_view [OF k(2) that] by auto
    from receiver_ok_view [where ok = "\<lambda>s. ok (se_os s)", OF this k(1)] echo.wire_ok_send [OF k(2) that]
    show ?thesis by (simp add: session_ok_def)
  qed
qed

lemma session_step:
  assumes "session_ok wire ok ctx"
  shows "kept_by (session_ok wire ok) (communicate_step os events ctx)"
proof -
  obtain r re v where p: "os_poll os (se_fd (ec_user_data ctx)) (fst events) (snd events) (se_os (ec_user_data ctx)) = (r, re, v)"
    by (metis prod_cases3)
  have k: "echo_receiver_ok ok ctx" "echo_wire_ok wire ok ctx" using assms by (simp_all add: session_ok_def)
  have "ok (se_os (ec_user_data ctx))" using k(1) by (simp add: receiver_ok_def)
  from os_poll_keeps [OF this p] have "session_ok wire ok (set_os v ctx)"
    unfolding session_ok_def using set_os_wire [OF k(2)] receiver_ok_set_os [where ok = ok, OF k(1)] by blast
  then show ?thesis
    unfolding communicate_step_def p prod.case Let_def
    by (auto simp: session_recv session_send intro!: kept_by_andthen)
qed

lemma session_reached:
  assumes "communicates os ctx0 ctx" "session_ok wire ok ctx0"
  shows "session_ok wire ok ctx"
  using assms
proof (induction rule: communicates.induct)
  case (step ctx events s ctx')
  then show ?case using session_step [of ctx events] by (simp add: kept_by_def)
qed simp

end

text \<open>A connection of two feeds: one the peer fills, one the server fills.\<close>

definition duplex_os :: "(scripted_data_feed \<times> scripted_data_feed) os_calls" where
  "duplex_os =
     \<lparr>os_send = (\<lambda>fd ds fl (i, out). case os_send feed_os fd ds fl out of (r, e, out') \<Rightarrow> (r, e, (i, out'))),
      os_recv = (\<lambda>fd len (i, out). case os_recv feed_os fd len i of (r, bs, e, i') \<Rightarrow> (r, bs, e, (i', out))),
      os_poll = (\<lambda>fd ein eout w. (1, \<lparr>pf_in = ein, pf_out = eout, pf_err = False\<rparr>, w)), os_MSG_MORE = 0x8000\<rparr>"

definition duplex_ok :: "scripted_data_feed \<times> scripted_data_feed \<Rightarrow> bool" where
  "duplex_ok w \<longleftrightarrow> df_ok (fst w) \<and> df_ok (snd w)"

interpretation duplex: socket duplex_os "df_wire \<circ> snd" "df_stream \<circ> fst" duplex_ok
proof
  fix w fd ds fl r e w'
  assume "duplex_ok w" and os: "os_send duplex_os fd ds fl w = (r, e, w')"
  then have ok: "df_ok (snd w)" "df_ok (fst w)" and cb: "os_send feed_os fd ds fl (snd w) = (r, e, snd w')" "fst w' = fst w"
    by (auto simp: duplex_os_def duplex_ok_def split: prod.splits)
  show "duplex_ok w'" "0 < r \<Longrightarrow> nat r \<le> length ds \<and> (df_wire \<circ> snd) w' = (df_wire \<circ> snd) w @ take (nat r) ds"
    "r \<le> 0 \<Longrightarrow> (df_wire \<circ> snd) w' = (df_wire \<circ> snd) w"
    using feed_socket_out.os_ok [OF ok(1) cb(1)] feed_socket_out.os_some [OF ok(1) cb(1)] feed_socket_out.os_none [OF ok(1) cb(1)] ok cb(2)
    by (auto simp: duplex_ok_def)
next
  fix w fd len r bs e w'
  assume "duplex_ok w" and os: "os_recv duplex_os fd len w = (r, bs, e, w')"
  then have ok: "df_ok (fst w)" "df_ok (snd w)" and cb: "os_recv feed_os fd len (fst w) = (r, bs, e, fst w')" "snd w' = snd w"
    by (auto simp: duplex_os_def duplex_ok_def split: prod.splits)
  note f = feed_socket.os_ok [OF ok(1) cb(1)] feed_socket.os_bound [OF ok(1) cb(1)] feed_socket.os_some [OF ok(1) cb(1)] feed_socket.os_none [OF ok(1) cb(1)]
  show "duplex_ok w' \<and> (df_wire \<circ> snd) w' = (df_wire \<circ> snd) w" "duplex_ok w'" "length bs \<le> len \<and> r \<le> int len"
    "0 < r \<Longrightarrow> length bs = nat r \<and> (df_stream \<circ> fst) w = bs @ (df_stream \<circ> fst) w'"
    "r \<le> 0 \<Longrightarrow> (df_stream \<circ> fst) w' = (df_stream \<circ> fst) w"
    using f ok(2) cb(2) by (auto simp: duplex_ok_def)
qed (auto simp: duplex_os_def duplex_ok_def)

section \<open>The server starts well\<close>

lemma fresh_sending:
  assumes "ok (ec_user_data ctx)" "wire (ec_user_data ctx) = []" "queue_list (ec_send_queue ctx) = []" "queue_list (ec_send_ctrl_queue ctx) = []"
    "outbox_inv ctx" "ec_close_status ctx = 0" "ec_frame_ctx ctx = wslay_frame_context_init" "ec_omsg ctx = None" "ec_write_enabled ctx"
  shows "sending wire ok [] ctx"
  using assms init_send(1)
  by (simp add: sending_def out_msgs_def closing_ok_def close_queued_def) (simp add: wslay_frame_context_init_def)

lemma echo_server_wire:
  assumes "ok w" "wire w = []"
  shows "echo_wire_ok wire ok (echo_server w)"
proof -
  have "sending (\<lambda>s. wire (se_os s)) (\<lambda>s. ok (se_os s)) (concat (map rfc_frame [])) (echo_server w)"
    using assms echo_server_ready(4) [of w] by simp (rule fresh_sending, simp_all add: echo_server_simps)
  then show ?thesis
    unfolding wire_ok_def open_frames_def
    by (auto simp: echo_server_simps wslay_event_config_get_no_buffering_def intro!: exI [of _ "[]"])
qed

lemma echo_server_receiver: "ok w \<Longrightarrow> echo_receiver_ok ok (echo_server w)"
  using recv_wf_init by (auto simp: receiver_ok_def slots_ok_def chunks_ok_def echo_server_simps)

end
