(* ===== verification/Wslay_Session_Props.thy ===== *)
theory Wslay_Session_Props
  imports Wslay_Event_Props Wslay_Echo_Loop
begin

text \<open>
  What \<open>wslay_event_send\<close> guarantees, that both loops end, and what an endpoint as a whole puts on the
  wire, with instances on the echo server of \<open>examples/fork-echoserv.c\<close> over a scripted connection.
\<close>

section \<open>Sending\<close>

text \<open>C3. \<open>wslay_event_send\<close> ends, and sends in the right order. Let the messages queued be whole ones. The call returns
  after it has sent some of \<open>script\<close>: the message in progress, then the control messages (only the close frame among them once one
  is queued), then the data messages, and nothing after a close frame. What it sent is on the wire as the frames of RFC 6455, one
  after the other; the rest is queued as before, with the bytes of the message in progress that went out counted; after a close
  frame or a failure the connection is no longer writable, and after a failure part of one more frame
  is on the wire at most.\<close>

theorem wslay_event_send_sends_script:
  assumes "event_out cbs wire ok" "sending wire ok base ctx"
  shows "\<exists>r c. wslay_event_send cbs ctx = Some (Inr r, c) \<and> send_outcome wire ok base (script ctx) ctx r c"
  using event_out.send_loop [OF assms refl] .

lemma script_outbox:
  "script ctx = until_close ((case ec_omsg ctx of None \<Rightarrow> [] | Some m \<Rightarrow> [m]) @
     (if close_queued ctx then filter is_close (ob_ctrl (outbox_of ctx)) else ob_ctrl (outbox_of ctx)) @ ob_data (outbox_of ctx))"
  by (simp add: script_def ctrl_script_def outbox_of_def)

lemma open_not_closing: "ob_open (outbox_of ctx) \<Longrightarrow> ec_write_enabled ctx \<and> \<not> close_queued ctx"
  by (simp add: outbox_of_def wslay_event_is_msg_queueable_def close_queued_def)

text \<open>Queueing with memory at hand, into an open outbox.\<close>

lemma queue_msg_open:
  assumes "can_queue ctx" "\<not> (wslay_is_ctrl_frame (em_opcode arg) \<and> em_msg_length arg > 125)"
  defines "c \<equiv> snd (wslay_event_queue_msg ctx arg)"
  shows "outbox_of c = outbox_put (whole_msg arg) (outbox_of ctx)" "can_queue c" "ec_omsg c = ec_omsg ctx"
proof -
  have inv: "outbox_inv ctx" using assms(1) by (simp add: can_queue_def)
  have q: "wslay_event_queue_msg ctx arg = (fst (wslay_event_queue_msg ctx arg), c)" by (simp add: c_def)
  have s: "outbox_inv c \<and> queued_or_nomem (whole_msg arg) ctx (fst (wslay_event_queue_msg ctx arg)) c"
    using queue_msg_spec [OF inv q] assms(1,2) by (auto simp: can_queue_def)
  show o: "outbox_of c = outbox_put (whole_msg arg) (outbox_of ctx)" using s assms(1) by (auto simp: queued_or_nomem_def can_queue_def)
  show "ec_omsg c = ec_omsg ctx" using s outbox_only_same(1) by (auto simp: queued_or_nomem_def)
  have "mem_ok (ec_mem c) = mem_ok (ec_mem ctx)"
    using recv_part_simps(11) [OF queue_msg_keeps(1)] by (simp add: c_def)
  then show "can_queue c" using s assms(1) o by (simp add: can_queue_def outbox_put_def Let_def)
qed

definition two_feeds :: "nat list \<Rightarrow> nat list \<Rightarrow> scripted_data_feed \<times> scripted_data_feed" where
  "two_feeds rs ws = (hello_feed\<lparr>df_feedseq := rs\<rparr>, empty_feed ws)"

definition talking_server :: "(scripted_data_feed \<times> scripted_data_feed) Session wslay_event_context" where
  "talking_server = snd (wslay_event_queue_msg (echo_server (two_feeds [] [3, 1, 30])) (echo_msg 1 (fr_payload hello_frame)))"

lemma two_feeds_ok:
  "sum_list rs \<le> length hello_bytes \<Longrightarrow> sum_list ws \<le> 64 \<Longrightarrow> duplex_ok (two_feeds rs ws) \<and> (df_wire \<circ> snd) (two_feeds rs ws) = []"
  using hello_feed(1) empty_feed [of ws]
  by (simp add: two_feeds_def duplex_ok_def df_ok_def hello_feed_def scripted_data_feed_init_def hello_bytes_def)

lemma echo_msg_sound: "length p < 2 ^ 64 \<Longrightarrow> data_opcode op \<Longrightarrow> sound_msg (echo_msg op p)"
  by (auto simp: sound_msg_def echo_msg_def data_opcode_def wslay_is_ctrl_frame_def unat_of_nat)

theorem wslay_event_send_sends_script_witness:
  "\<exists>r c. wslay_event_send (echo_callbacks duplex_os) talking_server = Some (Inr r, c) \<and>
    send_outcome (echo_stream (df_wire \<circ> snd)) (echo_ok duplex_ok) [] [whole_msg (echo_msg 1 (fr_payload hello_frame))] talking_server r c"
proof -
  have ok: "duplex_ok (two_feeds [] [3, 1, 30])" "(df_wire \<circ> snd) (two_feeds [] [3, 1, 30]) = []" using two_feeds_ok by simp_all
  let ?c = "echo_server (two_feeds [] [3, 1, 30])"
  have s: "sending (echo_stream (df_wire \<circ> snd)) (echo_ok duplex_ok) [] ?c"
    using ok echo_server_ready(4) by (intro fresh_sending) (simp_all add: echo_server_simps)
  have q: "wslay_event_queue_msg ?c (echo_msg 1 (fr_payload hello_frame)) = (fst (wslay_event_queue_msg ?c (echo_msg 1 (fr_payload hello_frame))), talking_server)"
    by (simp add: talking_server_def)
  have s': "sending (echo_stream (df_wire \<circ> snd)) (echo_ok duplex_ok) [] talking_server"
    by (rule sending_queue_msg [OF s _ q]) (rule echo_msg_sound, simp_all add: hello_frame_def data_opcode_def)
  have "script talking_server = [whole_msg (echo_msg 1 (fr_payload hello_frame))]"
  proof -
    have c: "can_queue ?c" "ec_omsg ?c = None" "ob_ctrl (outbox_of ?c) = []" "ob_data (outbox_of ?c) = []"
      using echo_server_ready(2) by (simp_all add: echo_server_simps outbox_of_def)
    have n: "\<not> wslay_is_ctrl_frame (em_opcode (echo_msg 1 (fr_payload hello_frame)))" by (simp add: echo_msg_def wslay_is_ctrl_frame_def)
    note q = queue_msg_open [OF c(1), of "echo_msg 1 (fr_payload hello_frame)", folded talking_server_def]
    have "ob_open (outbox_of talking_server)" using q(2) n by (simp add: can_queue_def)
    then have "\<not> close_queued talking_server" using open_not_closing by blast
    then show ?thesis
      using q(1,3) n c(2-4) by (simp add: script_outbox outbox_put_def Let_def whole_msg_def is_close_def echo_msg_def)
  qed
  then show ?thesis using wslay_event_send_sends_script [OF duplex.echo_out s'] by simp
qed

text \<open>C25. Taking the next control message ends, although it loops: once a close frame is queued, the messages before it are
  dropped and the close frame is taken; otherwise it is the first message of the queue. The counters of queued messages are left
  alone, those dropped included.\<close>

theorem wslay_event_send_ctrl_queue_pop_takes:
  assumes "outbox_inv ctx" "ctrl_script ctx = m # ms"
  shows "\<exists>q. wslay_event_send_ctrl_queue_pop ctx = Some (Inr (Some m, ctx\<lparr>ec_send_ctrl_queue := q\<rparr>)) \<and> queue_inv q \<and>
    queue_list q = (if close_queued ctx then tl (dropWhile (\<lambda>m. \<not> is_close m) (queue_list (ec_send_ctrl_queue ctx))) else ms)"
  using ctrl_queue_pop_spec [OF assms] .

definition closing_talk :: "(scripted_data_feed \<times> scripted_data_feed) Session wslay_event_context" where
  "closing_talk = snd (wslay_event_queue_close (snd (wslay_event_queue_msg (echo_server (two_feeds [] [])) (pong_msg [1]))) 1000 [])"

lemma closing_talk:
  "outbox_inv closing_talk" "close_queued closing_talk"
  "queue_list (ec_send_ctrl_queue closing_talk) = [whole_msg (pong_msg [1]), whole_msg (close_msg 1000 [])]"
proof -
  let ?c0 = "echo_server (two_feeds [] [])" and ?c1 = "snd (wslay_event_queue_msg (echo_server (two_feeds [] [])) (pong_msg [1]))"
  have q: "outbox_of ?c1 = outbox_put (whole_msg (pong_msg [1])) (outbox_of ?c0)" "can_queue ?c1"
    using queue_msg_open [OF echo_server_ready(2), of "pong_msg [1]"] by (simp_all add: pong_msg_def)
  have e: "wslay_event_queue_close ?c1 1000 [] = (fst (wslay_event_queue_close ?c1 1000 []), closing_talk)" by (simp add: closing_talk_def)
  have s: "outbox_inv closing_talk" "ec_close_status closing_talk = ec_close_status ?c1 OR WSLAY_CLOSE_QUEUED"
      "outbox_of closing_talk = outbox_close (outbox_put (whole_msg (close_msg 1000 [])) (outbox_of ?c1))"
    using queue_close_spec [OF _ e] q(2) by (auto simp: can_queue_def)
  show "outbox_inv closing_talk" by (rule s(1))
  show "close_queued closing_talk" using queued_bit by (simp add: close_queued_def s(2))
  have "ob_ctrl (outbox_of closing_talk) = [whole_msg (pong_msg [1]), whole_msg (close_msg 1000 [])]"
    unfolding s(3) q(1)
    by (simp add: outbox_close_def outbox_put_def Let_def outbox_of_def echo_server_simps pong_msg_def close_msg_def whole_msg_def wslay_is_ctrl_frame_def)
  then show "queue_list (ec_send_ctrl_queue closing_talk) = [whole_msg (pong_msg [1]), whole_msg (close_msg 1000 [])]"
    by (simp add: outbox_of_def)
qed

theorem wslay_event_send_ctrl_queue_pop_takes_witness:
  "\<exists>q. wslay_event_send_ctrl_queue_pop closing_talk = Some (Inr (Some (whole_msg (close_msg 1000 [])), closing_talk\<lparr>ec_send_ctrl_queue := q\<rparr>)) \<and>
    queue_list q = []"
proof -
  have c: "is_close (whole_msg (close_msg 1000 []))" "\<not> is_close (whole_msg (pong_msg [1]))"
    by (simp_all add: is_close_def whole_msg_def close_msg_def pong_msg_def Let_def)
  have "ctrl_script closing_talk = [whole_msg (close_msg 1000 [])]" by (simp add: ctrl_script_def closing_talk c)
  from wslay_event_send_ctrl_queue_pop_takes [OF closing_talk(1) this] show ?thesis by (auto simp: closing_talk c)
qed

section \<open>Both loops end\<close>

lemma echo_server_session:
  assumes "socket os wire stream ok" "ok w" "wire w = []" "communicates os (echo_server w) ctx"
  shows "session_ok wire ok ctx"
  using socket.session_reached [OF assms(1,4)] echo_server_wire [where ok = ok and wire = wire, OF assms(2,3)]
    echo_server_receiver [where ok = ok, OF assms(2)] by (simp add: session_ok_def)


text \<open>C9. \<open>wslay_event_recv\<close> ends on every input: whatever bytes the peer sent, in whatever pieces they come, and whatever the application
  does within its contract, the call returns (or faults), the queues of chunks and the frame context stay well formed.\<close>

theorem wslay_event_recv_ends:
  assumes "event_peer cbs stream ok" "receiver_ok ok ctx"
  shows "\<exists>res c. wslay_event_recv cbs ctx = Some (res, c) \<and> receiver_ok ok c"
  using event_peer.recv_ends [OF assms] .

theorem wslay_event_recv_ends_witness:
  "\<exists>res c. wslay_event_recv (echo_callbacks feed_os) (echo_server hello_feed) = Some (res, c) \<and> receiver_ok (echo_ok df_ok) c"
  by (rule wslay_event_recv_ends [OF feed_socket.echo_peer]) (rule echo_server_receiver [where ok = df_ok, OF hello_feed(1)])

text \<open>C21. No round of the echo server's event loop hangs: in every state it reaches, both library calls return,
  \<open>wslay_event_send\<close> without a fault, and so does the round.\<close>

theorem echo_server_never_hangs:
  assumes "socket os wire stream ok" "ok w" "wire w = []" "communicates os (echo_server w) ctx"
  shows "fst (communicate_step os events ctx) \<noteq> Hang \<and> (\<exists>res c. wslay_event_recv (echo_callbacks os) ctx = Some (res, c)) \<and>
    (\<exists>r c. wslay_event_send (echo_callbacks os) ctx = Some (Inr r, c))"
proof -
  have s: "session_ok wire ok ctx" by (rule echo_server_session [OF assms])
  then have k: "echo_wire_ok wire ok ctx" "echo_receiver_ok ok ctx" by (simp_all add: session_ok_def)
  have os: "socket_os os stream ok" "socket_send os wire ok"
    using assms(1) by (simp_all add: socket_def socket_duplex_def)
  show ?thesis
    using socket.session_step [OF assms(1) s, of events] event_peer.recv_ends [OF socket_os.echo_peer [OF os(1)] k(2)]
      event_out.wire_ok_send_ends [OF socket_send.echo_out [OF os(2)] k(1)]
    unfolding kept_by_def by blast
qed

theorem echo_server_never_hangs_witness:
  "fst (communicate_step duplex_os (True, True) (echo_server (two_feeds [11] [4, 60]))) \<noteq> Hang"
proof -
  have ok: "duplex_ok (two_feeds [11] [4, 60])" "(df_wire \<circ> snd) (two_feeds [11] [4, 60]) = []"
    using two_feeds_ok [of "[11]" "[4, 60]"] by (simp_all add: hello_bytes_def)
  show ?thesis
    using echo_server_never_hangs [OF duplex.socket_axioms ok communicates.start, of "(True, True)"] by blast
qed

section \<open>What the server is, and what goes out\<close>

text \<open>C22. The type of a session, kept from its first state on: every pointer to a queue of chunks that is live points to a well-formed
  queue, the receiving half of the frame context is one of the states of the parser with its buffer in bounds, and, as long as the connection
  is writable, both queues of messages are well formed, they hold whole messages of legal size, the sending half has its buffers, and a
  connection marked as closing has its close frame ahead.\<close>

theorem echo_server_well_formed:
  assumes "socket os wire stream ok" "ok w" "wire w = []" "communicates os (echo_server w) ctx"
  shows "slots_ok ctx \<and> recv_wf (ec_frame_ctx ctx) \<and>
    (ec_write_enabled ctx \<longrightarrow> outbox_inv ctx \<and> send_wf (ec_frame_ctx ctx) \<and> (\<forall>m \<in> out_msgs ctx. whole_omsg m) \<and> closing_ok ctx)"
  using echo_server_session [OF assms] by (auto simp: session_ok_def receiver_ok_def wire_ok_def sending_def)

theorem echo_server_well_formed_witness:
  "slots_ok (snd (communicate_step duplex_os (True, False) (echo_server (two_feeds [11] []))))"
proof -
  have ok: "duplex_ok (two_feeds [11] [])" "(df_wire \<circ> snd) (two_feeds [11] []) = []"
    using two_feeds_ok [of "[11]" "[]"] by (simp_all add: hello_bytes_def)
  have "communicates duplex_os (echo_server (two_feeds [11] [])) (snd (communicate_step duplex_os (True, False) (echo_server (two_feeds [11] []))))"
    by (rule communicates.step [OF communicates.start]) (rule prod.collapse [symmetric])
  from echo_server_well_formed [OF duplex.socket_axioms ok this] show ?thesis by blast
qed

text \<open>C8. At any time in its life, whatever the peer sends and however the network cuts both streams, the echo server has put on
  the wire a sequence of whole, valid, unmasked frames of RFC 6455, then at most the beginning of one more; after a
  close frame comes nothing.\<close>

theorem echo_server_output:
  assumes "socket os wire stream ok" "ok w" "wire w = []" "communicates os (echo_server w) ctx"
  shows "frames_out True (wire (se_os (ec_user_data ctx)))"
proof -
  have "session_ok wire ok ctx" by (rule echo_server_session [OF assms])
  then show ?thesis using wire_ok_frames [of True "\<lambda>s. wire (se_os s)" "\<lambda>s. ok (se_os s)" ctx] by (simp add: session_ok_def)
qed

theorem echo_server_output_witness:
  "frames_out True ((df_wire \<circ> snd) (se_os (ec_user_data (snd (communicate_step duplex_os (True, True) (echo_server (two_feeds [11] [4, 60])))))))"
proof -
  have ok: "duplex_ok (two_feeds [11] [4, 60])" "(df_wire \<circ> snd) (two_feeds [11] [4, 60]) = []"
    using two_feeds_ok [of "[11]" "[4, 60]"] by (simp_all add: hello_bytes_def)
  have "communicates duplex_os (echo_server (two_feeds [11] [4, 60])) (snd (communicate_step duplex_os (True, True) (echo_server (two_feeds [11] [4, 60]))))"
    by (rule communicates.step [OF communicates.start]) (rule prod.collapse [symmetric])
  from echo_server_output [OF duplex.socket_axioms ok this] show ?thesis .
qed

section \<open>The whole way\<close>

lemma until_close_nonempty: "until_close xs = [] \<longleftrightarrow> xs = []"
  by (cases xs) auto

lemma sending_idle_wire: "sending wire ok base ctx \<Longrightarrow> script ctx = [] \<Longrightarrow> wire (ec_user_data ctx) = base"
  by (auto simp: sending_def script_def until_close_nonempty split: option.splits)

lemma sending_part:
  assumes "sending wire ok base ctx" "script ctx = m # ms" "frame_of (ec_server ctx) m f0"
  shows "\<exists>f part. frame_of (ec_server ctx) m f \<and> wire (ec_user_data ctx) = base @ part \<and> prefix part (rfc_frame f)"
proof (cases "ec_omsg ctx")
  case None
  then have "wire (ec_user_data ctx) = base @ []" using assms(1) by (simp add: sending_def)
  then show ?thesis using assms(3) by (intro exI [of _ f0] exI [of _ "[]"]) simp
next
  case (Some m')
  then have "m' = m" using assms(2) by (auto simp: script_def split: if_splits)
  then show ?thesis using assms(1) Some send_sync_prefix by (fastforce simp: sending_def)
qed

text \<open>What goes out of the message \<open>m\<close> when it is the only one.\<close>

lemma single_message_sent:
  assumes "event_out cbs wire ok" "sending wire ok base ctx" "script ctx = [m]" "\<not> is_close m" "\<not> too_long m" "ec_omsg ctx = None"
  shows "\<exists>r d f part. wslay_event_send cbs ctx = Some (Inr r, d) \<and> frame_of (ec_server ctx) m f \<and> wire (ec_user_data d) = base @ part \<and>
    prefix part (rfc_frame f) \<and> (r = 0 \<and> \<not> wslay_event_want_write d \<longrightarrow> part = rfc_frame f)"
proof -
  obtain r d where s: "wslay_event_send cbs ctx = Some (Inr r, d)" "send_outcome wire ok base [m] ctx r d"
    using event_out.send_loop [OF assms(1,2,3)] by blast
  then obtain sent fs rest where o: "[m] = sent @ rest" "list_all2 (frame_of (ec_server ctx)) sent fs" "in_view d = in_view ctx"
    "let base' = base @ concat (map rfc_frame fs)
      in if r = 0 then
           if ec_write_enabled d then script d = rest \<and> sending wire ok base' d \<and> (\<forall>m \<in> set sent. \<not> is_close m)
           else rest = [] \<and> sent \<noteq> [] \<and> is_close (last sent) \<and> wire (ec_user_data d) = base' \<and> wslay_event_get_close_sent d
         else r = wslay_error_code WSLAY_ERR_CALLBACK_FAILURE \<and> \<not> ec_write_enabled d \<and> rest \<noteq> [] \<and>
           (\<exists>part. wire (ec_user_data d) = base' @ part \<and> part_of (ec_server ctx) (hd rest) part)"
    unfolding send_outcome_def by blast
  have srv: "ec_server d = ec_server ctx" using o(3) unfolding in_view_def by simp
  obtain f0 where f0: "frame_of (ec_server ctx) m f0"
    using frame_of_exists [OF script_whole [OF assms(2)] assms(5)] assms(3) by auto
  consider "sent = [m]" "rest = []" | "sent = []" "rest = [m]" using o(1) by (cases sent) auto
  then show ?thesis
  proof cases
    case 1
    then obtain f where f: "fs = [f]" "frame_of (ec_server ctx) m f" using o(2) by (auto simp: list_all2_Cons1)
    have "wire (ec_user_data d) = base @ rfc_frame f"
      using o(4) 1 f(1) assms(4) sending_idle_wire [of wire ok "base @ rfc_frame f" d] by (auto split: if_splits)
    then show ?thesis using s(1) f(2) by (intro exI [of _ r] exI [of _ d] exI [of _ f] exI [of _ "rfc_frame f"]) simp
  next
    case 2
    have fs: "fs = []" using o(2) 2 by simp
    show ?thesis
    proof (cases "r = 0")
      case True
      then have d: "script d = [m]" "sending wire ok base d" using o(4) 2 fs by (auto split: if_splits)
      have w: "wslay_event_want_write d" using script_idle [OF d(2)] d(1) by auto
      obtain f part where "frame_of (ec_server ctx) m f" "wire (ec_user_data d) = base @ part" "prefix part (rfc_frame f)"
        using sending_part [OF d(2,1) f0 [folded srv]] unfolding srv by blast
      then show ?thesis using s(1) w by blast
    next
      case False
      then obtain part where "wire (ec_user_data d) = base @ part" "part_of (ec_server ctx) m part" using o(4) 2 fs by auto
      then show ?thesis using s(1) False assms(5) by (auto simp: part_of_def)
    qed
  qed
qed

context socket_duplex begin

lemma recv_sends_nothing:
  "wslay_event_recv (echo_callbacks os) ctx = Some (res, c) \<Longrightarrow> wire_held wire ok l ctx \<Longrightarrow> wire_held wire ok l c"
  by (rule held.recv_inv)

end

text \<open>The echo of a message, as it is queued.\<close>

lemma echo_msg_frame:
  assumes "data_opcode op" "length p < 2 ^ 63"
  defines "m \<equiv> whole_msg (echo_msg op p)"
  shows "\<not> is_close m" "\<not> too_long m" "\<not> wslay_is_ctrl_frame (om_opcode m)" "frame_of srv m f \<Longrightarrow> fr_opcode f = op \<and> fr_payload f = p"
proof -
  have op: "op = 1 \<or> op = 2" using assms(1) by (auto simp: data_opcode_def)
  have m: "om_opcode m = of_nat op" "om_data m = p"
    using assms(2) by (simp_all add: m_def whole_msg_def echo_msg_def unat_of_nat)
  show "\<not> is_close m" "\<not> too_long m" "\<not> wslay_is_ctrl_frame (om_opcode m)"
    using op assms(2) by (auto simp: is_close_def too_long_def m wslay_is_ctrl_frame_def)
  assume f: "frame_of srv m f"
  then have "fr_opcode f < 16" "(of_nat (fr_opcode f) :: byte) = of_nat op AND 0xf" by (auto simp: frame_of_def rfc_valid_def m)
  then have "unat (of_nat (fr_opcode f) :: byte) = unat (of_nat op AND 0xf :: byte)" by simp
  then have "fr_opcode f = op" using op \<open>fr_opcode f < 16\<close> by (auto simp: unat_of_nat)
  then show "fr_opcode f = op \<and> fr_payload f = p" using f by (simp add: frame_of_def m)
qed

text \<open>The answer of the server: both calls of a round, on a connection that carries one data message.\<close>

definition echoed :: "('o os_calls) \<Rightarrow> ('o \<Rightarrow> byte list) \<Rightarrow> nat \<Rightarrow> byte list \<Rightarrow> byte list \<Rightarrow> 'o Session wslay_event_context \<Rightarrow> bool" where
  "echoed os wire op p base c \<longleftrightarrow> (\<exists>r d f part. wslay_event_send (echo_callbacks os) c = Some (Inr r, d) \<and>
     frame_out True f \<and> fr_opcode f = op \<and> fr_payload f = p \<and> wire (se_os (ec_user_data d)) = base @ part \<and> prefix part (rfc_frame f) \<and>
     (r = 0 \<and> \<not> wslay_event_want_write d \<longrightarrow> part = rfc_frame f))"

text \<open>Once the echo is queued, alone, it is sent; with nothing queued there is nothing to send.\<close>

lemma echo_put_sends:
  assumes "socket os wire stream ok" "session_ok wire ok ctx" "data_opcode op" "length p < 2 ^ 63"
    and "can_queue ctx" "ec_omsg ctx = None" "ob_ctrl (outbox_of ctx) = []" "ob_data (outbox_of ctx) = []"
    and "wslay_event_recv (echo_callbacks os) ctx = Some (res, c)" "outbox_of c = outbox_put (whole_msg (echo_msg op p)) (outbox_of ctx)"
  shows "echoed os wire op p (wire (se_os (ec_user_data ctx))) c"
proof -
  have os: "socket_send os wire ok" "socket_duplex os wire ok" using assms(1) by (simp_all add: socket_def socket_duplex_def)
  let ?m = "whole_msg (echo_msg op p)"
  note m = echo_msg_frame [OF assms(3,4)]
  have "wire_held wire ok (wire (se_os (ec_user_data ctx))) ctx" using assms(2,6) by (simp add: wire_held_def session_ok_def)
  from socket_duplex.recv_sends_nothing [OF os(2) assms(9) this]
  have w: "echo_wire_ok wire ok c" "ec_omsg c = None" "wire (se_os (ec_user_data c)) = wire (se_os (ec_user_data ctx))"
    by (simp_all add: wire_held_def)
  have "ob_open (outbox_of c)" using assms(5,10) by (simp add: can_queue_def outbox_put_def Let_def)
  then have e: "ec_write_enabled c" "\<not> close_queued c" using open_not_closing by blast+
  have srv: "ec_server c = True" using w(1) by (simp add: wire_ok_def)
  obtain gs where "sending (echo_stream wire) (echo_ok ok) (concat (map rfc_frame gs)) c" using w(1) e(1) by (auto simp: wire_ok_def)
  then have s: "sending (echo_stream wire) (echo_ok ok) (wire (se_os (ec_user_data ctx))) c" using w(2,3) by (auto simp: sending_def)
  have sc: "script c = [?m]" using assms(7,8,10) e(2) w(2) m(1,3) by (simp add: script_outbox outbox_put_def Let_def)
  show ?thesis
    using single_message_sent [OF socket_send.echo_out [OF os(1)] s sc m(1,2) w(2)] m(4) frame_of_out [of True ?m]
    unfolding echoed_def srv by blast
qed

lemma echo_nothing_sends:
  assumes "socket os wire stream ok" "session_ok wire ok ctx" "ec_omsg ctx = None" "ob_ctrl (outbox_of ctx) = []" "ob_data (outbox_of ctx) = []"
    and "wslay_event_recv (echo_callbacks os) ctx = Some (res, c)" "outbox_of c = outbox_of ctx"
  shows "\<not> wslay_event_want_write c"
proof -
  have os: "socket_duplex os wire ok" using assms(1) by (simp add: socket_def)
  have "wire_held wire ok (wire (se_os (ec_user_data ctx))) ctx" using assms(2,3) by (simp add: wire_held_def session_ok_def)
  from socket_duplex.recv_sends_nothing [OF os assms(6) this] have w: "echo_wire_ok wire ok c" "ec_omsg c = None" by (simp_all add: wire_held_def)
  have sc: "script c = []" using assms(4,5,7) w(2) by (simp add: script_outbox)
  show ?thesis
  proof (cases "ec_write_enabled c")
    case True
    then obtain base where "sending (echo_stream wire) (echo_ok ok) base c" using w(1) by (auto simp: wire_ok_def)
    from script_busy [OF this] sc show ?thesis by auto
  qed (simp add: wslay_event_want_write_def)
qed



end
