(* ===== verification/Wslay_Event_Fragments.thy ===== *)
theory Wslay_Event_Fragments
  imports Wslay_Event_Sending Wslay_Event_Message
begin

text \<open>
  \<open>wslay_event_send\<close> on a fragmented message: it reads the message from the application's source, a buffer at a time, and
  sends each buffer as one frame, the first with the opcode of the message, the next as continuations, the last with the FIN
  bit. \<open>fragmenting\<close> says where in that the sender is, and \<open>unsent\<close> what is still to come.
\<close>

section \<open>The interface of the source\<close>

text \<open>What \<open>event.h\<close> asks of a read callback: it stores at most \<open>len\<close> bytes, the next ones of its source, and returns how many;
  it sends nothing. \<open>src\<close> is what the source still holds.\<close>

locale event_feed = event_out cbs wire ok
  for cbs :: "'u wslay_event_context wslay_event_callbacks" and wire :: "'u \<Rightarrow> byte list" and ok :: "'u \<Rightarrow> bool" +
  fixes src :: "'u \<Rightarrow> byte list"
  assumes read_keeps: "ev_read_callback cbs cb len s ctx = (r, bs, eof, ctx') \<Longrightarrow> app_only ctx ctx'"
    and read_quiet: "ok (ec_user_data ctx) \<Longrightarrow> ev_read_callback cbs cb len s ctx = (r, bs, eof, ctx') \<Longrightarrow>
          ok (ec_user_data ctx') \<and> wire (ec_user_data ctx') = wire (ec_user_data ctx)"
    and read_some: "ok (ec_user_data ctx) \<Longrightarrow> ev_read_callback cbs cb len s ctx = (r, bs, eof, ctx') \<Longrightarrow> 0 < r \<Longrightarrow>
          length bs = nat r \<and> nat r \<le> len \<and> src (ec_user_data ctx) = bs @ src (ec_user_data ctx')"
    and read_eof: "ok (ec_user_data ctx) \<Longrightarrow> ev_read_callback cbs cb len s ctx = (r, bs, eof, ctx') \<Longrightarrow> 0 < r \<Longrightarrow> eof \<Longrightarrow>
          src (ec_user_data ctx') = []"
    and read_none: "ok (ec_user_data ctx) \<Longrightarrow> ev_read_callback cbs cb len s ctx = (r, bs, eof, ctx') \<Longrightarrow> r \<le> 0 \<Longrightarrow>
          src (ec_user_data ctx') = src (ec_user_data ctx)"
    and send_keeps_src: "ok (ec_user_data ctx) \<Longrightarrow> ev_send_callback cbs ds fl u ctx = (r', ctx') \<Longrightarrow>
          src (ec_user_data ctx') = src (ec_user_data ctx)"
    and mask_keeps_src: "ok (ec_user_data ctx) \<Longrightarrow> ev_genmask_callback cbs 4 ctx = (r'', key, ctx') \<Longrightarrow>
          src (ec_user_data ctx') = src (ec_user_data ctx)"

section \<open>Where the sender is\<close>

text \<open>The frame of one buffer.\<close>

definition frag_frame :: "bool \<Rightarrow> wslay_event_omsg \<Rightarrow> byte list \<Rightarrow> ws_frame \<Rightarrow> bool" where
  "frag_frame srv m p f \<longleftrightarrow> rfc_valid f \<and> fr_fin f = (om_fin m \<noteq> 0) \<and> fr_rsv f = 0 \<and> of_nat (fr_opcode f) = om_opcode m AND 0xf \<and>
     (fr_key f = None) = srv \<and> fr_payload f = p"

definition frag_msg :: "wslay_event_omsg \<Rightarrow> bool" where
  "frag_msg m \<longleftrightarrow> om_type m = WSLAY_FRAGMENTED \<and> om_read_callback m \<noteq> None \<and> om_fin m \<in> {0, 1} \<and> \<not> wslay_is_ctrl_frame (om_opcode m)"

definition obuf_data :: "'u wslay_event_context \<Rightarrow> byte list" where
  "obuf_data ctx = take (ec_obuflimit ctx) (ec_obuf ctx)"

definition fragmenting ::
    "('u \<Rightarrow> byte list) \<Rightarrow> ('u \<Rightarrow> bool) \<Rightarrow> ('u \<Rightarrow> byte list) \<Rightarrow> byte list \<Rightarrow> wslay_event_omsg \<Rightarrow> 'u wslay_event_context \<Rightarrow> bool" where
  "fragmenting wire ok src base m ctx \<longleftrightarrow> ok (ec_user_data ctx) \<and> send_wf (ec_frame_ctx ctx) \<and> ec_omsg ctx = Some m \<and> frag_msg m \<and>
     ec_write_enabled ctx \<and> (om_fin m \<noteq> 0 \<longrightarrow> src (ec_user_data ctx) = []) \<and>
     (if ec_obuflimit ctx = 0 then
        ec_obufmark ctx = 0 \<and> om_fin m = 0 \<and> fc_ostate (ec_frame_ctx ctx) = PREP_HEADER \<and>
        (ec_server ctx \<longrightarrow> fc_omask (ec_frame_ctx ctx) = 0) \<and> wire (ec_user_data ctx) = base
      else \<exists>f. frag_frame (ec_server ctx) m (obuf_data ctx) f \<and> length (obuf_data ctx) = ec_obuflimit ctx \<and>
        ec_obuflimit ctx \<le> OBUF_SIZE \<and> ec_obufmark ctx < ec_obuflimit ctx \<and> ec_opayloadlen ctx = of_nat (ec_obuflimit ctx) \<and>
        send_sync f base (ec_obufmark ctx) (ec_frame_ctx ctx) (wire (ec_user_data ctx)))"

definition unsent :: "('u \<Rightarrow> byte list) \<Rightarrow> 'u wslay_event_context \<Rightarrow> byte list" where
  "unsent src ctx = obuf_data ctx @ src (ec_user_data ctx)"

text \<open>A buffer is filled and its frame not yet begun, or begun.\<close>

definition loaded ::
    "('u \<Rightarrow> byte list) \<Rightarrow> ('u \<Rightarrow> bool) \<Rightarrow> ('u \<Rightarrow> byte list) \<Rightarrow> byte list \<Rightarrow> wslay_event_omsg \<Rightarrow> 'u wslay_event_context \<Rightarrow> bool" where
  "loaded wire ok src base m ctx \<longleftrightarrow> ok (ec_user_data ctx) \<and> send_wf (ec_frame_ctx ctx) \<and> ec_omsg ctx = Some m \<and> frag_msg m \<and>
     ec_write_enabled ctx \<and> (om_fin m \<noteq> 0 \<longrightarrow> src (ec_user_data ctx) = []) \<and> length (obuf_data ctx) = ec_obuflimit ctx \<and> ec_obuflimit ctx \<le> OBUF_SIZE \<and>
     ec_obufmark ctx < ec_obuflimit ctx \<and> ec_opayloadlen ctx = of_nat (ec_obuflimit ctx) \<and>
     (\<exists>f. frag_frame (ec_server ctx) m (obuf_data ctx) f \<and>
        (send_sync f base (ec_obufmark ctx) (ec_frame_ctx ctx) (wire (ec_user_data ctx)) \<or>
         ec_obufmark ctx = 0 \<and> send_ready f (ec_frame_ctx ctx) \<and> wire (ec_user_data ctx) = base))"

lemma frag_frame_exists:
  assumes "frag_msg m" "length p \<le> OBUF_SIZE"
  shows "\<exists>f. frag_frame srv m p f"
proof -
  have "wslay_is_ctrl_frame (om_opcode m)" if "8 \<le> unat (om_opcode m) mod 16"
    using that ctrl_byte [of "om_opcode m"] by (simp add: ctrl_low [of "om_opcode m"])
  moreover have "of_nat (unat (om_opcode m) mod 16) = om_opcode m AND 0xf" by (simp flip: unat_low4)
  ultimately show ?thesis
    using assms
    by (intro exI [of _ "\<lparr>fr_fin = (om_fin m \<noteq> 0), fr_rsv = 0, fr_opcode = unat (om_opcode m) mod 16, fr_key = (if srv then None else Some (replicate 4 0)), fr_payload = p\<rparr>"])
      (auto simp: frag_msg_def frag_frame_def rfc_valid_def)
qed

lemma frag_frame_rekeyed: "frag_frame srv m p f \<Longrightarrow> rekeyed f f' \<Longrightarrow> frag_frame srv m p f'"
  by (auto simp: frag_frame_def rekeyed_same) (auto simp: rekeyed_def)

lemma frag_frame_same: "om_fin m' = om_fin m \<Longrightarrow> om_opcode m' = om_opcode m \<Longrightarrow> frag_frame srv m' p f = frag_frame srv m p f"
  by (simp add: frag_frame_def)

section \<open>One buffer\<close>

lemma frame_send_pred:
  assumes send: "\<And>v ds fl u r v'. P v \<Longrightarrow> send_callback cbs ds fl u v = (r, v') \<Longrightarrow> P v'"
    and mask: "\<And>v r key v'. P v \<Longrightarrow> genmask_callback cbs 4 v = (r, key, v') \<Longrightarrow> P v'" and "P w"
    and "wslay_frame_send cbs fctx io w = (res, fctx', w')"
  shows "P w'"
proof -
  have masked: "P (snd (snd (wslay_frame_send_masked cbs c ds t v)))" if "P v" for c ds t v
    using that
  proof (induction "length ds" arbitrary: c ds t v rule: less_induct)
    case less
    then show ?case
      using send by (subst wslay_frame_send_masked.simps) (auto simp: Let_def split: prod.split)
  qed
  have prep: "P (snd (snd (wslay_frame_prep_header cbs c io v)))" if "P v" for c v
    using mask that unfolding wslay_frame_prep_header_def Let_def by (auto split: prod.split option.split)
  have header: "P (snd (snd (wslay_frame_send_header cbs c io v)))" if "P v" for c v
    using send that unfolding wslay_frame_send_header_def Let_def by (auto split: prod.split)
  have data: "P (snd (snd (wslay_frame_send_data cbs c io v)))" if "P v" for c v
    using send masked that unfolding wslay_frame_send_data_def Let_def by (auto split: prod.split)
  have payload: "P (snd (snd (wslay_frame_send_payload cbs c io v)))" if "P v" for c v
    using data [OF that, of c] unfolding wslay_frame_send_payload_def by (auto split: prod.splits sum.splits)
  have "P (snd (snd (wslay_frame_send cbs fctx io w)))"
    unfolding wslay_frame_send_def by (simp add: case_prod_unfold prep header payload assms(3) split: option.split)
  then show ?thesis using assms(4) by simp
qed

definition frag_io :: "'u wslay_event_context \<Rightarrow> wslay_event_omsg \<Rightarrow> wslay_frame_iocb" where
  "frag_io ctx m = \<lparr>iocb_fin = om_fin m, iocb_rsv = 0, iocb_opcode = om_opcode m, iocb_payload_length = ec_opayloadlen ctx,
     iocb_mask = (\<not> ec_server ctx), iocb_data = arr_slice (ec_obuf ctx) (ec_obufmark ctx) (ec_obuflimit ctx),
     iocb_data_length = of_nat (ec_obuflimit ctx - ec_obufmark ctx)\<rparr>"

lemma frag_io_carries:
  assumes "loaded wire ok src base m ctx" "frag_frame (ec_server ctx) m (obuf_data ctx) f"
  shows "iocb_carries f (ec_obufmark ctx) (frag_io ctx m)" "unat (iocb_data_length (frag_io ctx m)) = ec_obuflimit ctx - ec_obufmark ctx"
proof -
  have l: "length (obuf_data ctx) = ec_obuflimit ctx" "ec_obuflimit ctx \<le> OBUF_SIZE" "ec_obufmark ctx < ec_obuflimit ctx"
      "ec_opayloadlen ctx = of_nat (ec_obuflimit ctx)" "om_fin m \<in> {0, 1}"
    using assms(1) by (auto simp: loaded_def frag_msg_def)
  show u: "unat (iocb_data_length (frag_io ctx m)) = ec_obuflimit ctx - ec_obufmark ctx"
    using l(2) by (simp add: frag_io_def unat_of_nat)
  have sl: "arr_slice (ec_obuf ctx) (ec_obufmark ctx) (ec_obuflimit ctx) = drop (ec_obufmark ctx) (obuf_data ctx)"
    by (simp add: arr_slice_def obuf_data_def drop_take)
  show "iocb_carries f (ec_obufmark ctx) (frag_io ctx m)"
    unfolding iocb_carries_def u using assms(2) l by (auto simp: frag_frame_def frag_io_def sl)
qed

text \<open>What a round leaves: the frame is out, or the sender waits, or the connection failed.\<close>

definition frag_round where
  "frag_round wire ok src base m ctx r c \<longleftrightarrow> ec_server c = ec_server ctx \<and> in_view c = in_view ctx \<and> ok (ec_user_data c) \<and>
     ec_send_queue c = ec_send_queue ctx \<and> ec_send_ctrl_queue c = ec_send_ctrl_queue ctx \<and>
     ((\<exists>f p. r = (Go, c) \<and> p \<noteq> [] \<and> frag_frame (ec_server ctx) m p f \<and> wire (ec_user_data c) = base @ rfc_frame f \<and>
         unsent src ctx = p @ unsent src c \<and> obuf_data c = [] \<and>
         (if om_fin m \<noteq> 0 then ec_omsg c = None \<and> unsent src c = [] \<and> ec_write_enabled c \<and> ec_queued_msg_count c = ec_queued_msg_count ctx - 1
          else ec_queued_msg_count c = ec_queued_msg_count ctx \<and>
            fragmenting wire ok src (base @ rfc_frame f) (m\<lparr>om_opcode := WSLAY_CONTINUATION_FRAME\<rparr>) c)) \<or>
      r = (Break, c) \<and> fragmenting wire ok src base m c \<and> unsent src ctx = unsent src c \<and> ec_queued_msg_count c = ec_queued_msg_count ctx \<or>
      r = (Return (wslay_error_code WSLAY_ERR_CALLBACK_FAILURE), c) \<and> \<not> ec_write_enabled c \<and> ec_omsg c \<noteq> None \<and>
        unsent src ctx = unsent src c \<and> ec_queued_msg_count c = ec_queued_msg_count ctx \<and>
      (\<exists>part. wire (ec_user_data c) = base @ part \<and> (part = [] \<or> (\<exists>f p. frag_frame (ec_server ctx) m p f \<and> prefix part (rfc_frame f)))))"

context event_feed begin

lemma frame_send_keeps_src:
  assumes "ok (ec_user_data ctx)" "wslay_frame_send (event_frame_callbacks cbs) fctx io ctx = (res, fctx', ctx')"
  shows "src (ec_user_data ctx') = src (ec_user_data ctx)"
proof -
  have "ok (ec_user_data ctx') \<and> src (ec_user_data ctx') = src (ec_user_data ctx)"
  proof (rule frame_send_pred [OF _ _ _ assms(2)])
    fix v ds fl u r v'
    assume P: "ok (ec_user_data v) \<and> src (ec_user_data v) = src (ec_user_data ctx)"
      and c: "send_callback (event_frame_callbacks cbs) ds fl u v = (r, v')"
    show "ok (ec_user_data v') \<and> src (ec_user_data v') = src (ec_user_data ctx)"
      using snk.send_ok [OF conjunct1 [OF P] c] send_keeps_src [OF conjunct1 [OF P], of ds fl u r v'] P c
      by (simp add: event_frame_callbacks_def wslay_event_frame_send_callback_def)
  next
    fix v r key v'
    assume P: "ok (ec_user_data v) \<and> src (ec_user_data v) = src (ec_user_data ctx)"
      and c: "genmask_callback (event_frame_callbacks cbs) 4 v = (r, key, v')"
    show "ok (ec_user_data v') \<and> src (ec_user_data v') = src (ec_user_data ctx)"
      using snk.mask_ok [OF conjunct1 [OF P] c] mask_keeps_src [OF conjunct1 [OF P], of r key v'] P c
      by (simp add: event_frame_callbacks_def wslay_event_frame_genmask_callback_def)
  qed (use assms(1) in simp)
  then show ?thesis by blast
qed

text \<open>What the frame layer makes of the buffer.\<close>

lemma fragment_sent:
  assumes l: "loaded wire ok src base m ctx"
    and fs: "wslay_frame_send (event_frame_callbacks cbs) (ec_frame_ctx ctx) (frag_io ctx m) ctx = (res, fctx, c)"
  shows "ok (ec_user_data c) \<and> (\<exists>f. frag_frame (ec_server ctx) m (obuf_data ctx) f \<and>
    (send_result f base (ec_obufmark ctx) (frag_io ctx m) res fctx (wire (ec_user_data c)) \<or>
     res = Inl WSLAY_ERR_INVALID_CALLBACK \<and> wire (ec_user_data c) = base))"
proof -
  let ?k = "ec_obufmark ctx"
  have k: "ok (ec_user_data ctx)" "send_wf (ec_frame_ctx ctx)" using l by (simp_all add: loaded_def)
  obtain f where f: "frag_frame (ec_server ctx) m (obuf_data ctx) f"
      "send_sync f base ?k (ec_frame_ctx ctx) (wire (ec_user_data ctx)) \<or>
       ?k = 0 \<and> send_ready f (ec_frame_ctx ctx) \<and> wire (ec_user_data ctx) = base"
    using l by (auto simp: loaded_def)
  note io = frag_io_carries(1) [OF l f(1)]
  have v: "rfc_valid f" using f(1) by (simp add: frag_frame_def)
  from f(2) show ?thesis
  proof
    assume "send_sync f base ?k (ec_frame_ctx ctx) (wire (ec_user_data ctx))"
    from snk.send_continues [OF v io k this fs] show ?thesis using f(1) by blast
  next
    assume r: "?k = 0 \<and> send_ready f (ec_frame_ctx ctx) \<and> wire (ec_user_data ctx) = base"
    have k0: "?k = 0" and rd: "send_ready f (ec_frame_ctx ctx)" and w: "wire (ec_user_data ctx) = base" using r by auto
    from snk.send_starts [OF v io [unfolded k0] k rd fs] show ?thesis
      unfolding w k0 using frag_frame_rekeyed [OF f(1)] f(1) by blast
  qed
qed

lemma send_fragment_round:
  assumes l: "loaded wire ok src base m ctx"
  shows "\<exists>c. frag_round wire ok src base m ctx (send_fragment cbs m ctx) c"
proof -
  obtain res fctx c0 where fs: "wslay_frame_send (event_frame_callbacks cbs) (ec_frame_ctx ctx) (frag_io ctx m) ctx = (res, fctx, c0)"
    by (metis prod_cases3)
  let ?k = "ec_obufmark ctx" and ?n = "ec_obuflimit ctx" and ?p = "obuf_data ctx"
  have k: "?k < ?n" "length ?p = ?n" "?n \<le> OBUF_SIZE" "ok (ec_user_data ctx)" "send_wf (ec_frame_ctx ctx)" "ec_omsg ctx = Some m" "frag_msg m"
      "ec_opayloadlen ctx = of_nat ?n" "ec_write_enabled ctx" "om_fin m \<noteq> 0 \<Longrightarrow> src (ec_user_data ctx) = []"
    using l by (auto simp: loaded_def)
  obtain f where f: "frag_frame (ec_server ctx) m ?p f"
      "send_result f base ?k (frag_io ctx m) res fctx (wire (ec_user_data c0)) \<or> res = Inl WSLAY_ERR_INVALID_CALLBACK \<and> wire (ec_user_data c0) = base"
    and okc: "ok (ec_user_data c0)"
    using fragment_sent [OF l fs] by blast
  note io = frag_io_carries [OF l f(1)]
  note ip = frame_send_in_part [OF fs]
  define u e where "u = ec_user_data c0" and "e = ec_error c0"
  define c1 where "c1 = ctx\<lparr>ec_user_data := u, ec_error := e, ec_frame_ctx := fctx\<rparr>"
  have "c0\<lparr>ec_frame_ctx := fctx\<rparr> = c1"
    using frame_send_keeps [OF fs] unfolding app_only_def c1_def u_def [symmetric] e_def [symmetric] by (metis wslay_event_context.unfold_congs(7))
  then have cf: "call_frame_send cbs (frag_io ctx m) ctx = (res, c1)" using fs by (simp add: call_frame_send_def)
  have okc: "ok u" using okc by (simp add: u_def)
  have sc: "src u = src (ec_user_data ctx)" using frame_send_keeps_src [OF k(4) fs] by (simp add: u_def)
  have sf: "send_fragment cbs m ctx = (case res of Inl x \<Rightarrow> send_error x c1
      | Inr n \<Rightarrow> (let ctx2 = c1\<lparr>ec_obufmark := ec_obufmark c1 + n\<rparr>
              in if ec_obufmark ctx2 = ec_obuflimit ctx2 then
                   (let ctx3 = ctx2\<lparr>ec_obufmark := 0, ec_obuflimit := 0\<rparr>
                    in (Go, if om_fin m \<noteq> 0
                            then ctx3\<lparr>ec_queued_msg_count := ec_queued_msg_count ctx3 - 1, ec_omsg := None\<rparr>
                            else ctx3\<lparr>ec_omsg := Some (m\<lparr>om_opcode := WSLAY_CONTINUATION_FRAME\<rparr>)\<rparr>))
                 else (Break, ctx2)))"
    using cf by (simp add: send_fragment_def frag_io_def)
  have view: "in_view c1 = in_view ctx" using ip by (simp add: c1_def)
  have c1s: "obuf_data c1 = ?p" "unsent src c1 = unsent src ctx" "ec_obufmark c1 = ?k" "ec_obuflimit c1 = ?n"
    using sc by (simp_all add: c1_def obuf_data_def unsent_def)
  show ?thesis
  proof (cases res)
    case (Inl x)
    show ?thesis
    proof (cases "x = WSLAY_ERR_WANT_WRITE \<and> (e = wslay_error_code WSLAY_ERR_WOULDBLOCK \<or> e = 0)")
      case True
      then have s: "send_sync f base ?k fctx (wire u)" "send_wf fctx" using f(2) Inl by (auto simp: send_result_def u_def)
      have "fragmenting wire ok src base m c1"
        using s k okc f(1) c1s(1) sc unfolding fragmenting_def by (auto simp: c1_def)
      moreover have "send_fragment cbs m ctx = (Break, c1)" using sf Inl True by (auto simp: send_error_def c1_def)
      ultimately show ?thesis using view okc c1s(2) unfolding frag_round_def by (intro exI [of _ c1]) (simp add: c1_def)
    next
      case False
      then have "send_fragment cbs m ctx = (Return (wslay_error_code WSLAY_ERR_CALLBACK_FAILURE), c1\<lparr>ec_write_enabled := False\<rparr>)"
        using sf Inl by (auto simp: send_error_def c1_def)
      moreover have "\<exists>part. wire u = base @ part \<and> prefix part (rfc_frame f)"
        using f(2) Inl send_sync_prefix [of f base ?k fctx "wire u"] by (auto simp: send_result_def u_def)
      ultimately show ?thesis
        using f(1) view okc c1s(2) k(6) unfolding frag_round_def
        by (intro exI [of _ "c1\<lparr>ec_write_enabled := False\<rparr>"]) (auto simp: c1_def unsent_def obuf_data_def)
    qed
  next
    case (Inr n)
    then have sr: "send_result f base ?k (frag_io ctx m) (Inr n) fctx (wire u)" using f(2) by (simp add: u_def)
    have pl: "length (fr_payload f) = ?n" using f(1) k(2) by (simp add: frag_frame_def)
    have n: "?k + n \<le> ?n" "send_wf fctx" using sr io(2) k(1) by (auto simp: send_result_def)
    show ?thesis
    proof (cases "?k + n = ?n")
      case False
      define c2 where "c2 = c1\<lparr>ec_obufmark := ?k + n\<rparr>"
      have "send_sync f base (?k + n) fctx (wire u)" using sr pl False by (simp add: send_result_def)
      then have "fragmenting wire ok src base m c2"
        using n k okc f(1) False sc unfolding fragmenting_def by (auto simp: c2_def c1_def obuf_data_def)
      moreover have "send_fragment cbs m ctx = (Break, c2)" using sf Inr False c1s by (simp add: c2_def)
      moreover have "unsent src c2 = unsent src ctx" using c1s(2) by (simp add: c2_def unsent_def obuf_data_def)
      ultimately show ?thesis using view okc unfolding frag_round_def
        by (intro exI [of _ c2]) (simp add: c2_def c1_def in_view_def)
    next
      case True
      have w: "send_ready f fctx" "wire u = base @ rfc_frame f" using sr pl True by (auto simp: send_result_def)
      define c2 where "c2 = (if om_fin m \<noteq> 0
          then c1\<lparr>ec_obufmark := 0, ec_obuflimit := 0, ec_queued_msg_count := ec_queued_msg_count c1 - 1, ec_omsg := None\<rparr>
          else c1\<lparr>ec_obufmark := 0, ec_obuflimit := 0, ec_omsg := Some (m\<lparr>om_opcode := WSLAY_CONTINUATION_FRAME\<rparr>)\<rparr>)"
      have st: "send_fragment cbs m ctx = (Go, c2)" using sf Inr True c1s by (simp add: c2_def)
      have "?p \<noteq> []" using k(1,2) by auto
      moreover have "unsent src ctx = ?p @ unsent src c2" "obuf_data c2 = []"
        using c1s(2) sc by (simp_all add: c2_def unsent_def obuf_data_def c1_def)
      moreover have "fragmenting wire ok src (base @ rfc_frame f) (m\<lparr>om_opcode := WSLAY_CONTINUATION_FRAME\<rparr>) c2" if "om_fin m = 0"
        using that k okc n(2) w f(1)
        by (auto simp: fragmenting_def c2_def c1_def frag_msg_def wslay_is_ctrl_frame_def send_ready_def frag_frame_def)
      moreover have "unsent src c2 = []" if "om_fin m \<noteq> 0" using that k(10) sc by (simp add: c2_def c1_def unsent_def obuf_data_def)
      ultimately show ?thesis
        using st view okc f(1) w(2) k(9) unfolding frag_round_def
        by (intro exI [of _ c2]) (auto simp: c2_def c1_def in_view_def intro!: exI [of _ f] exI [of _ ?p])
    qed
  qed
qed


end

section \<open>Reading the source\<close>

text \<open>The buffer is not empty, or it is filled now; or there is nothing to send at the moment; or the source failed.\<close>

definition refilled where
  "refilled wire ok src base m ctx r c \<longleftrightarrow> ec_server c = ec_server ctx \<and> in_view c = in_view ctx \<and> ok (ec_user_data c) \<and>
     ec_send_queue c = ec_send_queue ctx \<and> ec_send_ctrl_queue c = ec_send_ctrl_queue ctx \<and> unsent src c = unsent src ctx \<and>
     ec_queued_msg_count c = ec_queued_msg_count ctx \<and>
     ((\<exists>m'. r = (Go, c) \<and> m' \<in> {m, m\<lparr>om_fin := 1\<rparr>} \<and> loaded wire ok src base m' c) \<or>
      r = (Break, c) \<and> fragmenting wire ok src base m c \<or>
      r = (Return (wslay_error_code WSLAY_ERR_CALLBACK_FAILURE), c) \<and> \<not> ec_write_enabled c \<and> ec_omsg c \<noteq> None \<and> wire (ec_user_data c) = base)"

lemma frag_round_after:
  assumes "frag_round wire ok src base m c r c'" "ec_server c = ec_server ctx" "in_view c = in_view ctx"
    "ec_send_queue c = ec_send_queue ctx" "ec_send_ctrl_queue c = ec_send_ctrl_queue ctx" "unsent src c = unsent src ctx"
    "ec_queued_msg_count c = ec_queued_msg_count ctx"
  shows "frag_round wire ok src base m ctx r c'"
  using assms(1) unfolding frag_round_def assms(2-7) .

context event_feed begin

lemma refill_empty:
  assumes fr: "fragmenting wire ok src base m ctx" and l0: "ec_obuflimit ctx = 0"
  shows "\<exists>c. refilled wire ok src base m ctx (send_refill cbs m ctx) c"
proof -
  have k: "ok (ec_user_data ctx)" "send_wf (ec_frame_ctx ctx)" "ec_omsg ctx = Some m" "frag_msg m" "ec_write_enabled ctx"
      "ec_obufmark ctx = 0" "om_fin m = 0" "fc_ostate (ec_frame_ctx ctx) = PREP_HEADER"
      "ec_server ctx \<Longrightarrow> fc_omask (ec_frame_ctx ctx) = 0" "wire (ec_user_data ctx) = base"
    using fr l0 by (simp_all add: fragmenting_def)
  obtain cb where cb: "om_read_callback m = Some cb" using k(4) by (auto simp: frag_msg_def)
  obtain r bs eof c0 where rd: "ev_read_callback cbs cb OBUF_SIZE (om_source m) ctx = (r, bs, eof, c0)" by (metis prod_cases4)
  define u e where "u = ec_user_data c0" and "e = ec_error c0"
  have c0: "c0 = ctx\<lparr>ec_user_data := u, ec_error := e\<rparr>"
    using read_keeps [OF rd] unfolding app_only_def u_def e_def .
  have q: "ok u" "wire u = base" using read_quiet [OF k(1) rd] k(10) by (simp_all add: u_def)
  define c where "c = ctx\<lparr>ec_user_data := u, ec_error := e, ec_obuf := write_at (ec_obuf ctx) 0 bs\<rparr>"
  have sr: "send_refill cbs m ctx = (if r = 0 then (Break, c)
      else if r < 0 then (Return (wslay_error_code WSLAY_ERR_CALLBACK_FAILURE), c\<lparr>ec_write_enabled := False\<rparr>)
      else (Go, c\<lparr>ec_obuflimit := nat r, ec_omsg := (if eof then Some (m\<lparr>om_fin := 1\<rparr>) else Some m),
                  ec_opayloadlen := of_int r, ec_opayloadoff := 0\<rparr>))"
    by (simp add: send_refill_def k l0 cb rd Let_def c_def c0)
  have view: "in_view c = in_view ctx" "ec_server c = ec_server ctx" by (simp_all add: c_def in_view_def)
  show ?thesis
  proof (cases "0 < r")
    case False
    then have un: "unsent src c = unsent src ctx"
      using read_none [OF k(1) rd] by (simp add: unsent_def obuf_data_def l0 c_def u_def)
    show ?thesis
    proof (cases "r = 0")
      case True
      have "fragmenting wire ok src base m c" using k q l0 by (simp add: fragmenting_def c_def)
      then show ?thesis using True sr view q un unfolding refilled_def by (intro exI [of _ c]) (simp add: c_def)
    next
      case neg: False
      then show ?thesis using False sr view q un k(3) unfolding refilled_def
        by (intro exI [of _ "c\<lparr>ec_write_enabled := False\<rparr>"]) (simp add: c_def unsent_def obuf_data_def)
    qed
  next
    case True
    have b: "length bs = nat r" "nat r \<le> OBUF_SIZE" "src (ec_user_data ctx) = bs @ src u"
      using read_some [OF k(1) rd True] by (simp_all add: u_def)
    define m' where "m' = (if eof then m\<lparr>om_fin := 1\<rparr> else m)"
    define c' where "c' = c\<lparr>ec_obuflimit := nat r, ec_omsg := Some m', ec_opayloadlen := of_int r, ec_opayloadoff := 0\<rparr>"
    have st: "send_refill cbs m ctx = (Go, c')" using True sr by (simp add: c'_def m'_def)
    have od: "obuf_data c' = bs" using b(1) by (simp add: obuf_data_def c'_def c_def write_at_def)
    have fm: "frag_msg m'" using k(4) by (simp add: m'_def frag_msg_def)
    obtain f where f: "frag_frame (ec_server ctx) m' bs f" using frag_frame_exists [OF fm] b by metis
    have "send_ready f (ec_frame_ctx ctx)" using f k(8,9) by (simp add: send_ready_def frag_frame_def)
    moreover have "src u = []" if "om_fin m' \<noteq> 0"
      using that read_eof [OF k(1) rd True] k(7) by (simp add: m'_def u_def split: if_splits)
    ultimately have "loaded wire ok src base m' c'"
      using f k q b True fm unfolding loaded_def od by (auto simp: c'_def c_def)
    moreover have "unsent src c' = unsent src ctx" unfolding unsent_def od using b(3) by (simp add: obuf_data_def l0 c'_def c_def)
    ultimately show ?thesis
      using st view q unfolding refilled_def
      by (intro exI [of _ c']) (auto simp: c'_def c_def m'_def in_view_def)
  qed
qed

lemma refill:
  assumes fr: "fragmenting wire ok src base m ctx"
  shows "\<exists>c. refilled wire ok src base m ctx (send_refill cbs m ctx) c"
proof (cases "ec_obuflimit ctx = 0")
  case False
  then have "send_refill cbs m ctx = (Go, ctx)" "loaded wire ok src base m ctx" "ok (ec_user_data ctx)"
    using fr by (auto simp: fragmenting_def send_refill_def loaded_def)
  then show ?thesis unfolding refilled_def by (intro exI [of _ ctx]) auto
qed (rule refill_empty [OF fr])

lemma send_fragmented_round:
  assumes fr: "fragmenting wire ok src base m ctx"
  shows "\<exists>c m'. m' \<in> {m, m\<lparr>om_fin := 1\<rparr>} \<and> frag_round wire ok src base m' ctx (send_fragmented cbs m ctx) c"
proof -
  obtain c where rf: "refilled wire ok src base m ctx (send_refill cbs m ctx) c" using refill [OF fr] by blast
  then have same: "ec_server c = ec_server ctx" "in_view c = in_view ctx" "ec_send_queue c = ec_send_queue ctx"
      "ec_send_ctrl_queue c = ec_send_ctrl_queue ctx" "unsent src c = unsent src ctx" "ec_queued_msg_count c = ec_queued_msg_count ctx"
    and okc: "ok (ec_user_data c)"
    by (simp_all add: refilled_def)
  from rf consider m' where "send_refill cbs m ctx = (Go, c)" "m' \<in> {m, m\<lparr>om_fin := 1\<rparr>}" "loaded wire ok src base m' c"
    | "send_refill cbs m ctx = (Break, c)" "fragmenting wire ok src base m c"
    | "send_refill cbs m ctx = (Return (wslay_error_code WSLAY_ERR_CALLBACK_FAILURE), c)" "\<not> ec_write_enabled c" "ec_omsg c \<noteq> None"
      "wire (ec_user_data c) = base"
    unfolding refilled_def by blast
  then show ?thesis
  proof cases
    case 1
    obtain c' where "frag_round wire ok src base m' c (send_fragment cbs m' c) c'" using send_fragment_round [OF 1(3)] by blast
    from frag_round_after [OF this same] have "frag_round wire ok src base m' ctx (send_fragment cbs m' c) c'" .
    moreover have "send_fragmented cbs m ctx = send_fragment cbs m' c"
      using 1 by (simp add: send_fragmented_def andthen_def loaded_def)
    ultimately show ?thesis using 1(2) by auto
  next
    case 2
    then show ?thesis using same okc unfolding frag_round_def
      by (intro exI [of _ c] exI [of _ m]) (simp add: send_fragmented_def andthen_def)
  next
    case 3
    then show ?thesis using same okc unfolding frag_round_def
      by (intro exI [of _ c] exI [of _ m]) (simp add: send_fragmented_def andthen_def)
  qed
qed

end

section \<open>The whole message\<close>

text \<open>The frames of the part of a message that is out: the first has its opcode, the next are continuations, the last
  has the FIN bit if the message is complete; none is empty.\<close>

fun fragments :: "bool \<Rightarrow> byte \<Rightarrow> bool \<Rightarrow> ws_frame list \<Rightarrow> bool" where
  "fragments srv op complete [] = (\<not> complete)"
| "fragments srv op complete (f # fs) =
     (rfc_valid f \<and> fr_rsv f = 0 \<and> of_nat (fr_opcode f) = op AND 0xf \<and> (fr_key f = None) = srv \<and> fr_payload f \<noteq> [] \<and>
      fr_fin f = (complete \<and> fs = []) \<and> (fs = [] \<or> fragments srv WSLAY_CONTINUATION_FRAME complete fs))"

definition frag_outcome where
  "frag_outcome wire ok src base m ctx r c \<longleftrightarrow> ec_server c = ec_server ctx \<and> in_view c = in_view ctx \<and> ok (ec_user_data c) \<and>
     (\<exists>fs. fragments (ec_server ctx) (om_opcode m) (ec_omsg c = None) fs \<and>
       unsent src ctx = concat (map fr_payload fs) @ unsent src c \<and>
       (let base' = base @ concat (map rfc_frame fs)
        in if r = 0 then ec_write_enabled c \<and>
             (case ec_omsg c of
                None \<Rightarrow> unsent src c = [] \<and> wire (ec_user_data c) = base' \<and> ec_queued_msg_count c = ec_queued_msg_count ctx - 1
              | Some m' \<Rightarrow> fragmenting wire ok src base' m' c \<and> om_opcode m' = (if fs = [] then om_opcode m else WSLAY_CONTINUATION_FRAME) \<and>
                  ec_queued_msg_count c = ec_queued_msg_count ctx)
           else r = wslay_error_code WSLAY_ERR_CALLBACK_FAILURE \<and> \<not> ec_write_enabled c \<and> ec_omsg c \<noteq> None \<and>
             (\<exists>part f. wire (ec_user_data c) = base' @ part \<and> rfc_valid f \<and> prefix part (rfc_frame f))))"


lemma frag_outcome_last:
  assumes "frag_frame (ec_server ctx) m p f" "p \<noteq> []" "om_fin m \<noteq> 0" "om_opcode m = om_opcode m0"
    "ec_server c = ec_server ctx" "in_view c = in_view ctx" "ok (ec_user_data c)" "ec_write_enabled c" "ec_omsg c = None"
    "unsent src c = []" "unsent src ctx = p @ unsent src c" "wire (ec_user_data c) = base @ rfc_frame f"
    "ec_queued_msg_count c = ec_queued_msg_count ctx - 1"
  shows "frag_outcome wire ok src base m0 ctx 0 c"
  unfolding frag_outcome_def
  by (intro conjI assms(5-7) exI [of _ "[f]"]) (use assms in \<open>simp_all add: frag_frame_def\<close>)

lemma frag_outcome_Cons:
  assumes fo: "frag_outcome wire ok src (base @ rfc_frame f) (m\<lparr>om_opcode := WSLAY_CONTINUATION_FRAME\<rparr>) c0 r c"
    and f: "frag_frame (ec_server ctx) m p f" "p \<noteq> []" "om_fin m = 0" "om_opcode m = om_opcode m0"
    and c0: "ec_server c0 = ec_server ctx" "in_view c0 = in_view ctx" "unsent src ctx = p @ unsent src c0"
      "ec_queued_msg_count c0 = ec_queued_msg_count ctx"
  shows "frag_outcome wire ok src base m0 ctx r c"
proof -
  obtain fs where fs: "fragments (ec_server ctx) WSLAY_CONTINUATION_FRAME (ec_omsg c = None) fs"
      "unsent src c0 = concat (map fr_payload fs) @ unsent src c"
      "let base' = (base @ rfc_frame f) @ concat (map rfc_frame fs)
       in if r = 0 then ec_write_enabled c \<and>
             (case ec_omsg c of
                None \<Rightarrow> unsent src c = [] \<and> wire (ec_user_data c) = base' \<and> ec_queued_msg_count c = ec_queued_msg_count ctx - 1
              | Some m' \<Rightarrow> fragmenting wire ok src base' m' c \<and> om_opcode m' = WSLAY_CONTINUATION_FRAME \<and>
                  ec_queued_msg_count c = ec_queued_msg_count ctx)
           else r = wslay_error_code WSLAY_ERR_CALLBACK_FAILURE \<and> \<not> ec_write_enabled c \<and> ec_omsg c \<noteq> None \<and>
             (\<exists>part f. wire (ec_user_data c) = base' @ part \<and> rfc_valid f \<and> prefix part (rfc_frame f))"
    and c: "ec_server c = ec_server ctx" "in_view c = in_view ctx" "ok (ec_user_data c)"
    using fo unfolding frag_outcome_def c0(1,2,4) by (auto cong: if_cong option.case_cong)
  have fr: "fragments (ec_server ctx) (om_opcode m0) (ec_omsg c = None) (f # fs)"
    using f fs(1) by (cases fs) (simp_all add: frag_frame_def)
  have un: "unsent src ctx = concat (map fr_payload (f # fs)) @ unsent src c"
    using c0(3) fs(2) f(1) by (simp add: frag_frame_def)
  show ?thesis
    unfolding frag_outcome_def
    by (intro conjI c exI [of _ "f # fs"] fr un) (use fs(3) in \<open>simp only: Let_def append_assoc list.map concat.simps list.distinct if_False\<close>)
qed

lemma some_rfc_frame: "\<exists>f. rfc_valid f"
  by (rule exI [of _ "\<lparr>fr_fin = True, fr_rsv = 0, fr_opcode = 0, fr_key = None, fr_payload = []\<rparr>"]) (simp add: rfc_valid_def)

context event_feed begin

text \<open>The loop ends, if no other message waits: a round that goes on sends a part of the source.\<close>

lemma send_fragments_loop:
  assumes "fragmenting wire ok src base m ctx" "wslay_queue_is_empty (ec_send_queue ctx)" "wslay_queue_is_empty (ec_send_ctrl_queue ctx)"
  shows "\<exists>r c. wslay_event_send cbs ctx = Some (Inr r, c) \<and> frag_outcome wire ok src base m ctx r c"
  using assms
proof (induction "length (unsent src ctx)" arbitrary: base m ctx rule: less_induct)
  case less
  have om: "ec_omsg ctx = Some m" "om_type m = WSLAY_FRAGMENTED" "ec_write_enabled ctx"
    using less.prems(1) by (simp_all add: fragmenting_def frag_msg_def)
  have step: "send_step cbs ctx = send_fragmented cbs m ctx"
    using om less.prems(3) by (simp add: send_step_def send_choose_def andthen_def)
  have ww: "wslay_event_want_write ctx" using om by (simp add: wslay_event_want_write_def)
  obtain c m' where m': "m' \<in> {m, m\<lparr>om_fin := 1\<rparr>}" and rd: "frag_round wire ok src base m' ctx (send_fragmented cbs m ctx) c"
    using send_fragmented_round [OF less.prems(1)] by blast
  have op: "om_opcode m' = om_opcode m" using m' by auto
  have same: "ec_server c = ec_server ctx" "in_view c = in_view ctx" "ec_send_queue c = ec_send_queue ctx"
      "ec_send_ctrl_queue c = ec_send_ctrl_queue ctx" and okc: "ok (ec_user_data c)"
    using rd by (simp_all add: frag_round_def)
  from rd consider (go) f p where "send_fragmented cbs m ctx = (Go, c)" "p \<noteq> []" "frag_frame (ec_server ctx) m' p f"
        "wire (ec_user_data c) = base @ rfc_frame f" "unsent src ctx = p @ unsent src c"
        "if om_fin m' \<noteq> 0 then ec_omsg c = None \<and> unsent src c = [] \<and> ec_write_enabled c \<and> ec_queued_msg_count c = ec_queued_msg_count ctx - 1
         else ec_queued_msg_count c = ec_queued_msg_count ctx \<and>
            fragmenting wire ok src (base @ rfc_frame f) (m'\<lparr>om_opcode := WSLAY_CONTINUATION_FRAME\<rparr>) c"
    | (brk) "send_fragmented cbs m ctx = (Break, c)" "fragmenting wire ok src base m' c" "unsent src ctx = unsent src c"
        "ec_queued_msg_count c = ec_queued_msg_count ctx"
    | (ret) part where "send_fragmented cbs m ctx = (Return (wslay_error_code WSLAY_ERR_CALLBACK_FAILURE), c)" "\<not> ec_write_enabled c"
        "ec_omsg c \<noteq> None" "unsent src ctx = unsent src c" "wire (ec_user_data c) = base @ part"
        "part = [] \<or> (\<exists>f p. frag_frame (ec_server ctx) m' p f \<and> prefix part (rfc_frame f))"
    unfolding frag_round_def by blast
  then show ?case
  proof cases
    case go
    have next1: "wslay_event_send cbs ctx = wslay_event_send cbs c" using ww step go(1) by (subst wslay_event_send.simps) simp
    show ?thesis
    proof (cases "om_fin m' = 0")
      case False
      then have "wslay_event_send cbs c = Some (Inr 0, c)"
        using go(6) less.prems(2,3) same by (subst wslay_event_send.simps) (simp add: wslay_event_want_write_def)
      moreover have "frag_outcome wire ok src base m ctx 0 c"
        using frag_outcome_last [OF go(3,2) False op same(1,2), where ok = ok and src = src and wire = wire and base = base] okc go False by simp
      ultimately show ?thesis using next1 by auto
    next
      case True
      have sm: "length (unsent src c) < length (unsent src ctx)" using go(2,5) by simp
      have fr: "fragmenting wire ok src (base @ rfc_frame f) (m'\<lparr>om_opcode := WSLAY_CONTINUATION_FRAME\<rparr>) c" using go(6) True by simp
      obtain r c' where r: "wslay_event_send cbs c = Some (Inr r, c')"
          "frag_outcome wire ok src (base @ rfc_frame f) (m'\<lparr>om_opcode := WSLAY_CONTINUATION_FRAME\<rparr>) c r c'"
        using less.hyps [OF sm fr] less.prems(2,3) same by auto
      have "frag_outcome wire ok src base m ctx r c'"
        using frag_outcome_Cons [OF r(2) go(3,2) True op same(1,2) go(5)] go(6) True by simp
      then show ?thesis using r(1) next1 by auto
    qed
  next
    case brk
    have "wslay_event_send cbs ctx = Some (Inr 0, c)" using ww step brk(1) by (subst wslay_event_send.simps) simp
    moreover have "ec_omsg c = Some m'" "ec_write_enabled c" using brk(2) by (simp_all add: fragmenting_def)
    then have "frag_outcome wire ok src base m ctx 0 c"
      unfolding frag_outcome_def using brk op same(1,2) okc by (intro conjI exI [of _ "[]"]) simp_all
    ultimately show ?thesis by auto
  next
    case ret
    have "wslay_event_send cbs ctx = Some (Inr (wslay_error_code WSLAY_ERR_CALLBACK_FAILURE), c)"
      using ww step ret(1) by (subst wslay_event_send.simps) simp
    moreover obtain f where "rfc_valid f" "prefix part (rfc_frame f)"
      using ret(6) some_rfc_frame by (auto simp: frag_frame_def)
    then have "frag_outcome wire ok src base m ctx (wslay_error_code WSLAY_ERR_CALLBACK_FAILURE) c"
      unfolding frag_outcome_def using ret(2-5) same(1,2) okc by (intro conjI exI [of _ "[]"]) auto
    ultimately show ?thesis by auto
  qed
qed

end

end
