(* ===== verification/Wslay_Test_Event.thy ===== *)
theory Wslay_Test_Event
  imports Wslay_Event_Fragments Wslay_Test_Feed
begin

text \<open>
  The application of the repository's own event tests (\<open>tests/event.c\<close>): a message source that hands out a buffer in
  scripted pieces, a receive callback on such a feed, and an accumulator of what is sent. It keeps the contracts of a sink
  and of a source of fragments.

  The source of a fragmented message, \<open>source.data\<close>, points to a feed: the tests have one, \<open>ud_source\<close>. An assertion that fails
  ends the program; the model records that in \<open>ud_aborted\<close> and takes nothing.
\<close>

record accumulator =
  acc_buf :: "byte list"
  acc_length :: nat

record my_user_data =
  ud_df :: scripted_data_feed
  ud_acc :: accumulator
  ud_source :: scripted_data_feed
  ud_aborted :: bool

definition ACC_SIZE :: nat where
  "ACC_SIZE = 4096"

definition test_read_callback ::
    "nat \<Rightarrow> nat \<Rightarrow> wslay_event_msg_source option \<Rightarrow> my_user_data wslay_event_context
       \<Rightarrow> int \<times> byte list \<times> bool \<times> my_user_data wslay_event_context" where
  "test_read_callback cb len source ctx =
     (let ud = ec_user_data ctx; df = ud_source ud; wlen = (if df_next df > len then len else df_next df);
          df1 = df_advance wlen len df
      in (int wlen, arr_slice (df_data df) (df_datamark df) (df_datamark df + wlen), df_datamark df1 = df_datalimit df1,
          ctx\<lparr>ec_user_data := ud\<lparr>ud_source := df1\<rparr>\<rparr>))"

definition test_recv_callback ::
    "nat \<Rightarrow> int \<Rightarrow> my_user_data wslay_event_context \<Rightarrow> int \<times> byte list \<times> my_user_data wslay_event_context" where
  "test_recv_callback len flags ctx =
     (let ud = ec_user_data ctx
      in case scripted_recv_callback len flags (ud_df ud) of
           (r, bs, df) \<Rightarrow> (r, bs, ctx\<lparr>ec_user_data := ud\<lparr>ud_df := df\<rparr>\<rparr>))"

definition accumulate :: "byte list \<Rightarrow> accumulator \<Rightarrow> accumulator" where
  "accumulate bs acc = \<lparr>acc_buf = write_at (acc_buf acc) (acc_length acc) bs, acc_length = acc_length acc + length bs\<rparr>"

definition test_abort :: "my_user_data wslay_event_context \<Rightarrow> int \<times> my_user_data wslay_event_context" where
  "test_abort ctx = (-1, ctx\<lparr>ec_user_data := (ec_user_data ctx)\<lparr>ud_aborted := True\<rparr>\<rparr>)"

definition accumulator_send_callback ::
    "byte list \<Rightarrow> int \<Rightarrow> bool \<Rightarrow> my_user_data wslay_event_context \<Rightarrow> int \<times> my_user_data wslay_event_context" where
  "accumulator_send_callback buf flags user_data_sending ctx =
     (let ud = ec_user_data ctx; acc = ud_acc ud
      in if acc_length acc + length buf < ACC_SIZE
         then (int (length buf), ctx\<lparr>ec_user_data := ud\<lparr>ud_acc := accumulate buf acc\<rparr>\<rparr>)
         else test_abort ctx)"

text \<open>\<open>one_accumulator_send_callback\<close> does not look at the size of its buffer: the tests that use it send 11 bytes.\<close>

definition one_accumulator_send_callback ::
    "byte list \<Rightarrow> int \<Rightarrow> bool \<Rightarrow> my_user_data wslay_event_context \<Rightarrow> int \<times> my_user_data wslay_event_context" where
  "one_accumulator_send_callback buf flags user_data_sending ctx =
     (let ud = ec_user_data ctx; acc = ud_acc ud
      in if length buf > 0 then (1, ctx\<lparr>ec_user_data := ud\<lparr>ud_acc := accumulate (take 1 buf) acc\<rparr>\<rparr>)
         else test_abort ctx)"

definition fail_recv_callback ::
    "nat \<Rightarrow> int \<Rightarrow> my_user_data wslay_event_context \<Rightarrow> int \<times> byte list \<times> my_user_data wslay_event_context" where
  "fail_recv_callback len flags ctx = (-1, [], wslay_event_set_error ctx (wslay_error_code WSLAY_ERR_CALLBACK_FAILURE))"

definition fail_send_callback ::
    "byte list \<Rightarrow> int \<Rightarrow> bool \<Rightarrow> my_user_data wslay_event_context \<Rightarrow> int \<times> my_user_data wslay_event_context" where
  "fail_send_callback buf flags user_data_sending ctx = (-1, wslay_event_set_error ctx (wslay_error_code WSLAY_ERR_CALLBACK_FAILURE))"

text \<open>The callbacks that the tests of sending leave \<open>NULL\<close> are not called there.\<close>

definition test_callbacks ::
    "(byte list \<Rightarrow> int \<Rightarrow> bool \<Rightarrow> my_user_data wslay_event_context \<Rightarrow> int \<times> my_user_data wslay_event_context)
       \<Rightarrow> my_user_data wslay_event_context wslay_event_callbacks" where
  "test_callbacks send =
     \<lparr>ev_recv_callback = test_recv_callback, ev_send_callback = send, ev_genmask_callback = (\<lambda>len ctx. (-1, [], ctx)),
      ev_on_frame_recv_start_callback = None, ev_on_frame_recv_chunk_callback = None, ev_on_frame_recv_end_callback = None,
      ev_on_msg_recv_callback = None, ev_read_callback = test_read_callback\<rparr>"

section \<open>The contracts\<close>

definition ud_wire :: "my_user_data \<Rightarrow> byte list" where
  "ud_wire ud = take (acc_length (ud_acc ud)) (acc_buf (ud_acc ud))"

definition ud_ok :: "my_user_data \<Rightarrow> bool" where
  "ud_ok ud \<longleftrightarrow> acc_length (ud_acc ud) \<le> length (acc_buf (ud_acc ud)) \<and> ACC_SIZE \<le> length (acc_buf (ud_acc ud)) \<and> df_ok (ud_source ud)"

definition ud_src :: "my_user_data \<Rightarrow> byte list" where
  "ud_src ud = df_stream (ud_source ud)"

lemma accumulate_wire:
  assumes "acc_length acc + length bs \<le> length (acc_buf acc)"
  shows "take (acc_length (accumulate bs acc)) (acc_buf (accumulate bs acc)) = take (acc_length acc) (acc_buf acc) @ bs"
    "length (acc_buf (accumulate bs acc)) = length (acc_buf acc)" "acc_length (accumulate bs acc) = acc_length acc + length bs"
  using assms by (simp_all add: accumulate_def write_at_def)

lemmas test_app_defs = accumulator_send_callback_def test_abort_def test_read_callback_def ud_wire_def ud_ok_def ud_src_def Let_def

interpretation test_app: event_feed "test_callbacks accumulator_send_callback" ud_wire ud_ok ud_src
proof
  fix w :: "my_user_data wslay_event_context" and ds fl u r w'
  assume ok: "ud_ok (ec_user_data w)"
    and "send_callback (event_frame_callbacks (test_callbacks accumulator_send_callback)) ds fl u w = (r, w')"
  then have cb: "accumulator_send_callback ds fl u w = (r, w')"
    by (simp add: event_frame_callbacks_def wslay_event_frame_send_callback_def test_callbacks_def)
  show "ud_ok (ec_user_data w')"
    "0 < r \<Longrightarrow> nat r \<le> length ds \<and> ud_wire (ec_user_data w') = ud_wire (ec_user_data w) @ take (nat r) ds"
    "r \<le> 0 \<Longrightarrow> ud_wire (ec_user_data w') = ud_wire (ec_user_data w)"
    using ok cb accumulate_wire [of "ud_acc (ec_user_data w)" ds] by (auto simp: test_app_defs split: if_splits)
next
  fix cb len s and ctx :: "my_user_data wslay_event_context" and r bs eof ctx'
  assume ok: "ud_ok (ec_user_data ctx)" and "ev_read_callback (test_callbacks accumulator_send_callback) cb len s ctx = (r, bs, eof, ctx')"
  then have rd: "test_read_callback cb len s ctx = (r, bs, eof, ctx')" by (simp add: test_callbacks_def)
  let ?df = "ud_source (ec_user_data ctx)" and ?df' = "ud_source (ec_user_data ctx')"
  obtain df where cb: "recv_callback feed_callbacks len 0 ?df = (r, bs, df)" and df': "?df' = df" "eof = (df_datamark df = df_datalimit df)"
    using rd by (auto simp: test_read_callback_def feed_callbacks_def scripted_recv_callback_def Let_def)
  have dok: "df_ok ?df" using ok by (simp add: ud_ok_def)
  note f = feed_source.recv_ok [OF dok cb] feed_source.recv_bound [OF dok cb] feed_source.recv_some [OF dok cb] feed_source.recv_none [OF dok cb]
  have same: "ud_acc (ec_user_data ctx') = ud_acc (ec_user_data ctx)" using rd by (auto simp: test_read_callback_def Let_def)
  show "ud_ok (ec_user_data ctx') \<and> ud_wire (ec_user_data ctx') = ud_wire (ec_user_data ctx)"
    using ok f(1) same df'(1) by (simp add: ud_ok_def ud_wire_def)
  show "0 < r \<Longrightarrow> length bs = nat r \<and> nat r \<le> len \<and> ud_src (ec_user_data ctx) = bs @ ud_src (ec_user_data ctx')"
    using f(2,3) df'(1) by (auto simp: ud_src_def)
  show "r \<le> 0 \<Longrightarrow> ud_src (ec_user_data ctx') = ud_src (ec_user_data ctx)" using f(4) df'(1) by (simp add: ud_src_def)
  show "eof \<Longrightarrow> ud_src (ec_user_data ctx') = []" using df' by (simp add: ud_src_def df_stream_def arr_slice_def)
qed (auto simp: test_callbacks_def event_frame_callbacks_def wslay_event_frame_genmask_callback_def app_only_def test_app_defs split: if_splits)

end
