(* ===== verification/Wslay_Fragment_Props.thy ===== *)
theory Wslay_Fragment_Props
  imports Wslay_Test_Event Wslay_Session_Props
begin

text \<open>
  What \<open>wslay_event_send\<close> guarantees of a fragmented message, and that the other endpoint receives it whole, with instances on the
  application of \<open>tests/event.c\<close>.
\<close>

section \<open>A message to send in fragments\<close>

text \<open>\<open>m\<close> is the only message: it waits in the queue and the sender is between frames, or it is in progress.\<close>

definition fragment_job ::
    "('u \<Rightarrow> byte list) \<Rightarrow> ('u \<Rightarrow> bool) \<Rightarrow> ('u \<Rightarrow> byte list) \<Rightarrow> byte list \<Rightarrow> wslay_event_omsg \<Rightarrow> 'u wslay_event_context \<Rightarrow> bool" where
  "fragment_job wire ok src base m ctx \<longleftrightarrow> queue_inv (ec_send_queue ctx) \<and> wslay_queue_is_empty (ec_send_ctrl_queue ctx) \<and>
     (if ec_omsg ctx = None then
        queue_list (ec_send_queue ctx) = [m] \<and>
        fragmenting wire ok src base m (ctx\<lparr>ec_omsg := Some m\<rparr>) \<and> ec_obuflimit ctx = 0
      else queue_list (ec_send_queue ctx) = [] \<and> fragmenting wire ok src base m ctx)"

lemma fragment_job_waiting:
  assumes "queue_inv (ec_send_queue ctx)" "wslay_queue_is_empty (ec_send_ctrl_queue ctx)" "ec_omsg ctx = None"
    "queue_list (ec_send_queue ctx) = [m]" "frag_msg m" "om_fin m = 0" "ok (ec_user_data ctx)" "send_wf (ec_frame_ctx ctx)" "ec_write_enabled ctx"
    "ec_obuflimit ctx = 0" "ec_obufmark ctx = 0" "fc_ostate (ec_frame_ctx ctx) = PREP_HEADER" "fc_omask (ec_frame_ctx ctx) = 0"
    "wire (ec_user_data ctx) = base"
  shows "fragment_job wire ok src base m ctx"
  using assms by (simp add: fragment_job_def fragmenting_def)

lemma fragmenting_cong:
  assumes "fragmenting wire ok src base m ctx"
  shows "fragmenting wire ok src base m (ctx\<lparr>ec_send_queue := q\<rparr>)"
  using assms by (simp add: fragmenting_def obuf_data_def cong: if_cong)

lemma fragment_job_starts:
  assumes "fragment_job wire ok src base m ctx"
  shows "\<exists>c. wslay_event_send cbs ctx = wslay_event_send cbs c \<and> fragmenting wire ok src base m c \<and> wslay_queue_is_empty (ec_send_queue c) \<and>
    wslay_queue_is_empty (ec_send_ctrl_queue c) \<and> ec_server c = ec_server ctx \<and> in_view c = in_view ctx \<and>
    unsent src c = unsent src ctx \<and> ec_queued_msg_count c = ec_queued_msg_count ctx \<and> ec_user_data c = ec_user_data ctx \<and>
    ec_frame_ctx c = ec_frame_ctx ctx \<and> ec_obuflimit c = ec_obuflimit ctx"
proof (cases "ec_omsg ctx = None")
  case False
  then show ?thesis using assms by (intro exI [of _ ctx]) (simp add: fragment_job_def queue_empty_iff)
next
  case True
  define q where "q = snd (wslay_queue_pop (ec_send_queue ctx))"
  define c where "c = ctx\<lparr>ec_omsg := Some m, ec_send_queue := q\<rparr>"
  have j: "queue_inv (ec_send_queue ctx)" "wslay_queue_is_empty (ec_send_ctrl_queue ctx)" "queue_list (ec_send_queue ctx) = [m]"
      "fragmenting wire ok src base m (ctx\<lparr>ec_omsg := Some m\<rparr>)"
    using assms True by (simp_all add: fragment_job_def)
  have q: "queue_inv q" "queue_list q = []" using queue_pop_Cons [OF j(1,3)] by (auto simp: q_def)
  have fr: "fragmenting wire ok src base m c" using fragmenting_cong [OF j(4), of q] by (simp add: c_def)
  then have om: "om_type m = WSLAY_FRAGMENTED" "ec_write_enabled ctx" by (auto simp: fragmenting_def frag_msg_def c_def)
  have e: "wslay_queue_is_empty q" using q by (simp add: queue_empty_iff)
  have ne: "\<not> wslay_queue_is_empty (ec_send_queue ctx)" using j(1,3) by (simp add: queue_empty_iff)
  have "send_choose ctx = (Go, c)"
    using True j(2) om(1) queue_top_list [OF j(1)] j(3) by (simp add: send_choose_def andthen_def c_def q_def)
  moreover have "send_choose c = (Go, c)" using j(2) by (simp add: send_choose_def c_def)
  ultimately have st: "send_step cbs ctx = send_step cbs c" by (simp add: send_step_def)
  have ww: "wslay_event_want_write ctx" "wslay_event_want_write c" using ne om(2) by (simp_all add: wslay_event_want_write_def c_def)
  have "wslay_event_send cbs ctx = wslay_event_send cbs c"
    by (subst (1 2) wslay_event_send.simps) (simp add: ww st)
  then show ?thesis using fr j(2) e by (intro exI [of _ c]) (simp add: c_def unsent_def obuf_data_def in_view_def)
qed

lemma fragments_sent:
  assumes "event_feed cbs wire ok src" "fragment_job wire ok src base m ctx"
  shows "\<exists>r c. wslay_event_send cbs ctx = Some (Inr r, c) \<and> frag_outcome wire ok src base m ctx r c"
proof -
  obtain c where c: "wslay_event_send cbs ctx = wslay_event_send cbs c" "fragmenting wire ok src base m c" "wslay_queue_is_empty (ec_send_queue c)"
      "wslay_queue_is_empty (ec_send_ctrl_queue c)" "ec_server c = ec_server ctx" "in_view c = in_view ctx"
      "unsent src c = unsent src ctx" "ec_queued_msg_count c = ec_queued_msg_count ctx"
    using fragment_job_starts [OF assms(2)] by blast
  from event_feed.send_fragments_loop [OF assms(1) c(2-4)] show ?thesis
    unfolding c(1) frag_outcome_def c(5-8) .
qed

text \<open>C15. \<open>wslay_event_send\<close> ends on a fragmented message, whatever the pieces in which its source hands it out and the network takes it. What
  it sends are valid frames of RFC 6455, none empty: the first carries the opcode of the message, the next ones
  are continuations, and only the last has the FIN bit, which it has if the message is complete. Their payloads, followed by what is still in the
  buffer and in the source, are the message. When the call returns 0 the sender is done, or stands in the message where the next call goes on;
  otherwise a callback failed, the connection is no longer writable and part of one more frame is out at most.\<close>

theorem wslay_event_send_fragments:
  assumes "event_feed cbs wire ok src" "fragment_job wire ok src base m ctx"
  shows "\<exists>r c. wslay_event_send cbs ctx = Some (Inr r, c) \<and> frag_outcome wire ok src base m ctx r c"
  using fragments_sent [OF assms] .

text \<open>The test \<open>test_wslay_event_send_fragmented_msg\<close>: "Hello" in pieces of 3 and 2 bytes.\<close>

definition test_user :: "nat list \<Rightarrow> byte list \<Rightarrow> my_user_data" where
  "test_user seq ds = \<lparr>ud_df = scripted_data_feed_init [], ud_acc = \<lparr>acc_buf = replicate ACC_SIZE 0, acc_length = 0\<rparr>,
     ud_source = (scripted_data_feed_init ds)\<lparr>df_feedseq := seq\<rparr>, ud_aborted = False\<rparr>"

definition test_server :: "nat list \<Rightarrow> byte list \<Rightarrow> my_user_data wslay_event_context" where
  "test_server seq ds = (fresh_context mem_unlimited (test_user seq ds))\<lparr>ec_server := True\<rparr>"

definition text_job :: wslay_event_fragmented_msg where
  "text_job = \<lparr>ef_opcode = WSLAY_TEXT_FRAME, ef_source = SourceData 0, ef_read_callback = 0\<rparr>"

definition test_sender :: "nat list \<Rightarrow> byte list \<Rightarrow> my_user_data wslay_event_context" where
  "test_sender seq ds = snd (wslay_event_queue_fragmented_msg (test_server seq ds) text_job)"

lemma test_user_ok:
  assumes "sum_list seq \<le> length ds" "length ds \<le> 8192"
  shows "ud_ok (test_user seq ds)" "ud_wire (test_user seq ds) = []" "ud_src (test_user seq ds) = ds"
  using assms by (simp_all add: ud_ok_def ud_wire_def ud_src_def test_user_def df_ok_def df_stream_def scripted_data_feed_init_def arr_slice_def write_at_def)

lemma test_sender:
  "queue_inv (ec_send_queue (test_sender seq ds))" "queue_inv (ec_send_ctrl_queue (test_sender seq ds))"
  "queue_list (ec_send_queue (test_sender seq ds)) = [fragmented_msg text_job]" "queue_list (ec_send_ctrl_queue (test_sender seq ds)) = []"
  "ec_omsg (test_sender seq ds) = None" "ec_write_enabled (test_sender seq ds)" "ec_obuflimit (test_sender seq ds) = 0"
  "ec_obufmark (test_sender seq ds) = 0" "ec_user_data (test_sender seq ds) = test_user seq ds"
  "ec_frame_ctx (test_sender seq ds) = wslay_frame_context_init" "ec_server (test_sender seq ds) = True"
proof -
  have e: "wslay_event_queue_fragmented_msg (test_server seq ds) text_job = (fst (wslay_event_queue_fragmented_msg (test_server seq ds) text_job), test_sender seq ds)"
    by (simp add: test_sender_def)
  have op: "ob_open (outbox_of (test_server seq ds))" "outbox_inv (test_server seq ds)" "\<not> wslay_is_ctrl_frame (ef_opcode text_job)"
    by (simp_all add: outbox_of_def outbox_inv_def wslay_event_is_msg_queueable_def test_server_def fresh_context_def text_job_def wslay_is_ctrl_frame_def)
  have "outbox_inv (test_sender seq ds) \<and> queued_or_nomem (fragmented_msg text_job) (test_server seq ds) (fst (wslay_event_queue_fragmented_msg (test_server seq ds) text_job)) (test_sender seq ds)"
    using queue_fragmented_msg_spec [OF op(2) e] op by auto
  then have s: "outbox_inv (test_sender seq ds)" "outbox_only (test_server seq ds) (test_sender seq ds)"
      "outbox_of (test_sender seq ds) = outbox_put (fragmented_msg text_job) (outbox_of (test_server seq ds))"
    by (auto simp: queued_or_nomem_def test_server_def fresh_context_def mem_unlimited_def)
  show "ec_user_data (test_sender seq ds) = test_user seq ds"
    by (simp add: test_sender_def test_server_def fresh_context_def)
  have rp: "recv_part (test_sender seq ds) = recv_part (test_server seq ds)" by (simp add: test_sender_def)
  show "ec_frame_ctx (test_sender seq ds) = wslay_frame_context_init" "ec_server (test_sender seq ds) = True"
    using recv_part_simps(7,9) [OF rp] by (simp_all add: test_server_def fresh_context_def)
  have so: "sans_outbox (test_sender seq ds) = sans_outbox (test_server seq ds)" using s(2) by (simp add: outbox_only_def)
  show "ec_omsg (test_sender seq ds) = None" "ec_write_enabled (test_sender seq ds)" "ec_obuflimit (test_sender seq ds) = 0" "ec_obufmark (test_sender seq ds) = 0"
    using arg_cong [OF so, of ec_omsg] arg_cong [OF so, of ec_write_enabled] arg_cong [OF so, of ec_obuflimit] arg_cong [OF so, of ec_obufmark]
    by (simp_all add: sans_outbox_def test_server_def fresh_context_def)
  show "queue_inv (ec_send_queue (test_sender seq ds))" "queue_inv (ec_send_ctrl_queue (test_sender seq ds))" using s(1) by (simp_all add: outbox_inv_def)
  show "queue_list (ec_send_queue (test_sender seq ds)) = [fragmented_msg text_job]" "queue_list (ec_send_ctrl_queue (test_sender seq ds)) = []"
    using arg_cong [OF s(3), of ob_data] arg_cong [OF s(3), of ob_ctrl] op(3)
    by (simp_all add: outbox_put_def Let_def outbox_of_def fragmented_msg_def text_job_def test_server_def fresh_context_def)
qed

lemma test_sender_job:
  assumes "sum_list seq \<le> length ds" "length ds \<le> 8192"
  shows "fragment_job ud_wire ud_ok ud_src [] (fragmented_msg text_job) (test_sender seq ds)"
  using test_sender test_user_ok [OF assms] init_send(1)
  by (intro fragment_job_waiting)
    (simp_all add: queue_empty_iff frag_msg_def fragmented_msg_def text_job_def wslay_is_ctrl_frame_def wslay_frame_context_init_def)

abbreviation hello_text :: "byte list" where
  "hello_text \<equiv> [0x48, 0x65, 0x6c, 0x6c, 0x6f]"

theorem wslay_event_send_fragments_witness:
  "\<exists>r c. wslay_event_send (test_callbacks accumulator_send_callback) (test_sender [3, 2] hello_text) = Some (Inr r, c) \<and>
    frag_outcome ud_wire ud_ok ud_src [] (fragmented_msg text_job) (test_sender [3, 2] hello_text) r c"
  by (rule wslay_event_send_fragments [OF test_app.event_feed_axioms test_sender_job]) simp_all

section \<open>Across\<close>

lemma fragments_msg_frames:
  assumes "fragments srv op True fs"
  shows "msg_frames (\<not> srv) (unat (op AND 0xf)) fs"
  using assms
proof (induction fs arbitrary: op)
  case (Cons f fs)
  have "fr_opcode f < 16" "of_nat (fr_opcode f) = op AND 0xf" using Cons.prems by (auto simp: rfc_valid_def)
  then have "fr_opcode f = unat (op AND 0xf)" by (simp flip: \<open>of_nat (fr_opcode f) = op AND 0xf\<close> add: unat_of_nat)
  then show ?case using Cons.prems Cons.IH [of WSLAY_CONTINUATION_FRAME] by auto
qed simp

text \<open>A receiver between two messages.\<close>

definition between_messages :: "('u \<Rightarrow> byte list) \<Rightarrow> ('u \<Rightarrow> bool) \<Rightarrow> 'u wslay_event_context \<Rightarrow> bool" where
  "between_messages stream ok ctx \<longleftrightarrow> idle ctx \<and> ok (ec_user_data ctx) \<and> ec_read_enabled ctx \<and> fc_inv (ec_frame_ctx ctx) \<and>
     frame_boundary (ec_frame_ctx ctx) \<and> \<not> wslay_event_config_get_no_buffering ctx \<and> (\<forall>n. mem_ok (ec_mem ctx) n)"

lemma between_messages_receiving:
  assumes b: "between_messages stream ok ctx" and w: "window (ec_frame_ctx ctx) @ stream (ec_user_data ctx) = wire_bytes fs @ rest"
    and fs: "msg_frames (ec_server ctx) op fs" "data_opcode op" "length (payloads fs) \<le> unat (ec_max_recv_msg_length ctx)"
  shows "receiving stream ok op fs 0 [] rest ctx"
proof -
  obtain f fs' where f: "fs = f # fs'" "fr_opcode f = op" using fs(1) by (cases fs) auto
  have "msg_state op f 0 [] ctx" using b f(2) fs(2) by (auto simp: between_messages_def msg_state_def utf8_after_def data_opcode_def)
  then show ?thesis
    using b w fs f by (auto simp: receiving_def between_messages_def recv_sync_def at_header1_def frame_boundary_def)
qed

text \<open>C4. A fragmented message crosses the connection. One endpoint sends a text or binary message in fragments and its
  \<open>wslay_event_send\<close> reports that it is complete; the other endpoint, of the opposite role, has between two messages exactly those bytes
  ahead. Then \<open>wslay_event_recv\<close> there calls \<open>on_msg_recv_callback\<close> once with the opcode and the whole message,
  whatever the fragments, the masks and the cuts of the network (or stops inside that message for want of input, or closes with
  1007 if it is a text that is not UTF-8).\<close>

theorem fragmented_message_crosses:
  assumes "event_feed cbs wire ok src" "fragment_job wire ok src [] m ctx" "data_opcode (unat (om_opcode m))"
    and "wslay_event_send cbs ctx = Some (Inr 0, d)" "ec_omsg d = None"
    and "event_peer cbs' stream ok'" "ev_on_msg_recv_callback cbs' = Some h" "between_messages stream ok' peer"
    and "ec_server peer = (\<not> ec_server ctx)" "length (unsent src ctx) \<le> unat (ec_max_recv_msg_length peer)"
    and "window (ec_frame_ctx peer) @ stream (ec_user_data peer) = wire (ec_user_data d)"
  shows "\<exists>c. message_received cbs' h stream ok' (unat (om_opcode m)) (unsent src ctx) [] peer c"
proof -
  obtain fs where fs: "fragments (ec_server ctx) (om_opcode m) True fs" "unsent src ctx = payloads fs" "wire (ec_user_data d) = wire_bytes fs"
    using fragments_sent [OF assms(1,2)] assms(4,5) by (auto simp: frag_outcome_def payloads_def wire_bytes_def)
  have "om_opcode m AND 0xf = om_opcode m"
  proof -
    have "om_opcode m = 1 \<or> om_opcode m = 2" using assms(3) by (auto simp: data_opcode_def word_unat_eq_iff)
    then show ?thesis by auto
  qed
  then have mf: "msg_frames (ec_server peer) (unat (om_opcode m)) fs" using fragments_msg_frames [OF fs(1)] assms(9) by simp
  have "receiving stream ok' (unat (om_opcode m)) fs 0 [] [] peer"
    by (rule between_messages_receiving [OF assms(8) _ mf assms(3)]) (use assms(10,11) fs(2,3) in simp_all)
  from event_peer.recv_message_loop [OF assms(6) this assms(7)] show ?thesis by (simp add: whole_def fs(2))
qed

section \<open>An empty source\<close>

text \<open>C35. A source that has nothing left and says so, \<open>*eof = 1\<close> with no byte stored, is not heard: \<open>wslay_event_send\<close> looks at \<open>eof\<close> only when
  bytes were stored. The call returns 0, nothing is sent, the message stays in progress and the connection still wants to write, so no
  data message queued after it is ever sent.\<close>

theorem wslay_event_send_ignores_empty_eof:
  assumes "ec_omsg ctx = Some m" "om_type m = WSLAY_FRAGMENTED" "om_fin m = 0" "om_read_callback m = Some cb"
    and "ec_obuflimit ctx = ec_obufmark ctx" "ec_write_enabled ctx" "wslay_queue_is_empty (ec_send_ctrl_queue ctx)"
    and "ev_read_callback cbs cb OBUF_SIZE (om_source m) ctx = (0, [], True, c)" "app_only ctx c"
  shows "wslay_event_send cbs ctx = Some (Inr 0, c) \<and> wslay_event_want_write c \<and> ec_omsg c = Some m \<and> ec_send_queue c = ec_send_queue ctx"
proof -
  have c: "c = ctx\<lparr>ec_user_data := ec_user_data c, ec_error := ec_error c\<rparr>" using assms(9) by (simp add: app_only_def)
  have same: "ec_omsg c = Some m" "ec_write_enabled c" "ec_send_queue c = ec_send_queue ctx"
    using assms(1,6) by (subst c, simp)+
  have ww: "wslay_event_want_write ctx" "wslay_event_want_write c" using assms(1,6) same by (simp_all add: wslay_event_want_write_def)
  have "send_refill cbs m ctx = (Break, c)" using assms(3,4,5,8) by (simp add: send_refill_def write_at_def)
  then have "send_step cbs ctx = (Break, c)"
    using assms(1,2,7) by (simp add: send_step_def send_choose_def andthen_def send_fragmented_def)
  then show ?thesis using ww same by (subst wslay_event_send.simps) simp
qed

text \<open>The source of the tests, empty.\<close>

definition stalled_sender :: "my_user_data wslay_event_context" where
  "stalled_sender = (test_server [0] [])\<lparr>ec_omsg := Some (fragmented_msg text_job)\<rparr>"

theorem wslay_event_send_ignores_empty_eof_witness:
  "\<exists>c. wslay_event_send (test_callbacks accumulator_send_callback) stalled_sender = Some (Inr 0, c) \<and> wslay_event_want_write c \<and>
    ud_wire (ec_user_data c) = []"
proof -
  let ?ud = "test_user [0] []" and ?m = "fragmented_msg text_job"
  define c where "c = stalled_sender\<lparr>ec_user_data := ?ud\<lparr>ud_source := df_advance 0 OBUF_SIZE (ud_source ?ud)\<rparr>\<rparr>"
  have u: "ec_user_data stalled_sender = ?ud" by (simp add: stalled_sender_def test_server_def fresh_context_def)
  have n: "df_next (ud_source ?ud) = 0" by (simp add: df_next_def test_user_def scripted_data_feed_init_def)
  have rd: "ev_read_callback (test_callbacks accumulator_send_callback) 0 OBUF_SIZE (om_source ?m) stalled_sender = (0, [], True, c)"
    by (simp add: test_callbacks_def test_read_callback_def Let_def u n c_def arr_slice_def)
      (simp add: df_advance_def test_user_def scripted_data_feed_init_def)
  have "wslay_event_send (test_callbacks accumulator_send_callback) stalled_sender = Some (Inr 0, c) \<and> wslay_event_want_write c \<and>
      ec_omsg c = Some ?m \<and> ec_send_queue c = ec_send_queue stalled_sender"
    by (rule wslay_event_send_ignores_empty_eof [OF _ _ _ _ _ _ _ rd])
      (simp_all add: stalled_sender_def test_server_def fresh_context_def fragmented_msg_def text_job_def app_only_def c_def queue_empty_iff)
  moreover have "ud_wire (ec_user_data c) = []" by (simp add: c_def ud_wire_def test_user_def)
  ultimately show ?thesis by blast
qed

section \<open>The witness of the crossing\<close>

lemmas run_defs = send_step_def send_choose_def andthen_def send_fragmented_def send_refill_def test_callbacks_def test_read_callback_def Let_def
  df_next_def df_advance_def send_fragment_def call_frame_send_def wslay_frame_send_def wslay_frame_prep_header_def wslay_is_ctrl_frame_def
  wslay_frame_put_length_def event_frame_callbacks_def wslay_event_frame_send_callback_def wslay_frame_send_header_def arr_slice_def
  accumulator_send_callback_def ACC_SIZE_def accumulate_def wslay_frame_send_payload_def wslay_frame_send_data_def write_at_def

lemma replicate_header: "replicate OHEADER_SIZE (0 :: byte) = 0 # 0 # replicate 12 0"
  by (simp add: eval_nat_numeral)

definition hello_source :: "nat \<Rightarrow> nat \<Rightarrow> byte list \<Rightarrow> scripted_data_feed" where
  "hello_source mark idx z = \<lparr>df_data = hello_text @ z, df_datamark = mark, df_datalimit = 5, df_feedseq = [3, 2], df_seqidx = idx\<rparr>"

text \<open>The run of the test: two rounds, a frame each.\<close>

lemma hello_first:
  assumes "ec_omsg ctx = Some (fragmented_msg text_job)" "ec_server ctx = True" "ec_obuflimit ctx = 0" "ec_obufmark ctx = 0"
    "fc_ostate (ec_frame_ctx ctx) = PREP_HEADER" "fc_omask (ec_frame_ctx ctx) = 0" "wslay_queue_is_empty (ec_send_ctrl_queue ctx)"
    "ec_user_data ctx = \<lparr>ud_df = d, ud_acc = \<lparr>acc_buf = ab, acc_length = 0\<rparr>, ud_source = hello_source 0 0 z, ud_aborted = False\<rparr>"
  shows "\<exists>c ab'. send_step (test_callbacks accumulator_send_callback) ctx = (Go, c) \<and> ec_omsg c = Some ((fragmented_msg text_job)\<lparr>om_opcode := 0\<rparr>) \<and>
    ec_server c = True \<and> ec_obuflimit c = 0 \<and> ec_obufmark c = 0 \<and> fc_ostate (ec_frame_ctx c) = PREP_HEADER \<and> fc_omask (ec_frame_ctx c) = 0 \<and>
    ec_send_ctrl_queue c = ec_send_ctrl_queue ctx \<and> ec_send_queue c = ec_send_queue ctx \<and> ec_write_enabled c = ec_write_enabled ctx \<and>
    ec_user_data c = \<lparr>ud_df = d, ud_acc = \<lparr>acc_buf = [1, 3, 0x48, 0x65, 0x6c] @ ab', acc_length = 5\<rparr>, ud_source = hello_source 3 1 z, ud_aborted = False\<rparr>"
  using assms by (simp add: run_defs replicate_header fragmented_msg_def text_job_def hello_source_def)

lemma hello_second:
  assumes "ec_omsg ctx = Some ((fragmented_msg text_job)\<lparr>om_opcode := 0\<rparr>)" "ec_server ctx = True" "ec_obuflimit ctx = 0" "ec_obufmark ctx = 0"
    "fc_ostate (ec_frame_ctx ctx) = PREP_HEADER" "fc_omask (ec_frame_ctx ctx) = 0" "wslay_queue_is_empty (ec_send_ctrl_queue ctx)"
    "ec_user_data ctx = \<lparr>ud_df = d, ud_acc = \<lparr>acc_buf = [1, 3, 0x48, 0x65, 0x6c] @ ab, acc_length = 5\<rparr>, ud_source = hello_source 3 1 z, ud_aborted = False\<rparr>"
  shows "\<exists>c ab'. send_step (test_callbacks accumulator_send_callback) ctx = (Go, c) \<and> ec_omsg c = None \<and>
    ec_send_ctrl_queue c = ec_send_ctrl_queue ctx \<and> ec_send_queue c = ec_send_queue ctx \<and>
    ud_wire (ec_user_data c) = [1, 3, 0x48, 0x65, 0x6c, 0x80, 2, 0x6c, 0x6f]"
  using assms by (simp add: run_defs replicate_header fragmented_msg_def text_job_def hello_source_def ud_wire_def)

lemma hello_run:
  "\<exists>d. wslay_event_send (test_callbacks accumulator_send_callback) (test_sender [3, 2] hello_text) = Some (Inr 0, d) \<and> ec_omsg d = None \<and>
    ud_wire (ec_user_data d) = [1, 3, 0x48, 0x65, 0x6c, 0x80, 2, 0x6c, 0x6f]"
proof -
  let ?cbs = "test_callbacks accumulator_send_callback"
  obtain c where c: "wslay_event_send ?cbs (test_sender [3, 2] hello_text) = wslay_event_send ?cbs c" "fragmenting ud_wire ud_ok ud_src [] (fragmented_msg text_job) c"
      "wslay_queue_is_empty (ec_send_queue c)" "wslay_queue_is_empty (ec_send_ctrl_queue c)" "ec_server c"
      "ec_obuflimit c = 0" "ec_user_data c = test_user [3, 2] hello_text" "ec_frame_ctx c = wslay_frame_context_init"
    using fragment_job_starts [OF test_sender_job [of "[3, 2]" hello_text], of ?cbs] test_sender(7,9-11) by auto
  have f: "ec_omsg c = Some (fragmented_msg text_job)" "ec_write_enabled c" "ec_obufmark c = 0"
    using c(2,6) by (simp_all add: fragmenting_def)
  have src: "ud_source (ec_user_data c) = hello_source 0 0 (drop 5 (replicate 8192 0))"
    by (simp add: c(7) test_user_def scripted_data_feed_init_def hello_source_def write_at_def)
  obtain c1 ab1 where s1: "send_step ?cbs c = (Go, c1)" "ec_omsg c1 = Some ((fragmented_msg text_job)\<lparr>om_opcode := 0\<rparr>)" "ec_server c1 = True"
      "ec_obuflimit c1 = 0" "ec_obufmark c1 = 0" "fc_ostate (ec_frame_ctx c1) = PREP_HEADER" "fc_omask (ec_frame_ctx c1) = 0"
      "ec_send_ctrl_queue c1 = ec_send_ctrl_queue c" "ec_send_queue c1 = ec_send_queue c" "ec_write_enabled c1 = ec_write_enabled c"
      "ec_user_data c1 = \<lparr>ud_df = scripted_data_feed_init [], ud_acc = \<lparr>acc_buf = [1, 3, 0x48, 0x65, 0x6c] @ ab1, acc_length = 5\<rparr>,
         ud_source = hello_source 3 1 (drop 5 (replicate 8192 0)), ud_aborted = False\<rparr>"
    using hello_first [of c "scripted_data_feed_init []" "replicate ACC_SIZE 0" "drop 5 (replicate 8192 0)"] c(4-8) f src
    by (auto simp: wslay_frame_context_init_def test_user_def)
  obtain d where s2: "send_step ?cbs c1 = (Go, d)" "ec_omsg d = None" "ec_send_ctrl_queue d = ec_send_ctrl_queue c1"
      "ec_send_queue d = ec_send_queue c1" "ud_wire (ec_user_data d) = [1, 3, 0x48, 0x65, 0x6c, 0x80, 2, 0x6c, 0x6f]"
    using hello_second [OF s1(2-7) _ s1(11)] c(4) s1(8) by auto
  have ww: "wslay_event_want_write c" "wslay_event_want_write c1" "\<not> wslay_event_want_write d"
    using f s1(2,8-10) s2(2-4) c(3,4) by (simp_all add: wslay_event_want_write_def)
  have "wslay_event_send ?cbs c = wslay_event_send ?cbs c1" "wslay_event_send ?cbs c1 = wslay_event_send ?cbs d"
      "wslay_event_send ?cbs d = Some (Inr 0, d)"
    using ww s1(1) s2(1) by (subst wslay_event_send.simps; simp)+
  then show ?thesis using c(1) s2(2,5) by auto
qed

definition reading_client :: "scripted_data_feed \<Rightarrow> scripted_data_feed Session wslay_event_context" where
  "reading_client w = (echo_server w)\<lparr>ec_server := False\<rparr>"

theorem fragmented_message_crosses_witness:
  "\<exists>c. message_received (echo_callbacks feed_os) echo_on_msg_recv_callback (echo_stream df_stream) (echo_ok df_ok) 1 hello_text []
     (reading_client ((scripted_data_feed_init [1, 3, 0x48, 0x65, 0x6c, 0x80, 2, 0x6c, 0x6f])\<lparr>df_feedseq := [4, 5]\<rparr>)) c"
proof -
  let ?w = "(scripted_data_feed_init [1, 3, 0x48, 0x65, 0x6c, 0x80, 2, 0x6c, 0x6f])\<lparr>df_feedseq := [4, 5]\<rparr>"
  let ?p = "reading_client ?w"
  obtain d where d: "wslay_event_send (test_callbacks accumulator_send_callback) (test_sender [3, 2] hello_text) = Some (Inr 0, d)" "ec_omsg d = None"
      "ud_wire (ec_user_data d) = [1, 3, 0x48, 0x65, 0x6c, 0x80, 2, 0x6c, 0x6f]" using hello_run by blast
  have w: "df_ok ?w" "df_stream ?w = [1, 3, 0x48, 0x65, 0x6c, 0x80, 2, 0x6c, 0x6f]"
    by (simp_all add: df_ok_def df_stream_def scripted_data_feed_init_def arr_slice_def write_at_def)
  have op: "unat (om_opcode (fragmented_msg text_job)) = 1" by (simp add: fragmented_msg_def text_job_def)
  have un: "unsent ud_src (test_sender [3, 2] hello_text) = hello_text"
    using test_user_ok(3) [of "[3, 2]" hello_text] test_sender(7,9) by (simp add: unsent_def obuf_data_def)
  have b: "between_messages (echo_stream df_stream) (echo_ok df_ok) ?p"
    using echo_server_ready(1) [of ?w] w(1) init_window(1)
    by (auto simp: between_messages_def reading_client_def idle_def echo_server_simps wslay_event_config_get_no_buffering_def frame_boundary_def wslay_frame_context_init_def)
  have p: "ec_server ?p = (\<not> ec_server (test_sender [3, 2] hello_text))" "length hello_text \<le> unat (ec_max_recv_msg_length ?p)"
      "window (ec_frame_ctx ?p) @ echo_stream df_stream (ec_user_data ?p) = ud_wire (ec_user_data d)"
    using test_sender(11) w(2) d(3) init_window(2) max_length [of 5] by (simp_all add: reading_client_def echo_server_simps)
  have len: "length (unsent ud_src (test_sender [3, 2] hello_text)) \<le> unat (ec_max_recv_msg_length ?p)"
    unfolding un by (rule p(2))
  have "\<exists>c. message_received (echo_callbacks feed_os) echo_on_msg_recv_callback (echo_stream df_stream) (echo_ok df_ok)
      (unat (om_opcode (fragmented_msg text_job))) (unsent ud_src (test_sender [3, 2] hello_text)) [] ?p c"
    by (rule fragmented_message_crosses [OF test_app.event_feed_axioms test_sender_job _ d(1,2) feed_socket.echo_peer _ b p(1) len p(3)])
      (simp_all add: op data_opcode_def echo_callbacks_def)
  then show ?thesis unfolding op un .
qed

end
