(* ===== verification/Wslay_Http.thy ===== *)
theory Wslay_Http
  imports Wslay_Prelude "HOL-Library.Sublist"
begin

text \<open>
  Strings as the examples use them for the HTTP handshake: byte lists, C strings in memory (\<open>strlen\<close>, \<open>strstr\<close>) and the
  searches of \<open>std::string\<close>.

  \<^item> A \<open>char *\<close> is an offset into the array it points into. A C string that has no terminator within its array is a
    \<open>BufferOverflow\<close>.
  \<^item> \<open>std::string::find\<close> returns \<open>None\<close> for \<open>npos\<close>.
\<close>

abbreviation (input) CR :: byte where "CR \<equiv> 0x0d"
abbreviation (input) LF :: byte where "LF \<equiv> 0x0a"
abbreviation (input) CRLF :: "byte list" where "CRLF \<equiv> [0x0d, 0x0a]"

definition ascii :: "string \<Rightarrow> byte list" where
  "ascii s = map of_char s"

lemma ascii_append: "ascii (xs @ ys) = ascii xs @ ascii ys"
  by (simp add: ascii_def)

section \<open>Searching\<close>

text \<open>The first offset at which \<open>pat\<close> stands.\<close>

fun find_sub :: "'a list \<Rightarrow> 'a list \<Rightarrow> nat option" where
  "find_sub pat [] = (if pat = [] then Some 0 else None)"
| "find_sub pat (x # xs) = (if take (length pat) (x # xs) = pat then Some 0 else map_option Suc (find_sub pat xs))"

definition occurs :: "'a list \<Rightarrow> 'a list \<Rightarrow> nat \<Rightarrow> bool" where
  "occurs pat s i \<longleftrightarrow> i \<le> length s \<and> take (length pat) (drop i s) = pat"

lemma occurs_0: "occurs pat (x # xs) 0 \<longleftrightarrow> take (length pat) (x # xs) = pat"
  by (simp add: occurs_def)

lemma occurs_Suc [simp]: "occurs pat (x # xs) (Suc i) \<longleftrightarrow> occurs pat xs i"
  by (simp add: occurs_def)

lemma occurs_bound: "occurs pat s i \<Longrightarrow> i + length pat \<le> length s"
  by (auto simp: occurs_def dest!: arg_cong [where f = length])

lemma occurs_Nil: "occurs pat [] i \<longleftrightarrow> i = 0 \<and> pat = []"
  by (auto simp: occurs_def)

lemma find_sub_Some: "find_sub pat s = Some i \<longleftrightarrow> occurs pat s i \<and> (\<forall>j < i. \<not> occurs pat s j)"
proof (induction s arbitrary: i)
  case Nil
  then show ?case by (auto simp: occurs_Nil)
next
  case (Cons x s)
  show ?case
  proof (cases i)
    case 0
    then show ?thesis by (auto simp: occurs_0)
  next
    case (Suc k)
    then show ?thesis by (auto simp: Cons.IH occurs_0 All_less_Suc2)
  qed
qed

lemma find_sub_None: "find_sub pat s = None \<longleftrightarrow> (\<forall>i. \<not> occurs pat s i)"
proof (induction s)
  case Nil
  then show ?case by (auto simp: occurs_Nil)
next
  case (Cons x s)
  have "(\<forall>i. \<not> occurs pat (x # s) i) \<longleftrightarrow> \<not> occurs pat (x # s) 0 \<and> (\<forall>i. \<not> occurs pat s i)"
    by (metis occurs_Suc not0_implies_Suc)
  then show ?case using Cons by (auto simp: occurs_0)
qed

lemma find_sub_bound: "find_sub pat s = Some i \<Longrightarrow> i + length pat \<le> length s"
  using occurs_bound by (auto simp: find_sub_Some)

text \<open>A search does not stop in a text without the first character of the pattern.\<close>

lemma find_sub_skip:
  assumes "c \<notin> set xs"
  shows "find_sub (c # pat) (xs @ ys) = map_option ((+) (length xs)) (find_sub (c # pat) ys)"
  using assms by (cases "find_sub (c # pat) ys") (induction xs; auto)+

lemma find_sub_here [simp]: "find_sub pat (pat @ ys) = Some 0"
  by (simp add: find_sub_Some occurs_def)

lemma find_sub_append:
  assumes "find_sub pat xs = Some i"
  shows "find_sub pat (xs @ ys) = Some i"
proof -
  have "occurs pat (xs @ ys) j = occurs pat xs j" if "j + length pat \<le> length xs" for j
    using that by (simp add: occurs_def)
  moreover have "i + length pat \<le> length xs" using find_sub_bound [OF assms] .
  ultimately show ?thesis using assms by (auto simp: find_sub_Some)
qed

text \<open>\<open>s.find (pat, pos)\<close>\<close>

definition find_from :: "'a list \<Rightarrow> 'a list \<Rightarrow> nat \<Rightarrow> nat option" where
  "find_from s pat pos = (if pos \<le> length s then map_option ((+) pos) (find_sub pat (drop pos s)) else None)"

section \<open>C strings\<close>

definition c_string :: "byte list \<Rightarrow> nat \<Rightarrow> byte list option" where
  "c_string mem p = (if 0 \<in> set (drop p mem) then Some (takeWhile (\<lambda>b. b \<noteq> 0) (drop p mem)) else None)"

definition strlen :: "byte list \<Rightarrow> nat \<Rightarrow> fault + nat" where
  "strlen mem p = (case c_string mem p of None \<Rightarrow> Inl BufferOverflow | Some s \<Rightarrow> Inr (length s))"

definition strstr :: "byte list \<Rightarrow> nat \<Rightarrow> byte list \<Rightarrow> fault + nat option" where
  "strstr mem p pat = (case c_string mem p of None \<Rightarrow> Inl BufferOverflow | Some s \<Rightarrow> Inr (map_option ((+) p) (find_sub pat s)))"

text \<open>A string in memory.\<close>

lemma c_string_drop:
  assumes "c_string mem 0 = Some s" "p \<le> length s"
  shows "c_string mem p = Some (drop p s)"
proof -
  obtain z where z: "mem = s @ 0 # z" "0 \<notin> set s"
  proof -
    have "0 \<in> set mem" "s = takeWhile (\<lambda>b. b \<noteq> 0) mem" using assms(1) by (auto simp: c_string_def split: if_splits)
    then have "mem = s @ 0 # tl (dropWhile (\<lambda>b. b \<noteq> 0) mem)" "0 \<notin> set s"
      by (auto dest: set_takeWhileD)
        (metis (mono_tags, lifting) dropWhile_eq_Nil_conv hd_dropWhile list.collapse takeWhile_dropWhile_id)
    then show thesis using that by blast
  qed
  then have "0 \<notin> set (drop p s)" by (meson in_set_dropD)
  then have "takeWhile (\<lambda>b. b \<noteq> 0) (drop p s @ 0 # z) = drop p s" by (subst takeWhile_append2) auto
  then show ?thesis using z assms(2) by (simp add: c_string_def)
qed

lemma c_string_nth:
  assumes "c_string mem 0 = Some s"
  shows "length s < length mem" "i < length s \<Longrightarrow> mem ! i = s ! i" "mem ! length s = 0" "0 \<notin> set s"
proof -
  have m: "0 \<in> set mem" "s = takeWhile (\<lambda>b. b \<noteq> 0) mem" using assms by (auto simp: c_string_def split: if_splits)
  show l: "length s < length mem"
    using m by (metis (mono_tags, lifting) length_takeWhile_le nat_less_le takeWhile_eq_all_conv takeWhile_eq_take take_all_iff order_refl)
  show "i < length s \<Longrightarrow> mem ! i = s ! i" using m(2) by (simp add: takeWhile_nth)
  show "mem ! length s = 0" using nth_length_takeWhile [of "\<lambda>b. b \<noteq> 0" mem] l m(2) by auto
  show "0 \<notin> set s" using m(2) by (auto dest: set_takeWhileD)
qed

lemma c_string_data:
  assumes "0 \<notin> set s"
  shows "c_string (s @ 0 # z) 0 = Some s"
proof -
  have "takeWhile (\<lambda>b. b \<noteq> 0) (s @ 0 # z) = s" using assms by (subst takeWhile_append2) auto
  then show ?thesis by (simp add: c_string_def)
qed

lemma strstr_at:
  assumes "c_string mem 0 = Some s" "p \<le> length s"
  shows "strstr mem p pat = Inr (find_from s pat p)"
  using c_string_drop [OF assms] assms(2) by (simp add: strstr_def find_from_def)

text \<open>\<open>isalnum\<close> in the C locale.\<close>

definition isalnum :: "byte \<Rightarrow> bool" where
  "isalnum b \<longleftrightarrow> 0x30 \<le> b \<and> b \<le> 0x39 \<or> 0x41 \<le> b \<and> b \<le> 0x5a \<or> 0x61 \<le> b \<and> b \<le> 0x7a"

end
