(* ===== verification/Wslay_Handshake.thy ===== *)
theory Wslay_Handshake
  imports Wslay_Echo_Loop Wslay_Http Wslay_Context
begin

text \<open>
  The HTTP handshake of \<open>examples/fork-echoserv.c\<close>: reading the request into a fixed buffer, the search for header fields in it,
  the accept key, the response; and \<open>communicate\<close>, which puts it before the event loop of \<open>Wslay_Echo\<close>.

  \<^item> \<open>read (2)\<close>, \<open>write (2)\<close> and \<open>fcntl (2)\<close> (\<open>F_GETFL\<close>, \<open>F_SETFL\<close>), repeated while they fail with \<open>EINTR\<close>, and \<open>setsockopt (2)\<close>
    with \<open>TCP_NODELAY\<close> are parameters, like the other system calls; the locale \<open>file_os\<close> says what they promise.
  \<^item> \<open>sha1\<close> and \<open>base64\<close> call the library nettle: they are parameters, functions on bytes.
  \<^item> \<open>header\<close> is an array on the stack that nothing initialises: its first contents, \<open>junk\<close>, are arbitrary.
\<close>

section \<open>The calls\<close>

record 'o file_calls =
  fl_read :: "int \<Rightarrow> nat \<Rightarrow> 'o \<Rightarrow> int \<times> byte list \<times> errno \<times> 'o"
  fl_write :: "int \<Rightarrow> byte list \<Rightarrow> 'o \<Rightarrow> int \<times> errno \<times> 'o"
  fl_getfl :: "int \<Rightarrow> 'o \<Rightarrow> int \<times> 'o"
  fl_setfl :: "int \<Rightarrow> int \<Rightarrow> 'o \<Rightarrow> int \<times> 'o"
  fl_nodelay :: "int \<Rightarrow> 'o \<Rightarrow> int \<times> 'o"
  fl_O_NONBLOCK :: int

definition HEADER_SIZE :: nat where
  "HEADER_SIZE = 16384"

text \<open>A step that may run off an array.\<close>

fun fbind :: "fault + 'a \<Rightarrow> ('a \<Rightarrow> fault + 'b) \<Rightarrow> fault + 'b" where
  "fbind (Inl f) k = Inl f"
| "fbind (Inr x) k = k x"

section \<open>Header fields\<close>

text \<open>The loop of \<open>http_header_find_field_value\<close>: from one occurrence of the name to the next, until one starts a line and is followed by
  a colon. \<open>len\<close> is \<open>strlen (header)\<close>.\<close>

lemma strstr_bound: "strstr mem p pat = Inr (Some q) \<Longrightarrow> p \<le> q \<and> q < length mem"
proof -
  assume a: "strstr mem p pat = Inr (Some q)"
  then obtain s i where s: "c_string mem p = Some s" "find_sub pat s = Some i" "q = p + i" by (auto simp: strstr_def split: option.splits)
  have "c_string (drop p mem) 0 = Some s" using s(1) unfolding c_string_def drop_0 .
  then have "length s < length (drop p mem)" by (rule c_string_nth(1))
  then show ?thesis using s(3) find_sub_bound [OF s(2)] by simp
qed

function find_field :: "byte list \<Rightarrow> nat \<Rightarrow> byte list \<Rightarrow> nat \<Rightarrow> fault + nat option" where
  "find_field header len name field_start =
     (case strstr header (field_start + 1) name of
        Inl f \<Rightarrow> Inl f
      | Inr None \<Rightarrow> Inr None
      | Inr (Some p) \<Rightarrow>
          if p \<ge> 2 \<and> header ! (p - 2) = CR \<and> header ! (p - 1) = LF \<and>
             int len - 1 - (int p + int (length name) - 1) \<ge> 1 \<and> header ! (p + length name) = 0x3a
          then Inr (Some p)
          else find_field header len name p)"
  by pat_completeness auto
termination
  by (relation "measure (\<lambda>(header, len, name, p). length header - p)") (auto dest!: strstr_bound)

declare find_field.simps [simp del]

definition http_header_find_field_value :: "byte list \<Rightarrow> byte list \<Rightarrow> byte list option \<Rightarrow> fault + nat option" where
  "http_header_find_field_value header field_name value =
     fbind (strlen header 0) (\<lambda>len.
     fbind (find_field header len field_name 0) (\<lambda>field.
       case field of None \<Rightarrow> Inr None
       | Some field_start \<Rightarrow>
           fbind (strstr header field_start CRLF) (\<lambda>crlf.
             case crlf of None \<Rightarrow> Inr None
             | Some next_crlf \<Rightarrow>
                 (case value of None \<Rightarrow> Inr (Some (field_start + length field_name + 1))
                  | Some v \<Rightarrow>
                      fbind (strstr header field_start v) (\<lambda>vs.
                        case vs of None \<Rightarrow> Inr None
                        | Some value_start \<Rightarrow>
                            if value_start > next_crlf then Inr None
                            else if isalnum (header ! (value_start - 1)) \<or> isalnum (header ! (value_start + length v)) then Inr None
                            else Inr (Some value_start))))))"

text \<open>\<open>for (; P (*p); ++p);\<close>\<close>

function skip_while :: "(byte \<Rightarrow> bool) \<Rightarrow> byte list \<Rightarrow> nat \<Rightarrow> fault + nat" where
  "skip_while P mem p =
     (if p < length mem then if P (mem ! p) then skip_while P mem (p + 1) else Inr p
      else Inl BufferOverflow)"
  by pat_completeness auto
termination
  by (relation "measure (\<lambda>(P, mem, p). length mem - p)") auto

declare skip_while.simps [simp del]

section \<open>The request and the response\<close>

text \<open>Where the client's key is in a request that is accepted.\<close>

definition handshake_key :: "byte list \<Rightarrow> fault + nat option" where
  "handshake_key header =
     fbind (http_header_find_field_value header (ascii ''Upgrade'') (Some (ascii ''websocket''))) (\<lambda>u. if u = None then Inr None else
     fbind (http_header_find_field_value header (ascii ''Connection'') (Some (ascii ''Upgrade''))) (\<lambda>c. if c = None then Inr None else
     fbind (http_header_find_field_value header (ascii ''Sec-WebSocket-Key'') None) (\<lambda>k.
       case k of None \<Rightarrow> Inr None
       | Some p \<Rightarrow>
           fbind (skip_while (\<lambda>b. b = 0x20) header p) (\<lambda>keyhdstart.
           fbind (skip_while (\<lambda>b. b \<noteq> CR \<and> b \<noteq> 0x20) header keyhdstart) (\<lambda>keyhdend.
             Inr (if keyhdend - keyhdstart \<noteq> 24 then None else Some keyhdstart))))))"

definition WS_GUID :: "byte list" where
  "WS_GUID = ascii ''258EAFA5-E914-47DA-95CA-C5AB0DC85B11''"

text \<open>The string in \<open>accept_key\<close>: \<open>BASE64_ENCODE_RAW_LENGTH (20)\<close> is 28.\<close>

definition create_accept_key :: "(byte list \<Rightarrow> byte list) \<Rightarrow> (byte list \<Rightarrow> byte list) \<Rightarrow> byte list \<Rightarrow> byte list" where
  "create_accept_key sha1 base64 client_key =
     (let sha1buf = sha1 (take 24 client_key @ WS_GUID); dst = (write_at (replicate 29 0) 0 (base64 sha1buf))[28 := 0]
      in takeWhile (\<lambda>b. b \<noteq> 0) dst)"

definition handshake_response :: "byte list \<Rightarrow> byte list" where
  "handshake_response accept_key =
     ascii ''HTTP/1.1 101 Switching Protocols'' @ CRLF @ ascii ''Upgrade: websocket'' @ CRLF @ ascii ''Connection: Upgrade'' @ CRLF @
     ascii ''Sec-WebSocket-Accept: '' @ accept_key @ CRLF @ CRLF"

text \<open>\<open>snprintf\<close> into \<open>res_header[256]\<close> keeps 255 bytes at most.\<close>

definition res_header :: "byte list \<Rightarrow> byte list" where
  "res_header accept_key = take 255 (handshake_response accept_key)"

section \<open>The handshake\<close>

text \<open>\<open>None\<close> inside is the return of \<open>-1\<close>.\<close>

partial_function (option) handshake_read ::
    "'o file_calls \<Rightarrow> int \<Rightarrow> byte list \<Rightarrow> nat \<Rightarrow> 'o \<Rightarrow> ((byte list \<times> nat) option \<times> 'o) option" where
  "handshake_read fl fd header header_length w =
     (case fl_read fl fd (HEADER_SIZE - header_length) w of
        (r, bs, e, w') \<Rightarrow>
          if r = -1 \<or> r = 0 then Some (None, w')
          else (let header' = write_at header header_length bs; n = header_length + nat r
                in if n \<ge> 4 \<and> arr_slice header' (n - 4) n = CRLF @ CRLF then Some (Some (header', n), w')
                   else if n = HEADER_SIZE then Some (None, w')
                   else handshake_read fl fd header' n w'))"

text \<open>\<open>ds\<close> is \<open>res_header\<close> from \<open>res_header_sent\<close> on.\<close>

partial_function (option) handshake_write :: "'o file_calls \<Rightarrow> int \<Rightarrow> byte list \<Rightarrow> 'o \<Rightarrow> (bool \<times> 'o) option" where
  "handshake_write fl fd ds w =
     (if ds = [] then Some (True, w)
      else (case fl_write fl fd ds w of
              (r, e, w') \<Rightarrow> if r = -1 then Some (False, w') else handshake_write fl fd (drop (nat r) ds) w'))"

definition http_handshake ::
    "'o file_calls \<Rightarrow> (byte list \<Rightarrow> byte list) \<Rightarrow> (byte list \<Rightarrow> byte list) \<Rightarrow> int \<Rightarrow> byte list \<Rightarrow> 'o \<Rightarrow> ((fault + int) \<times> 'o) option" where
  "http_handshake fl sha1 base64 fd junk w =
     (case handshake_read fl fd junk 0 w of
        None \<Rightarrow> None
      | Some (None, w1) \<Rightarrow> Some (Inr (-1), w1)
      | Some (Some (header, header_length), w1) \<Rightarrow>
          (case handshake_key header of
             Inl f \<Rightarrow> Some (Inl f, w1)
           | Inr None \<Rightarrow> Some (Inr (-1), w1)
           | Inr (Some keyhdstart) \<Rightarrow>
               (case handshake_write fl fd (res_header (create_accept_key sha1 base64 (drop keyhdstart header))) w1 of
                  None \<Rightarrow> None
                | Some (sent, w2) \<Rightarrow> Some (Inr (if sent then 0 else -1), w2))))"

section \<open>A connection\<close>

definition make_non_block :: "'o file_calls \<Rightarrow> int \<Rightarrow> 'o \<Rightarrow> int \<times> 'o" where
  "make_non_block fl fd w =
     (case fl_getfl fl fd w of (flags, w1) \<Rightarrow>
        if flags = -1 then (-1, w1)
        else (case fl_setfl fl fd (flags OR fl_O_NONBLOCK fl) w1 of (r, w2) \<Rightarrow> if r = -1 then (-1, w2) else (0, w2)))"

text \<open>\<open>wslay_event_context_server_init\<close>, which the example calls, is \<open>wslay_server_new\<close> in this library; a context that could not be made is
  used all the same.\<close>

definition communicate ::
    "'o os_calls \<Rightarrow> 'o file_calls \<Rightarrow> (byte list \<Rightarrow> byte list) \<Rightarrow> (byte list \<Rightarrow> byte list) \<Rightarrow> allocator \<Rightarrow> int \<Rightarrow> byte list \<Rightarrow> 'o
       \<Rightarrow> ((fault + int) \<times> 'o) option" where
  "communicate os fl sha1 base64 mem fd junk w =
     (case http_handshake fl sha1 base64 fd junk w of
        None \<Rightarrow> None
      | Some (Inl f, w1) \<Rightarrow> Some (Inl f, w1)
      | Some (Inr r, w1) \<Rightarrow>
          if r = -1 then Some (Inr (-1), w1)
          else (case make_non_block fl fd w1 of (nb, w2) \<Rightarrow>
            if nb = -1 then Some (Inr (-1), w2)
            else (case fl_nodelay fl fd w2 of (so, w3) \<Rightarrow>
              if so = -1 then Some (Inr (-1), w3)
              else (case wslay_server_new mem \<lparr>se_fd = fd, se_os = w3\<rparr> of
                      None \<Rightarrow> Some (Inl NullDereference, w3)
                    | Some ctx \<Rightarrow> map_option (\<lambda>(res, c). (res, se_os (ec_user_data c))) (communicate_loop os (True, False) ctx)))))"

section \<open>What the search finds\<close>

text \<open>The line of a field: CRLF, the name and a colon.\<close>

definition field_line :: "byte list \<Rightarrow> byte list" where
  "field_line name = CRLF @ name @ [0x3a]"

lemma occurs_append: "occurs (xs @ ys) s i \<longleftrightarrow> occurs xs s i \<and> occurs ys s (i + length xs)"
proof
  assume a: "occurs (xs @ ys) s i"
  then have b: "i + length xs + length ys \<le> length s" using occurs_bound by fastforce
  have t: "take (length xs + length ys) (drop i s) = xs @ ys" using a by (simp add: occurs_def)
  have "take (length xs) (drop i s) = xs" using arg_cong [OF t, of "take (length xs)"] by simp
  moreover have "take (length ys) (drop (i + length xs) s) = ys"
    using arg_cong [OF t, of "drop (length xs)"] by (simp add: drop_take add.commute)
  ultimately show "occurs xs s i \<and> occurs ys s (i + length xs)" using b by (simp add: occurs_def)
next
  assume a: "occurs xs s i \<and> occurs ys s (i + length xs)"
  then have "take (length xs) (drop i s) @ take (length ys) (drop (length xs) (drop i s)) = xs @ ys"
    by (simp add: occurs_def add.commute)
  then show "occurs (xs @ ys) s i" using a by (simp add: occurs_def take_add)
qed

lemma occurs_single: "occurs [x] s i \<longleftrightarrow> i < length s \<and> s ! i = x"
  by (cases "i < length s") (auto simp: occurs_def take_Suc hd_drop_conv_nth)

lemma occurs_Cons: "occurs (x # xs) s i \<longleftrightarrow> i < length s \<and> s ! i = x \<and> occurs xs s (Suc i)"
  using occurs_append [of "[x]" xs s i] by (auto simp: occurs_single)

lemma occurs_field_line:
  "occurs (field_line name) s i \<longleftrightarrow> i < length s \<and> s ! i = CR \<and> Suc i < length s \<and> s ! Suc i = LF \<and> occurs name s (i + 2) \<and>
     i + 2 + length name < length s \<and> s ! (i + 2 + length name) = 0x3a"
proof -
  have c: "occurs CRLF s i \<longleftrightarrow> i < length s \<and> s ! i = CR \<and> Suc i < length s \<and> s ! Suc i = LF"
    unfolding occurs_Cons [of _ "[LF]"] occurs_single ..
  have n: "occurs (name @ [0x3a]) s (i + 2) \<longleftrightarrow> occurs name s (i + 2) \<and> i + 2 + length name < length s \<and> s ! (i + 2 + length name) = 0x3a"
    unfolding occurs_append occurs_single ..
  have "occurs (field_line name) s i \<longleftrightarrow> occurs CRLF s i \<and> occurs (name @ [0x3a]) s (i + 2)"
    unfolding field_line_def occurs_append [of CRLF] by simp
  then show ?thesis unfolding c n by blast
qed

lemma find_sub_least: "occurs pat s i \<Longrightarrow> (\<And>j. occurs pat s j \<Longrightarrow> i \<le> j) \<Longrightarrow> find_sub pat s = Some i"
  by (auto simp: find_sub_Some leD)

lemma find_from_Some:
  "find_from s pat p = Some q \<longleftrightarrow> p \<le> q \<and> occurs pat s q \<and> (\<forall>j. p \<le> j \<and> j < q \<longrightarrow> \<not> occurs pat s j)"
proof -
  have sh: "occurs pat (drop p s) i \<longleftrightarrow> occurs pat s (p + i)" if "p \<le> length s" for i
    using that by (auto simp: occurs_def add.commute)
  show ?thesis
  proof (cases "p \<le> length s")
    case False
    then show ?thesis by (auto simp: find_from_def occurs_def)
  next
    case True
    then have "find_from s pat p = Some q \<longleftrightarrow> (\<exists>i. q = p + i \<and> occurs pat s (p + i) \<and> (\<forall>j<i. \<not> occurs pat s (p + j)))"
      by (auto simp: find_from_def find_sub_Some sh)
    also have "\<dots> \<longleftrightarrow> p \<le> q \<and> occurs pat s q \<and> (\<forall>j. p \<le> j \<and> j < q \<longrightarrow> \<not> occurs pat s j)"
      by (auto simp: le_iff_add)
    finally show ?thesis .
  qed
qed

lemma find_from_None: "find_from s pat p = None \<longleftrightarrow> (\<forall>q. p \<le> q \<longrightarrow> \<not> occurs pat s q)"
proof -
  have sh: "occurs pat (drop p s) i \<longleftrightarrow> occurs pat s (p + i)" if "p \<le> length s" for i
    using that by (auto simp: occurs_def add.commute)
  show ?thesis
  proof (cases "p \<le> length s")
    case True
    then show ?thesis by (auto simp: find_from_def find_sub_None sh le_iff_add)
  qed (auto simp: find_from_def occurs_def)
qed

text \<open>The loop finds the first line of the field.\<close>

lemma find_field_first:
  assumes s: "c_string header 0 = Some s" and n: "name \<noteq> []" and p: "p < length s"
    and before: "\<And>j. occurs (field_line name) s j \<Longrightarrow> p < j + 2"
  shows "find_field header (length s) name p = Inr (map_option ((+) 2) (find_sub (field_line name) s))"
  using p before
proof (induction "length s - p" arbitrary: p rule: less_induct)
  case less
  note str = c_string_nth [OF s]
  have le: "p + 1 \<le> length s" using less.prems(1) by simp
  note ss = strstr_at [OF s le, of name]
  show ?case
    proof (cases "find_from s name (p + 1)")
      case None
      then have "\<not> occurs (field_line name) s i" for i
        using less.prems(2) [of i] by (auto simp: occurs_field_line find_from_None)
      then have "find_sub (field_line name) s = None" by (simp add: find_sub_None)
      then show ?thesis using ss None by (simp add: find_field.simps)
    next
      case (Some q)
      then have q: "p + 1 \<le> q" "occurs name s q" "\<And>j. p + 1 \<le> j \<Longrightarrow> j < q \<Longrightarrow> \<not> occurs name s j"
        by (auto simp: find_from_Some)
      have ql: "q + length name \<le> length s" using occurs_bound [OF q(2)] .
      have q1: "q < length s" using ql n by (cases name) auto
      have cond: "(q \<ge> 2 \<and> header ! (q - 2) = CR \<and> header ! (q - 1) = LF \<and>
             int (length s) - 1 - (int q + int (length name) - 1) \<ge> 1 \<and> header ! (q + length name) = 0x3a)
          \<longleftrightarrow> (\<exists>i. q = i + 2 \<and> occurs (field_line name) s i)"
        using q(2) q1 ql str(1,2,3) by (auto simp: occurs_field_line le_iff_add gr0_conv_Suc)
      show ?thesis
      proof (cases "\<exists>i. q = i + 2 \<and> occurs (field_line name) s i")
        case True
        then obtain i where i: "q = i + 2" "occurs (field_line name) s i" by blast
        have r: "find_field header (length s) name p = Inr (Some q)"
          by (subst find_field.simps) (simp only: ss Some sum.case option.case cond if_P [OF True])
        have "find_sub (field_line name) s = Some i"
        proof (rule find_sub_least [OF i(2)])
          fix j assume j: "occurs (field_line name) s j"
          then have "occurs name s (j + 2)" "p + 1 \<le> j + 2" using less.prems(2) [OF j] unfolding occurs_field_line by simp_all
          then show "i \<le> j" using q(3) [of "j + 2"] i(1) by fastforce
        qed
        then show ?thesis using r i(1) by simp
      next
        case no: False
        have "find_field header (length s) name q = Inr (map_option ((+) 2) (find_sub (field_line name) s))"
        proof (rule less.hyps)
          show "length s - q < length s - p" using q(1) q1 by simp
          show "q < length s" by (rule q1)
          fix j assume j: "occurs (field_line name) s j"
          then have "occurs name s (j + 2)" "p + 1 \<le> j + 2" using less.prems(2) [OF j] unfolding occurs_field_line by simp_all
          then have "q \<le> j + 2" using q(3) [of "j + 2"] by fastforce
          moreover have "q \<noteq> j + 2" using no j by blast
          ultimately show "q < j + 2" by simp
        qed
        then show ?thesis
          by (subst find_field.simps) (simp only: ss Some sum.case option.case cond if_not_P [OF no])
      qed
    qed
qed

section \<open>The value of a field\<close>

text \<open>What \<open>http_header_find_field_value\<close> computes, on the string \<open>s\<close>. The value is looked for from the name on, as far as the end of
  the line, and its first occurrence decides.\<close>

definition field_value :: "byte list \<Rightarrow> byte list \<Rightarrow> byte list option \<Rightarrow> nat option" where
  "field_value s name value =
     (case find_sub (field_line name) s of None \<Rightarrow> None
      | Some i \<Rightarrow>
          (case find_from s CRLF (i + 2) of None \<Rightarrow> None
           | Some e \<Rightarrow>
               (case value of None \<Rightarrow> Some (i + 3 + length name)
                | Some v \<Rightarrow>
                    (case find_from s v (i + 2) of None \<Rightarrow> None
                     | Some j \<Rightarrow> if j > e \<or> isalnum (s ! (j - 1)) \<or> isalnum ((s @ [0]) ! (j + length v)) then None else Some j))))"

lemma field_value_spec:
  assumes s: "c_string header 0 = Some s" "s \<noteq> []" and n: "name \<noteq> []"
  shows "http_header_find_field_value header name value = Inr (field_value s name value)"
proof -
  note str = c_string_nth [OF s(1)]
  have ff: "find_field header (length s) name 0 = Inr (map_option ((+) 2) (find_sub (field_line name) s))"
    by (rule find_field_first [OF s(1) n]) (use s(2) in simp_all)
  have sl: "strlen header 0 = Inr (length s)" by (simp add: strlen_def s(1))
  show ?thesis
  proof (cases "find_sub (field_line name) s")
    case None
    then show ?thesis by (simp add: http_header_find_field_value_def sl ff field_value_def)
  next
    case (Some i)
    then have "occurs (field_line name) s i" by (simp add: find_sub_Some)
    then have i: "i + 2 < length s" by (simp add: occurs_field_line)
    then have ss: "strstr header (i + 2) pat = Inr (find_from s pat (i + 2))" for pat by (intro strstr_at [OF s(1)]) simp
    have at: "isalnum (header ! (j - 1)) = isalnum (s ! (j - 1))" "isalnum (header ! (j + length v)) = isalnum ((s @ [0]) ! (j + length v))"
      if "find_from s v (i + 2) = Some j" for v j
    proof -
      have j: "i + 2 \<le> j" "j + length v \<le> length s" using that occurs_bound by (auto simp: find_from_Some)
      show "isalnum (header ! (j - 1)) = isalnum (s ! (j - 1))" using j str(2) [of "j - 1"] by simp
      show "isalnum (header ! (j + length v)) = isalnum ((s @ [0]) ! (j + length v))"
        using j str(2) [of "j + length v"] str(3) by (cases "j + length v < length s") (simp_all add: nth_append)
    qed
    have ff': "find_field header (length s) name 0 = Inr (Some (i + 2))" using ff Some by simp
    show ?thesis
      using at
      by (simp add: http_header_find_field_value_def sl ff' field_value_def Some ss add.commute [of "Suc _"]
          del: add_2_eq_Suc add_2_eq_Suc' split: option.split)
  qed
qed

lemma field_value_overflow: "c_string header 0 = None \<Longrightarrow> http_header_find_field_value header name value = Inl BufferOverflow"
  by (simp add: http_header_find_field_value_def strlen_def)

lemma skip_while_stops:
  assumes "p \<le> e" "e < length mem" "\<not> P (mem ! e)"
  shows "skip_while P mem p = Inr (p + length (takeWhile P (drop p mem)))"
  using assms
proof (induction "e - p" arbitrary: p)
  case 0
  then show ?case by (simp add: skip_while.simps Cons_nth_drop_Suc [symmetric])
next
  case (Suc n)
  then have "skip_while P mem (Suc p) = Inr (Suc p + length (takeWhile P (drop (Suc p) mem)))" by simp
  then show ?case using Suc.prems by (simp add: skip_while.simps [of P mem p] Cons_nth_drop_Suc [symmetric])
qed

text \<open>The key that a request offers: \<open>None\<close> if the request is refused.\<close>

definition request_key :: "byte list \<Rightarrow> byte list option" where
  "request_key s =
     (if field_value s (ascii ''Upgrade'') (Some (ascii ''websocket'')) = None \<or>
         field_value s (ascii ''Connection'') (Some (ascii ''Upgrade'')) = None then None
      else (case field_value s (ascii ''Sec-WebSocket-Key'') None of None \<Rightarrow> None
            | Some p \<Rightarrow>
                (let key = takeWhile (\<lambda>b. b \<noteq> CR \<and> b \<noteq> 0x20) (dropWhile (\<lambda>b. b = 0x20) (drop p s))
                 in if length key = 24 then Some key else None)))"

lemma handshake_key_spec:
  assumes s: "c_string header 0 = Some s" "s \<noteq> []"
  shows "\<exists>k. handshake_key header = Inr k \<and> request_key s = map_option (\<lambda>p. take 24 (drop p header)) k"
proof -
  have ne: "ascii ''Upgrade'' \<noteq> []" "ascii ''Connection'' \<noteq> []" "ascii ''Sec-WebSocket-Key'' \<noteq> []" by (simp_all add: ascii_def)
  note fv = field_value_spec [OF s ne(1)] field_value_spec [OF s ne(2)] field_value_spec [OF s ne(3)]
  let ?name = "ascii ''Sec-WebSocket-Key''"
  show ?thesis
  proof (cases "field_value s (ascii ''Upgrade'') (Some (ascii ''websocket'')) = None \<or> field_value s (ascii ''Connection'') (Some (ascii ''Upgrade'')) = None
      \<or> field_value s ?name None = None")
    case True
    then show ?thesis by (auto simp: handshake_key_def request_key_def fv split: option.split)
  next
    case False
    then obtain p where p: "field_value s ?name None = Some p" by auto
    then obtain i e where i: "find_sub (field_line ?name) s = Some i" "find_from s CRLF (i + 2) = Some e" "p = i + 3 + length ?name"
      by (auto simp: field_value_def split: option.splits)
    have line: "occurs ?name s (i + 2)" "s ! (i + 2 + length ?name) = 0x3a" using i(1) by (simp_all add: find_sub_Some occurs_field_line)
    have e: "i + 2 \<le> e" "e < length s" "s ! e = CR" using i(2) by (simp_all add: find_from_Some occurs_Cons)
    have "p \<le> e"
    proof (rule ccontr)
      assume "\<not> p \<le> e"
      then consider "e = i + 2 + length ?name" | "e < i + 2 + length ?name" using i(3) by linarith
      then show False
      proof cases
        case 1
        then show False using e(3) line(2) by simp
      next
        case 2
        moreover have "Suc (Suc (e - 2)) = e" using e(1) by linarith
        ultimately have "s ! e = ?name ! (e - (i + 2))"
          using line(1) e(1,2) nth_take [of "e - (i + 2)" "length ?name" "drop (i + 2) s"] by (simp add: occurs_def)
        moreover have "CR \<notin> set ?name" by code_simp
        moreover have "e - (i + 2) < length ?name" using 2 e(1) by linarith
        ultimately show False using e(3) nth_mem by metis
      qed
    qed
    have mem: "header ! e = CR" "e < length header" using e c_string_nth(1,2) [OF s(1)] by fastforce+
    let ?S = "\<lambda>b :: byte. b = 0x20" and ?K = "\<lambda>b :: byte. b \<noteq> CR \<and> b \<noteq> 0x20"
    define q where "q = p + length (takeWhile ?S (drop p header))"
    have sk1: "skip_while ?S header p = Inr q" unfolding q_def by (rule skip_while_stops [OF \<open>p \<le> e\<close> mem(2)]) (simp add: mem(1))
    have "q \<le> e"
    proof (rule ccontr)
      assume "\<not> q \<le> e"
      then have "e - p < length (takeWhile ?S (drop p header))" using \<open>p \<le> e\<close> by (simp add: q_def)
      then have "?S (takeWhile ?S (drop p header) ! (e - p))" using nth_mem set_takeWhileD by fastforce
      then show False using \<open>e - p < _\<close> \<open>p \<le> e\<close> mem by (simp add: takeWhile_nth)
    qed
    have sk2: "skip_while ?K header q = Inr (q + length (takeWhile ?K (drop q header)))"
      by (rule skip_while_stops [OF \<open>q \<le> e\<close> mem(2)]) (simp add: mem(1))
    have hs: "header = s @ drop (length s) header" using c_string_nth(1,2) [OF s(1)] by (intro nth_equalityI) (auto simp: nth_append)
    have dp: "drop n header = drop n s @ drop (length s) header" if "n \<le> e" for n using that e(2) arg_cong [OF hs, of "drop n"] by simp
    have cr: "CR \<in> set (drop n s)" if "n \<le> e" for n using nth_mem [of "e - n" "drop n s"] that e by simp
    have dw: "dropWhile ?S (drop p header) = drop q header" by (simp add: dropWhile_eq_drop q_def add.commute)
    have dws: "dropWhile ?S (drop p s) = drop q s"
    proof -
      have "takeWhile ?S (drop p header) = takeWhile ?S (drop p s)"
        unfolding dp [OF \<open>p \<le> e\<close>] by (rule takeWhile_append1 [OF cr [OF \<open>p \<le> e\<close>]]) simp
      then show ?thesis by (simp add: dropWhile_eq_drop q_def add.commute)
    qed
    have tw: "takeWhile ?K (drop q header) = takeWhile ?K (drop q s)"
      unfolding dp [OF \<open>q \<le> e\<close>] by (rule takeWhile_append1 [OF cr [OF \<open>q \<le> e\<close>]]) simp
    define key where "key = takeWhile ?K (drop q s)"
    have hk: "handshake_key header = Inr (if length key \<noteq> 24 then None else Some q)"
      using False p by (auto simp: handshake_key_def fv sk1 sk2 tw key_def)
    have rk: "request_key s = (if length key = 24 then Some key else None)"
      using False p by (auto simp: request_key_def dws key_def)
    have "take (length key) (drop q header) = key" using takeWhile_eq_take [of ?K "drop q header"] by (simp add: tw key_def)
    then show ?thesis using hk rk by auto
  qed
qed

section \<open>The contract\<close>

text \<open>What \<open>read (2)\<close> and \<open>write (2)\<close> promise on a connection: the bytes come in order, \<open>write\<close> takes at least one of the bytes it is given or
  fails. \<open>stream\<close> is what the peer sent and nobody read, \<open>wire\<close> what was written so far.\<close>

locale file_os =
  fixes fl :: "'o file_calls" and stream :: "'o \<Rightarrow> byte list" and wire :: "'o \<Rightarrow> byte list" and ok :: "'o \<Rightarrow> bool"
  assumes read_ok: "ok w \<Longrightarrow> fl_read fl fd len w = (r, bs, e, w') \<Longrightarrow>
          ok w' \<and> wire w' = wire w \<and> -1 \<le> r \<and> r \<le> int len \<and> length bs = nat r \<and> stream w = bs @ stream w'"
    and write_ok: "ok w \<Longrightarrow> ds \<noteq> [] \<Longrightarrow> fl_write fl fd ds w = (r, e, w') \<Longrightarrow>
          ok w' \<and> stream w' = stream w \<and>
          (r = -1 \<and> wire w' = wire w \<or> 0 < r \<and> nat r \<le> length ds \<and> wire w' = wire w @ take (nat r) ds)"
    and getfl_ok: "ok w \<Longrightarrow> fl_getfl fl fd w = (n, w') \<Longrightarrow> ok w' \<and> stream w' = stream w \<and> wire w' = wire w"
    and setfl_ok: "ok w \<Longrightarrow> fl_setfl fl fd flags w = (n, w') \<Longrightarrow> ok w' \<and> stream w' = stream w \<and> wire w' = wire w"
    and nodelay_ok: "ok w \<Longrightarrow> fl_nodelay fl fd w = (n, w') \<Longrightarrow> ok w' \<and> stream w' = stream w \<and> wire w' = wire w"

lemma write_at_again: "n + length a \<le> length h \<Longrightarrow> write_at (write_at h n a) (n + length a) b = write_at h n (a @ b)"
  by (simp add: write_at_def ac_simps)

text \<open>The request read so far, \<open>bs\<close>, is in the buffer. Without a result, it is not complete.\<close>

definition header_ends :: "byte list \<Rightarrow> nat \<Rightarrow> bool" where
  "header_ends header n \<longleftrightarrow> 4 \<le> n \<and> arr_slice header (n - 4) n = CRLF @ CRLF"

definition complete :: "byte list \<Rightarrow> bool" where
  "complete req \<longleftrightarrow> 4 \<le> length req \<and> drop (length req - 4) req = CRLF @ CRLF"

definition request_read :: "byte list \<Rightarrow> nat \<Rightarrow> byte list \<Rightarrow> (byte list \<times> nat) option \<Rightarrow> bool" where
  "request_read header n bs res \<longleftrightarrow> (case res of None \<Rightarrow> bs \<noteq> [] \<longrightarrow> \<not> header_ends (write_at header n bs) (n + length bs)
     | Some (header', m) \<Rightarrow> header' = write_at header n bs \<and> m = n + length bs \<and> m \<le> HEADER_SIZE \<and> header_ends header' m)"

context file_os begin

text \<open>The loop that reads the request ends: every read takes a byte, fails, or finds the end.\<close>

lemma handshake_read_ends:
  assumes "ok w" "length header = HEADER_SIZE" "n < HEADER_SIZE"
  shows "\<exists>res w' bs. handshake_read fl fd header n w = Some (res, w') \<and> ok w' \<and> wire w' = wire w \<and> stream w = bs @ stream w' \<and>
    request_read header n bs res"
  using assms
proof (induction "HEADER_SIZE - n" arbitrary: n header w rule: less_induct)
  case less
  obtain r bs e w1 where rd: "fl_read fl fd (HEADER_SIZE - n) w = (r, bs, e, w1)" by (metis prod_cases4)
  note k = read_ok [OF less.prems(1) rd]
  show ?case
  proof (cases "r = -1 \<or> r = 0")
    case True
    then have "handshake_read fl fd header n w = Some (None, w1)" by (subst handshake_read.simps) (simp add: rd)
    moreover have "bs = []" using k True by auto
    ultimately show ?thesis using k by (intro exI [of _ None] exI [of _ w1] exI [of _ "[]"]) (simp add: request_read_def)
  next
    case False
    then have r: "0 < r" "length bs = nat r" "n + nat r \<le> HEADER_SIZE" using k by linarith+
    define header1 where "header1 = write_at header n bs"
    have l1: "length header1 = HEADER_SIZE" using r less.prems(2) by (simp add: header1_def)
    have u: "handshake_read fl fd header n w =
        (if header_ends header1 (n + nat r) then Some (Some (header1, n + nat r), w1)
         else if n + nat r = HEADER_SIZE then Some (None, w1) else handshake_read fl fd header1 (n + nat r) w1)"
      using False by (subst handshake_read.simps) (simp add: rd Let_def header1_def header_ends_def)
    show ?thesis
    proof (cases "header_ends header1 (n + nat r)")
      case True
      then show ?thesis using u k r
        by (intro exI [of _ "Some (header1, n + nat r)"] exI [of _ w1] exI [of _ bs]) (simp add: request_read_def header1_def)
    next
      case go: False
      show ?thesis
      proof (cases "n + nat r = HEADER_SIZE")
        case True
        have "handshake_read fl fd header n w = Some (None, w1)" using u unfolding if_not_P [OF go] if_P [OF True] .
        then show ?thesis using k go r by (intro exI [of _ None] exI [of _ w1] exI [of _ bs]) (simp add: request_read_def header1_def)
      next
        case False
        then have n1: "n + nat r < HEADER_SIZE" "HEADER_SIZE - (n + nat r) < HEADER_SIZE - n" using r less.prems(3) by simp_all
        obtain res w' bs' where r1: "handshake_read fl fd header1 (n + nat r) w1 = Some (res, w')" "ok w'" "wire w' = wire w1"
            "stream w1 = bs' @ stream w'" "request_read header1 (n + nat r) bs' res"
          using less.hyps [OF n1(2) _ l1 n1(1)] k by blast
        have "handshake_read fl fd header n w = Some (res, w')" using u r1(1) unfolding if_not_P [OF go] if_not_P [OF False] by simp
        moreover have "request_read header n (bs @ bs') res"
          using r1(5) r less.prems(2) write_at_again [of n bs header bs'] go by (auto simp: request_read_def header1_def add.assoc split: option.splits)
        ultimately show ?thesis using k r1(2-4) by (intro exI [of _ res] exI [of _ w'] exI [of _ "bs @ bs'"]) simp
      qed
    qed
  qed
qed

text \<open>So does the loop that writes the response.\<close>

lemma handshake_write_ends:
  assumes "ok w"
  shows "\<exists>sent w' part. handshake_write fl fd ds w = Some (sent, w') \<and> ok w' \<and> stream w' = stream w \<and> wire w' = wire w @ part \<and>
    prefix part ds \<and> (sent \<longleftrightarrow> part = ds)"
  using assms
proof (induction "length ds" arbitrary: ds w rule: less_induct)
  case less
  show ?case
  proof (cases "ds = []")
    case True
    then have "handshake_write fl fd ds w = Some (True, w)" by (subst handshake_write.simps) simp
    then show ?thesis using less.prems True by (intro exI [of _ True] exI [of _ w] exI [of _ "[]"]) simp
  next
    case False
    obtain r e w1 where wr: "fl_write fl fd ds w = (r, e, w1)" by (metis prod_cases3)
    note k = write_ok [OF less.prems False wr]
    show ?thesis
    proof (cases "r = -1")
      case True
      then have "handshake_write fl fd ds w = Some (False, w1)" using False by (subst handshake_write.simps) (simp add: wr)
      then show ?thesis using k True False by (intro exI [of _ False] exI [of _ w1] exI [of _ "[]"]) simp
    next
      case go: False
      then have r: "0 < r" "nat r \<le> length ds" "wire w1 = wire w @ take (nat r) ds" "ok w1" "stream w1 = stream w" using k by auto
      have "length (drop (nat r) ds) < length ds" using r(1) False by simp
      from less.hyps [OF this r(4)] obtain sent w' part where
        n: "handshake_write fl fd (drop (nat r) ds) w1 = Some (sent, w')" "ok w'" "stream w' = stream w1" "wire w' = wire w1 @ part"
          "prefix part (drop (nat r) ds)" "sent \<longleftrightarrow> part = drop (nat r) ds" by blast
      have "handshake_write fl fd ds w = Some (sent, w')" using n(1) False go by (subst handshake_write.simps) (simp add: wr)
      moreover have "prefix (take (nat r) ds @ part) ds" using n(5) by (metis append_take_drop_id same_prefix_prefix)
      moreover have "sent \<longleftrightarrow> take (nat r) ds @ part = ds" using n(6) by (metis append_take_drop_id same_append_eq)
      ultimately show ?thesis using n(2-4) r(3,5) by (intro exI [of _ sent] exI [of _ w'] exI [of _ "take (nat r) ds @ part"]) simp
    qed
  qed
qed

end

lemma create_accept_key_take: "create_accept_key sha1 base64 (take 24 k) = create_accept_key sha1 base64 k"
  by (simp add: create_accept_key_def)

text \<open>What the handshake does. \<open>req\<close> is what it read, \<open>mem\<close> the buffer with it.\<close>

definition handshake_outcome where
  "handshake_outcome stream wire ok sha1 base64 junk w res w' \<longleftrightarrow> ok w' \<and> (\<exists>req part. stream w = req @ stream w' \<and> wire w' = wire w @ part \<and>
     (let mem = write_at junk 0 req
      in case res of
           Inl f \<Rightarrow> f = BufferOverflow \<and> part = [] \<and> c_string mem 0 = None
         | Inr r \<Rightarrow>
             (r = (0 :: int) \<and> (\<exists>s key. c_string mem 0 = Some s \<and> request_key s = Some key \<and> part = res_header (create_accept_key sha1 base64 key)) \<or>
              r = -1 \<and> (part = [] \<and> (complete req \<longrightarrow> (\<exists>s. c_string mem 0 = Some s \<and> request_key s = None)) \<or>
                 (\<exists>s key. c_string mem 0 = Some s \<and> request_key s = Some key \<and> complete req \<and>
                 strict_prefix part (res_header (create_accept_key sha1 base64 key)))))) \<and>
     (res \<noteq> Inr (-1) \<longrightarrow> length req \<le> HEADER_SIZE \<and> complete req))"

lemma outcome_unterminated:
  assumes o: "handshake_outcome stream wire ok sha1 base64 junk w res w'" and nul: "0 \<notin> set junk" "0 \<notin> set (stream w)"
  shows "\<exists>got. stream w = got @ stream w' \<and> wire w' = wire w \<and> res = (if complete got then Inl BufferOverflow else Inr (-1))"
proof -
  obtain got part where g: "stream w = got @ stream w'" "wire w' = wire w @ part"
    and out: "let mem = write_at junk 0 got
      in case res of
           Inl f \<Rightarrow> f = BufferOverflow \<and> part = [] \<and> c_string mem 0 = None
         | Inr r \<Rightarrow>
             (r = (0 :: int) \<and> (\<exists>s key. c_string mem 0 = Some s \<and> request_key s = Some key \<and> part = res_header (create_accept_key sha1 base64 key)) \<or>
              r = -1 \<and> (part = [] \<and> (complete got \<longrightarrow> (\<exists>s. c_string mem 0 = Some s \<and> request_key s = None)) \<or>
                 (\<exists>s key. c_string mem 0 = Some s \<and> request_key s = Some key \<and> complete got \<and>
                 strict_prefix part (res_header (create_accept_key sha1 base64 key)))))"
    and c: "res \<noteq> Inr (-1) \<longrightarrow> length got \<le> HEADER_SIZE \<and> complete got"
    using o unfolding handshake_outcome_def by (elim conjE exE) (rule that)
  have "0 \<notin> set (write_at junk 0 got)" using nul g(1) by (auto simp: write_at_def dest: in_set_dropD)
  then have "c_string (write_at junk 0 got) 0 = None" by (simp add: c_string_def)
  then show ?thesis using out c g by (intro exI [of _ got]) (cases res; auto simp: Let_def)
qed

context file_os begin

lemma handshake_ends:
  assumes "ok w" "length junk = HEADER_SIZE" "stream w = [] \<or> hd (stream w) \<noteq> 0"
  shows "\<exists>res w'. http_handshake fl sha1 base64 fd junk w = Some (res, w') \<and> handshake_outcome stream wire ok sha1 base64 junk w res w'"
proof -
  obtain rr w1 req where rd: "handshake_read fl fd junk 0 w = Some (rr, w1)" "ok w1" "wire w1 = wire w" "stream w = req @ stream w1"
      "request_read junk 0 req rr"
    using handshake_read_ends [OF assms(1,2), of 0 fd] by (auto simp: HEADER_SIZE_def)
  show ?thesis
  proof (cases rr)
    case None
    then have "http_handshake fl sha1 base64 fd junk w = Some (Inr (-1), w1)" using rd(1) by (simp add: http_handshake_def)
    moreover have "\<not> complete req"
    proof
      assume c: "complete req"
      then have "req \<noteq> []" by (auto simp: complete_def)
      then have "\<not> header_ends (write_at junk 0 req) (length req)" using rd(5) None by (simp add: request_read_def)
      then show False using c by (simp add: complete_def header_ends_def arr_slice_def write_at_def)
    qed
    ultimately show ?thesis
      using rd(2-4) unfolding handshake_outcome_def
      by (intro exI [of _ "Inr (-1)"] exI [of _ w1] conjI exI [of _ req] exI [of _ "[]"]) (auto simp: Let_def)
  next
    case (Some hm)
    define mem where "mem = write_at junk 0 req"
    have m: "hm = (mem, length req)" "length req \<le> HEADER_SIZE" "4 \<le> length req" "arr_slice mem (length req - 4) (length req) = CRLF @ CRLF"
      using rd(5) Some by (auto simp: request_read_def mem_def header_ends_def)
    have tail: "complete req"
      using m(2-4) by (simp add: mem_def arr_slice_def write_at_def complete_def)
    have hh: "http_handshake fl sha1 base64 fd junk w = (case handshake_key mem of
             Inl f \<Rightarrow> Some (Inl f, w1)
           | Inr None \<Rightarrow> Some (Inr (-1), w1)
           | Inr (Some k) \<Rightarrow>
               (case handshake_write fl fd (res_header (create_accept_key sha1 base64 (drop k mem))) w1 of
                  None \<Rightarrow> None
                | Some (sent, w2) \<Rightarrow> Some (Inr (if sent then 0 else -1), w2)))"
      using rd(1) Some m(1) by (simp add: http_handshake_def)
    show ?thesis
    proof (cases "c_string mem 0")
      case None
      then have "http_handshake fl sha1 base64 fd junk w = Some (Inl BufferOverflow, w1)"
        using hh by (simp add: handshake_key_def field_value_overflow)
      then show ?thesis
        using rd(2-4) None m tail unfolding handshake_outcome_def
        by (intro exI [of _ "Inl BufferOverflow"] exI [of _ w1] conjI exI [of _ req] exI [of _ "[]"]) (simp_all add: mem_def)
    next
      case (Some s)
      have "req \<noteq> []" using m(3) by auto
      then have "hd mem \<noteq> 0" using assms(3) rd(4) by (simp add: mem_def write_at_def)
      then have "s \<noteq> []" using Some by (cases mem) (auto simp: c_string_def split: if_splits)
      from handshake_key_spec [OF Some this] obtain k where
        k: "handshake_key mem = Inr k" "request_key s = map_option (\<lambda>p. take 24 (drop p mem)) k" by blast
      show ?thesis
      proof (cases k)
        case None
        then have "http_handshake fl sha1 base64 fd junk w = Some (Inr (-1), w1)" using hh k by simp
        moreover have "request_key s = None" using k(2) None by simp
        ultimately show ?thesis
          using rd(2-4) Some unfolding handshake_outcome_def
          by (intro exI [of _ "Inr (-1)"] exI [of _ w1] conjI exI [of _ req] exI [of _ "[]"]) (simp_all add: Let_def mem_def)
      next
        case p: (Some p)
        define key where "key = take 24 (drop p mem)"
        have rk: "request_key s = Some key" using k(2) p by (simp add: key_def)
        have ck: "create_accept_key sha1 base64 (drop p mem) = create_accept_key sha1 base64 key"
          by (simp add: key_def create_accept_key_take)
        obtain sent w2 part where wr: "handshake_write fl fd (res_header (create_accept_key sha1 base64 key)) w1 = Some (sent, w2)" "ok w2"
            "stream w2 = stream w1" "wire w2 = wire w1 @ part" "prefix part (res_header (create_accept_key sha1 base64 key))"
            "sent \<longleftrightarrow> part = res_header (create_accept_key sha1 base64 key)"
          using handshake_write_ends [OF rd(2)] by blast
        have h2: "http_handshake fl sha1 base64 fd junk w = Some (Inr (if sent then 0 else -1), w2)" using hh k(1) p wr(1) ck by simp
        show ?thesis
        proof (cases sent)
          case True
          then show ?thesis
            using h2 wr rd m(2,3) tail Some rk unfolding handshake_outcome_def
            by (intro exI [of _ "Inr 0"] exI [of _ w2] conjI exI [of _ req] exI [of _ part]) (auto simp: mem_def Let_def)
        next
          case False
          then have "strict_prefix part (res_header (create_accept_key sha1 base64 key))" using wr(5,6) by (simp add: strict_prefix_def)
          then show ?thesis
            using h2 wr(2-4) rd False Some rk tail unfolding handshake_outcome_def
            by (intro exI [of _ "Inr (-1)"] exI [of _ w2] conjI exI [of _ req] exI [of _ part]) (auto simp: mem_def Let_def)
        qed
      qed
    qed
  qed
qed


lemma non_block_keeps:
  assumes "ok w" "make_non_block fl fd w = (n, w')"
  shows "ok w' \<and> stream w' = stream w \<and> wire w' = wire w"
proof -
  obtain flags w1 where g: "fl_getfl fl fd w = (flags, w1)" by fastforce
  obtain r w2 where s: "fl_setfl fl fd (flags OR fl_O_NONBLOCK fl) w1 = (r, w2)" by fastforce
  have "w' = (if flags = -1 then w1 else w2)" using assms(2) by (auto simp: make_non_block_def g s split: if_splits)
  then show ?thesis using getfl_ok [OF assms(1) g] setfl_ok [OF _ s] by auto
qed

end

section \<open>The whole output of the server\<close>

lemma socket_from:
  assumes "socket os wire stream ok"
  shows "socket os (\<lambda>w. drop (length b) (wire w)) stream (\<lambda>w. ok w \<and> prefix b (wire w))"
proof -
  have os: "socket_os os stream ok" "socket_send os wire ok" "socket_duplex os wire ok"
    using assms by (simp_all add: socket_def socket_duplex_def)
  note out = socket_send.os_ok [OF os(2)] socket_send.os_some [OF os(2)] socket_send.os_none [OF os(2)]
  note inp = socket_os.os_bound [OF os(1)] socket_os.os_some [OF os(1)] socket_os.os_none [OF os(1)]
  note keeps = socket_duplex.os_recv_keeps [OF os(3)] socket_duplex.os_poll_keeps [OF os(3)]
  show ?thesis
  proof
    fix w fd ds fl r e w'
    assume w: "ok w \<and> prefix b (wire w)" and o: "os_send os fd ds fl w = (r, e, w')"
    then have k: "ok w" "prefix b (wire w)" by simp_all
    show "ok w' \<and> prefix b (wire w')" "0 < r \<Longrightarrow> nat r \<le> length ds \<and> drop (length b) (wire w') = drop (length b) (wire w) @ take (nat r) ds"
      "r \<le> 0 \<Longrightarrow> drop (length b) (wire w') = drop (length b) (wire w)"
      using out [OF k(1) o] k(2) by (cases "0 < r"; auto simp: prefix_def)+
  next
    fix w fd len r bs e w'
    assume "ok w \<and> prefix b (wire w)" and o: "os_recv os fd len w = (r, bs, e, w')"
    then have k: "ok w" "prefix b (wire w)" by simp_all
    show "ok w' \<and> prefix b (wire w')" "(ok w' \<and> prefix b (wire w')) \<and> drop (length b) (wire w') = drop (length b) (wire w)"
      "length bs \<le> len \<and> r \<le> int len" "0 < r \<Longrightarrow> length bs = nat r \<and> stream w = bs @ stream w'" "r \<le> 0 \<Longrightarrow> stream w' = stream w"
      using keeps(1) [OF k(1) o] inp [OF k(1) o] k(2) by auto
  next
    fix w fd ein eout r revents w'
    assume k: "ok w \<and> prefix b (wire w)" and o: "os_poll os fd ein eout w = (r, revents, w')"
    show "(ok w' \<and> prefix b (wire w')) \<and> drop (length b) (wire w') = drop (length b) (wire w)"
      using keeps(2) [OF conjunct1 [OF k] o] k by simp
  qed
qed

text \<open>A new server, whatever its allocator and its descriptor.\<close>

lemma server_new_session:
  assumes "ok w" "wire w = []" "wslay_server_new mem \<lparr>se_fd = fd, se_os = w\<rparr> = Some ctx"
  shows "session_ok wire ok ctx"
proof -
  obtain m where c: "ctx = (fresh_context m \<lparr>se_fd = fd, se_os = w\<rparr>)\<lparr>ec_server := True\<rparr>"
    using assms(3) by (auto simp: wslay_server_new_def context_new_eq split: if_splits)
  have "sending (\<lambda>s. wire (se_os s)) (\<lambda>s. ok (se_os s)) (concat (map rfc_frame [])) ctx"
    using assms(1,2) by simp (rule fresh_sending, simp_all add: c fresh_context_def outbox_inv_def)
  then have "echo_wire_ok wire ok ctx"
    unfolding wire_ok_def open_frames_def
    by (auto simp: c fresh_context_def wslay_event_config_get_no_buffering_def intro!: exI [of _ "[]"])
  moreover have "echo_receiver_ok ok ctx"
    using recv_wf_init assms(1) by (auto simp: receiver_ok_def slots_ok_def chunks_ok_def c fresh_context_def fresh_imsg_def)
  ultimately show ?thesis by (simp add: session_ok_def)
qed

text \<open>The output: part of a response, or the response and what a server may put on the wire after it.\<close>

definition server_output :: "(byte list \<Rightarrow> byte list) \<Rightarrow> (byte list \<Rightarrow> byte list) \<Rightarrow> byte list \<Rightarrow> bool" where
  "server_output sha1 base64 part \<longleftrightarrow> part = [] \<or>
     (\<exists>key. prefix part (res_header (create_accept_key sha1 base64 key)) \<or>
       (\<exists>out. part = res_header (create_accept_key sha1 base64 key) @ out \<and> frames_out True out))"

lemma handshake_outcome_part:
  assumes "handshake_outcome stream wire ok sha1 base64 junk w res w'"
  shows "\<exists>part. ok w' \<and> wire w' = wire w @ part \<and> server_output sha1 base64 part \<and>
    (res = Inr 0 \<longrightarrow> (\<exists>key. part = res_header (create_accept_key sha1 base64 key))) \<and>
    (res = Inr 0 \<or> res = Inr (-1) \<or> res = Inl BufferOverflow)"
proof (cases res)
  case (Inl f)
  then show ?thesis using assms by (auto simp: handshake_outcome_def server_output_def Let_def)
next
  case (Inr r)
  then obtain part where p: "ok w'" "wire w' = wire w @ part" and
      "r = 0 \<and> (\<exists>key. part = res_header (create_accept_key sha1 base64 key)) \<or>
       r = -1 \<and> (part = [] \<or> (\<exists>key. strict_prefix part (res_header (create_accept_key sha1 base64 key))))"
    using assms by (auto simp: handshake_outcome_def Let_def)
  then have "server_output sha1 base64 part" "r = 0 \<longrightarrow> (\<exists>key. part = res_header (create_accept_key sha1 base64 key))" "r = 0 \<or> r = -1"
    by (auto simp: server_output_def strict_prefix_def)
  then show ?thesis using p Inr by blast
qed

lemma communicate_output:
  assumes "socket os wire stream ok" "file_os fl stream wire ok" "ok w" "length junk = HEADER_SIZE" "stream w = [] \<or> hd (stream w) \<noteq> 0"
    and "communicate os fl sha1 base64 mem fd junk w = Some (res, w')"
  shows "\<exists>part. wire w' = wire w @ part \<and> server_output sha1 base64 part"
proof -
  note f = file_os.handshake_ends [OF assms(2)] file_os.non_block_keeps [OF assms(2)] file_os.nodelay_ok [OF assms(2)]
  obtain hres w1 where h: "http_handshake fl sha1 base64 fd junk w = Some (hres, w1)" "handshake_outcome stream wire ok sha1 base64 junk w hres w1"
    using f(1) [OF assms(3-5)] by blast
  obtain part where p: "ok w1" "wire w1 = wire w @ part" "server_output sha1 base64 part"
      "hres = Inr 0 \<Longrightarrow> \<exists>key. part = res_header (create_accept_key sha1 base64 key)" "hres = Inr 0 \<or> hres = Inr (-1) \<or> hres = Inl BufferOverflow"
    using handshake_outcome_part [OF h(2)] by blast
  show ?thesis
  proof (cases "hres = Inr 0")
    case False
    then have "w' = w1" using assms(6) h(1) p(5) by (auto simp: communicate_def)
    then show ?thesis using p by blast
  next
    case True
    then obtain key where key: "part = res_header (create_accept_key sha1 base64 key)" using p(4) by blast
    obtain nb w2 where nb: "make_non_block fl fd w1 = (nb, w2)" by fastforce
    obtain so w3 where so: "fl_nodelay fl fd w2 = (so, w3)" by fastforce
    have w2: "ok w2" "wire w2 = wire w @ part" using f(2) [OF p(1) nb] p(2) by simp_all
    have w3: "ok w3" "wire w3 = wire w @ part" using f(3) [OF w2(1) so] w2(2) by simp_all
    consider "w' = w2" | "w' = w3"
      | ctx c where "wslay_server_new mem \<lparr>se_fd = fd, se_os = w3\<rparr> = Some ctx" "communicate_loop os (True, False) ctx = Some (res, c)" "w' = se_os (ec_user_data c)"
      using assms(6) True h(1) by (auto simp: communicate_def nb so split: if_splits option.splits)
    then show ?thesis
    proof cases
      case 3
      let ?b = "wire w @ part"
      let ?wire = "\<lambda>w. drop (length ?b) (wire w)" and ?ok = "\<lambda>w. ok w \<and> prefix ?b (wire w)"
      have sk: "socket os ?wire stream ?ok" by (rule socket_from [OF assms(1)])
      have "session_ok ?wire ?ok ctx" by (rule server_new_session [OF _ _ 3(1)]) (simp_all add: w3)
      from socket.session_reached [OF sk loop_communicates [OF 3(2)] this]
      have s: "session_ok ?wire ?ok c" .
      have "frames_out True (?wire w')" using s wire_ok_frames [of True "\<lambda>s. ?wire (se_os s)" "\<lambda>s. ?ok (se_os s)" c] 3(3) by (simp add: session_ok_def)
      moreover have "prefix ?b (wire w')" using s 3(3) by (simp add: session_ok_def receiver_ok_def)
      then have "wire w' = wire w @ part @ ?wire w'" by (auto simp: prefix_def)
      ultimately show ?thesis using key unfolding server_output_def by blast
    qed (use p w2 w3 in blast)+
  qed
qed

end
