(* ===== verification/Wslay_Client_Handshake.thy ===== *)
theory Wslay_Client_Handshake
  imports Wslay_Handshake
begin

text \<open>
  The client's half of the HTTP handshake, \<open>examples/testclient.cc\<close>: the request, the loop that reads the response, the check of the
  accept key; and how the server of \<open>examples/fork-echoserv.c\<close> finds the key in that request.

  The random bytes of \<open>/dev/urandom\<close> are a parameter, \<open>rnd\<close>. \<open>std::string\<close> is a byte list.
\<close>

section \<open>The calls\<close>

text \<open>\<open>off\<close> bytes of \<open>reqheader\<close> are written.\<close>

partial_function (option) send_http_handshake :: "'o file_calls \<Rightarrow> int \<Rightarrow> byte list \<Rightarrow> nat \<Rightarrow> 'o \<Rightarrow> (int \<times> 'o) option" where
  "send_http_handshake fl fd reqheader off w =
     (if off < length reqheader then
        (case fl_write fl fd (drop off reqheader) w of
           (r, e, w') \<Rightarrow> if r = -1 then Some (-1, w') else send_http_handshake fl fd reqheader (off + nat r) w')
      else Some (0, w))"

text \<open>The result and \<open>resheader\<close>.\<close>

partial_function (option) recv_http_handshake :: "'o file_calls \<Rightarrow> int \<Rightarrow> byte list \<Rightarrow> 'o \<Rightarrow> (int \<times> byte list \<times> 'o) option" where
  "recv_http_handshake fl fd resheader w =
     (case fl_read fl fd 4096 w of
        (r, bs, e, w') \<Rightarrow>
          if r \<le> 0 then Some (-1, resheader, w')
          else (let resheader' = resheader @ take (nat r) bs
                in if find_from resheader' (CRLF @ CRLF) 0 \<noteq> None then Some (0, resheader', w')
                   else if length resheader' > 8192 then Some (-1, resheader', w')
                   else recv_http_handshake fl fd resheader' w'))"

definition create_acceptkey :: "(byte list \<Rightarrow> byte list) \<Rightarrow> (byte list \<Rightarrow> byte list) \<Rightarrow> byte list \<Rightarrow> byte list" where
  "create_acceptkey sha1 base64 clientkey = base64 (sha1 (clientkey @ WS_GUID))"

definition client_request :: "byte list \<Rightarrow> byte list \<Rightarrow> byte list \<Rightarrow> byte list \<Rightarrow> byte list" where
  "client_request host service path client_key =
     ascii ''GET '' @ path @ ascii '' HTTP/1.1'' @ CRLF @ ascii ''Host: '' @ host @ ascii '':'' @ service @ CRLF @
     ascii ''Upgrade: websocket'' @ CRLF @ ascii ''Connection: Upgrade'' @ CRLF @
     ascii ''Sec-WebSocket-Key: '' @ client_key @ CRLF @ ascii ''Sec-WebSocket-Version: 13'' @ CRLF @ CRLF"

text \<open>\<open>s.substr (pos, n)\<close> with \<open>pos\<close> in range; a length of \<open>None\<close>, from \<open>npos\<close>, is the rest.\<close>

definition substr :: "byte list \<Rightarrow> nat \<Rightarrow> nat option \<Rightarrow> byte list" where
  "substr s pos n = (case n of None \<Rightarrow> drop pos s | Some k \<Rightarrow> take k (drop pos s))"

text \<open>The check of the response: the body, or \<open>None\<close> for \<open>-1\<close>. \<open>npos + 4\<close> is 3.\<close>

definition check_response :: "(byte list \<Rightarrow> byte list) \<Rightarrow> (byte list \<Rightarrow> byte list) \<Rightarrow> byte list \<Rightarrow> byte list \<Rightarrow> byte list option" where
  "check_response sha1 base64 client_key resheader =
     (case find_from resheader (ascii ''Sec-WebSocket-Accept: '') 0 of
        None \<Rightarrow> None
      | Some p \<Rightarrow>
          (let keyhdstart = p + 22;
               keyhdend = find_from resheader CRLF keyhdstart;
               accept_key = substr resheader keyhdstart (map_option (\<lambda>e. e - keyhdstart) keyhdend)
           in if accept_key = create_acceptkey sha1 base64 client_key
              then Some (substr resheader (case find_from resheader (CRLF @ CRLF) 0 of None \<Rightarrow> 3 | Some e \<Rightarrow> e + 4) None)
              else None))"

text \<open>The whole handshake: \<open>(0, body)\<close>, or \<open>-1\<close>. \<open>snprintf\<close> into \<open>buf[4096]\<close> keeps 4095 bytes at most, and \<open>reqheader\<close> is the C string
  in it.\<close>

definition client_http_handshake ::
    "'o file_calls \<Rightarrow> (nat \<Rightarrow> 'o \<Rightarrow> byte list \<times> 'o) \<Rightarrow> (byte list \<Rightarrow> byte list) \<Rightarrow> (byte list \<Rightarrow> byte list) \<Rightarrow> int
       \<Rightarrow> byte list \<Rightarrow> byte list \<Rightarrow> byte list \<Rightarrow> 'o \<Rightarrow> (int \<times> byte list \<times> 'o) option" where
  "client_http_handshake fl rnd sha1 base64 fd host service path w =
     (case rnd 16 w of (bs, w1) \<Rightarrow>
        (let client_key = base64 bs;
             reqheader = takeWhile (\<lambda>b. b \<noteq> 0) (take 4095 (client_request host service path client_key))
         in case send_http_handshake fl fd reqheader 0 w1 of
              None \<Rightarrow> None
            | Some (s, w2) \<Rightarrow>
                if s = -1 then Some (-1, [], w2)
                else (case recv_http_handshake fl fd [] w2 of
                        None \<Rightarrow> None
                      | Some (r, resheader, w3) \<Rightarrow>
                          if r = -1 then Some (-1, [], w3)
                          else (case check_response sha1 base64 client_key resheader of
                                  None \<Rightarrow> Some (-1, [], w3)
                                | Some body \<Rightarrow> Some (0, body, w3)))))"

section \<open>The client's request, read by the server\<close>

text \<open>What the code relies on from nettle.\<close>

definition base64_ok :: "(byte list \<Rightarrow> byte list) \<Rightarrow> bool" where
  "base64_ok base64 \<longleftrightarrow> (\<forall>x. length (base64 x) = 4 * ((length x + 2) div 3) \<and> (\<forall>b \<in> set (base64 x). isalnum b \<or> b \<in> {0x2b, 0x2f, 0x3d}))"

definition sha1_ok :: "(byte list \<Rightarrow> byte list) \<Rightarrow> bool" where
  "sha1_ok sha1 \<longleftrightarrow> (\<forall>x. length (sha1 x) = 20)"

lemma not_alnum: "\<not> isalnum 0" "\<not> isalnum CR" "\<not> isalnum 0x20"
  by code_simp+

lemma base64_chars:
  assumes "base64_ok base64"
  shows "0 \<notin> set (base64 x)" "CR \<notin> set (base64 x)" "0x20 \<notin> set (base64 x)"
proof -
  have "isalnum b \<or> b \<in> {0x2b, 0x2f, 0x3d}" if "b \<in> set (base64 x)" for b using assms that by (simp add: base64_ok_def)
  then show "0 \<notin> set (base64 x)" "CR \<notin> set (base64 x)" "0x20 \<notin> set (base64 x)" using not_alnum by fastforce+
qed

text \<open>A message of HTTP: a first line and the lines of the fields.\<close>

definition http_lines :: "byte list list \<Rightarrow> byte list" where
  "http_lines ls = concat (map (\<lambda>l. CRLF @ l) ls)"

lemma http_lines_simps [simp]: "http_lines [] = []" "http_lines (l # ls) = CRLF @ l @ http_lines ls"
  by (simp_all add: http_lines_def)

abbreviation one_line :: "byte list \<Rightarrow> bool" where
  "one_line s \<equiv> CR \<notin> set s \<and> 0 \<notin> set s"

lemma length_field_line [simp]: "length (field_line name) = 3 + length name"
  by (simp add: field_line_def)

lemma find_line_skip:
  assumes "CR \<notin> set l"
  shows "find_sub (field_line name) (l @ ys) = map_option ((+) (length l)) (find_sub (field_line name) ys)"
  using find_sub_skip [OF assms, of "LF # name @ [0x3a]" ys] by (simp add: field_line_def)

lemma find_line_other:
  assumes "CR \<notin> set l" "CR \<notin> set name" "\<not> prefix (name @ [0x3a]) l"
  shows "find_sub (field_line name) (CRLF @ l @ CR # ys) = map_option ((+) (2 + length l)) (find_sub (field_line name) (CR # ys))"
proof -
  have "take (length (field_line name)) (CRLF @ l @ CR # ys) \<noteq> field_line name"
  proof
    assume "take (length (field_line name)) (CRLF @ l @ CR # ys) = field_line name"
    then have t: "take (Suc (length name)) (l @ CR # ys) = name @ [0x3a]" by (simp add: field_line_def)
    show False
    proof (cases "length name < length l")
      case True
      then have "take (Suc (length name)) l = name @ [0x3a]" using t by (simp add: take_Suc_conv_app_nth)
      then show False using assms(3) by (metis take_is_prefix)
    next
      case False
      then have "CR \<in> set (take (Suc (length name)) (l @ CR # ys))" by (simp add: take_Cons')
      then show False using assms(2) unfolding t by simp
    qed
  qed
  then have "find_sub (field_line name) (CRLF @ l @ CR # ys) = map_option Suc (find_sub (field_line name) (LF # l @ CR # ys))" by simp
  also have "find_sub (field_line name) (LF # l @ CR # ys) = map_option ((+) (length (LF # l))) (find_sub (field_line name) (CR # ys))"
    using find_line_skip [of "LF # l" name "CR # ys"] assms(1) by simp
  finally show ?thesis by (simp add: option.map_comp comp_def)
qed

lemma find_line:
  assumes "CR \<notin> set first" "\<forall>l \<in> set pre. CR \<notin> set l \<and> \<not> prefix (name @ [0x3a]) l" "CR \<notin> set name"
  shows "find_sub (field_line name) (first @ http_lines pre @ field_line name @ ys) = Some (length first + length (http_lines pre))"
proof -
  obtain y where y: "field_line name @ ys = CR # y" by (simp add: field_line_def)
  have "find_sub (field_line name) (http_lines pre @ field_line name @ ys) = Some (length (http_lines pre))"
    using assms(2)
  proof (induction pre)
    case (Cons l pre)
    obtain z where z: "http_lines pre @ field_line name @ ys = CR # z" using y by (cases pre) auto
    show ?case
      using find_line_other [of l name z] Cons assms(3) by (simp add: z del: find_sub.simps)
  qed simp
  then show ?thesis using find_line_skip [OF assms(1)] by simp
qed

text \<open>A field with a value in such a message.\<close>

lemma find_from_append: "find_from (xs @ ys) pat (length xs) = map_option ((+) (length xs)) (find_sub pat ys)"
  by (simp add: find_from_def)

lemma field_value_line:
  assumes "CR \<notin> set first" "\<forall>l \<in> set pre. CR \<notin> set l \<and> \<not> prefix (name @ [0x3a]) l" "CR \<notin> set name" "CR \<notin> set v"
    and s: "s = first @ http_lines pre @ field_line name @ v @ CRLF @ ys"
  shows "field_value s name None = Some (length (first @ http_lines pre @ field_line name))"
    "v = u @ val \<Longrightarrow> u \<noteq> [] \<Longrightarrow> \<not> isalnum (last u) \<Longrightarrow> val \<noteq> [] \<Longrightarrow> find_sub val (name @ [0x3a] @ v) = Some (length (name @ [0x3a] @ u)) \<Longrightarrow>
      field_value s name (Some val) \<noteq> None"
proof -
  let ?i = "length first + length (http_lines pre)"
  have i: "find_sub (field_line name) s = Some ?i" unfolding s by (rule find_line [OF assms(1-3)])
  have s2: "s = (first @ http_lines pre @ CRLF) @ (name @ [0x3a] @ v) @ CRLF @ ys" by (simp add: s field_line_def)
  have ff: "find_from s pat (?i + 2) = map_option ((+) (?i + 2)) (find_sub pat ((name @ [0x3a] @ v) @ CRLF @ ys))" for pat
    using find_from_append [of "first @ http_lines pre @ CRLF" "(name @ [0x3a] @ v) @ CRLF @ ys" pat] unfolding s2 by simp
  have "CR \<notin> set (name @ [0x3a] @ v)" using assms(3,4) by simp
  then have crlf: "find_sub CRLF ((name @ [0x3a] @ v) @ CRLF @ ys) = Some (length (name @ [0x3a] @ v))"
    by (subst find_sub_skip) (simp_all del: append_assoc)
  show "field_value s name None = Some (length (first @ http_lines pre @ field_line name))"
    by (simp only: field_value_def i option.case ff crlf option.map) simp
  assume v: "v = u @ val" "u \<noteq> []" "\<not> isalnum (last u)" "val \<noteq> []" "find_sub val (name @ [0x3a] @ v) = Some (length (name @ [0x3a] @ u))"
  let ?j = "length (name @ [0x3a] @ u)"
  have j: "find_sub val ((name @ [0x3a] @ v) @ CRLF @ ys) = Some ?j" by (rule find_sub_append [OF v(5)])
  have p: "s = (first @ http_lines pre @ CRLF @ name @ [0x3a] @ butlast u) @ last u # val @ CRLF @ ys" using v(1,2) by (simp add: s2)
  define q where "q = first @ http_lines pre @ CRLF @ name @ [0x3a] @ u @ val"
  have q: "s @ [0] = q @ CR # LF # ys @ [0]" "length q = ?i + 2 + ?j + length val" using v(1) by (simp_all add: s2 q_def)
  have n: "s ! (?i + 2 + ?j - 1) = last u"
  proof -
    have "?i + 2 + ?j - 1 = length (first @ http_lines pre @ CRLF @ name @ [0x3a] @ butlast u)" using v(2) by (cases u rule: rev_cases) simp_all
    then show ?thesis by (subst p) (simp only: nth_append_length)
  qed
  have m: "(s @ [0]) ! (?i + 2 + ?j + length val) = CR"
    unfolding q(1) q(2) [symmetric] by (rule nth_append_length)
  show "field_value s name (Some val) \<noteq> None"
    using v(3) not_alnum(2) n m
    by (simp only: field_value_def i option.case ff crlf j option.map) (simp add: v(1))
qed

text \<open>The texts of the request.\<close>

lemma request_texts:
  "ascii ''Upgrade: websocket'' = ascii ''Upgrade'' @ [0x3a] @ [0x20] @ ascii ''websocket''"
  "ascii ''Connection: Upgrade'' = ascii ''Connection'' @ [0x3a] @ [0x20] @ ascii ''Upgrade''"
  "ascii ''Sec-WebSocket-Key: '' = ascii ''Sec-WebSocket-Key'' @ [0x3a] @ [0x20]"
  "find_sub (ascii ''websocket'') (ascii ''Upgrade'' @ [0x3a] @ [0x20] @ ascii ''websocket'') = Some (length (ascii ''Upgrade'' @ [0x3a] @ [0x20]))"
  "find_sub (ascii ''Upgrade'') (ascii ''Connection'' @ [0x3a] @ [0x20] @ ascii ''Upgrade'') = Some (length (ascii ''Connection'' @ [0x3a] @ [0x20]))"
  "ascii ''websocket'' \<noteq> []" "ascii ''Upgrade'' \<noteq> []"
  by code_simp+

lemma request_no_CR [simp]:
  "CR \<notin> set (ascii ''GET '')" "CR \<notin> set (ascii '' HTTP/1.1'')" "CR \<notin> set (ascii ''Host: '')" "CR \<notin> set (ascii '':'')"
  "CR \<notin> set (ascii ''Upgrade'')" "CR \<notin> set (ascii ''Connection'')" "CR \<notin> set (ascii ''Sec-WebSocket-Key'')" "CR \<notin> set (ascii ''websocket'')"
  "CR \<notin> set (ascii ''Upgrade: websocket'')" "CR \<notin> set (ascii ''Connection: Upgrade'')" "CR \<notin> set (ascii ''Sec-WebSocket-Key: '')"
  "CR \<notin> set (ascii ''Sec-WebSocket-Version: 13'')"
  by code_simp+

lemma other_lines:
  "\<not> prefix (ascii ''Upgrade'' @ [0x3a]) (ascii ''Host: '' @ x)" "\<not> prefix (ascii ''Connection'' @ [0x3a]) (ascii ''Host: '' @ x)"
  "\<not> prefix (ascii ''Sec-WebSocket-Key'' @ [0x3a]) (ascii ''Host: '' @ x)" "\<not> prefix (ascii ''Connection'' @ [0x3a]) (ascii ''Upgrade: websocket'')"
  "\<not> prefix (ascii ''Sec-WebSocket-Key'' @ [0x3a]) (ascii ''Upgrade: websocket'')"
  "\<not> prefix (ascii ''Sec-WebSocket-Key'' @ [0x3a]) (ascii ''Connection: Upgrade'')"
proof -
  have h: "ascii ''Host: '' = 0x48 # tl (ascii ''Host: '')" "ascii ''Upgrade'' = 0x55 # tl (ascii ''Upgrade'')"
      "ascii ''Connection'' = 0x43 # tl (ascii ''Connection'')" "ascii ''Sec-WebSocket-Key'' = 0x53 # tl (ascii ''Sec-WebSocket-Key'')"
    by code_simp+
  show "\<not> prefix (ascii ''Upgrade'' @ [0x3a]) (ascii ''Host: '' @ x)" "\<not> prefix (ascii ''Connection'' @ [0x3a]) (ascii ''Host: '' @ x)"
    "\<not> prefix (ascii ''Sec-WebSocket-Key'' @ [0x3a]) (ascii ''Host: '' @ x)"
    by (subst h(1), subst h(2-4), simp)+
qed (code_simp)+

definition request_head :: "byte list \<Rightarrow> byte list" where
  "request_head path = ascii ''GET '' @ path @ ascii '' HTTP/1.1''"

definition host_line :: "byte list \<Rightarrow> byte list \<Rightarrow> byte list" where
  "host_line host service = ascii ''Host: '' @ host @ ascii '':'' @ service"

lemma request_lines:
  "client_request host service path key =
     request_head path @ http_lines [host_line host service, ascii ''Upgrade: websocket'', ascii ''Connection: Upgrade'',
       ascii ''Sec-WebSocket-Key: '' @ key, ascii ''Sec-WebSocket-Version: 13''] @ CRLF @ CRLF"
  by (simp add: client_request_def request_head_def host_line_def)

lemma drop_at: "s = p @ y \<Longrightarrow> drop (length p) s = y"
  by simp

lemma request_key_client:
  assumes "one_line host" "one_line service" "one_line path" and k: "length key = 24" "CR \<notin> set key" "0x20 \<notin> set key"
  shows "request_key (client_request host service path key @ z) = Some key"
proof -
  let ?s = "client_request host service path key @ z" and ?h = "host_line host service"
  have first: "CR \<notin> set (request_head path)" "CR \<notin> set ?h" using assms(1-3) by (simp_all add: request_head_def host_line_def)
  have up: "field_value ?s (ascii ''Upgrade'') (Some (ascii ''websocket'')) \<noteq> None"
    by (rule field_value_line(2) [where first = "request_head path" and pre = "[?h]" and u = "[0x20]" and v = "0x20 # ascii ''websocket''"
          and ys = "ascii ''Connection: Upgrade'' @ http_lines [ascii ''Sec-WebSocket-Key: '' @ key, ascii ''Sec-WebSocket-Version: 13''] @ CRLF @ CRLF @ z"])
      (use first other_lines request_texts not_alnum in \<open>simp_all add: request_lines host_line_def field_line_def\<close>)
  have cn: "field_value ?s (ascii ''Connection'') (Some (ascii ''Upgrade'')) \<noteq> None"
    by (rule field_value_line(2) [where first = "request_head path" and pre = "[?h, ascii ''Upgrade: websocket'']" and u = "[0x20]" and v = "0x20 # ascii ''Upgrade''"
          and ys = "ascii ''Sec-WebSocket-Key: '' @ key @ http_lines [ascii ''Sec-WebSocket-Version: 13''] @ CRLF @ CRLF @ z"])
      (use first other_lines request_texts not_alnum in \<open>simp_all add: request_lines host_line_def field_line_def\<close>)
  let ?pre = "[?h, ascii ''Upgrade: websocket'', ascii ''Connection: Upgrade'']" and ?name = "ascii ''Sec-WebSocket-Key''"
  let ?ys = "ascii ''Sec-WebSocket-Version: 13'' @ CRLF @ CRLF @ z"
  let ?p = "request_head path @ http_lines ?pre @ field_line ?name"
  have ky: "field_value ?s ?name None = Some (length ?p)"
    by (rule field_value_line(1) [where v = "0x20 # key" and ys = ?ys])
      (use first other_lines request_texts k in \<open>simp_all add: request_lines host_line_def field_line_def\<close>)
  have "?s = ?p @ 0x20 # key @ CR # LF # ?ys" using request_texts(3) by (simp add: request_lines field_line_def)
  then have d: "drop (length ?p) ?s = 0x20 # key @ CR # LF # ?ys" by (rule drop_at)
  have "dropWhile (\<lambda>b. b = 0x20) (0x20 # key @ CR # LF # ?ys) = key @ CR # LF # ?ys"
    using k(1,3) by (cases key) auto
  moreover have "takeWhile (\<lambda>b. b \<noteq> CR \<and> b \<noteq> 0x20) (key @ CR # LF # ?ys) = key"
    using k(2,3) by (subst takeWhile_append2) auto
  ultimately show ?thesis using up cn by (simp only: request_key_def ky d option.case Let_def) (simp add: k(1))
qed

end
