(* ===== verification/Wslay_Handshake_Agreement.thy ===== *)
theory Wslay_Handshake_Agreement
  imports Wslay_Client_Handshake
begin

text \<open>
  The two examples agree on the handshake: the server of \<open>examples/fork-echoserv.c\<close> takes the request of \<open>examples/testclient.cc\<close>, and the
  client takes that server's response. Both loops end, whatever the network does with the bytes; what fails is the reading or the
  writing.

  The server stops reading only where the four bytes CR LF CR LF are the last it has read, and the client where they have occurred:
  \<open>complete\<close> and \<open>find_sub (CRLF @ CRLF)\<close>.
\<close>

text \<open>The empty line ends a message of HTTP, and there is none before it.\<close>

lemma find_end_skip:
  assumes "CR \<notin> set l"
  shows "find_sub (CRLF @ CRLF) (l @ ys) = map_option ((+) (length l)) (find_sub (CRLF @ CRLF) ys)"
  using find_sub_skip [OF assms, of "LF # CRLF" ys] by simp

lemma find_end_line:
  assumes "CR \<notin> set l" "l \<noteq> []"
  shows "find_sub (CRLF @ CRLF) (CRLF @ l @ ys) = map_option ((+) (2 + length l)) (find_sub (CRLF @ CRLF) ys)"
proof -
  obtain c l' where l: "l = c # l'" "c \<noteq> CR" using assms by (cases l) auto
  have "find_sub (CRLF @ CRLF) (CRLF @ l @ ys) = map_option Suc (find_sub (CRLF @ CRLF) ((LF # l) @ ys))" by (simp add: l)
  also have "\<dots> = map_option Suc (map_option ((+) (length (LF # l))) (find_sub (CRLF @ CRLF) ys))"
    using find_end_skip [of "LF # l" ys] assms(1) by simp
  finally show ?thesis by (cases "find_sub (CRLF @ CRLF) ys") simp_all
qed

lemma find_end_lines:
  assumes "\<forall>l \<in> set ls. CR \<notin> set l \<and> l \<noteq> []"
  shows "find_sub (CRLF @ CRLF) (http_lines ls @ CRLF @ CRLF @ z) = Some (length (http_lines ls))"
  using assms
proof (induction ls)
  case Nil
  then show ?case using find_sub_here [of "CRLF @ CRLF" z] by simp
next
  case (Cons l ls)
  then have "find_sub (CRLF @ CRLF) (CRLF @ l @ http_lines ls @ CRLF @ CRLF @ z)
      = map_option ((+) (2 + length l)) (find_sub (CRLF @ CRLF) (http_lines ls @ CRLF @ CRLF @ z))"
    by (intro find_end_line) simp_all
  then show ?case using Cons by (simp del: find_sub.simps)
qed

lemma find_end:
  assumes "CR \<notin> set first" "\<forall>l \<in> set ls. CR \<notin> set l \<and> l \<noteq> []"
  shows "find_sub (CRLF @ CRLF) (first @ http_lines ls @ CRLF @ CRLF @ z) = Some (length first + length (http_lines ls))"
  using find_end_skip [OF assms(1), of "http_lines ls @ CRLF @ CRLF @ z"] find_end_lines [OF assms(2), of z] by simp

text \<open>What comes before the end of such a message is not complete.\<close>

lemma find_end_occurs: "complete req \<longleftrightarrow> 4 \<le> length req \<and> occurs (CRLF @ CRLF) req (length req - 4)"
  by (auto simp: complete_def occurs_def)

lemma complete_only_once:
  assumes m: "find_sub (CRLF @ CRLF) m = Some i" "length m = i + 4" and p: "m = req @ z" "complete req"
  shows "req = m" "z = []"
proof -
  have "occurs (CRLF @ CRLF) m (length req - 4)" using p by (auto simp: find_end_occurs occurs_def)
  then have "i \<le> length req - 4" using m(1) by (auto simp: find_sub_Some not_less)
  moreover have "length req + length z = i + 4" "4 \<le> length req" using m(2) p by (simp_all add: complete_def)
  ultimately have "length z = 0" by linarith
  then have "z = []" by simp
  then show "req = m" "z = []" using p by simp_all
qed

lemma complete_end: "complete (x @ CRLF @ CRLF)"
  by (simp add: complete_def)

text \<open>The request.\<close>

lemma request_end:
  assumes "one_line host" "one_line service" "one_line path" "one_line key"
  shows "find_sub (CRLF @ CRLF) (client_request host service path key) = Some (length (client_request host service path key) - 4)"
    "4 \<le> length (client_request host service path key)" "0 \<notin> set (client_request host service path key)"
    "complete (client_request host service path key)"
proof -
  let ?ls = "[host_line host service, ascii ''Upgrade: websocket'', ascii ''Connection: Upgrade'', ascii ''Sec-WebSocket-Key: '' @ key,
    ascii ''Sec-WebSocket-Version: 13'']"
  have "ascii ''Host: '' \<noteq> []" "ascii ''Upgrade: websocket'' \<noteq> []" "ascii ''Connection: Upgrade'' \<noteq> []" "ascii ''Sec-WebSocket-Key: '' \<noteq> []"
    "ascii ''Sec-WebSocket-Version: 13'' \<noteq> []" by (simp_all add: ascii_def)
  then have "find_sub (CRLF @ CRLF) (request_head path @ http_lines ?ls @ CRLF @ CRLF @ []) = Some (length (request_head path) + length (http_lines ?ls))"
    using assms by (intro find_end) (simp_all add: request_head_def host_line_def)
  then show "find_sub (CRLF @ CRLF) (client_request host service path key) = Some (length (client_request host service path key) - 4)"
    by (simp add: request_lines del: find_sub.simps)
  show "4 \<le> length (client_request host service path key)" by (simp add: request_lines)
  show "complete (client_request host service path key)"
    using complete_end [of "request_head path @ http_lines ?ls"] by (simp only: request_lines append_assoc)
  have "0 \<notin> set (ascii ''GET '')" "0 \<notin> set (ascii '' HTTP/1.1'')" "0 \<notin> set (ascii ''Host: '')" "0 \<notin> set (ascii '':'')"
      "0 \<notin> set (ascii ''Upgrade: websocket'')" "0 \<notin> set (ascii ''Connection: Upgrade'')" "0 \<notin> set (ascii ''Sec-WebSocket-Key: '')"
      "0 \<notin> set (ascii ''Sec-WebSocket-Version: 13'')"
    by code_simp+
  then show "0 \<notin> set (client_request host service path key)" using assms by (simp add: client_request_def)
qed

section \<open>The server takes the client's request\<close>

lemma key_chars:
  assumes "base64_ok base64"
  shows "one_line (base64 x)" "length x = 16 \<Longrightarrow> length (base64 x) = 24" "length x = 20 \<Longrightarrow> length (base64 x) = 28"
  using base64_chars [OF assms, of x] assms by (simp_all add: base64_ok_def)

lemma accept_key_agrees:
  assumes "base64_ok base64" "sha1_ok sha1" "length key = 24"
  shows "create_accept_key sha1 base64 key = create_acceptkey sha1 base64 key"
proof -
  let ?a = "base64 (sha1 (key @ WS_GUID))"
  have l: "length ?a = 28" "0 \<notin> set ?a" using key_chars(3) [OF assms(1)] base64_chars(1) [OF assms(1)] assms(2) by (simp_all add: sha1_ok_def)
  have "(write_at (replicate 29 0) 0 ?a)[28 := 0] = ?a @ [0]" using l(1) by (simp add: write_at_def list_update_append)
  moreover have "takeWhile (\<lambda>b. b \<noteq> 0) (?a @ [0]) = ?a" using l(2) by (subst takeWhile_append2) auto
  ultimately show ?thesis using assms(3) by (simp add: create_accept_key_def create_acceptkey_def)
qed

lemma res_header_whole:
  assumes "length accept = 28"
  shows "res_header accept = handshake_response accept"
proof -
  have "length (ascii ''HTTP/1.1 101 Switching Protocols'') = 32" "length (ascii ''Upgrade: websocket'') = 18"
      "length (ascii ''Connection: Upgrade'') = 19" "length (ascii ''Sec-WebSocket-Accept: '') = 22"
    by (simp_all add: ascii_def)
  then show ?thesis using assms by (simp add: res_header_def handshake_response_def)
qed

lemma server_takes_request:
  assumes o: "handshake_outcome stream wire ok sha1 base64 junk w res w'"
    and j: "length req \<le> length junk" "0 \<in> set (drop (length req) junk)"
    and s: "stream w = req" "req = client_request host service path key"
    and n: "base64_ok base64" "sha1_ok sha1" "one_line host" "one_line service" "one_line path" "one_line key" "0x20 \<notin> set key" "length key = 24"
  shows "res = Inr 0 \<and> stream w' = [] \<and> wire w' = wire w @ handshake_response (create_acceptkey sha1 base64 key) \<or>
    res = Inr (-1) \<and> (stream w' \<noteq> [] \<and> wire w' = wire w \<or>
      (\<exists>part. strict_prefix part (handshake_response (create_acceptkey sha1 base64 key)) \<and> wire w' = wire w @ part))"
proof -
  note re = request_end [OF n(3-6), folded s(2)]
  have resp: "res_header (create_accept_key sha1 base64 key) = handshake_response (create_acceptkey sha1 base64 key)"
    using key_chars(3) [OF n(1)] n(2) by (simp add: accept_key_agrees [OF n(1,2,8)] create_acceptkey_def sha1_ok_def res_header_whole)
  obtain got part where g: "req = got @ stream w'" "wire w' = wire w @ part"
    and out: "let mem = write_at junk 0 got
      in case res of
           Inl f \<Rightarrow> f = BufferOverflow \<and> part = [] \<and> c_string mem 0 = None
         | Inr r \<Rightarrow>
             (r = (0 :: int) \<and> (\<exists>s key. c_string mem 0 = Some s \<and> request_key s = Some key \<and> part = res_header (create_accept_key sha1 base64 key)) \<or>
              r = -1 \<and> (part = [] \<and> (complete got \<longrightarrow> (\<exists>s. c_string mem 0 = Some s \<and> request_key s = None)) \<or>
                 (\<exists>s key. c_string mem 0 = Some s \<and> request_key s = Some key \<and> complete got \<and>
                 strict_prefix part (res_header (create_accept_key sha1 base64 key)))))"
    and c: "res \<noteq> Inr (-1) \<longrightarrow> length got \<le> HEADER_SIZE \<and> complete got"
    using o unfolding handshake_outcome_def s(1) by (elim conjE exE) (rule that)
  show ?thesis
  proof (cases "complete got")
    case False
    then have "got \<noteq> req" using re(4) by blast
    then have "stream w' \<noteq> []" using g(1) by simp
    moreover have "res = Inr (-1)" using c False by blast
    ultimately show ?thesis using out False g(2) by (auto simp: Let_def)
  next
    case True
    have got: "got = req" "stream w' = []" using complete_only_once [OF re(1) _ g(1) True] re(2) by simp_all
    let ?mem = "write_at junk 0 req"
    let ?z = "drop (length req) junk" and ?nz = "\<lambda>b :: byte. b \<noteq> 0"
    have "?mem = req @ ?z" using j(1) by (simp add: write_at_def)
    then have mem: "c_string ?mem 0 = Some (req @ takeWhile ?nz ?z)" using re(3) j(2) by (simp add: c_string_def) (subst takeWhile_append2, auto)
    have rk: "request_key (req @ takeWhile ?nz ?z) = Some key"
      unfolding s(2) by (rule request_key_client) (use n in simp_all)
    show ?thesis using out mem rk got g(2) re(4) by (cases res) (auto simp: Let_def resp)
  qed
qed

section \<open>The client takes the server's response\<close>

lemma find_from_0: "find_from s pat 0 = find_sub pat s"
  by (cases "find_sub pat s") (simp_all add: find_from_def)

context file_os begin

lemma send_http_handshake_ends:
  assumes "ok w"
  shows "\<exists>sent w' part. send_http_handshake fl fd req off w = Some (if sent then 0 else -1, w') \<and> ok w' \<and> stream w' = stream w \<and>
    wire w' = wire w @ part \<and> prefix part (drop off req) \<and> (sent \<longleftrightarrow> part = drop off req)"
  using assms
proof (induction "length req - off" arbitrary: off w rule: less_induct)
  case less
  show ?case
  proof (cases "off < length req")
    case False
    then show ?thesis using less.prems by (subst send_http_handshake.simps) (intro exI [of _ True] exI [of _ w] exI [of _ "[]"], simp)
  next
    case True
    obtain r e w1 where wr: "fl_write fl fd (drop off req) w = (r, e, w1)" by (metis prod_cases3)
    have ds: "drop off req \<noteq> []" using True by simp
    note k = write_ok [OF less.prems ds wr]
    show ?thesis
    proof (cases "r = -1")
      case True
      then have "send_http_handshake fl fd req off w = Some (-1, w1)" using \<open>off < length req\<close> by (subst send_http_handshake.simps) (simp add: wr)
      then show ?thesis using True k ds by (intro exI [of _ False] exI [of _ w1] exI [of _ "[]"]) simp
    next
      case go: False
      then have r: "0 < r" "nat r \<le> length req - off" "wire w1 = wire w @ take (nat r) (drop off req)" using k by simp_all
      then have d: "length req - (off + nat r) < length req - off" using True by linarith
      obtain sent w' part where n: "send_http_handshake fl fd req (off + nat r) w1 = Some (if sent then 0 else -1, w')" "ok w'" "stream w' = stream w1"
          "wire w' = wire w1 @ part" "prefix part (drop (off + nat r) req)" "sent \<longleftrightarrow> part = drop (off + nat r) req"
        using less.hyps [OF d] k by blast
      have u: "send_http_handshake fl fd req off w = Some (if sent then 0 else -1, w')"
        using True go n(1) by (subst send_http_handshake.simps) (simp add: wr)
      have whole: "drop off req = take (nat r) (drop off req) @ drop (off + nat r) req"
        by (metis append_take_drop_id drop_drop add.commute)
      have "prefix (take (nat r) (drop off req) @ part) (drop off req)" using n(5) by (subst whole) simp
      moreover have "sent \<longleftrightarrow> take (nat r) (drop off req) @ part = drop off req" using n(6) by (subst whole) simp
      ultimately show ?thesis
        using u n(2-4) r(3) k by (intro exI [of _ sent] exI [of _ w'] exI [of _ "take (nat r) (drop off req) @ part"]) simp
    qed
  qed
qed

lemma recv_http_handshake_ends:
  assumes "ok w" "length res \<le> 8192" "find_sub (CRLF @ CRLF) res = None"
  shows "\<exists>r bs w'. recv_http_handshake fl fd res w = Some (r, res @ bs, w') \<and> ok w' \<and> wire w' = wire w \<and> stream w = bs @ stream w' \<and>
    (r = 0 \<and> find_sub (CRLF @ CRLF) (res @ bs) \<noteq> None \<or> r = -1 \<and> find_sub (CRLF @ CRLF) (res @ bs) = None)"
  using assms
proof (induction "8193 - length res" arbitrary: res w rule: less_induct)
  case less
  note ff = find_from_0
  obtain r bs e w1 where rd: "fl_read fl fd 4096 w = (r, bs, e, w1)" by (metis prod_cases4)
  note k = read_ok [OF less.prems(1) rd]
  show ?case
  proof (cases "r \<le> 0")
    case True
    then have "recv_http_handshake fl fd res w = Some (-1, res, w1)" by (subst recv_http_handshake.simps) (simp add: rd)
    moreover have "bs = []" using True k by simp
    ultimately show ?thesis using k less.prems(3) by (intro exI [of _ "-1"] exI [of _ "[]"] exI [of _ w1]) simp
  next
    case False
    have b: "take (nat r) bs = bs" using k by simp
    let ?new = "res @ bs"
    have u: "recv_http_handshake fl fd res w =
        (if find_sub (CRLF @ CRLF) ?new \<noteq> None then Some (0, ?new, w1)
         else if 8192 < length ?new then Some (-1, ?new, w1) else recv_http_handshake fl fd ?new w1)"
      using False by (subst recv_http_handshake.simps) (simp only: rd prod.case if_not_P [OF False] if_False Let_def b ff)
    consider "find_sub (CRLF @ CRLF) ?new \<noteq> None" | "find_sub (CRLF @ CRLF) ?new = None" "8192 < length ?new"
      | "find_sub (CRLF @ CRLF) ?new = None" "\<not> 8192 < length ?new" by blast
    then show ?thesis
    proof cases
      case 1
      then show ?thesis using u k by (intro exI [of _ 0] exI [of _ bs] exI [of _ w1]) (simp only: if_P, simp)
    next
      case 2
      have "recv_http_handshake fl fd res w = Some (-1, ?new, w1)" unfolding u by (simp only: 2 if_True simp_thms if_False)
      then show ?thesis using 2 k by (intro exI [of _ "-1"] exI [of _ bs] exI [of _ w1]) simp
    next
      case 3
      have "0 < length bs" using False k by simp
      then have d: "8193 - length ?new < 8193 - length res" using less.prems(2) by (simp only: length_append)
      have u3: "recv_http_handshake fl fd res w = recv_http_handshake fl fd ?new w1" unfolding u by (simp only: 3 simp_thms if_False)
      obtain r' bs' w' where n: "recv_http_handshake fl fd ?new w1 = Some (r', ?new @ bs', w')" "ok w'" "wire w' = wire w1" "stream w1 = bs' @ stream w'"
          "r' = 0 \<and> find_sub (CRLF @ CRLF) (?new @ bs') \<noteq> None \<or> r' = -1 \<and> find_sub (CRLF @ CRLF) (?new @ bs') = None"
        using less.hyps [OF d _ _ 3(1)] k 3(2) by (metis not_less)
      show ?thesis using u3 n k by (intro exI [of _ r'] exI [of _ "bs @ bs'"] exI [of _ w']) simp
    qed
  qed
qed

end


lemma response_texts:
  "find_sub (ascii ''Sec-WebSocket-Accept: '') (ascii ''HTTP/1.1 101 Switching Protocols'' @ CRLF @ ascii ''Upgrade: websocket'' @ CRLF @
     ascii ''Connection: Upgrade'' @ CRLF @ ascii ''Sec-WebSocket-Accept: '') = Some 75"
  "length (ascii ''HTTP/1.1 101 Switching Protocols'' @ CRLF @ ascii ''Upgrade: websocket'' @ CRLF @
     ascii ''Connection: Upgrade'' @ CRLF @ ascii ''Sec-WebSocket-Accept: '') = 97"
  "CR \<notin> set (ascii ''HTTP/1.1 101 Switching Protocols'')" "CR \<notin> set (ascii ''Sec-WebSocket-Accept: '')"
  "ascii ''Upgrade: websocket'' \<noteq> []" "ascii ''Connection: Upgrade'' \<noteq> []" "ascii ''Sec-WebSocket-Accept: '' \<noteq> []"
  by code_simp+

lemma response_end:
  assumes "CR \<notin> set accept"
  shows "find_sub (CRLF @ CRLF) (handshake_response accept @ z) = Some (length (handshake_response accept) - 4)"
    "4 \<le> length (handshake_response accept)"
proof -
  let ?ls = "[ascii ''Upgrade: websocket'', ascii ''Connection: Upgrade'', ascii ''Sec-WebSocket-Accept: '' @ accept]"
  have "find_sub (CRLF @ CRLF) (ascii ''HTTP/1.1 101 Switching Protocols'' @ http_lines ?ls @ CRLF @ CRLF @ z)
      = Some (length (ascii ''HTTP/1.1 101 Switching Protocols'') + length (http_lines ?ls))"
    using assms response_texts by (intro find_end) simp_all
  then show "find_sub (CRLF @ CRLF) (handshake_response accept @ z) = Some (length (handshake_response accept) - 4)"
    by (simp add: handshake_response_def del: find_sub.simps)
  show "4 \<le> length (handshake_response accept)" by (simp add: handshake_response_def)
qed

lemma check_response_accepts:
  assumes "CR \<notin> set accept" "accept = create_acceptkey sha1 base64 key"
  shows "check_response sha1 base64 key (handshake_response accept @ body) = Some body"
proof -
  let ?name = "ascii ''Sec-WebSocket-Accept: ''"
  define p where "p = ascii ''HTTP/1.1 101 Switching Protocols'' @ CRLF @ ascii ''Upgrade: websocket'' @ CRLF @ ascii ''Connection: Upgrade'' @ CRLF @ ?name"
  have lp: "length p = 97" using response_texts(2) by (simp only: p_def)
  let ?s = "p @ accept @ CRLF @ CRLF @ body"
  have s: "handshake_response accept @ body = ?s" by (simp add: handshake_response_def p_def)
  have "find_sub ?name ?s = Some 75" using response_texts(1) unfolding p_def by (rule find_sub_append)
  then have name: "find_from ?s ?name 0 = Some 75" unfolding find_from_0 .
  have "find_sub CRLF (accept @ CRLF @ CRLF @ body) = Some (length accept)"
    using find_sub_skip [OF assms(1), of "[LF]" "CRLF @ CRLF @ body"] by simp
  then have crlf: "find_from ?s CRLF 97 = Some (97 + length accept)"
    using find_from_append [of p "accept @ CRLF @ CRLF @ body" CRLF] by (simp add: lp)
  have "length (handshake_response accept) = 97 + length accept + 4" using arg_cong [OF s, of length] lp by simp
  then have "find_sub (CRLF @ CRLF) ?s = Some (97 + length accept)" using response_end(1) [OF assms(1), of body] unfolding s by simp
  then have end': "find_from ?s (CRLF @ CRLF) 0 = Some (97 + length accept)" unfolding find_from_0 .
  have key: "substr ?s 97 (map_option (\<lambda>e. e - 97) (Some (97 + length accept))) = accept"
    by (simp add: substr_def lp)
  have body: "substr ?s (97 + length accept + 4) None = body"
    using drop_at [of ?s "p @ accept @ CRLF @ CRLF" body] by (simp add: substr_def lp del: drop_append)
  have n: "75 + 22 = (97 :: nat)" by simp
  show ?thesis
    by (simp only: check_response_def s name option.case Let_def n crlf key if_P [OF assms(2)] end' body)
qed

text \<open>What the client reads is too short, or the response and the beginning of what comes after it.\<close>

lemma response_read:
  assumes "CR \<notin> set accept" "handshake_response accept @ early = got @ rest"
  shows "find_sub (CRLF @ CRLF) got \<noteq> None \<Longrightarrow> \<exists>body. got = handshake_response accept @ body \<and> prefix body early"
    "find_sub (CRLF @ CRLF) got = None \<Longrightarrow> strict_prefix got (handshake_response accept)"
proof -
  let ?r = "handshake_response accept"
  consider body where "got = ?r @ body" "early = body @ rest" | "strict_prefix got ?r"
  proof (cases "length ?r \<le> length got")
    case True
    then show thesis using that(1) [of "drop (length ?r) got"] assms(2) by (auto simp: append_eq_append_conv_if) (metis append_take_drop_id)
  next
    case False
    then have "got = take (length got) ?r" using assms(2) by (auto simp: append_eq_append_conv_if)
    then show thesis using that(2) False by (metis le_refl prefix_order.dual_order.strict_iff_order take_is_prefix)
  qed
  note split = this
  { assume "find_sub (CRLF @ CRLF) got \<noteq> None"
    then obtain i where i: "find_sub (CRLF @ CRLF) got = Some i" by blast
    have "i + 4 \<le> length got" using find_sub_bound [OF i] by simp
    moreover have "i = length ?r - 4" using find_sub_append [OF i, of rest] response_end(1) [OF assms(1), of early] assms(2) by simp
    ultimately have "length ?r \<le> length got" by linarith
    then show "\<exists>body. got = ?r @ body \<and> prefix body early" using split by (metis prefixI prefix_length_less not_le)
  }
  assume none: "find_sub (CRLF @ CRLF) got = None"
  have "got \<noteq> ?r @ body" for body using none response_end(1) [OF assms(1), of body] by auto
  then show "strict_prefix got ?r" using split by blast
qed


section \<open>The client's handshake\<close>

text \<open>\<open>/dev/urandom\<close> gives as many bytes as were asked for and leaves the connection alone.\<close>

locale client_os = file_os fl stream wire ok
  for fl :: "'o file_calls" and stream wire ok +
  fixes rnd :: "nat \<Rightarrow> 'o \<Rightarrow> byte list \<times> 'o"
  assumes rnd_ok: "ok w \<Longrightarrow> rnd n w = (bs, w') \<Longrightarrow> length bs = n \<and> ok w' \<and> stream w' = stream w \<and> wire w' = wire w"

text \<open>What the handshake does. \<open>sent\<close> is what it wrote, \<open>got\<close> what it read.\<close>

definition client_outcome where
  "client_outcome stream wire ok sha1 base64 request key w r body w' \<longleftrightarrow> ok w' \<and> (\<exists>sent got. wire w' = wire w @ sent \<and> stream w = got @ stream w' \<and>
     prefix sent request \<and> (r = (0 :: int) \<or> r = -1) \<and>
     (if sent \<noteq> request then r = -1 \<and> got = []
      else if find_sub (CRLF @ CRLF) got = None then r = -1
      else if r = 0 then check_response sha1 base64 key got = Some body else check_response sha1 base64 key got = None))"

context client_os begin

lemma client_handshake_ends:
  assumes "ok w" and key: "key = base64 (fst (rnd 16 w))" and req: "request = client_request host service path key"
    and short: "length request \<le> 4095" "0 \<notin> set request"
  shows "\<exists>r body w'. client_http_handshake fl rnd sha1 base64 fd host service path w = Some (r, body, w') \<and>
    client_outcome stream wire ok sha1 base64 request key w r body w'"
proof -
  obtain bs w1 where r: "rnd 16 w = (bs, w1)" by fastforce
  note k1 = rnd_ok [OF assms(1) r]
  have hdr: "takeWhile (\<lambda>b. b \<noteq> 0) (take 4095 request) = request" using short by (simp add: takeWhile_eq_all_conv) metis
  obtain sent w2 part where s: "send_http_handshake fl fd request 0 w1 = Some (if sent then 0 else -1, w2)" "ok w2" "stream w2 = stream w1"
      "wire w2 = wire w1 @ part" "prefix part request" "sent \<longleftrightarrow> part = request"
    using send_http_handshake_ends [of w1 fd request 0] k1 by (auto simp only: drop_0)
  have key': "key = base64 bs" using key r by simp
  have u: "client_http_handshake fl rnd sha1 base64 fd host service path w =
      (if \<not> sent then Some (-1, [], w2)
       else (case recv_http_handshake fl fd [] w2 of
               None \<Rightarrow> None
             | Some (r, resheader, w3) \<Rightarrow>
                 if r = -1 then Some (-1, [], w3)
                 else (case check_response sha1 base64 key resheader of None \<Rightarrow> Some (-1, [], w3) | Some body \<Rightarrow> Some (0, body, w3))))"
    unfolding client_http_handshake_def r prod.case Let_def key' [symmetric] req [symmetric] hdr s(1) option.case by simp
  show ?thesis
  proof (cases sent)
    case False
    then have "client_http_handshake fl rnd sha1 base64 fd host service path w = Some (-1, [], w2)" using u by simp
    moreover have "client_outcome stream wire ok sha1 base64 request key w (-1) [] w2"
      unfolding client_outcome_def using s k1 False by (intro conjI exI [of _ part] exI [of _ "[]"]) simp_all
    ultimately show ?thesis by blast
  next
    case True
    obtain r got w3 where g: "recv_http_handshake fl fd [] w2 = Some (r, [] @ got, w3)" "ok w3" "wire w3 = wire w2" "stream w2 = got @ stream w3"
        "r = 0 \<and> find_sub (CRLF @ CRLF) ([] @ got) \<noteq> None \<or> r = -1 \<and> find_sub (CRLF @ CRLF) ([] @ got) = None"
      using recv_http_handshake_ends [OF s(2), of "[]" fd] by auto
    define res where "res = (if r = -1 then None else check_response sha1 base64 key got)"
    note out = client_outcome_def [of stream wire ok sha1 base64 request key w]
    show ?thesis
    proof (cases res)
      case None
      then have "client_http_handshake fl rnd sha1 base64 fd host service path w = Some (-1, [], w3)"
        using u True g(1) by (auto simp: res_def split: if_splits)
      moreover have "client_outcome stream wire ok sha1 base64 request key w (-1) [] w3"
        unfolding out using s k1 True g None by (intro conjI exI [of _ part] exI [of _ got]) (auto simp: res_def split: if_splits)
      ultimately show ?thesis by blast
    next
      case (Some body)
      then have c: "r \<noteq> -1" "check_response sha1 base64 key got = Some body" by (simp_all add: res_def split: if_splits)
      then have "client_http_handshake fl rnd sha1 base64 fd host service path w = Some (0, body, w3)" using u True g(1) by simp
      moreover have "client_outcome stream wire ok sha1 base64 request key w 0 body w3"
        unfolding out using s k1 True g c by (intro conjI exI [of _ part] exI [of _ got]) auto
      ultimately show ?thesis by blast
    qed
  qed
qed

end

lemma client_takes_response:
  assumes o: "client_outcome stream wire ok sha1 base64 request key w r body w'"
    and s: "stream w = part @ early" "prefix part (handshake_response (create_acceptkey sha1 base64 key))"
      "part \<noteq> handshake_response (create_acceptkey sha1 base64 key) \<longrightarrow> early = []"
    and n: "base64_ok base64"
  shows "r = 0 \<and> wire w' = wire w @ request \<and> part = handshake_response (create_acceptkey sha1 base64 key) \<and> prefix body early \<and> body @ stream w' = early \<or>
    r = -1 \<and> ((\<exists>sent. strict_prefix sent request \<and> wire w' = wire w @ sent) \<or>
      (\<exists>got. strict_prefix got (handshake_response (create_acceptkey sha1 base64 key)) \<and> stream w = got @ stream w'))"
proof -
  let ?a = "create_acceptkey sha1 base64 key"
  have cr: "CR \<notin> set ?a" using base64_chars(2) [OF n] by (simp add: create_acceptkey_def)
  obtain sent got where g: "wire w' = wire w @ sent" "stream w = got @ stream w'" "prefix sent request" "r = 0 \<or> r = -1"
      "if sent \<noteq> request then r = -1 \<and> got = []
      else if find_sub (CRLF @ CRLF) got = None then r = -1
      else if r = 0 then check_response sha1 base64 key got = Some body else check_response sha1 base64 key got = None"
    using o unfolding client_outcome_def by blast
  show ?thesis
  proof (cases "sent = request")
    case False
    then show ?thesis using g by (auto simp: strict_prefix_def)
  next
    case sent: True
    obtain tail where tail: "handshake_response ?a @ early = part @ early @ tail \<and> (part = handshake_response ?a \<longrightarrow> tail = []) \<or>
        early = [] \<and> handshake_response ?a = part @ tail"
      using s(2,3) by (auto simp: prefix_def)
    then have st: "handshake_response ?a @ early = got @ stream w' @ tail" using g(2) s(1,3) by auto
    note rd = response_read [OF cr st]
    show ?thesis
    proof (cases "find_sub (CRLF @ CRLF) got")
      case None
      then show ?thesis using rd(2) sent g by auto
    next
      case (Some i)
      then obtain b where b: "got = handshake_response ?a @ b" "prefix b early" using rd(1) by blast
      have part: "part = handshake_response ?a"
      proof (rule ccontr)
        assume "part \<noteq> handshake_response ?a"
        then have "strict_prefix part (handshake_response ?a)" "early = []" using s by (simp_all add: strict_prefix_def)
        then have "length part < length (handshake_response ?a)" "part = got @ stream w'"
          using g(2) s(1) prefix_length_less by (blast, simp)
        then show False using b(1) by simp
      qed
      have "check_response sha1 base64 key got = Some b" using check_response_accepts [OF cr refl] b(1) by simp
      then have "r = 0" "body = b" using g(4,5) sent Some by (auto split: if_splits)
      then show ?thesis using part b g sent s(1) by auto
    qed
  qed
qed

end
