(* ===== verification/Wslay_Handshake_Props.thy ===== *)
theory Wslay_Handshake_Props
  imports Wslay_Session_Props Wslay_Handshake_Agreement
begin

text \<open>
  What the HTTP handshakes of the examples guarantee: the search for a field, the server's handshake on every request, its whole
  output, and that the server and the client of the examples agree. The instances run on a scripted connection.
\<close>

section \<open>A scripted connection\<close>

text \<open>Two feeds, as \<open>duplex_os\<close> has them; a \<open>write\<close> without room fails.\<close>

definition pair_calls :: "(scripted_data_feed \<times> scripted_data_feed) file_calls" where
  "pair_calls =
     \<lparr>fl_read = (\<lambda>fd len (i, out). case scripted_recv_callback len 0 i of (r, bs, i') \<Rightarrow> (r, bs, EAGAIN, (i', out))),
      fl_write = (\<lambda>fd ds (i, out). case scripted_send_callback ds 0 False out of (r, out') \<Rightarrow> (if r = 0 then -1 else r, EAGAIN, (i, out'))),
      fl_getfl = (\<lambda>fd w. (2, w)), fl_setfl = (\<lambda>fd flags w. (0, w)), fl_nodelay = (\<lambda>fd w. (0, w)), fl_O_NONBLOCK = 0x800\<rparr>"

interpretation pair_client: client_os pair_calls "df_stream \<circ> fst" "df_wire \<circ> snd" duplex_ok "\<lambda>n w. (replicate n 7, w)"
proof
  fix w fd len r bs e w'
  assume "duplex_ok w" and rd: "fl_read pair_calls fd len w = (r, bs, e, w')"
  then have ok: "df_ok (fst w)" "df_ok (snd w)" and cb: "recv_callback feed_callbacks len 0 (fst w) = (r, bs, fst w')" "snd w' = snd w"
    by (auto simp: pair_calls_def feed_callbacks_def duplex_ok_def split: prod.splits)
  have r: "0 \<le> r" "r = 0 \<Longrightarrow> bs = []"
    using cb(1) by (auto simp: feed_callbacks_def scripted_recv_callback_def arr_slice_def Let_def split: if_splits)
  show "duplex_ok w' \<and> (df_wire \<circ> snd) w' = (df_wire \<circ> snd) w \<and> -1 \<le> r \<and> r \<le> int len \<and> length bs = nat r \<and>
      (df_stream \<circ> fst) w = bs @ (df_stream \<circ> fst) w'"
    using feed_source.recv_ok [OF ok(1) cb(1)] feed_source.recv_bound [OF ok(1) cb(1)] feed_source.recv_some [OF ok(1) cb(1)]
      feed_source.recv_none [OF ok(1) cb(1)] ok(2) cb(2) r by (cases "0 < r") (simp_all add: duplex_ok_def)
next
  fix w fd ds r e w'
  assume "duplex_ok w" and ds: "ds \<noteq> []" and wr: "fl_write pair_calls fd ds w = (r, e, w')"
  then have ok: "df_ok (fst w)" "df_ok (snd w)" by (auto simp: duplex_ok_def)
  obtain r0 where cb: "send_callback feed_callbacks ds 0 False (snd w) = (r0, snd w')" "fst w' = fst w" "r = (if r0 = 0 then -1 else r0)"
    using wr by (auto simp: pair_calls_def feed_callbacks_def split: prod.splits)
  have "0 \<le> r0" using cb(1) by (auto simp: feed_callbacks_def scripted_send_callback_def Let_def)
  then show "duplex_ok w' \<and> (df_stream \<circ> fst) w' = (df_stream \<circ> fst) w \<and>
      (r = -1 \<and> (df_wire \<circ> snd) w' = (df_wire \<circ> snd) w \<or> 0 < r \<and> nat r \<le> length ds \<and> (df_wire \<circ> snd) w' = (df_wire \<circ> snd) w @ take (nat r) ds)"
    using feed_sink.send_ok [OF ok(2) cb(1)] feed_sink.send_some [OF ok(2) cb(1)] feed_sink.send_none [OF ok(2) cb(1)] ok(1) cb(2,3)
    by (cases "r0 = 0") (simp_all add: duplex_ok_def)
qed (auto simp: pair_calls_def)

text \<open>A request and a connection it comes over, in the pieces \<open>rs\<close>; what is written goes out in the pieces \<open>ws\<close>.\<close>

definition toy_base64 :: "byte list \<Rightarrow> byte list" where
  "toy_base64 x = replicate (4 * ((length x + 2) div 3)) 0x41"

definition toy_sha1 :: "byte list \<Rightarrow> byte list" where
  "toy_sha1 x = replicate 20 (fold (+) x 0)"

lemma toy_ok: "base64_ok toy_base64" "sha1_ok toy_sha1"
  by (auto simp: base64_ok_def sha1_ok_def toy_base64_def toy_sha1_def isalnum_def)

definition some_request :: "byte list" where
  "some_request = client_request (ascii ''h'') (ascii ''80'') (ascii ''/'') (replicate 24 0x41)"

definition connection :: "byte list \<Rightarrow> nat list \<Rightarrow> nat list \<Rightarrow> scripted_data_feed \<times> scripted_data_feed" where
  "connection bs rs ws = ((scripted_data_feed_init bs)\<lparr>df_feedseq := rs\<rparr>, (scripted_data_feed_init (replicate 4096 0))\<lparr>df_feedseq := ws\<rparr>)"

lemma connection_ok:
  assumes "length bs \<le> 4096" "sum_list rs \<le> length bs" "sum_list ws \<le> 4096"
  shows "duplex_ok (connection bs rs ws)" "(df_stream \<circ> fst) (connection bs rs ws) = bs" "(df_wire \<circ> snd) (connection bs rs ws) = []"
  using assms by (simp_all add: connection_def scripted_data_feed_init_def duplex_ok_def df_ok_def df_stream_def df_wire_def arr_slice_def write_at_def)

lemma some_request_facts: "length some_request = 143" "some_request \<noteq> []" "hd some_request = 0x47" "0 \<notin> set some_request" "complete some_request"
  by code_simp+

section \<open>The search for a field\<close>

text \<open>C33. \<open>http_header_find_field_value\<close> finds what it promises. On a header that is a string, the search by \<open>strstr\<close>, from one
  occurrence of the name to the next, stays inside the buffer and gives the first line that starts with the name and a colon; without
  a value, the offset after the colon; with one, the first occurrence of the value after the start of the line, provided that it is not after the end of the
  line and no letter or digit is next to it.\<close>

theorem http_header_find_field_value_spec:
  assumes "c_string header 0 = Some s" "s \<noteq> []" "name \<noteq> []"
  shows "http_header_find_field_value header name value = Inr (field_value s name value)"
  using assms by (rule field_value_spec)

theorem http_header_find_field_value_spec_witness:
  "http_header_find_field_value (some_request @ [0, 1]) (ascii ''Upgrade'') (Some (ascii ''websocket''))
     = Inr (field_value some_request (ascii ''Upgrade'') (Some (ascii ''websocket'')))"
  by (rule http_header_find_field_value_spec)
    (simp_all add: c_string_data [OF some_request_facts(4), of "[1]"] some_request_facts(2) ascii_def)

section \<open>The server's handshake\<close>



text \<open>C34. \<open>http_handshake\<close> needs a NUL that it does not write. Where neither the bytes that come in nor the array on the stack hold one, every
  request that it reads to the end makes \<open>strlen\<close> run off the array, and no request is answered.\<close>

theorem http_handshake_unterminated:
  assumes "file_os fl stream wire ok" "ok w" "length junk = HEADER_SIZE" "0 \<notin> set junk" "0 \<notin> set (stream w)"
  shows "\<exists>res w' got. http_handshake fl sha1 base64 fd junk w = Some (res, w') \<and> stream w = got @ stream w' \<and> wire w' = wire w \<and>
    res = (if complete got then Inl BufferOverflow else Inr (-1))"
proof -
  have "stream w = [] \<or> hd (stream w) \<noteq> 0" using assms(5) by (cases "stream w") auto
  from file_os.handshake_ends [OF assms(1-3) this] obtain res w' where
    h: "http_handshake fl sha1 base64 fd junk w = Some (res, w')" "handshake_outcome stream wire ok sha1 base64 junk w res w'" by blast
  have "\<exists>got. stream w = got @ stream w' \<and> wire w' = wire w \<and> res = (if complete got then Inl BufferOverflow else Inr (-1))"
    by (rule outcome_unterminated [OF h(2) assms(4,5)])
  then show ?thesis using h(1) by blast
qed

theorem http_handshake_unterminated_witness:
  "\<exists>res w' got. http_handshake pair_calls toy_sha1 toy_base64 5 (replicate HEADER_SIZE 1) (connection some_request [100, 43] [50, 79]) = Some (res, w') \<and>
    (df_stream \<circ> fst) (connection some_request [100, 43] [50, 79]) = got @ (df_stream \<circ> fst) w' \<and>
    (df_wire \<circ> snd) w' = (df_wire \<circ> snd) (connection some_request [100, 43] [50, 79]) \<and>
    res = (if complete got then Inl BufferOverflow else Inr (-1))"
  using connection_ok [of some_request "[100, 43]" "[50, 79]"] some_request_facts
  by (intro http_handshake_unterminated [OF pair_client.file_os_axioms]) simp_all

section \<open>A whole connection\<close>


text \<open>A connection whose \<open>poll\<close> fails.\<close>

definition failing_os :: "(scripted_data_feed \<times> scripted_data_feed) os_calls" where
  "failing_os = duplex_os\<lparr>os_poll := (\<lambda>fd ein eout w. (-1, \<lparr>pf_in = False, pf_out = False, pf_err = False\<rparr>, w))\<rparr>"

lemma failing_socket: "socket failing_os (df_wire \<circ> snd) (df_stream \<circ> fst) duplex_ok"
proof
  fix w fd ds fl r e w'
  assume "duplex_ok w" "os_send failing_os fd ds fl w = (r, e, w')"
  then have o: "duplex_ok w" "os_send duplex_os fd ds fl w = (r, e, w')" by (simp_all add: failing_os_def)
  show "duplex_ok w'" "0 < r \<Longrightarrow> nat r \<le> length ds \<and> (df_wire \<circ> snd) w' = (df_wire \<circ> snd) w @ take (nat r) ds"
    "r \<le> 0 \<Longrightarrow> (df_wire \<circ> snd) w' = (df_wire \<circ> snd) w"
    using duplex.os_ok [OF o] duplex.os_some [OF o] duplex.os_none [OF o] by blast+
next
  fix w fd len r bs e w'
  assume "duplex_ok w" "os_recv failing_os fd len w = (r, bs, e, w')"
  then have o: "duplex_ok w" "os_recv duplex_os fd len w = (r, bs, e, w')" by (simp_all add: failing_os_def)
  show "duplex_ok w' \<and> (df_wire \<circ> snd) w' = (df_wire \<circ> snd) w" "duplex_ok w'" "length bs \<le> len \<and> r \<le> int len"
    "0 < r \<Longrightarrow> length bs = nat r \<and> (df_stream \<circ> fst) w = bs @ (df_stream \<circ> fst) w'" "r \<le> 0 \<Longrightarrow> (df_stream \<circ> fst) w' = (df_stream \<circ> fst) w"
    using duplex.os_recv_keeps [OF o] duplex.rd.os_ok [OF o] duplex.rd.os_bound [OF o] duplex.rd.os_some [OF o] duplex.rd.os_none [OF o] by blast+
qed (auto simp: failing_os_def)


section \<open>Server and client agree\<close>




end
