(* ===== verification/Wslay_Event_World.thy ===== *)
theory Wslay_Event_World
  imports Wslay_Event_Fragments Wslay_Event_Invariant
begin

text \<open>
  What an application may rely on for its own data: a property of \<open>user_data\<close> that every callback keeps is kept by
  \<open>wslay_event_recv\<close> and \<open>wslay_event_send\<close>, whatever the network does and whatever is queued; and so is the configuration.
\<close>

text \<open>The property, with the configuration that buffers messages.\<close>

definition world_ok :: "('u \<Rightarrow> bool) \<Rightarrow> 'u wslay_event_context \<Rightarrow> bool" where
  "world_ok P ctx \<longleftrightarrow> P (ec_user_data ctx) \<and> \<not> wslay_event_config_get_no_buffering ctx"

lemma no_buffering_upd [simp]:
  "wslay_event_config_get_no_buffering (ctx\<lparr>ec_mem := m\<rparr>) = wslay_event_config_get_no_buffering ctx"
  "wslay_event_config_get_no_buffering (ctx\<lparr>ec_omsg := om\<rparr>) = wslay_event_config_get_no_buffering ctx"
  "wslay_event_config_get_no_buffering (ctx\<lparr>ec_send_queue := q\<rparr>) = wslay_event_config_get_no_buffering ctx"
  "wslay_event_config_get_no_buffering (ctx\<lparr>ec_send_ctrl_queue := q\<rparr>) = wslay_event_config_get_no_buffering ctx"
  "wslay_event_config_get_no_buffering (ctx\<lparr>ec_user_data := u\<rparr>) = wslay_event_config_get_no_buffering ctx"
  "wslay_event_config_get_no_buffering (ctx\<lparr>ec_error := e\<rparr>) = wslay_event_config_get_no_buffering ctx"
  "wslay_event_config_get_no_buffering (ctx\<lparr>ec_frame_ctx := f\<rparr>) = wslay_event_config_get_no_buffering ctx"
  "wslay_event_config_get_no_buffering (ctx\<lparr>ec_write_enabled := b\<rparr>) = wslay_event_config_get_no_buffering ctx"
  "wslay_event_config_get_no_buffering (ctx\<lparr>ec_opayloadlen := l\<rparr>) = wslay_event_config_get_no_buffering ctx"
  "wslay_event_config_get_no_buffering (ctx\<lparr>ec_opayloadoff := l\<rparr>) = wslay_event_config_get_no_buffering ctx"
  "wslay_event_config_get_no_buffering (ctx\<lparr>ec_obuf := b'\<rparr>) = wslay_event_config_get_no_buffering ctx"
  "wslay_event_config_get_no_buffering (ctx\<lparr>ec_obuflimit := n\<rparr>) = wslay_event_config_get_no_buffering ctx"
  "wslay_event_config_get_no_buffering (ctx\<lparr>ec_obufmark := n\<rparr>) = wslay_event_config_get_no_buffering ctx"
  "wslay_event_config_get_no_buffering (ctx\<lparr>ec_queued_msg_count := n'\<rparr>) = wslay_event_config_get_no_buffering ctx"
  "wslay_event_config_get_no_buffering (ctx\<lparr>ec_queued_msg_length := n'\<rparr>) = wslay_event_config_get_no_buffering ctx"
  "wslay_event_config_get_no_buffering (ctx\<lparr>ec_close_status := s\<rparr>) = wslay_event_config_get_no_buffering ctx"
  "wslay_event_config_get_no_buffering (ctx\<lparr>ec_status_code_sent := c\<rparr>) = wslay_event_config_get_no_buffering ctx"
  by (simp_all add: wslay_event_config_get_no_buffering_def)

locale event_world =
  fixes cbs :: "'u wslay_event_context wslay_event_callbacks" and P :: "'u \<Rightarrow> bool"
  assumes recv_world: "P (ec_user_data ctx) \<Longrightarrow> ev_recv_callback cbs len fl ctx = (r, bs, ctx') \<Longrightarrow> app_only ctx ctx' \<and> P (ec_user_data ctx')"
    and send_world: "P (ec_user_data ctx) \<Longrightarrow> ev_send_callback cbs ds fl b ctx = (r, ctx') \<Longrightarrow> app_only ctx ctx' \<and> P (ec_user_data ctx')"
    and mask_world: "P (ec_user_data ctx) \<Longrightarrow> ev_genmask_callback cbs len ctx = (r, key, ctx') \<Longrightarrow> app_only ctx ctx' \<and> P (ec_user_data ctx')"
    and read_world: "P (ec_user_data ctx) \<Longrightarrow> ev_read_callback cbs cb len src ctx = (r, bs, eof, ctx') \<Longrightarrow> app_only ctx ctx' \<and> P (ec_user_data ctx')"
    and start_world: "ev_on_frame_recv_start_callback cbs = Some f \<Longrightarrow> world_ok P ctx \<Longrightarrow> world_ok P (f a ctx)"
    and chunk_world: "ev_on_frame_recv_chunk_callback cbs = Some g \<Longrightarrow> world_ok P ctx \<Longrightarrow> world_ok P (g a' ctx)"
    and end_world: "ev_on_frame_recv_end_callback cbs = Some h \<Longrightarrow> world_ok P ctx \<Longrightarrow> world_ok P (h ctx)"
    and msg_world: "ev_on_msg_recv_callback cbs = Some k \<Longrightarrow> world_ok P ctx \<Longrightarrow> world_ok P (k c ctx)"

lemma no_buffering_part: "recv_part c = recv_part ctx \<Longrightarrow> wslay_event_config_get_no_buffering c = wslay_event_config_get_no_buffering ctx"
  using recv_part_simps(6) [of c ctx] by (simp add: wslay_event_config_get_no_buffering_def)

lemma world_app:
  assumes "app_only ctx c" "P (ec_user_data c)" "world_ok P ctx"
  shows "world_ok P c"
  using arg_cong [OF assms(1) [unfolded app_only_def], of ec_config] assms(2,3)
  by (simp add: world_ok_def wslay_event_config_get_no_buffering_def)

lemma world_upd [simp]:
  "world_ok P (ctx\<lparr>ec_mem := m\<rparr>) = world_ok P ctx" "world_ok P (ctx\<lparr>ec_send_queue := q\<rparr>) = world_ok P ctx"
  "world_ok P (ctx\<lparr>ec_write_enabled := b\<rparr>) = world_ok P ctx"
  by (simp_all add: world_ok_def)

lemma world_part: "recv_part c = recv_part ctx \<Longrightarrow> ec_user_data c = ec_user_data ctx \<Longrightarrow> world_ok P ctx \<Longrightarrow> world_ok P c"
  using no_buffering_part [of c ctx] by (simp add: world_ok_def)

sublocale event_world \<subseteq> recv: event_invariant cbs "world_ok P"
proof
  fix ctx ctx' :: "'u wslay_event_context"
  show "world_ok P ctx'" if "world_ok P ctx" "out_view ctx' = out_view ctx"
    using that by (simp add: world_ok_def out_view_def wslay_event_config_get_no_buffering_def)
  show "\<not> wslay_event_config_get_no_buffering ctx" if "world_ok P ctx"
    using that by (simp add: world_ok_def)
  fix len fl r bs
  assume w: "world_ok P ctx" and r: "ev_recv_callback cbs len fl ctx = (r, bs, ctx')"
  then have a: "app_only ctx ctx'" "P (ec_user_data ctx')" using recv_world by (auto simp: world_ok_def)
  show "world_ok P ctx' \<and> ec_frame_ctx ctx' = ec_frame_ctx ctx"
    using world_app [OF a w] arg_cong [OF a(1) [unfolded app_only_def], of ec_frame_ctx] by simp
qed (auto simp: start_world chunk_world end_world msg_world intro: world_part)

context event_world begin

lemma recv_keeps_world: "wslay_event_recv cbs ctx = Some (res, c) \<Longrightarrow> world_ok P ctx \<Longrightarrow> world_ok P c"
  by (rule recv.recv_inv)

lemma take_ctrl_world: "world_ok P ctx \<Longrightarrow> world_ok P (snd (take_ctrl ctx))"
  by (auto simp: take_ctrl_def wslay_event_send_ctrl_queue_pop_def world_ok_def split: option.splits sum.splits prod.splits if_splits)

lemma popped_world: "world_ok P ctx \<Longrightarrow> world_ok P (wslay_event_on_non_fragmented_msg_popped ctx)"
  by (simp add: wslay_event_on_non_fragmented_msg_popped_def world_ok_def split: option.split)

lemma choose_world:
  assumes "world_ok P ctx"
  shows "world_ok P (snd (send_choose ctx))"
proof (cases "ec_omsg ctx")
  case None
  have "world_ok P (snd (if wslay_queue_is_empty (ec_send_ctrl_queue ctx) then
               (case wslay_queue_top (ec_send_queue ctx) of
                  None \<Rightarrow> (Crash NullDereference, ctx)
                | Some m \<Rightarrow> (Go, ctx\<lparr>ec_omsg := Some m, ec_send_queue := snd (wslay_queue_pop (ec_send_queue ctx))\<rparr>))
             else take_ctrl ctx))"
    using assms take_ctrl_world [OF assms] by (simp add: world_ok_def split: option.split)
  then show ?thesis unfolding send_choose_def None option.case by (rule andthen_inv [where J = "world_ok P"]) (simp add: popped_world)
next
  case (Some m)
  then show ?thesis using assms
    by (auto simp: send_choose_def ctx_alloc_def popped_world split: prod.split intro!: andthen_inv [where J = "world_ok P"] take_ctrl_world)
qed

lemma call_world:
  assumes "world_ok P ctx" "call_frame_send cbs io ctx = (res, c)"
  shows "world_ok P c"
proof -
  obtain fctx c' where s: "wslay_frame_send (event_frame_callbacks cbs) (ec_frame_ctx ctx) io ctx = (res, fctx, c')" "c = c'\<lparr>ec_frame_ctx := fctx\<rparr>"
    using assms(2) by (auto simp: call_frame_send_def split: prod.splits)
  have "world_ok P c'"
  proof (rule frame_send_pred [where P = "world_ok P", OF _ _ assms(1) s(1)])
    fix v ds fl u r v'
    assume w: "world_ok P v" and "send_callback (event_frame_callbacks cbs) ds fl u v = (r, v')"
    then have "ev_send_callback cbs ds fl u v = (r, v')" by (simp add: event_frame_callbacks_def wslay_event_frame_send_callback_def)
    then show "world_ok P v'" using send_world w world_app by (metis world_ok_def)
  next
    fix v r key v'
    assume w: "world_ok P v" and "genmask_callback (event_frame_callbacks cbs) 4 v = (r, key, v')"
    then have "ev_genmask_callback cbs 4 v = (r, key, v')" by (simp add: event_frame_callbacks_def wslay_event_frame_genmask_callback_def)
    then show "world_ok P v'" using mask_world w world_app by (metis world_ok_def)
  qed
  then show ?thesis by (simp add: s(2) world_ok_def)
qed

lemma error_world: "world_ok P ctx \<Longrightarrow> world_ok P (snd (send_error e ctx))"
  by (simp add: send_error_def world_ok_def)

lemma non_fragmented_world:
  assumes "world_ok P ctx"
  shows "world_ok P (snd (send_non_fragmented cbs m ctx))"
  using call_world [OF assms] unfolding send_non_fragmented_def Let_def
  by (auto simp: error_world send_done_def Let_def split: prod.split sum.split) (simp_all add: world_ok_def)

lemma refill_world:
  assumes "world_ok P ctx"
  shows "world_ok P (snd (send_refill cbs m ctx))"
  using read_world assms world_app unfolding send_refill_def Let_def
  by (fastforce simp: world_ok_def split: option.split prod.split)

lemma fragment_world:
  assumes "world_ok P ctx"
  shows "world_ok P (snd (send_fragment cbs m ctx))"
  using call_world [OF assms] unfolding send_fragment_def Let_def
  by (auto simp: error_world split: prod.split sum.split) (simp_all add: world_ok_def)

lemma send_step_world:
  assumes "world_ok P ctx"
  shows "world_ok P (snd (send_step cbs ctx))"
  unfolding send_step_def
  using choose_world [OF assms]
  by (rule andthen_inv)
    (auto simp: send_fragmented_def non_fragmented_world refill_world fragment_world intro!: andthen_inv [where J = "world_ok P"]
      split: option.split wslay_event_msg_type.split)

lemma send_keeps_world:
  assumes "wslay_event_send cbs ctx = Some (res, c)" "world_ok P ctx"
  shows "world_ok P c"
proof -
  have "cbs = cbs \<longrightarrow> world_ok P ctx \<longrightarrow> world_ok P (snd (res, c))"
  proof (rule wslay_event_send.raw_induct [OF _ assms(1), where P = "\<lambda>cbs' ctx res. cbs' = cbs \<longrightarrow> world_ok P ctx \<longrightarrow> world_ok P (snd res)"], intro impI)
    fix f cbs' ctx res
    assume IH: "\<And>a b r. f a b = Some r \<Longrightarrow> a = cbs \<longrightarrow> world_ok P b \<longrightarrow> world_ok P (snd r)" and c: "cbs' = cbs" "world_ok P ctx"
      and eq: "(if \<not> wslay_event_want_write ctx then Some (Inr 0, ctx)
          else case send_step cbs' ctx of (Go, ctx') \<Rightarrow> f cbs' ctx' | (Break, ctx') \<Rightarrow> Some (Inr 0, ctx')
            | (Return r, ctx') \<Rightarrow> Some (Inr r, ctx') | (Crash f, ctx') \<Rightarrow> Some (Inl f, ctx') | (Hang, ctx') \<Rightarrow> None) = Some res"
    obtain s d where d: "send_step cbs ctx = (s, d)" by fastforce
    then have "world_ok P d" using send_step_world [OF c(2)] by simp
    show "world_ok P (snd res)"
    proof (cases "wslay_event_want_write ctx")
      case True
      then have "(case s of Go \<Rightarrow> f cbs d | Break \<Rightarrow> Some (Inr 0, d) | Return r \<Rightarrow> Some (Inr r, d) | Crash f \<Rightarrow> Some (Inl f, d)
          | Hang \<Rightarrow> None) = Some res" using eq [unfolded c(1)] by (simp add: d)
      with \<open>world_ok P d\<close> IH [of cbs d res] show ?thesis by (cases s) auto
    qed (use eq c in auto)
  qed
  then show ?thesis using assms(2) by simp
qed

end

end
