(* ===== verification/Wslay_Reactor.thy ===== *)
theory Wslay_Reactor
  imports Wslay_Event_World Wslay_Client_Handshake
begin

text \<open>
  \<open>examples/echoserv.cc\<close>: one process serves all connections. An \<open>EventHandler\<close> owns a descriptor and reacts to what \<open>epoll\<close>
  reports of it; \<open>next\<close> hands the descriptor on to the handler of the next phase: accept, read the request, write the response,
  WebSocket.

  \<^item> The four classes are the constructors of \<open>handler\<close>, with their data members; a virtual method is a function by cases.
  \<^item> The system is one state for all connections, \<open>'o\<close>; the context of a connection has it in its \<open>user_data\<close> while it is called.
  \<^item> Objects live on a heap of addresses. An address is not used twice, so that the use of a deleted handler is a fault,
    \<open>UseAfterFree\<close>, and never the use of a newer one.
\<close>

section \<open>The system\<close>

datatype epoll_op = EPOLL_CTL_ADD | EPOLL_CTL_MOD

record epoll_event =
  ee_ptr :: nat
  ee_in :: bool
  ee_out :: bool
  ee_err :: bool

text \<open>\<open>rs_epoll_ctl\<close> says whether \<open>errno\<close> is \<open>EEXIST\<close>; its descriptor comes with the events of interest and the pointer.\<close>

record 'o reactor_sys =
  rs_os :: "'o os_calls"
  rs_fl :: "'o file_calls"
  rs_accept :: "int \<Rightarrow> 'o \<Rightarrow> int \<times> 'o"
  rs_close :: "int \<Rightarrow> 'o \<Rightarrow> 'o"
  rs_shutdown :: "int \<Rightarrow> 'o \<Rightarrow> 'o"
  rs_epoll_create :: "'o \<Rightarrow> int \<times> 'o"
  rs_epoll_ctl :: "int \<Rightarrow> epoll_op \<Rightarrow> int \<Rightarrow> bool \<times> bool \<Rightarrow> nat \<Rightarrow> 'o \<Rightarrow> int \<times> bool \<times> 'o"
  rs_epoll_wait :: "int \<Rightarrow> nat \<Rightarrow> 'o \<Rightarrow> int \<times> epoll_event list \<times> 'o"
  rs_sha1 :: "byte list \<Rightarrow> byte list"
  rs_base64 :: "byte list \<Rightarrow> byte list"
  rs_mem :: allocator

section \<open>The handlers\<close>

datatype 'o handler =
    EchoWebSocketHandler int "'o Session wslay_event_context"
  | HttpHandshakeSendHandler int "byte list" nat
  | HttpHandshakeRecvHandler int "byte list" "byte list"
  | ListenEventHandler int int

fun handler_fd :: "'o handler \<Rightarrow> int" where
  "handler_fd (EchoWebSocketHandler fd ctx) = fd"
| "handler_fd (HttpHandshakeSendHandler fd resheaders off) = fd"
| "handler_fd (HttpHandshakeRecvHandler fd headers accept_key) = fd"
| "handler_fd (ListenEventHandler fd cfd) = fd"

fun want_read :: "'o handler \<Rightarrow> bool" where
  "want_read (EchoWebSocketHandler fd ctx) = wslay_event_want_read ctx"
| "want_read (HttpHandshakeSendHandler fd resheaders off) = False"
| "want_read (HttpHandshakeRecvHandler fd headers accept_key) = True"
| "want_read (ListenEventHandler fd cfd) = True"

fun want_write :: "'o handler \<Rightarrow> bool" where
  "want_write (EchoWebSocketHandler fd ctx) = wslay_event_want_write ctx"
| "want_write (HttpHandshakeSendHandler fd resheaders off) = True"
| "want_write (HttpHandshakeRecvHandler fd headers accept_key) = False"
| "want_write (ListenEventHandler fd cfd) = False"

fun handler_finish :: "'o handler \<Rightarrow> bool" where
  "handler_finish (EchoWebSocketHandler fd ctx) = (\<not> wslay_event_want_read ctx \<and> \<not> wslay_event_want_write ctx)"
| "handler_finish (HttpHandshakeSendHandler fd resheaders off) = (off = length resheaders)"
| "handler_finish (HttpHandshakeRecvHandler fd headers accept_key) = (accept_key \<noteq> [])"
| "handler_finish (ListenEventHandler fd cfd) = False"

text \<open>The destructors.\<close>

fun delete_handler :: "'o reactor_sys \<Rightarrow> 'o handler \<Rightarrow> 'o \<Rightarrow> 'o" where
  "delete_handler sys (EchoWebSocketHandler fd ctx) w = rs_close sys fd (rs_shutdown sys fd w)"
| "delete_handler sys (HttpHandshakeSendHandler fd resheaders off) w = (if fd \<noteq> -1 then rs_close sys fd (rs_shutdown sys fd w) else w)"
| "delete_handler sys (HttpHandshakeRecvHandler fd headers accept_key) w = (if fd \<noteq> -1 then rs_close sys fd w else w)"
| "delete_handler sys (ListenEventHandler fd cfd) w = rs_close sys cfd (rs_close sys fd w)"

section \<open>The callbacks\<close>

text \<open>\<open>user_data\<close> points to the handler; what it needs of it is the descriptor, a \<open>Session\<close>.\<close>

definition send_data :: "'o os_calls \<Rightarrow> 'o Session \<Rightarrow> byte list \<Rightarrow> int \<Rightarrow> int \<times> errno \<times> 'o" where
  "send_data os sv ds flags =
     (let sflags = (if flags AND WSLAY_MSG_MORE \<noteq> 0 then os_MSG_MORE os else 0) in os_send os (se_fd sv) ds sflags (se_os sv))"

definition recv_data :: "'o os_calls \<Rightarrow> 'o Session \<Rightarrow> nat \<Rightarrow> int \<Rightarrow> int \<times> byte list \<times> errno \<times> 'o" where
  "recv_data os sv len flags = os_recv os (se_fd sv) len (se_os sv)"

definition reactor_send_callback ::
    "'o os_calls \<Rightarrow> byte list \<Rightarrow> int \<Rightarrow> bool \<Rightarrow> 'o Session wslay_event_context \<Rightarrow> int \<times> 'o Session wslay_event_context" where
  "reactor_send_callback os ds flags user_data_sending ctx =
     (case send_data os (ec_user_data ctx) ds flags of
        (r, errno, w) \<Rightarrow>
          (let ctx1 = set_os w ctx
           in if r = -1 then
                if errno = EAGAIN \<or> errno = EWOULDBLOCK then (r, wslay_event_set_error ctx1 (wslay_error_code WSLAY_ERR_WOULDBLOCK))
                else (r, wslay_event_set_error ctx1 (wslay_error_code WSLAY_ERR_CALLBACK_FAILURE))
              else (r, ctx1)))"

definition reactor_recv_callback ::
    "'o os_calls \<Rightarrow> nat \<Rightarrow> int \<Rightarrow> 'o Session wslay_event_context \<Rightarrow> int \<times> byte list \<times> 'o Session wslay_event_context" where
  "reactor_recv_callback os len flags ctx =
     (case recv_data os (ec_user_data ctx) len flags of
        (r, bs, errno, w) \<Rightarrow>
          (let ctx1 = set_os w ctx
           in if r = -1 then
                if errno = EAGAIN \<or> errno = EWOULDBLOCK then (r, bs, wslay_event_set_error ctx1 (wslay_error_code WSLAY_ERR_WOULDBLOCK))
                else (r, bs, wslay_event_set_error ctx1 (wslay_error_code WSLAY_ERR_CALLBACK_FAILURE))
              else if r = 0 then (-1, bs, wslay_event_set_error ctx1 (wslay_error_code WSLAY_ERR_CALLBACK_FAILURE))
              else (r, bs, ctx1)))"

definition reactor_on_msg_recv_callback :: "wslay_event_on_msg_recv_arg \<Rightarrow> 'u wslay_event_context \<Rightarrow> 'u wslay_event_context" where
  "reactor_on_msg_recv_callback arg ctx =
     (if \<not> wslay_is_ctrl_frame (mr_opcode arg) then
        let msgarg = \<lparr>em_opcode = mr_opcode arg, em_msg = (case mr_msg arg of None \<Rightarrow> [] | Some ds \<Rightarrow> ds), em_msg_length = mr_msg_length arg\<rparr>
        in snd (wslay_event_queue_msg ctx msgarg)
      else ctx)"

definition reactor_callbacks :: "'o os_calls \<Rightarrow> 'o Session wslay_event_context wslay_event_callbacks" where
  "reactor_callbacks os =
     \<lparr>ev_recv_callback = reactor_recv_callback os, ev_send_callback = reactor_send_callback os,
      ev_genmask_callback = (\<lambda>len ctx. (-1, [], ctx)), ev_on_frame_recv_start_callback = None,
      ev_on_frame_recv_chunk_callback = None, ev_on_frame_recv_end_callback = None,
      ev_on_msg_recv_callback = Some reactor_on_msg_recv_callback, ev_read_callback = (\<lambda>cb len src ctx. (-1, [], False, ctx))\<rparr>"

text \<open>They are those of \<open>fork-echoserv.c\<close>.\<close>

lemma reactor_callbacks_echo [simp]: "reactor_callbacks os = echo_callbacks os"
proof -
  have "reactor_send_callback os ds flags u ctx = echo_send_callback os ds flags u ctx" for ds flags u and ctx :: "'a Session wslay_event_context"
    by (simp add: reactor_send_callback_def echo_send_callback_def send_data_def errno_error_def Let_def split: prod.split)
  moreover have "reactor_recv_callback os len flags ctx = echo_recv_callback os len flags ctx" for len flags and ctx :: "'a Session wslay_event_context"
    by (simp add: reactor_recv_callback_def echo_recv_callback_def recv_data_def errno_error_def Let_def split: prod.split)
  moreover have "reactor_on_msg_recv_callback arg ctx = echo_on_msg_recv_callback arg ctx" for arg and ctx :: "'a Session wslay_event_context"
    by (simp add: reactor_on_msg_recv_callback_def echo_on_msg_recv_callback_def)
  ultimately show ?thesis by (simp add: reactor_callbacks_def echo_callbacks_def ext)
qed

section \<open>Reading and writing\<close>

text \<open>\<open>HttpHandshakeRecvHandler::on_read_event\<close>: everything there is to read, into \<open>headers_\<close>.\<close>

partial_function (option) recv_headers :: "'o file_calls \<Rightarrow> int \<Rightarrow> byte list \<Rightarrow> 'o \<Rightarrow> (int \<times> byte list \<times> 'o) option" where
  "recv_headers fl fd headers w =
     (case fl_read fl fd 4096 w of
        (r, bs, e, w') \<Rightarrow>
          if r = -1 then Some (if e = EWOULDBLOCK \<or> e = EAGAIN then 0 else -1, headers, w')
          else if r = 0 then Some (-1, headers, w')
          else (let headers' = headers @ take (nat r) bs
                in if length headers' > 8192 then Some (-1, headers', w') else recv_headers fl fd headers' w'))"

text \<open>The check of the request and the accept key: \<open>None\<close> if the request is refused, the empty key if it is not complete.\<close>

definition check_request :: "(byte list \<Rightarrow> byte list) \<Rightarrow> (byte list \<Rightarrow> byte list) \<Rightarrow> byte list \<Rightarrow> byte list \<Rightarrow> byte list option" where
  "check_request sha1 base64 headers accept_key =
     (if find_from headers (CRLF @ CRLF) 0 \<noteq> None then
        if find_from headers (ascii ''Upgrade: websocket'' @ CRLF) 0 = None \<or> find_from headers (ascii ''Connection: Upgrade'' @ CRLF) 0 = None
        then None
        else (case find_from headers (ascii ''Sec-WebSocket-Key: '') 0 of
                None \<Rightarrow> None
              | Some p \<Rightarrow>
                  (let keyhdstart = p + 19;
                       keyhdend = find_from headers CRLF keyhdstart;
                       client_key = substr headers keyhdstart (map_option (\<lambda>e. e - keyhdstart) keyhdend)
                   in Some (create_acceptkey sha1 base64 client_key)))
      else Some accept_key)"

text \<open>\<open>HttpHandshakeSendHandler::on_write_event\<close>\<close>

partial_function (option) send_resheaders :: "'o file_calls \<Rightarrow> int \<Rightarrow> byte list \<Rightarrow> nat \<Rightarrow> 'o \<Rightarrow> (int \<times> nat \<times> 'o) option" where
  "send_resheaders fl fd resheaders off w =
     (if length resheaders - off = 0 then Some (0, off, w)
      else (case fl_write fl fd (drop off resheaders) w of
              (r, e, w') \<Rightarrow>
                if r = -1 then Some (if e = EAGAIN \<or> e = EWOULDBLOCK then 0 else -1, off, w')
                else send_resheaders fl fd resheaders (off + nat r) w'))"

text \<open>A call of the library in \<open>EchoWebSocketHandler\<close>.\<close>

definition echo_event ::
    "('o Session wslay_event_context \<Rightarrow> ((fault + int) \<times> 'o Session wslay_event_context) option) \<Rightarrow> int
       \<Rightarrow> 'o Session wslay_event_context \<Rightarrow> 'o \<Rightarrow> ((fault + int) \<times> 'o handler \<times> 'o) option" where
  "echo_event f fd ctx w =
     (case f (set_os w ctx) of
        None \<Rightarrow> None
      | Some (Inl e, ctx') \<Rightarrow> Some (Inl e, EchoWebSocketHandler fd ctx', se_os (ec_user_data ctx'))
      | Some (Inr r, ctx') \<Rightarrow> Some (Inr (if r = 0 then 0 else -1), EchoWebSocketHandler fd ctx', se_os (ec_user_data ctx')))"

fun on_read_event :: "'o reactor_sys \<Rightarrow> 'o handler \<Rightarrow> 'o \<Rightarrow> ((fault + int) \<times> 'o handler \<times> 'o) option" where
  "on_read_event sys (EchoWebSocketHandler fd ctx) w = echo_event (wslay_event_recv (reactor_callbacks (rs_os sys))) fd ctx w"
| "on_read_event sys (HttpHandshakeSendHandler fd resheaders off) w = Some (Inr 0, HttpHandshakeSendHandler fd resheaders off, w)"
| "on_read_event sys (HttpHandshakeRecvHandler fd headers accept_key) w =
     (case recv_headers (rs_fl sys) fd headers w of
        None \<Rightarrow> None
      | Some (r, headers', w') \<Rightarrow>
          if r = -1 then Some (Inr (-1), HttpHandshakeRecvHandler fd headers' accept_key, w')
          else (case check_request (rs_sha1 sys) (rs_base64 sys) headers' accept_key of
                  None \<Rightarrow> Some (Inr (-1), HttpHandshakeRecvHandler fd headers' accept_key, w')
                | Some accept_key' \<Rightarrow> Some (Inr 0, HttpHandshakeRecvHandler fd headers' accept_key', w')))"
| "on_read_event sys (ListenEventHandler fd cfd) w =
     (case rs_accept sys fd (if cfd \<noteq> -1 then rs_close sys cfd w else w) of (cfd', w') \<Rightarrow> Some (Inr 0, ListenEventHandler fd cfd', w'))"

fun on_write_event :: "'o reactor_sys \<Rightarrow> 'o handler \<Rightarrow> 'o \<Rightarrow> ((fault + int) \<times> 'o handler \<times> 'o) option" where
  "on_write_event sys (EchoWebSocketHandler fd ctx) w = echo_event (wslay_event_send (reactor_callbacks (rs_os sys))) fd ctx w"
| "on_write_event sys (HttpHandshakeSendHandler fd resheaders off) w =
     (case send_resheaders (rs_fl sys) fd resheaders off w of
        None \<Rightarrow> None
      | Some (r, off', w') \<Rightarrow> Some (Inr r, HttpHandshakeSendHandler fd resheaders off', w'))"
| "on_write_event sys (HttpHandshakeRecvHandler fd headers accept_key) w = Some (Inr 0, HttpHandshakeRecvHandler fd headers accept_key, w)"
| "on_write_event sys (ListenEventHandler fd cfd) w = Some (Inr 0, ListenEventHandler fd cfd, w)"

section \<open>The next handler\<close>

text \<open>\<open>new EchoWebSocketHandler (fd)\<close>. The constructor ignores a context that could not be made; \<open>want_read\<close>, the next call, uses it.\<close>

definition new_echo_handler :: "'o reactor_sys \<Rightarrow> int \<Rightarrow> 'o \<Rightarrow> fault + 'o handler" where
  "new_echo_handler sys fd w =
     (case wslay_server_new (rs_mem sys) \<lparr>se_fd = fd, se_os = w\<rparr> of
        None \<Rightarrow> Inl NullDereference
      | Some ctx \<Rightarrow> Inr (EchoWebSocketHandler fd ctx))"

text \<open>The result, the handler after the call and the system.\<close>

fun next_handler :: "'o reactor_sys \<Rightarrow> 'o handler \<Rightarrow> 'o \<Rightarrow> (fault + 'o handler option) \<times> 'o handler \<times> 'o" where
  "next_handler sys (EchoWebSocketHandler fd ctx) w = (Inr None, EchoWebSocketHandler fd ctx, w)"
| "next_handler sys (HttpHandshakeSendHandler fd resheaders off) w =
     (if off = length resheaders
      then (map_sum id Some (new_echo_handler sys fd w), HttpHandshakeSendHandler (-1) resheaders off, w)
      else (Inr None, HttpHandshakeSendHandler fd resheaders off, w))"
| "next_handler sys (HttpHandshakeRecvHandler fd headers accept_key) w =
     (if accept_key \<noteq> []
      then (Inr (Some (HttpHandshakeSendHandler fd (handshake_response accept_key) 0)), HttpHandshakeRecvHandler (-1) headers accept_key, w)
      else (Inr None, HttpHandshakeRecvHandler fd headers accept_key, w))"
| "next_handler sys (ListenEventHandler fd cfd) w =
     (if cfd \<noteq> -1 then
        (case make_non_block (rs_fl sys) cfd w of (nb, w1) \<Rightarrow>
          if nb = -1 then (Inr None, ListenEventHandler fd (-1), rs_close sys cfd w1)
          else (case fl_nodelay (rs_fl sys) cfd w1 of (so, w2) \<Rightarrow>
            if so = -1 then (Inr None, ListenEventHandler fd (-1), rs_close sys cfd w2)
            else (Inr (Some (HttpHandshakeRecvHandler cfd [] [])), ListenEventHandler fd (-1), w2)))
      else (Inr None, ListenEventHandler fd cfd, w))"

section \<open>The reactor\<close>

definition ctl_epollev :: "'o reactor_sys \<Rightarrow> int \<Rightarrow> epoll_op \<Rightarrow> nat \<Rightarrow> 'o handler \<Rightarrow> 'o \<Rightarrow> int \<times> bool \<times> 'o" where
  "ctl_epollev sys epollfd op p h w = rs_epoll_ctl sys epollfd op (handler_fd h) (want_read h, want_write h) p w"

text \<open>The objects, the first address that is free, and the system. The set \<open>handlers\<close> is written and never read.\<close>

record 'o reactor_state =
  re_heap :: "nat \<rightharpoonup> 'o handler"
  re_next :: nat
  re_os :: 'o

text \<open>Whether the event makes the handler fail: reading, then writing, then the error conditions.\<close>

definition handle_event :: "'o reactor_sys \<Rightarrow> epoll_event \<Rightarrow> 'o handler \<Rightarrow> 'o \<Rightarrow> ((fault + bool) \<times> 'o handler \<times> 'o) option" where
  "handle_event sys ev h w =
     (case (if ee_in ev then on_read_event sys h w else Some (Inr 0, h, w)) of
        None \<Rightarrow> None
      | Some (Inl f, h1, w1) \<Rightarrow> Some (Inl f, h1, w1)
      | Some (Inr r, h1, w1) \<Rightarrow>
          if r = -1 then Some (Inr True, h1, w1)
          else (case (if ee_out ev then on_write_event sys h1 w1 else Some (Inr 0, h1, w1)) of
                  None \<Rightarrow> None
                | Some (Inl f, h2, w2) \<Rightarrow> Some (Inl f, h2, w2)
                | Some (Inr r', h2, w2) \<Rightarrow> Some (Inr (r' = -1 \<or> ee_err ev), h2, w2)))"

text \<open>The registration of a new handler; where it fails, the handler is deleted.\<close>

definition add_handler :: "'o reactor_sys \<Rightarrow> int \<Rightarrow> 'o handler \<Rightarrow> 'o reactor_state \<Rightarrow> 'o reactor_state" where
  "add_handler sys epollfd h st =
     (let p = re_next st
      in case ctl_epollev sys epollfd EPOLL_CTL_ADD p h (re_os st) of
           (r, eexist, w1) \<Rightarrow>
             (let kept = (\<lambda>w. st\<lparr>re_heap := (re_heap st)(p \<mapsto> h), re_next := Suc p, re_os := w\<rparr>);
                  deleted = (\<lambda>w. st\<lparr>re_next := Suc p, re_os := delete_handler sys h w\<rparr>)
              in if r = -1 then
                   if eexist then
                     (case ctl_epollev sys epollfd EPOLL_CTL_MOD p h w1 of (r', eexist', w2) \<Rightarrow> if r' = -1 then deleted w2 else kept w2)
                   else deleted w1
                 else kept w1))"

definition reactor_event :: "'o reactor_sys \<Rightarrow> int \<Rightarrow> epoll_event \<Rightarrow> 'o reactor_state \<Rightarrow> step \<times> 'o reactor_state" where
  "reactor_event sys epollfd ev st =
     (let p = ee_ptr ev
      in case re_heap st p of
           None \<Rightarrow> (Crash UseAfterFree, st)
         | Some h \<Rightarrow>
             (case handle_event sys ev h (re_os st) of
                None \<Rightarrow> (Hang, st)
              | Some (Inl f, h1, w1) \<Rightarrow> (Crash f, st\<lparr>re_heap := (re_heap st)(p \<mapsto> h1), re_os := w1\<rparr>)
              | Some (Inr failed, h1, w1) \<Rightarrow>
                  if failed then (Go, st\<lparr>re_heap := (re_heap st)(p := None), re_os := delete_handler sys h1 w1\<rparr>)
                  else (case next_handler sys h1 w1 of
                          (Inl f, h2, w2) \<Rightarrow> (Crash f, st\<lparr>re_heap := (re_heap st)(p \<mapsto> h2), re_os := w2\<rparr>)
                        | (Inr next, h2, w2) \<Rightarrow>
                            (let st2 = st\<lparr>re_heap := (re_heap st)(p \<mapsto> h2), re_os := w2\<rparr>;
                                 st3 = (case next of None \<Rightarrow> st2 | Some h' \<Rightarrow> add_handler sys epollfd h' st2)
                             in if handler_finish h2 then (Go, st3\<lparr>re_heap := (re_heap st3)(p := None), re_os := delete_handler sys h2 (re_os st3)\<rparr>)
                                else (case ctl_epollev sys epollfd EPOLL_CTL_MOD p h2 (re_os st3) of
                                        (r, eexist, w3) \<Rightarrow> (Go, st3\<lparr>re_os := w3\<rparr>))))))"

fun reactor_events :: "'o reactor_sys \<Rightarrow> int \<Rightarrow> epoll_event list \<Rightarrow> 'o reactor_state \<Rightarrow> step \<times> 'o reactor_state" where
  "reactor_events sys epollfd [] st = (Go, st)"
| "reactor_events sys epollfd (ev # evs) st = andthen (reactor_event sys epollfd ev st) (reactor_events sys epollfd evs)"

definition MAX_EVENTS :: nat where
  "MAX_EVENTS = 64"

definition reactor_round :: "'o reactor_sys \<Rightarrow> int \<Rightarrow> 'o reactor_state \<Rightarrow> step \<times> 'o reactor_state" where
  "reactor_round sys epollfd st =
     (case rs_epoll_wait sys epollfd MAX_EVENTS (re_os st) of
        (nfds, events, w) \<Rightarrow>
          if nfds = -1 then (Return 0, st\<lparr>re_os := w\<rparr>) else reactor_events sys epollfd (take (nat nfds) events) (st\<lparr>re_os := w\<rparr>))"

partial_function (option) reactor_loop :: "'o reactor_sys \<Rightarrow> int \<Rightarrow> 'o reactor_state \<Rightarrow> ((fault + int) \<times> 'o reactor_state) option" where
  "reactor_loop sys epollfd st =
     (case reactor_round sys epollfd st of
        (Go, st') \<Rightarrow> reactor_loop sys epollfd st'
      | (Break, st') \<Rightarrow> Some (Inr 0, st')
      | (Return r, st') \<Rightarrow> Some (Inr r, st')
      | (Crash f, st') \<Rightarrow> Some (Inl f, st')
      | (Hang, st') \<Rightarrow> None)"

text \<open>\<open>reactor\<close> up to its loop; \<open>None\<close> where it exits.\<close>

definition reactor_start :: "'o reactor_sys \<Rightarrow> int \<Rightarrow> 'o \<Rightarrow> (int \<times> 'o reactor_state) option" where
  "reactor_start sys sfd w =
     (let listen_handler = ListenEventHandler sfd (-1)
      in case rs_epoll_create sys w of
           (epollfd, w1) \<Rightarrow>
             if epollfd = -1 then None
             else (case ctl_epollev sys epollfd EPOLL_CTL_ADD 0 listen_handler w1 of
                     (r, eexist, w2) \<Rightarrow> if r = -1 then None else Some (epollfd, \<lparr>re_heap = [0 \<mapsto> listen_handler], re_next = 1, re_os = w2\<rparr>)))"

definition reactor :: "'o reactor_sys \<Rightarrow> int \<Rightarrow> 'o \<Rightarrow> ((fault + int) \<times> 'o reactor_state) option option" where
  "reactor sys sfd w = map_option (\<lambda>(epollfd, st). reactor_loop sys epollfd st) (reactor_start sys sfd w)"

end
