(* ===== verification/Wslay_Reactor_Safety.thy ===== *)
theory Wslay_Reactor_Safety
  imports Wslay_Reactor
begin

text \<open>
  Descriptors and objects in the reactor of \<open>examples/echoserv.cc\<close>: every open descriptor belongs to one handler, what \<open>epoll\<close>
  knows leads to handlers that exist, and no event goes to a handler that was deleted.

  The locale \<open>reactor_os\<close> says what the system calls do to the set of open descriptors and to the interest list of \<open>epoll\<close>. What the
  library does in between follows from \<open>event_world\<close>.
\<close>

section \<open>The contract\<close>

text \<open>\<open>opn\<close> is the set of open descriptors, \<open>reg\<close> the interest list: the pointer registered with a descriptor.\<close>

locale reactor_os =
  fixes sys :: "'o reactor_sys" and opn :: "'o \<Rightarrow> int set" and reg :: "'o \<Rightarrow> int \<rightharpoonup> nat"
  assumes send_view: "os_send (rs_os sys) fd ds fl w = (r, e, w') \<Longrightarrow> opn w' = opn w \<and> reg w' = reg w"
    and recv_view: "os_recv (rs_os sys) fd len w = (r, bs, e, w') \<Longrightarrow> opn w' = opn w \<and> reg w' = reg w"
    and read_view: "fl_read (rs_fl sys) fd len w = (r, bs, e, w') \<Longrightarrow> opn w' = opn w \<and> reg w' = reg w"
    and write_view: "fl_write (rs_fl sys) fd ds w = (r, e, w') \<Longrightarrow> opn w' = opn w \<and> reg w' = reg w"
    and getfl_view: "fl_getfl (rs_fl sys) fd w = (n, w') \<Longrightarrow> opn w' = opn w \<and> reg w' = reg w"
    and setfl_view: "fl_setfl (rs_fl sys) fd flags w = (n, w') \<Longrightarrow> opn w' = opn w \<and> reg w' = reg w"
    and nodelay_view: "fl_nodelay (rs_fl sys) fd w = (n, w') \<Longrightarrow> opn w' = opn w \<and> reg w' = reg w"
    and shutdown_view: "opn (rs_shutdown sys fd w) = opn w \<and> reg (rs_shutdown sys fd w) = reg w"
    and close_view: "opn (rs_close sys fd w) = opn w - {fd} \<and> reg (rs_close sys fd w) = (reg w)(fd := None)"
    and accept_view: "rs_accept sys fd w = (c, w') \<Longrightarrow> reg w' = reg w \<and> (c = -1 \<and> opn w' = opn w \<or> c \<noteq> -1 \<and> c \<notin> opn w \<and> opn w' = insert c (opn w))"
    and create_view: "rs_epoll_create sys w = (c, w') \<Longrightarrow> reg w' = reg w \<and> (c = -1 \<and> opn w' = opn w \<or> c \<noteq> -1 \<and> c \<notin> opn w \<and> opn w' = insert c (opn w))"
    and ctl_view: "rs_epoll_ctl sys epollfd op fd evs p w = (r, ex, w') \<Longrightarrow> opn w' = opn w \<and> (r = -1 \<and> reg w' = reg w \<or> r \<noteq> -1 \<and> fd \<in> opn w \<and> reg w' = (reg w)(fd \<mapsto> p))"
    and wait_view: "rs_epoll_wait sys epollfd m w = (nfds, events, w') \<Longrightarrow> opn w' = opn w \<and> reg w' = reg w \<and>
          (\<exists>fds. distinct fds \<and> map (reg w) fds = map (Some \<circ> ee_ptr) events)"

section \<open>The invariant\<close>

fun owned :: "'o handler \<Rightarrow> int set" where
  "owned (ListenEventHandler fd cfd) = {fd, cfd} - {-1}"
| "owned h = {handler_fd h} - {-1}"

lemma owned_echo [simp]: "owned (EchoWebSocketHandler fd ctx) = {fd} - {-1}"
  "owned (HttpHandshakeSendHandler fd res off) = {fd} - {-1}" "owned (HttpHandshakeRecvHandler fd hds ak) = {fd} - {-1}"
  by simp_all

text \<open>A handler between events has its descriptor, and an echo handler's session is on it.\<close>

fun handler_wf :: "'o handler \<Rightarrow> bool" where
  "handler_wf (EchoWebSocketHandler fd ctx) \<longleftrightarrow> fd \<noteq> -1 \<and> world_ok (\<lambda>s. se_fd s = fd) ctx"
| "handler_wf (ListenEventHandler fd cfd) \<longleftrightarrow> fd \<noteq> -1 \<and> cfd \<noteq> fd"
| "handler_wf h \<longleftrightarrow> handler_fd h \<noteq> -1"

text \<open>\<open>base\<close> is what the process holds besides; \<open>X\<close> are descriptors on the way from one handler to the next.\<close>

definition reactor_inv :: "('o \<Rightarrow> int set) \<Rightarrow> ('o \<Rightarrow> int \<rightharpoonup> nat) \<Rightarrow> int set \<Rightarrow> int set \<Rightarrow> 'o reactor_state \<Rightarrow> bool" where
  "reactor_inv opn reg base X st \<longleftrightarrow>
     (\<forall>p h. re_heap st p = Some h \<longrightarrow> p < re_next st \<and> handler_wf h \<and> owned h \<inter> (base \<union> X) = {}) \<and>
     (\<forall>p q h h'. re_heap st p = Some h \<longrightarrow> re_heap st q = Some h' \<longrightarrow> p \<noteq> q \<longrightarrow> owned h \<inter> owned h' = {}) \<and>
     (\<forall>fd p. reg (re_os st) fd = Some p \<longrightarrow> fd \<in> X \<or> (\<exists>h. re_heap st p = Some h \<and> handler_fd h = fd)) \<and>
     (\<forall>fd. fd \<in> opn (re_os st) \<longleftrightarrow> fd \<in> base \<union> X \<or> (\<exists>p h. re_heap st p = Some h \<and> fd \<in> owned h)) \<and>
     -1 \<notin> base \<union> X \<and> base \<inter> X = {}"

lemma reactor_invI:
  assumes "\<And>p h. re_heap st p = Some h \<Longrightarrow> p < re_next st \<and> handler_wf h \<and> owned h \<inter> (base \<union> X) = {}"
    and "\<And>p q h h'. re_heap st p = Some h \<Longrightarrow> re_heap st q = Some h' \<Longrightarrow> p \<noteq> q \<Longrightarrow> owned h \<inter> owned h' = {}"
    and "\<And>fd p. reg (re_os st) fd = Some p \<Longrightarrow> fd \<in> X \<or> (\<exists>h. re_heap st p = Some h \<and> handler_fd h = fd)"
    and "\<And>fd. fd \<in> opn (re_os st) \<longleftrightarrow> fd \<in> base \<union> X \<or> (\<exists>p h. re_heap st p = Some h \<and> fd \<in> owned h)"
    and "-1 \<notin> base \<union> X" "base \<inter> X = {}"
  shows "reactor_inv opn reg base X st"
  unfolding reactor_inv_def using assms by blast

lemma reactor_invD:
  assumes "reactor_inv opn reg base X st"
  shows "re_heap st p = Some h \<Longrightarrow> p < re_next st" "re_heap st p = Some h \<Longrightarrow> handler_wf h"
    "re_heap st p = Some h \<Longrightarrow> fd \<in> owned h \<Longrightarrow> fd \<notin> base \<and> fd \<notin> X"
    "re_heap st p = Some h \<Longrightarrow> re_heap st q = Some h' \<Longrightarrow> fd \<in> owned h \<Longrightarrow> fd \<in> owned h' \<Longrightarrow> p = q"
    "reg (re_os st) fd = Some p \<Longrightarrow> fd \<in> X \<or> (\<exists>h. re_heap st p = Some h \<and> handler_fd h = fd)"
    "fd \<in> opn (re_os st) \<longleftrightarrow> fd \<in> base \<union> X \<or> (\<exists>p h. re_heap st p = Some h \<and> fd \<in> owned h)"
    "-1 \<notin> base" "-1 \<notin> X" "fd \<in> X \<Longrightarrow> fd \<notin> base"
proof -
  note i = assms [unfolded reactor_inv_def]
  note A = conjunct1 [OF i] and i2 = conjunct2 [OF i]
  note D = conjunct1 [OF i2] and i3 = conjunct2 [OF i2]
  note B = conjunct1 [OF i3] and i4 = conjunct2 [OF i3]
  note C = conjunct1 [OF i4] and M = conjunct2 [OF i4]
  show "re_heap st p = Some h \<Longrightarrow> p < re_next st" "re_heap st p = Some h \<Longrightarrow> handler_wf h"
    "re_heap st p = Some h \<Longrightarrow> fd \<in> owned h \<Longrightarrow> fd \<notin> base \<and> fd \<notin> X" using A by blast+
  show "re_heap st p = Some h \<Longrightarrow> re_heap st q = Some h' \<Longrightarrow> fd \<in> owned h \<Longrightarrow> fd \<in> owned h' \<Longrightarrow> p = q" using D by blast
  show "reg (re_os st) fd = Some p \<Longrightarrow> fd \<in> X \<or> (\<exists>h. re_heap st p = Some h \<and> handler_fd h = fd)" using B by blast
  show "fd \<in> opn (re_os st) \<longleftrightarrow> fd \<in> base \<union> X \<or> (\<exists>p h. re_heap st p = Some h \<and> fd \<in> owned h)" using C by blast
  show "-1 \<notin> base" "-1 \<notin> X" "fd \<in> X \<Longrightarrow> fd \<notin> base" using M by blast+
qed

lemma heap_ex_upd:
  "(\<exists>q k. (H(p \<mapsto> h)) q = Some k \<and> Q k) \<longleftrightarrow> Q h \<or> (\<exists>q k. q \<noteq> p \<and> H q = Some k \<and> Q k)"
  "(\<exists>q k. (H(p := None)) q = Some k \<and> Q k) \<longleftrightarrow> (\<exists>q k. q \<noteq> p \<and> H q = Some k \<and> Q k)"
  by (auto split: if_splits)

lemma heap_ex_split: "H p = Some h \<Longrightarrow> (\<exists>q k. H q = Some k \<and> Q k) \<longleftrightarrow> Q h \<or> (\<exists>q k. q \<noteq> p \<and> H q = Some k \<and> Q k)"
  by (auto, metis option.inject)

lemma owned_fd: "handler_wf h \<Longrightarrow> handler_fd h \<in> owned h" "-1 \<notin> owned h"
  by (cases h; auto)+

section \<open>What the steps do to the view\<close>

context reactor_os begin

lemma echo_keeps_view: "event_world (echo_callbacks (rs_os sys)) (\<lambda>s. se_fd s = fd \<and> opn (se_os s) = fds \<and> reg (se_os s) = r)"
proof
  fix ctx ctx' :: "'o Session wslay_event_context" and len fl n bs
  assume "se_fd (ec_user_data ctx) = fd \<and> opn (se_os (ec_user_data ctx)) = fds \<and> reg (se_os (ec_user_data ctx)) = r"
    and "ev_recv_callback (echo_callbacks (rs_os sys)) len fl ctx = (n, bs, ctx')"
  then show "app_only ctx ctx' \<and> se_fd (ec_user_data ctx') = fd \<and> opn (se_os (ec_user_data ctx')) = fds \<and> reg (se_os (ec_user_data ctx')) = r"
    using recv_view
    by (auto simp: echo_callbacks_def echo_recv_callback_def app_only_def set_os_def wslay_event_set_error_def Let_def split: prod.splits if_splits)
next
  fix ctx ctx' :: "'o Session wslay_event_context" and ds fl b n
  assume "se_fd (ec_user_data ctx) = fd \<and> opn (se_os (ec_user_data ctx)) = fds \<and> reg (se_os (ec_user_data ctx)) = r"
    and "ev_send_callback (echo_callbacks (rs_os sys)) ds fl b ctx = (n, ctx')"
  then show "app_only ctx ctx' \<and> se_fd (ec_user_data ctx') = fd \<and> opn (se_os (ec_user_data ctx')) = fds \<and> reg (se_os (ec_user_data ctx')) = r"
    using send_view
    by (auto simp: echo_callbacks_def echo_send_callback_def app_only_def set_os_def wslay_event_set_error_def Let_def split: prod.splits if_splits)
next
  fix k c and ctx :: "'o Session wslay_event_context" and P :: "'o Session \<Rightarrow> bool"
  assume "ev_on_msg_recv_callback (echo_callbacks (rs_os sys)) = Some k"
    "world_ok (\<lambda>s. se_fd s = fd \<and> opn (se_os s) = fds \<and> reg (se_os s) = r) ctx"
  then show "world_ok (\<lambda>s. se_fd s = fd \<and> opn (se_os s) = fds \<and> reg (se_os s) = r) (k c ctx)"
    by (auto simp: echo_callbacks_def intro: world_part echo_msg_keeps)
qed (auto simp: echo_callbacks_def app_only_def)

text \<open>A handler has the same descriptors after an event.\<close>

definition same_view :: "'o \<Rightarrow> 'o \<Rightarrow> bool" where
  "same_view w w' \<longleftrightarrow> opn w' = opn w \<and> reg w' = reg w"

lemma same_view_refl: "same_view w w"
  by (simp add: same_view_def)

lemma same_view_trans: "same_view u v \<Longrightarrow> same_view v w \<Longrightarrow> same_view u w"
  by (simp add: same_view_def)

lemma echo_event_view:
  assumes keeps: "\<And>c res c'. f c = Some (res, c') \<Longrightarrow> world_ok (\<lambda>s. se_fd s = fd \<and> opn (se_os s) = opn w \<and> reg (se_os s) = reg w) c \<Longrightarrow>
      world_ok (\<lambda>s. se_fd s = fd \<and> opn (se_os s) = opn w \<and> reg (se_os s) = reg w) c'"
    and "echo_event f fd ctx w = Some (res, h, w')" "handler_wf (EchoWebSocketHandler fd ctx)"
  shows "same_view w w' \<and> (\<exists>ctx'. h = EchoWebSocketHandler fd ctx') \<and> handler_wf h"
proof -
  obtain res' c where c: "f (set_os w ctx) = Some (res', c)" "h = EchoWebSocketHandler fd c" "w' = se_os (ec_user_data c)"
    using assms(2) by (auto simp: echo_event_def split: option.splits sum.splits)
  have "world_ok (\<lambda>s. se_fd s = fd \<and> opn (se_os s) = opn w \<and> reg (se_os s) = reg w) (set_os w ctx)"
    using assms(3) by (simp add: world_ok_def set_os_def)
  from keeps [OF c(1) this] show ?thesis using c(2,3) assms(3) by (simp add: world_ok_def same_view_def)
qed

lemma recv_headers_view: "recv_headers (rs_fl sys) fd headers w = Some (r, headers', w') \<Longrightarrow> same_view w w'"
proof -
  assume a: "recv_headers (rs_fl sys) fd headers w = Some (r, headers', w')"
  have "rs_fl sys = rs_fl sys \<longrightarrow> same_view w (snd (snd (r, headers', w')))"
  proof (rule recv_headers.raw_induct [OF _ a, where P = "\<lambda>fl fd headers w res. fl = rs_fl sys \<longrightarrow> same_view w (snd (snd res))"], intro impI)
    fix f fl fd headers w res
    assume IH: "\<And>fl fd headers w res. f fl fd headers w = Some res \<Longrightarrow> fl = rs_fl sys \<longrightarrow> same_view w (snd (snd res))" and c: "fl = rs_fl sys"
      and eq: "(case fl_read fl fd 4096 w of
        (r, bs, e, w') \<Rightarrow>
          if r = -1 then Some (if e = EWOULDBLOCK \<or> e = EAGAIN then 0 else -1, headers, w')
          else if r = 0 then Some (-1, headers, w')
          else (let headers' = headers @ take (nat r) bs
                in if length headers' > 8192 then Some (-1, headers', w') else f fl fd headers' w')) = Some res"
    obtain r bs e w1 where rd: "fl_read (rs_fl sys) fd 4096 w = (r, bs, e, w1)" by (metis prod_cases4)
    have v: "same_view w w1" using read_view [OF rd] by (simp add: same_view_def)
    let ?headers = "headers @ take (nat r) bs"
    show "same_view w (snd (snd res))"
    proof (cases "r = -1 \<or> r = 0 \<or> 8192 < length ?headers")
      case True
      then show ?thesis using eq [unfolded c rd prod.case Let_def] v by (auto split: if_splits)
    next
      case False
      then have "f (rs_fl sys) fd ?headers w1 = Some res" using eq [unfolded c rd prod.case Let_def] by simp
      from IH [OF this] show ?thesis using v by (simp add: same_view_def)
    qed
  qed
  then show ?thesis by simp
qed

lemma send_resheaders_view: "send_resheaders (rs_fl sys) fd res off w = Some (r, off', w') \<Longrightarrow> same_view w w'"
proof -
  assume a: "send_resheaders (rs_fl sys) fd res off w = Some (r, off', w')"
  have "rs_fl sys = rs_fl sys \<longrightarrow> same_view w (snd (snd (r, off', w')))"
  proof (rule send_resheaders.raw_induct [OF _ a, where P = "\<lambda>fl fd res off w x. fl = rs_fl sys \<longrightarrow> same_view w (snd (snd x))"], intro impI)
    fix f fl fd res off w x
    assume IH: "\<And>fl fd res off w x. f fl fd res off w = Some x \<Longrightarrow> fl = rs_fl sys \<longrightarrow> same_view w (snd (snd x))" and c: "fl = rs_fl sys"
      and eq: "(if length res - off = 0 then Some (0, off, w)
      else (case fl_write fl fd (drop off res) w of
              (r, e, w') \<Rightarrow>
                if r = -1 then Some (if e = EAGAIN \<or> e = EWOULDBLOCK then 0 else -1, off, w')
                else f fl fd res (off + nat r) w')) = Some x"
    obtain r e w1 where wr: "fl_write (rs_fl sys) fd (drop off res) w = (r, e, w1)" by (metis prod_cases3)
    have v: "same_view w w1" using write_view [OF wr] by (simp add: same_view_def)
    show "same_view w (snd (snd x))"
    proof (cases "length res - off = 0 \<or> r = -1")
      case True
      then show ?thesis using eq [unfolded c wr prod.case] v same_view_refl by (auto split: if_splits)
    next
      case False
      then have "f (rs_fl sys) fd res (off + nat r) w1 = Some x" using eq [unfolded c wr prod.case] by simp
      from IH [OF this] show ?thesis using v by (simp add: same_view_def)
    qed
  qed
  then show ?thesis by simp
qed

text \<open>An event of a handler that is not the listening one leaves the view alone.\<close>

lemma on_read_view:
  assumes "on_read_event sys h w = Some (res, h', w')" "handler_wf h" "\<forall>fd cfd. h \<noteq> ListenEventHandler fd cfd"
  shows "same_view w w' \<and> handler_wf h' \<and> handler_fd h' = handler_fd h \<and> owned h' = owned h \<and> (\<forall>fd cfd. h' \<noteq> ListenEventHandler fd cfd)"
proof (cases h)
  case (EchoWebSocketHandler fd ctx)
  have "same_view w w' \<and> (\<exists>ctx'. h' = EchoWebSocketHandler fd ctx') \<and> handler_wf h'"
    by (rule echo_event_view [of "wslay_event_recv (echo_callbacks (rs_os sys))" fd w ctx res])
      (use assms EchoWebSocketHandler event_world.recv_keeps_world [OF echo_keeps_view] in \<open>auto simp del: handler_wf.simps\<close>)
  then show ?thesis using EchoWebSocketHandler by auto
next
  case (HttpHandshakeRecvHandler fd hds ak)
  then show ?thesis using assms recv_headers_view
    by (auto split: option.splits prod.splits if_splits)
qed (use assms in \<open>auto simp: same_view_refl\<close>)

lemma on_write_view:
  assumes "on_write_event sys h w = Some (res, h', w')" "handler_wf h"
  shows "same_view w w' \<and> handler_wf h' \<and> handler_fd h' = handler_fd h \<and> owned h' = owned h"
proof (cases h)
  case (EchoWebSocketHandler fd ctx)
  have "same_view w w' \<and> (\<exists>ctx'. h' = EchoWebSocketHandler fd ctx') \<and> handler_wf h'"
    by (rule echo_event_view [of "wslay_event_send (echo_callbacks (rs_os sys))" fd w ctx res])
      (use assms EchoWebSocketHandler event_world.send_keeps_world [OF echo_keeps_view] in \<open>auto simp del: handler_wf.simps\<close>)
  then show ?thesis using EchoWebSocketHandler by auto
next
  case (HttpHandshakeSendHandler fd rh off)
  then show ?thesis using assms send_resheaders_view
    by (auto split: option.splits prod.splits if_splits)
qed (use assms in \<open>auto simp: same_view_refl\<close>)

section \<open>Moving descriptors\<close>

text \<open>A handler is replaced by one with the same descriptors.\<close>

lemma inv_replace:
  assumes "reactor_inv opn reg base X st" "re_heap st p = Some h" "handler_wf h'" "owned h' = owned h" "handler_fd h' = handler_fd h"
    "same_view (re_os st) w"
  shows "reactor_inv opn reg base X (st\<lparr>re_heap := (re_heap st)(p \<mapsto> h'), re_os := w\<rparr>)"
proof -
  note d = reactor_invD [OF assms(1)]
  show ?thesis
  proof (rule reactor_invI)
    fix fd q
    assume "reg (re_os (st\<lparr>re_heap := (re_heap st)(p \<mapsto> h'), re_os := w\<rparr>)) fd = Some q"
    then show "fd \<in> X \<or> (\<exists>h. re_heap (st\<lparr>re_heap := (re_heap st)(p \<mapsto> h'), re_os := w\<rparr>) q = Some h \<and> handler_fd h = fd)"
      using d(5) [of fd q] assms by (auto simp: same_view_def)
  next
    fix fd
    show "fd \<in> opn (re_os (st\<lparr>re_heap := (re_heap st)(p \<mapsto> h'), re_os := w\<rparr>)) \<longleftrightarrow>
        fd \<in> base \<union> X \<or> (\<exists>q h. re_heap (st\<lparr>re_heap := (re_heap st)(p \<mapsto> h'), re_os := w\<rparr>) q = Some h \<and> fd \<in> owned h)"
      using d(6) [of fd] assms(4,6) heap_ex_split [of "re_heap st" p h, OF assms(2), where Q = "\<lambda>h. fd \<in> owned h"] by (simp add: same_view_def heap_ex_upd del: fun_upd_apply)
  next
    fix q r k k'
    assume "re_heap (st\<lparr>re_heap := (re_heap st)(p \<mapsto> h'), re_os := w\<rparr>) q = Some k"
      "re_heap (st\<lparr>re_heap := (re_heap st)(p \<mapsto> h'), re_os := w\<rparr>) r = Some k'" "q \<noteq> r"
    then show "owned k \<inter> owned k' = {}" using d(4) assms(2,4) by (fastforce split: if_splits)
  qed (use d assms(2-4) in \<open>fastforce split: if_splits\<close>)+
qed

text \<open>A handler leaves the heap; its descriptors are on the way.\<close>

lemma inv_take:
  assumes "reactor_inv opn reg base {} st" "re_heap st p = Some h"
  shows "reactor_inv opn reg base (owned h) (st\<lparr>re_heap := (re_heap st)(p := None)\<rparr>)"
proof -
  note d = reactor_invD [OF assms(1)]
  show ?thesis
  proof (rule reactor_invI)
    fix fd q
    assume "reg (re_os (st\<lparr>re_heap := (re_heap st)(p := None)\<rparr>)) fd = Some q"
    then obtain k where "re_heap st q = Some k" "handler_fd k = fd" using d(5) [of fd q] by auto
    then show "fd \<in> owned h \<or> (\<exists>h. re_heap (st\<lparr>re_heap := (re_heap st)(p := None)\<rparr>) q = Some h \<and> handler_fd h = fd)"
      using owned_fd(1) [OF d(2)] assms(2) by (cases "q = p") auto
  next
    fix fd
    show "fd \<in> opn (re_os (st\<lparr>re_heap := (re_heap st)(p := None)\<rparr>)) \<longleftrightarrow>
        fd \<in> base \<union> owned h \<or> (\<exists>q h. re_heap (st\<lparr>re_heap := (re_heap st)(p := None)\<rparr>) q = Some h \<and> fd \<in> owned h)"
      using d(6) [of fd] heap_ex_split [of "re_heap st" p h, OF assms(2), where Q = "\<lambda>h. fd \<in> owned h"] by (simp add: heap_ex_upd del: fun_upd_apply)
  next
    fix q k
    assume "re_heap (st\<lparr>re_heap := (re_heap st)(p := None)\<rparr>) q = Some k"
    then show "q < re_next (st\<lparr>re_heap := (re_heap st)(p := None)\<rparr>) \<and> handler_wf k \<and> owned k \<inter> (base \<union> owned h) = {}"
      using d(1,2) [of q k] d(3) [of q k] d(4) [of q k p h] assms(2) by (auto split: if_splits)
  next
    fix q r k k'
    assume "re_heap (st\<lparr>re_heap := (re_heap st)(p := None)\<rparr>) q = Some k" "re_heap (st\<lparr>re_heap := (re_heap st)(p := None)\<rparr>) r = Some k'" "q \<noteq> r"
    then show "owned k \<inter> owned k' = {}" using d(4) by (fastforce split: if_splits)
  qed (use d(3) [OF assms(2)] d(7) owned_fd(2) [of h] in auto)
qed

text \<open>A descriptor on the way is closed.\<close>

lemma inv_close:
  assumes "reactor_inv opn reg base X st" "fd \<in> X"
  shows "reactor_inv opn reg base (X - {fd}) (st\<lparr>re_os := rs_close sys fd (re_os st)\<rparr>)"
proof -
  note d = reactor_invD [OF assms(1)] and c = close_view [of fd "re_os st"]
  show ?thesis
  proof (rule reactor_invI)
    fix g q
    assume "reg (re_os (st\<lparr>re_os := rs_close sys fd (re_os st)\<rparr>)) g = Some q"
    then show "g \<in> X - {fd} \<or> (\<exists>h. re_heap (st\<lparr>re_os := rs_close sys fd (re_os st)\<rparr>) q = Some h \<and> handler_fd h = g)"
      using d(5) [of g q] c by (auto split: if_splits)
  next
    fix g
    show "g \<in> opn (re_os (st\<lparr>re_os := rs_close sys fd (re_os st)\<rparr>)) \<longleftrightarrow>
        g \<in> base \<union> (X - {fd}) \<or> (\<exists>q h. re_heap (st\<lparr>re_os := rs_close sys fd (re_os st)\<rparr>) q = Some h \<and> g \<in> owned h)"
      using d(6) [of g] d(3) [of _ _ g] d(9) [of g] assms(2) c by auto
  qed (use d in \<open>fastforce\<close>)+
qed

lemma inv_view: "reactor_inv opn reg base X st \<Longrightarrow> same_view (re_os st) w \<Longrightarrow> reactor_inv opn reg base X (st\<lparr>re_os := w\<rparr>)"
  by (simp add: reactor_inv_def same_view_def)

text \<open>\<open>close (-1)\<close> and a descriptor that is not open.\<close>

lemma inv_close_none:
  assumes "reactor_inv opn reg base X st"
  shows "reactor_inv opn reg base X (st\<lparr>re_os := rs_close sys (-1) (re_os st)\<rparr>)"
proof -
  note d = reactor_invD [OF assms] and c = close_view [of "-1" "re_os st"]
  have "-1 \<notin> opn (re_os st)" using d(6) [of "-1"] d(7,8) owned_fd(2) by auto
  moreover have "reg (re_os st) (-1) = None"
  proof (rule ccontr)
    assume "reg (re_os st) (-1) \<noteq> None"
    then obtain q h where "re_heap st q = Some h" "handler_fd h = -1" using d(5) [of "-1"] d(8) by auto
    then show False using owned_fd(1) [OF d(2)] owned_fd(2) by metis
  qed
  ultimately have "same_view (re_os st) (rs_close sys (-1) (re_os st))" using c by (auto simp: same_view_def)
  then show ?thesis using inv_view [OF assms] by simp
qed

text \<open>A handler that is on no heap is deleted.\<close>

lemma inv_delete:
  assumes "reactor_inv opn reg base (owned h) st" "handler_wf h"
  shows "reactor_inv opn reg base {} (st\<lparr>re_os := delete_handler sys h (re_os st)\<rparr>)"
proof -
  have one: "reactor_inv opn reg base {} (st'\<lparr>re_os := rs_close sys fd (re_os st')\<rparr>)" if "reactor_inv opn reg base {fd} st'" for fd st'
    using inv_close [OF that, of fd] by simp
  have shut: "reactor_inv opn reg base X (st\<lparr>re_os := rs_shutdown sys fd (re_os st)\<rparr>)" if "reactor_inv opn reg base X st" for X fd
    by (rule inv_view [OF that]) (simp add: same_view_def shutdown_view)
  show ?thesis
  proof (cases h)
    case (EchoWebSocketHandler fd ctx)
    then have "reactor_inv opn reg base {fd} st" using assms by simp
    from one [OF shut [OF this, of fd]] show ?thesis using EchoWebSocketHandler by simp
  next
    case (HttpHandshakeSendHandler fd rh off)
    then have "reactor_inv opn reg base {fd} st" "fd \<noteq> -1" using assms by simp_all
    from one [OF shut [OF this(1), of fd]] this(2) show ?thesis using HttpHandshakeSendHandler by simp
  next
    case (HttpHandshakeRecvHandler fd hds ak)
    then have "reactor_inv opn reg base {fd} st" "fd \<noteq> -1" using assms by simp_all
    from one [OF this(1)] this(2) show ?thesis using HttpHandshakeRecvHandler by simp
  next
    case (ListenEventHandler fd cfd)
    then have i: "reactor_inv opn reg base ({fd, cfd} - {-1}) st" "fd \<noteq> -1" "cfd \<noteq> fd" using assms by simp_all
    have "{fd, cfd} - {-1} - {fd} = {cfd} - {-1}" using i(3) by auto
    then have c: "reactor_inv opn reg base ({cfd} - {-1}) (st\<lparr>re_os := rs_close sys fd (re_os st)\<rparr>)"
      using inv_close [OF i(1), of fd] i(2) by simp
    show ?thesis
    proof (cases "cfd = -1")
      case True
      then have "reactor_inv opn reg base {} (st\<lparr>re_os := rs_close sys fd (re_os st)\<rparr>)" using c by simp
      from inv_close_none [OF this] show ?thesis using ListenEventHandler True by simp
    next
      case False
      then have "reactor_inv opn reg base {cfd} (st\<lparr>re_os := rs_close sys fd (re_os st)\<rparr>)" using c by simp
      from one [OF this] show ?thesis using ListenEventHandler by simp
    qed
  qed
qed

text \<open>A new handler is put on the heap and registered.\<close>

lemma inv_put:
  assumes "reactor_inv opn reg base {fd} st" "handler_wf h" "owned h = {fd}" "handler_fd h = fd"
    and w: "opn w = opn (re_os st)" "reg w = (reg (re_os st))(fd \<mapsto> re_next st)"
  shows "reactor_inv opn reg base {} (st\<lparr>re_heap := (re_heap st)(re_next st \<mapsto> h), re_next := Suc (re_next st), re_os := w\<rparr>)"
    (is "reactor_inv opn reg base {} ?st")
proof -
  note d = reactor_invD [OF assms(1)]
  have new: "re_heap st (re_next st) = None" using d(1) [of "re_next st"] by (cases "re_heap st (re_next st)") auto
  show ?thesis
  proof (rule reactor_invI)
    fix q k
    assume "re_heap ?st q = Some k"
    then show "q < re_next ?st \<and> handler_wf k \<and> owned k \<inter> (base \<union> {}) = {}"
      using d(1,2) [of q k] d(3) [of q k] d(9) [of fd] assms(2,3) by (auto simp: less_Suc_eq split: if_splits)
  next
    fix q r k k'
    assume "re_heap ?st q = Some k" "re_heap ?st r = Some k'" "q \<noteq> r"
    then show "owned k \<inter> owned k' = {}"
      using d(3) [of q k fd] d(3) [of r k' fd] d(4) [of q k r k'] assms(3) by (auto split: if_splits)
  next
    fix g q
    assume "reg (re_os ?st) g = Some q"
    then show "g \<in> {} \<or> (\<exists>h. re_heap ?st q = Some h \<and> handler_fd h = g)"
      using d(5) [of g q] new assms(4) w by (auto split: if_splits)
  next
    fix g
    have "(\<exists>q k. re_heap st q = Some k \<and> g \<in> owned k) \<longleftrightarrow> (\<exists>q k. q \<noteq> re_next st \<and> re_heap st q = Some k \<and> g \<in> owned k)"
      using new by (metis option.distinct(1))
    then show "g \<in> opn (re_os ?st) \<longleftrightarrow> g \<in> base \<union> {} \<or> (\<exists>q k. re_heap ?st q = Some k \<and> g \<in> owned k)"
      using d(6) [of g] assms(3) w by (simp add: heap_ex_upd del: fun_upd_apply) blast
  qed (use d in auto)
qed

lemma inv_next: "reactor_inv opn reg base X st \<Longrightarrow> re_next st \<le> n \<Longrightarrow> reactor_inv opn reg base X (st\<lparr>re_next := n\<rparr>)"
  unfolding reactor_inv_def by (auto dest: less_le_trans) 

lemma inv_add:
  assumes "reactor_inv opn reg base {fd} st" "handler_wf h" "owned h = {fd}" "handler_fd h = fd"
  shows "reactor_inv opn reg base {} (add_handler sys epollfd h st)"
    "q < re_next st \<Longrightarrow> re_heap (add_handler sys epollfd h st) q = re_heap st q"
proof -
  have del: "reactor_inv opn reg base {} (st\<lparr>re_next := Suc (re_next st), re_os := delete_handler sys h w\<rparr>)" if "same_view (re_os st) w" for w
    using inv_delete [OF _ assms(2), of base "st\<lparr>re_next := Suc (re_next st), re_os := w\<rparr>"] inv_view [OF inv_next [OF assms(1)] , of "Suc (re_next st)" w]
      that assms(3) by simp
  obtain r e w1 where c1: "rs_epoll_ctl sys epollfd EPOLL_CTL_ADD fd (want_read h, want_write h) (re_next st) (re_os st) = (r, e, w1)"
    by (metis prod_cases3)
  obtain r' e' w2 where c2: "rs_epoll_ctl sys epollfd EPOLL_CTL_MOD fd (want_read h, want_write h) (re_next st) w1 = (r', e', w2)"
    by (metis prod_cases3)
  have u: "add_handler sys epollfd h st =
      (if r = -1 then if e then if r' = -1 then st\<lparr>re_next := Suc (re_next st), re_os := delete_handler sys h w2\<rparr>
           else st\<lparr>re_heap := (re_heap st)(re_next st \<mapsto> h), re_next := Suc (re_next st), re_os := w2\<rparr>
         else st\<lparr>re_next := Suc (re_next st), re_os := delete_handler sys h w1\<rparr>
       else st\<lparr>re_heap := (re_heap st)(re_next st \<mapsto> h), re_next := Suc (re_next st), re_os := w1\<rparr>)"
    by (simp add: add_handler_def ctl_epollev_def assms(4) c1 c2 Let_def)
  note v1 = ctl_view [OF c1] and v2 = ctl_view [OF c2]
  show "reactor_inv opn reg base {} (add_handler sys epollfd h st)"
    unfolding u using v1 v2 by (auto simp: same_view_def intro!: del inv_put [OF assms])
  show "q < re_next st \<Longrightarrow> re_heap (add_handler sys epollfd h st) q = re_heap st q" unfolding u by simp
qed

text \<open>Taking another handler off the heap before or after makes no difference.\<close>

lemma add_handler_remove:
  assumes "p \<noteq> re_next st"
  shows "(add_handler sys' epollfd h (st\<lparr>re_heap := (re_heap st)(p \<mapsto> k), re_os := w\<rparr>))\<lparr>re_heap :=
      (re_heap (add_handler sys' epollfd h (st\<lparr>re_heap := (re_heap st)(p \<mapsto> k), re_os := w\<rparr>)))(p := None)\<rparr> =
    add_handler sys' epollfd h (st\<lparr>re_heap := (re_heap st)(p := None), re_os := w\<rparr>)"
  using assms by (auto simp: add_handler_def Let_def fun_upd_twist split: prod.split)

lemma inv_mod:
  assumes "reactor_inv opn reg base {} st" "re_heap st p = Some h" "ctl_epollev sys epollfd op p h (re_os st) = (r, e, w)"
  shows "reactor_inv opn reg base {} (st\<lparr>re_os := w\<rparr>)"
proof -
  note d = reactor_invD [OF assms(1)] and v = ctl_view [OF assms(3) [unfolded ctl_epollev_def]]
  have "reg w g = Some q \<Longrightarrow> g \<in> {} \<or> (\<exists>h. re_heap st q = Some h \<and> handler_fd h = g)" for g q
    using d(5) [of g q] v assms(2) by (auto split: if_splits)
  then show ?thesis using assms(1) v by (auto simp: reactor_inv_def)
qed

section \<open>The listening handler\<close>

lemma inv_unlisten:
  assumes "reactor_inv opn reg base {} st" "re_heap st p = Some (ListenEventHandler fd cfd)"
  shows "reactor_inv opn reg base ({cfd} - {-1}) (st\<lparr>re_heap := (re_heap st)(p \<mapsto> ListenEventHandler fd (-1))\<rparr>)"
    (is "reactor_inv opn reg base ?X ?st")
proof -
  note d = reactor_invD [OF assms(1)] and e = reactor_invD(1-3) [OF assms(1,2)]
  have wf: "fd \<noteq> -1" "cfd \<noteq> fd" using e(2) by simp_all
  have o: "owned (ListenEventHandler fd cfd) = {fd} \<union> ?X" "owned (ListenEventHandler fd (-1)) = {fd}" using wf by auto
  show ?thesis
  proof (rule reactor_invI)
    fix q k
    assume k: "re_heap ?st q = Some k"
    show "q < re_next ?st \<and> handler_wf k \<and> owned k \<inter> (base \<union> ?X) = {}"
    proof (cases "q = p")
      case True
      then show ?thesis using k e(1) e(3) [of fd] wf by auto
    next
      case False
      then show ?thesis using k d(1,2) [of q k] d(3) [of q k] d(4) [of q k p "ListenEventHandler fd cfd" cfd] assms(2) by auto
    qed
  next
    fix q r k k'
    assume k: "re_heap ?st q = Some k" "re_heap ?st r = Some k'" "q \<noteq> r"
    obtain j j' where j: "re_heap st q = Some j" "owned k \<subseteq> owned j" "re_heap st r = Some j'" "owned k' \<subseteq> owned j'"
      using k assms(2) o by (auto split: if_splits)
    then have "owned j \<inter> owned j' = {}" using d(4) [OF j(1,3)] k(3) by auto
    then show "owned k \<inter> owned k' = {}" using j(2,4) by auto
  next
    fix g q
    assume "reg (re_os ?st) g = Some q"
    then show "g \<in> ?X \<or> (\<exists>h. re_heap ?st q = Some h \<and> handler_fd h = g)" using d(5) [of g q] assms(2) by auto
  next
    fix g
    show "g \<in> opn (re_os ?st) \<longleftrightarrow> g \<in> base \<union> ?X \<or> (\<exists>q k. re_heap ?st q = Some k \<and> g \<in> owned k)"
    proof -
      define E where "E \<longleftrightarrow> (\<exists>q k. q \<noteq> p \<and> re_heap st q = Some k \<and> g \<in> owned k)"
      have "(\<exists>q k. re_heap ?st q = Some k \<and> g \<in> owned k) \<longleftrightarrow> g \<in> {fd} \<or> E"
        using heap_ex_upd(1) [of "re_heap st" p "ListenEventHandler fd (-1)" "\<lambda>h. g \<in> owned h"]
        unfolding E_def by (simp add: o(2) del: fun_upd_apply owned.simps)
      moreover have "(\<exists>q k. re_heap st q = Some k \<and> g \<in> owned k) \<longleftrightarrow> g \<in> {fd} \<union> ?X \<or> E"
        using heap_ex_split [of "re_heap st" p "ListenEventHandler fd cfd", OF assms(2), where Q = "\<lambda>h. g \<in> owned h"]
        unfolding E_def o(1) .
      moreover have "g \<in> opn (re_os ?st) \<longleftrightarrow> g \<in> opn (re_os st)" by simp
      ultimately show ?thesis using d(6) [of g] by blast
    qed
  qed (use d(7) e(3) [of cfd] in auto)
qed

lemma inv_accept:
  assumes "reactor_inv opn reg base {} st" "re_heap st p = Some (ListenEventHandler fd (-1))" "rs_accept sys fd (re_os st) = (c, w)"
  shows "reactor_inv opn reg base {} (st\<lparr>re_heap := (re_heap st)(p \<mapsto> ListenEventHandler fd c), re_os := w\<rparr>)"
    (is "reactor_inv opn reg base {} ?st")
proof -
  note d = reactor_invD [OF assms(1)] and e = reactor_invD(1-3) [OF assms(1,2)] and a = accept_view [OF assms(3)]
  show ?thesis
  proof (cases "c = -1")
    case True
    then show ?thesis
      using inv_replace [OF assms(1,2), of "ListenEventHandler fd (-1)" w] e(2) a by (simp add: same_view_def)
  next
    case False
    then have c: "c \<notin> opn (re_os st)" "opn w = insert c (opn (re_os st))" "reg w = reg (re_os st)" using a by simp_all
    have free: "c \<notin> base" "\<And>q k. re_heap st q = Some k \<Longrightarrow> c \<notin> owned k" using c(1) d(6) [of c] by blast+
    have wf: "fd \<noteq> -1" "c \<noteq> fd" using e(2) free(2) [OF assms(2)] by auto
    have o: "owned (ListenEventHandler fd c) = {fd, c}" "owned (ListenEventHandler fd (-1)) = {fd}" using wf False by auto
    show ?thesis
    proof (rule reactor_invI)
      fix q k
      assume k: "re_heap ?st q = Some k"
      then show "q < re_next ?st \<and> handler_wf k \<and> owned k \<inter> (base \<union> {}) = {}"
        using d(1,2) [of q k] d(3) [of q k] e(1) e(3) [of fd] wf free(1) by (auto split: if_splits)
    next
      fix q r k k'
      assume k: "re_heap ?st q = Some k" "re_heap ?st r = Some k'" "q \<noteq> r"
      have before: "\<exists>j. re_heap st q = Some j \<and> owned k \<subseteq> insert c (owned j) \<and> (q \<noteq> p \<longrightarrow> k = j)" if "re_heap ?st q = Some k" for q k
      proof (cases "q = p")
        case True
        then have "k = ListenEventHandler fd c" using that by simp
        then show ?thesis unfolding True assms(2) option.inject using o by (intro exI [of _ "ListenEventHandler fd (-1)"]) simp
      next
        case False
        then show ?thesis using that by (intro exI [of _ k]) (simp add: subset_insertI)
      qed
      from before [OF k(1)] obtain j where j: "re_heap st q = Some j" "owned k \<subseteq> insert c (owned j)" "q \<noteq> p \<longrightarrow> k = j" by blast
      from before [OF k(2)] obtain j' where j': "re_heap st r = Some j'" "owned k' \<subseteq> insert c (owned j')" "r \<noteq> p \<longrightarrow> k' = j'" by blast
      have "owned j \<inter> owned j' = {}" using d(4) [OF j(1) j'(1)] k(3) by auto
      moreover have "c \<notin> owned j" "c \<notin> owned j'" using free(2) j(1) j'(1) by simp_all
      ultimately show "owned k \<inter> owned k' = {}" using j(2,3) j'(2,3) k(3) by (cases "q = p") auto
    next
      fix g q
      assume "reg (re_os ?st) g = Some q"
      then show "g \<in> {} \<or> (\<exists>h. re_heap ?st q = Some h \<and> handler_fd h = g)" using d(5) [of g q] assms(2) c(3) by auto
    next
      fix g
      show "g \<in> opn (re_os ?st) \<longleftrightarrow> g \<in> base \<union> {} \<or> (\<exists>q k. re_heap ?st q = Some k \<and> g \<in> owned k)"
      proof -
        define E where "E \<longleftrightarrow> (\<exists>q k. q \<noteq> p \<and> re_heap st q = Some k \<and> g \<in> owned k)"
        have "(\<exists>q k. re_heap ?st q = Some k \<and> g \<in> owned k) \<longleftrightarrow> g \<in> {fd, c} \<or> E"
          using heap_ex_upd(1) [of "re_heap st" p "ListenEventHandler fd c" "\<lambda>h. g \<in> owned h"]
          unfolding E_def by (simp add: o(1) del: fun_upd_apply owned.simps)
        moreover have "(\<exists>q k. re_heap st q = Some k \<and> g \<in> owned k) \<longleftrightarrow> g \<in> {fd} \<or> E"
          using heap_ex_split [of "re_heap st" p "ListenEventHandler fd (-1)", OF assms(2), where Q = "\<lambda>h. g \<in> owned h"]
          unfolding E_def o(2) .
        moreover have "g \<in> opn (re_os ?st) \<longleftrightarrow> g = c \<or> g \<in> opn (re_os st)" using c(2) by simp
        ultimately show ?thesis using d(6) [of g] by blast
      qed
    qed (use d(7) in auto)
  qed
qed

end

end
