(* ===== verification/Wslay_Reactor_Steps.thy ===== *)
theory Wslay_Reactor_Steps
  imports Wslay_Reactor_Safety Wslay_Context
begin

text \<open>
  The steps of the reactor keep the invariant of \<open>Wslay_Reactor_Safety\<close>: an event, the hand-over to the next handler, and the events that one
  \<open>epoll_wait\<close> reports, one after the other. A step fails only where the library does.
\<close>

text \<open>The faults of the library itself, on a connection of the server.\<close>

definition library_fault :: "'o reactor_sys \<Rightarrow> fault \<Rightarrow> bool" where
  "library_fault sys f \<longleftrightarrow>
     (\<exists>ctx ctx'. wslay_event_recv (echo_callbacks (rs_os sys)) ctx = Some (Inl f, ctx') \<or>
       wslay_event_send (echo_callbacks (rs_os sys)) ctx = Some (Inl f, ctx')) \<or>
     f = NullDereference \<and> (\<exists>s :: 'o Session. wslay_server_new (rs_mem sys) s = None)"

lemma echo_event_fault: "echo_event f fd ctx w = Some (Inl e, h, w') \<Longrightarrow> \<exists>c'. f (set_os w ctx) = Some (Inl e, c')"
  by (auto simp: echo_event_def split: option.splits sum.splits)

lemma on_read_fault: "on_read_event sys h w = Some (Inl f, h', w') \<Longrightarrow> library_fault sys f"
  by (cases h) (auto simp: library_fault_def split: option.splits prod.splits if_splits dest: echo_event_fault)

lemma on_write_fault: "on_write_event sys h w = Some (Inl f, h', w') \<Longrightarrow> library_fault sys f"
  by (cases h) (auto simp: library_fault_def split: option.splits prod.splits dest: echo_event_fault)

lemma handle_fault: "handle_event sys ev h w = Some (Inl f, h', w') \<Longrightarrow> library_fault sys f"
  by (auto simp: handle_event_def split: option.splits sum.splits prod.splits if_splits dest: on_read_fault on_write_fault)

lemma next_fault: "next_handler sys h w = (Inl f, h', w') \<Longrightarrow> library_fault sys f"
  by (cases h) (auto simp: library_fault_def new_echo_handler_def split: option.splits if_splits prod.splits)

lemma event_fault:
  assumes "reactor_event sys epollfd ev st = (Crash f, st')" "re_heap st (ee_ptr ev) = Some h"
  shows "library_fault sys f"
proof (cases "handle_event sys ev h (re_os st)")
  case None
  then show ?thesis using assms by (simp add: reactor_event_def Let_def)
next
  case (Some x)
  then obtain res h1 w1 where x: "handle_event sys ev h (re_os st) = Some (res, h1, w1)" by (cases x) auto
  show ?thesis
  proof (cases res)
    case (Inl f')
    then show ?thesis using assms x handle_fault [of sys ev h "re_os st"] by (simp add: reactor_event_def Let_def)
  next
    case (Inr failed)
    obtain nx h2 w2 where n: "next_handler sys h1 w1 = (nx, h2, w2)" by (metis prod_cases3)
    then have "nx = Inl f" using assms x Inr
      by (cases nx) (auto simp: reactor_event_def Let_def split: if_splits prod.splits)
    then show ?thesis using next_fault n by metis
  qed
qed

context reactor_os begin

section \<open>An event\<close>

lemma listen_event:
  assumes "reactor_inv opn reg base {} st" "re_heap st p = Some (ListenEventHandler fd cfd)"
    and "on_read_event sys (ListenEventHandler fd cfd) (re_os st) = Some (res, h, w)"
  shows "reactor_inv opn reg base {} (st\<lparr>re_heap := (re_heap st)(p \<mapsto> h), re_os := w\<rparr>) \<and> (\<exists>c. h = ListenEventHandler fd c)"
proof -
  obtain c where a: "rs_accept sys fd (if cfd \<noteq> -1 then rs_close sys cfd (re_os st) else re_os st) = (c, w)" "h = ListenEventHandler fd c"
    using assms(3) by (auto split: prod.splits)
  let ?st = "st\<lparr>re_heap := (re_heap st)(p \<mapsto> ListenEventHandler fd (-1))\<rparr>"
  let ?w = "if cfd \<noteq> -1 then rs_close sys cfd (re_os st) else re_os st"
  note u = inv_unlisten [OF assms(1,2)]
  have "reactor_inv opn reg base {} (?st\<lparr>re_os := ?w\<rparr>)"
  proof (cases "cfd = -1")
    case True
    then show ?thesis using u by simp
  next
    case False
    then have "reactor_inv opn reg base {cfd} ?st" using u by simp
    from inv_close [OF this, of cfd] show ?thesis using False by simp
  qed
  from inv_accept [OF this, of p fd c w] show ?thesis using a by simp
qed

lemma handle_keeps:
  assumes "reactor_inv opn reg base {} st" "re_heap st p = Some h" "handle_event sys ev h (re_os st) = Some (res, h', w)"
  shows "reactor_inv opn reg base {} (st\<lparr>re_heap := (re_heap st)(p \<mapsto> h'), re_os := w\<rparr>)"
proof -
  note wf = reactor_invD(2) [OF assms(1,2)]
  show ?thesis
  proof (cases "\<exists>fd cfd. h = ListenEventHandler fd cfd")
    case True
    then obtain fd cfd where h: "h = ListenEventHandler fd cfd" by blast
    show ?thesis
    proof (cases "ee_in ev")
      case True
      obtain c w1 where "rs_accept sys fd (if cfd \<noteq> -1 then rs_close sys cfd (re_os st) else re_os st) = (c, w1)" by fastforce
      then have rd: "on_read_event sys h (re_os st) = Some (Inr 0, ListenEventHandler fd c, w1)" by (simp add: h)
      have "h' = ListenEventHandler fd c \<and> w = w1"
        using assms(3) True unfolding handle_event_def if_P [OF True] rd option.case sum.case prod.case by (auto split: if_splits)
      then show ?thesis using listen_event [OF assms(1) assms(2) [unfolded h] rd [unfolded h]] by simp
    next
      case False
      then have "h' = h" "w = re_os st" using assms(3) by (auto simp: h handle_event_def split: if_splits)
      then show ?thesis using inv_replace [OF assms(1,2) wf refl refl same_view_refl] by simp
    qed
  next
    case False
    define rd where "rd = (if ee_in ev then on_read_event sys h (re_os st) else Some (Inr 0, h, re_os st))"
    obtain r1 h1 w1 where r1: "rd = Some (r1, h1, w1)" using assms(3) by (auto simp: handle_event_def rd_def [symmetric] split: option.splits)
    have v1: "same_view (re_os st) w1 \<and> handler_wf h1 \<and> handler_fd h1 = handler_fd h \<and> owned h1 = owned h"
      using on_read_view [of h "re_os st" r1 h1 w1] r1 wf False same_view_refl by (auto simp: rd_def split: if_splits)
    have "same_view (re_os st) w \<and> handler_wf h' \<and> handler_fd h' = handler_fd h \<and> owned h' = owned h"
    proof (cases "h' = h1 \<and> w = w1")
      case True
      then show ?thesis using v1 by simp
    next
      case F: False
      then obtain r2 where "on_write_event sys h1 w1 = Some (r2, h', w)"
        using assms(3) r1 by (auto simp: handle_event_def rd_def [symmetric] split: option.splits sum.splits if_splits)
      from on_write_view [OF this] show ?thesis using v1 same_view_trans by metis
    qed
    then show ?thesis using inv_replace [OF assms(1,2)] by blast
  qed
qed

section \<open>The hand-over\<close>

lemma make_non_block_view: "make_non_block (rs_fl sys) fd w = (n, w') \<Longrightarrow> same_view w w'"
  using getfl_view setfl_view by (fastforce simp: make_non_block_def same_view_def split: prod.splits if_splits)

lemma new_echo_wf:
  assumes "new_echo_handler sys fd w = Inr h" "fd \<noteq> -1"
  shows "handler_wf h \<and> owned h = {fd} \<and> handler_fd h = fd"
proof -
  obtain ctx where c: "wslay_server_new (rs_mem sys) \<lparr>se_fd = fd, se_os = w\<rparr> = Some ctx" "h = EchoWebSocketHandler fd ctx"
    using assms(1) by (auto simp: new_echo_handler_def split: option.splits)
  obtain m where "ctx = (fresh_context m \<lparr>se_fd = fd, se_os = w\<rparr>)\<lparr>ec_server := True\<rparr>"
    using c(1) by (auto simp: wslay_server_new_def context_new_eq split: if_splits)
  then have "world_ok (\<lambda>s. se_fd s = fd) ctx"
    by (simp add: world_ok_def fresh_context_def wslay_event_config_get_no_buffering_def)
  then show ?thesis using c(2) assms(2) by simp
qed

text \<open>With a next handler, its descriptor is on the way: the old handler has given it up and has nothing left to close, or still listens.\<close>

lemma next_hands_over:
  assumes i: "reactor_inv opn reg base {} st" "re_heap st p = Some h" and n: "next_handler sys h (re_os st) = (Inr nx, h2, w)"
  shows "case nx of
      None \<Rightarrow> reactor_inv opn reg base {} (st\<lparr>re_heap := (re_heap st)(p \<mapsto> h2), re_os := w\<rparr>)
    | Some h' \<Rightarrow> handler_wf h' \<and> owned h' = {handler_fd h'} \<and>
        (if handler_finish h2 then reactor_inv opn reg base {handler_fd h'} (st\<lparr>re_heap := (re_heap st)(p := None), re_os := w\<rparr>) \<and>
             (\<forall>w. delete_handler sys h2 w = w)
         else reactor_inv opn reg base {handler_fd h'} (st\<lparr>re_heap := (re_heap st)(p \<mapsto> h2), re_os := w\<rparr>))"
proof -
  note wf = reactor_invD(2) [OF i] and take = inv_take [OF i]
  have same: "reactor_inv opn reg base {} (st\<lparr>re_heap := (re_heap st)(p \<mapsto> h), re_os := re_os st\<rparr>)"
    by (rule inv_replace [OF i wf refl refl same_view_refl])
  show ?thesis
  proof (cases h)
    case (EchoWebSocketHandler fd ctx)
    then show ?thesis using n same by auto
  next
    case (HttpHandshakeSendHandler fd res off)
    show ?thesis
    proof (cases "off = length res")
      case True
      then obtain h' where h': "new_echo_handler sys fd (re_os st) = Inr h'" "nx = Some h'" "h2 = HttpHandshakeSendHandler (-1) res off" "w = re_os st"
        using n HttpHandshakeSendHandler by (cases "new_echo_handler sys fd (re_os st)") auto
      have "fd \<noteq> -1" using wf HttpHandshakeSendHandler by simp
      then show ?thesis using new_echo_wf [OF h'(1)] h' True take HttpHandshakeSendHandler by simp
    next
      case False
      then show ?thesis using n same HttpHandshakeSendHandler by auto
    qed
  next
    case (HttpHandshakeRecvHandler fd hds ak)
    then show ?thesis using n same take wf by (auto split: if_splits)
  next
    case (ListenEventHandler fd cfd)
    show ?thesis
    proof (cases "cfd = -1")
      case True
      then show ?thesis using n same ListenEventHandler by auto
    next
      case False
      let ?st = "st\<lparr>re_heap := (re_heap st)(p \<mapsto> ListenEventHandler fd (-1))\<rparr>"
      have u: "reactor_inv opn reg base {cfd} ?st" using inv_unlisten [OF i(1), of p fd cfd] i(2) ListenEventHandler False by simp
      obtain nb w1 where nb: "make_non_block (rs_fl sys) cfd (re_os st) = (nb, w1)" by fastforce
      obtain so w2 where so: "fl_nodelay (rs_fl sys) cfd w1 = (so, w2)" by fastforce
      have v: "same_view (re_os st) w1" "same_view (re_os st) w2"
        using make_non_block_view [OF nb] nodelay_view [OF so] by (simp_all add: same_view_def)
      have cl: "reactor_inv opn reg base {} (?st\<lparr>re_os := rs_close sys cfd w'\<rparr>)" if "same_view (re_os st) w'" for w'
        using inv_close [OF inv_view [OF u], of w' cfd] that by simp
      show ?thesis
        using n cl [OF v(1)] cl [OF v(2)] inv_view [OF u, of w2] v False ListenEventHandler
        by (auto simp: nb so split: if_splits)
    qed
  qed
qed

section \<open>A step\<close>

lemma event_keeps:
  assumes i: "reactor_inv opn reg base {} st" "re_heap st (ee_ptr ev) = Some h" and e: "reactor_event sys epollfd ev st = (Go, st')"
  shows "reactor_inv opn reg base {} st' \<and> (\<forall>q. q \<noteq> ee_ptr ev \<longrightarrow> re_heap st q \<noteq> None \<longrightarrow> re_heap st' q \<noteq> None)"
proof -
  let ?p = "ee_ptr ev"
  note lt = reactor_invD(1) [OF i(1)]
  obtain failed h1 w1 where x: "handle_event sys ev h (re_os st) = Some (Inr failed, h1, w1)"
    using e i(2) by (cases "handle_event sys ev h (re_os st)") (auto simp: reactor_event_def Let_def split: sum.splits)
  let ?st1 = "st\<lparr>re_heap := (re_heap st)(?p \<mapsto> h1), re_os := w1\<rparr>"
  have i1: "reactor_inv opn reg base {} ?st1" "re_heap ?st1 ?p = Some h1" using handle_keeps [OF i x] by simp_all
  have del: "reactor_inv opn reg base {} (s\<lparr>re_heap := (re_heap s)(?p := None), re_os := delete_handler sys k (re_os s)\<rparr>)"
    if "reactor_inv opn reg base {} s" "re_heap s ?p = Some k" for s k
    using inv_delete [OF inv_take [OF that] reactor_invD(2) [OF that]] by simp
  show ?thesis
  proof (cases failed)
    case True
    then have "st' = st\<lparr>re_heap := (re_heap st)(?p := None), re_os := delete_handler sys h1 w1\<rparr>"
      using e i(2) x by (simp add: reactor_event_def Let_def)
    then show ?thesis using del [OF i1] by simp
  next
    case False
    obtain nx h2 w2 where n: "next_handler sys h1 w1 = (Inr nx, h2, w2)"
    proof -
      obtain a h2 w2 where a: "next_handler sys h1 w1 = (a, h2, w2)" by (metis prod_cases3)
      then show thesis using that e i(2) x False by (cases a) (auto simp: reactor_event_def Let_def)
    qed
    define st2 where "st2 = st\<lparr>re_heap := (re_heap st)(?p \<mapsto> h2), re_os := w2\<rparr>"
    define st3 where "st3 = (case nx of None \<Rightarrow> st2 | Some h' \<Rightarrow> add_handler sys epollfd h' st2)"
    have st': "st' = (if handler_finish h2 then st3\<lparr>re_heap := (re_heap st3)(?p := None), re_os := delete_handler sys h2 (re_os st3)\<rparr>
        else st3\<lparr>re_os := snd (snd (ctl_epollev sys epollfd EPOLL_CTL_MOD ?p h2 (re_os st3)))\<rparr>)"
    proof -
      obtain r ex w3 where c: "ctl_epollev sys epollfd EPOLL_CTL_MOD ?p h2 (re_os st3) = (r, ex, w3)" by (metis prod_cases3)
      have "reactor_event sys epollfd ev st =
          (if handler_finish h2 then (Go, st3\<lparr>re_heap := (re_heap st3)(?p := None), re_os := delete_handler sys h2 (re_os st3)\<rparr>)
           else (Go, st3\<lparr>re_os := w3\<rparr>))"
        unfolding reactor_event_def Let_def i(2) x option.case sum.case prod.case if_not_P [OF False] n st2_def [symmetric] st3_def [symmetric] c ..
      then show ?thesis using e c by (simp split: if_splits)
    qed
    have mod: "reactor_inv opn reg base {} (s\<lparr>re_os := snd (snd (ctl_epollev sys epollfd EPOLL_CTL_MOD ?p h2 (re_os s)))\<rparr>)"
      if "reactor_inv opn reg base {} s" "re_heap s ?p = Some h2" for s
      using inv_mod [OF that] by (metis prod.collapse)
    have n1: "next_handler sys h1 (re_os ?st1) = (Inr nx, h2, w2)" using n by simp
    have st1: "?st1\<lparr>re_heap := (re_heap ?st1)(?p := None), re_os := w2\<rparr> = st\<lparr>re_heap := (re_heap st)(?p := None), re_os := w2\<rparr>"
        "?st1\<lparr>re_heap := (re_heap ?st1)(?p \<mapsto> h2), re_os := w2\<rparr> = st2" by (simp_all add: st2_def)
    note ho = next_hands_over [OF i1 n1, unfolded st1]
    show ?thesis
    proof (cases nx)
      case None
      then have i2: "reactor_inv opn reg base {} st2" "re_heap st2 ?p = Some h2" using ho by (simp_all add: st2_def)
      have "st3 = st2" using None by (simp add: st3_def)
      then show ?thesis unfolding st' using del [OF i2] mod [OF i2] by (simp add: st2_def)
    next
      case (Some h')
      have hw: "handler_wf h'" "owned h' = {handler_fd h'}" using ho Some by simp_all
      have st3: "st3 = add_handler sys epollfd h' st2" using Some by (simp add: st3_def)
      have p: "?p \<noteq> re_next st" using lt [OF i(2)] by simp
      show ?thesis
      proof (cases "handler_finish h2")
        case True
        then have t: "reactor_inv opn reg base {handler_fd h'} (st\<lparr>re_heap := (re_heap st)(?p := None), re_os := w2\<rparr>)"
            "\<And>w. delete_handler sys h2 w = w" using ho Some by simp_all
        have "st' = add_handler sys epollfd h' (st\<lparr>re_heap := (re_heap st)(?p := None), re_os := w2\<rparr>)"
        proof -
          have "s\<lparr>re_heap := H, re_os := re_os s\<rparr> = s\<lparr>re_heap := H\<rparr>" for s :: "'o reactor_state" and H by simp
          then have "st' = st3\<lparr>re_heap := (re_heap st3)(?p := None)\<rparr>" using st' True t(2) by (simp only: if_True)
          then show ?thesis unfolding st3 st2_def by (simp only: add_handler_remove [OF p, where sys' = sys and epollfd = epollfd and h = h' and k = h2 and w = w2])
        qed
        then show ?thesis
          using inv_add [OF t(1) hw refl] lt by (auto split: option.splits)
      next
        case False
        then have t: "reactor_inv opn reg base {handler_fd h'} st2" using ho Some by (simp add: st2_def)
        note a = inv_add [OF t hw refl, where epollfd = epollfd, folded st3]
        have "re_heap st3 ?p = Some h2" using a(2) [of ?p] lt [OF i(2)] by (simp add: st2_def)
        then show ?thesis using mod [OF a(1)] False st' a(2) lt by (auto simp: st2_def)
      qed
    qed
  qed
qed

end

end
