(* ===== verification/Wslay_Reactor_Props.thy ===== *)
theory Wslay_Reactor_Props
  imports Wslay_Reactor_Steps Wslay_Handshake_Props
begin

text \<open>
  What the server of \<open>examples/echoserv.cc\<close> guarantees: its events never reach a deleted handler and no descriptor is lost or shared; a
  connection it serves is treated as \<open>examples/fork-echoserv.c\<close> treats it; its first two handlers take the request of
  \<open>examples/testclient.cc\<close>.
\<close>

section \<open>Reachable states\<close>

text \<open>The states of \<open>reactor\<close>, with the events that the last \<open>epoll_wait\<close> reported and that are still to be handled.\<close>

inductive reactor_reached :: "'o reactor_sys \<Rightarrow> int \<Rightarrow> 'o reactor_state \<Rightarrow> epoll_event list \<Rightarrow> 'o reactor_state \<Rightarrow> bool"
  for sys epollfd start where
  start: "reactor_reached sys epollfd start [] start"
| wait: "reactor_reached sys epollfd start [] st \<Longrightarrow> rs_epoll_wait sys epollfd MAX_EVENTS (re_os st) = (nfds, events, w) \<Longrightarrow> nfds \<noteq> -1 \<Longrightarrow>
    reactor_reached sys epollfd start (take (nat nfds) events) (st\<lparr>re_os := w\<rparr>)"
| event: "reactor_reached sys epollfd start (ev # evs) st \<Longrightarrow> reactor_event sys epollfd ev st = (Go, st') \<Longrightarrow>
    reactor_reached sys epollfd start evs st'"

inductive_cases reached_event: "reactor_reached sys epollfd start (ev # evs) st"

context reactor_os begin

lemma wait_finds_handlers:
  assumes "reactor_inv opn reg base {} st" "rs_epoll_wait sys epollfd m (re_os st) = (nfds, events, w)"
  shows "reactor_inv opn reg base {} (st\<lparr>re_os := w\<rparr>)" "\<forall>ev \<in> set events. re_heap st (ee_ptr ev) \<noteq> None" "distinct (map ee_ptr events)"
proof -
  note v = wait_view [OF assms(2)] and d = reactor_invD(5) [OF assms(1)]
  show "reactor_inv opn reg base {} (st\<lparr>re_os := w\<rparr>)" using inv_view [OF assms(1)] v by (simp add: same_view_def)
  obtain fds where fds: "distinct fds" "map (reg (re_os st)) fds = map (Some \<circ> ee_ptr) events" using v by blast
  have len: "length fds = length events" using arg_cong [OF fds(2), of length] by simp
  have h: "\<exists>h. re_heap st (ee_ptr (events ! i)) = Some h \<and> handler_fd h = fds ! i" if "i < length events" for i
  proof -
    have "reg (re_os st) (fds ! i) = Some (ee_ptr (events ! i))" using arg_cong [OF fds(2), of "\<lambda>l. l ! i"] that len by simp
    then show ?thesis using d by blast
  qed
  show "\<forall>ev \<in> set events. re_heap st (ee_ptr ev) \<noteq> None" using h by (fastforce simp: in_set_conv_nth)
  show "distinct (map ee_ptr events)"
  proof (subst distinct_conv_nth, intro allI impI)
    fix i j
    assume ij: "i < length (map ee_ptr events)" "j < length (map ee_ptr events)" "i \<noteq> j"
    then have "fds ! i \<noteq> fds ! j" using fds(1) len by (simp add: nth_eq_iff_index_eq)
    then show "map ee_ptr events ! i \<noteq> map ee_ptr events ! j" using h [of i] h [of j] ij by auto
  qed
qed

lemma reached_inv:
  assumes "reactor_reached sys epollfd start evs st" "reactor_inv opn reg base {} start"
  shows "reactor_inv opn reg base {} st \<and> (\<forall>ev \<in> set evs. re_heap st (ee_ptr ev) \<noteq> None) \<and> distinct (map ee_ptr evs)"
  using assms(1)
proof induction
  case start
  then show ?case using assms(2) by simp
next
  case (wait st nfds events w)
  then show ?case
    using wait_finds_handlers [of base st epollfd MAX_EVENTS nfds events w]
    by (auto simp: take_map [symmetric] distinct_take dest: in_set_takeD)
next
  case (event ev evs st st')
  obtain h where h: "re_heap st (ee_ptr ev) = Some h" using event.IH by auto
  have "\<forall>e \<in> set evs. ee_ptr e \<noteq> ee_ptr ev" using event.IH by (auto simp: image_iff)
  then show ?case using event_keeps [OF conjunct1 [OF event.IH] h event.hyps(2)] event.IH by simp
qed

lemma events_reached:
  assumes "reactor_inv opn reg base {} start"
  shows "reactor_reached sys epollfd start evs st \<Longrightarrow> reactor_events sys epollfd evs st = (s, st') \<Longrightarrow>
    (s = Go \<longrightarrow> reactor_reached sys epollfd start [] st') \<and> (\<forall>f. s = Crash f \<longrightarrow> library_fault sys f)"
proof (induction evs arbitrary: st)
  case (Cons ev evs)
  obtain h where h: "re_heap st (ee_ptr ev) = Some h" using reached_inv [OF Cons.prems(1) assms] by auto
  obtain s1 st1 where e: "reactor_event sys epollfd ev st = (s1, st1)" by fastforce
  show ?case
  proof (cases "s1 = Go")
    case True
    then have "reactor_events sys epollfd evs st1 = (s, st')" using Cons.prems(2) by (simp add: e andthen_def)
    then show ?thesis using Cons.IH reactor_reached.event [OF Cons.prems(1)] e True by blast
  next
    case False
    then have "s = s1" using Cons.prems(2) by (simp add: e andthen_def split: step.splits)
    then show ?thesis using event_fault h e False by blast
  qed
qed auto

lemma loop_faults:
  assumes "reactor_loop sys epollfd st = Some (Inl f, st')" "reactor_inv opn reg base {} start" "reactor_reached sys epollfd start [] st"
  shows "library_fault sys f"
proof -
  have "sys = sys \<and> epollfd = epollfd \<and> reactor_reached sys epollfd start [] st \<longrightarrow> (\<forall>f'. fst (Inl f :: fault + int, st') = Inl f' \<longrightarrow> library_fault sys f')"
  proof (rule reactor_loop.raw_induct [OF _ assms(1), where P = "\<lambda>sys' ep st res. sys' = sys \<and> ep = epollfd \<and>
      reactor_reached sys epollfd start [] st \<longrightarrow> (\<forall>f. fst res = Inl f \<longrightarrow> library_fault sys f)"], intro impI allI, elim conjE)
    fix F sys' ep st res f
    assume IH: "\<And>sys' ep st res. F sys' ep st = Some res \<Longrightarrow> sys' = sys \<and> ep = epollfd \<and> reactor_reached sys epollfd start [] st \<longrightarrow>
        (\<forall>f. fst res = Inl f \<longrightarrow> library_fault sys f)"
      and eq: "(case reactor_round sys' ep st of
        (Go, st') \<Rightarrow> F sys' ep st'
      | (Break, st') \<Rightarrow> Some (Inr 0, st')
      | (Return r, st') \<Rightarrow> Some (Inr r, st')
      | (Crash f, st') \<Rightarrow> Some (Inl f, st')
      | (Hang, st') \<Rightarrow> None) = Some res"
      and c: "sys' = sys" "ep = epollfd" "reactor_reached sys epollfd start [] st" and f: "fst res = Inl f"
    obtain nfds events w where wt: "rs_epoll_wait sys epollfd MAX_EVENTS (re_os st) = (nfds, events, w)" by (metis prod_cases3)
    show "library_fault sys f"
    proof (cases "nfds = -1")
      case True
      then show ?thesis using eq f c by (auto simp: reactor_round_def wt)
    next
      case False
      let ?evs = "take (nat nfds) events" and ?st = "st\<lparr>re_os := w\<rparr>"
      obtain s st1 where e: "reactor_events sys epollfd ?evs ?st = (s, st1)" by fastforce
      have r: "reactor_round sys epollfd st = (s, st1)" using False by (simp add: reactor_round_def wt e)
      note er = events_reached [OF assms(2) reactor_reached.wait [OF c(3) wt False] e]
      have "(case s of Go \<Rightarrow> F sys epollfd st1 | Break \<Rightarrow> Some (Inr 0, st1) | Return r \<Rightarrow> Some (Inr r, st1) | Crash f \<Rightarrow> Some (Inl f, st1) | Hang \<Rightarrow> None) = Some res"
        using eq unfolding c(1,2) r by simp
      then show ?thesis using er IH [of sys epollfd st1 res] f by (cases s) auto
    qed
  qed
  then show ?thesis using assms(3) by simp
qed

lemma start_inv:
  assumes "reactor_start sys sfd w = Some (epollfd, st)" "sfd \<in> opn w" "-1 \<notin> opn w" "reg w = Map.empty"
  shows "reactor_inv opn reg (insert epollfd (opn w - {sfd})) {} st"
proof -
  obtain w1 r e w2 where s: "rs_epoll_create sys w = (epollfd, w1)" "epollfd \<noteq> -1" "r \<noteq> -1"
      "ctl_epollev sys epollfd EPOLL_CTL_ADD 0 (ListenEventHandler sfd (-1)) w1 = (r, e, w2)"
      "st = \<lparr>re_heap = [0 \<mapsto> ListenEventHandler sfd (-1)], re_next = 1, re_os = w2\<rparr>"
    using assms(1) by (auto simp: reactor_start_def Let_def split: prod.splits if_splits)
  have w1: "epollfd \<notin> opn w" "opn w1 = insert epollfd (opn w)" "reg w1 = reg w" using create_view [OF s(1)] s(2) by auto
  have w2: "opn w2 = opn w1" "reg w2 = (reg w1)(sfd \<mapsto> 0)" using ctl_view [OF s(4) [unfolded ctl_epollev_def]] s(3) by auto
  have sfd: "sfd \<noteq> -1" "sfd \<noteq> epollfd" using assms(2,3) w1(1) by auto
  show ?thesis
    unfolding s(5) by (rule reactor_invI) (use assms w1 w2 sfd s(2) in \<open>auto split: if_splits\<close>)
qed

end


text \<open>A small system: nothing to read, and one connection to accept.\<close>

record small_os =
  so_open :: "int set"
  so_reg :: "int \<rightharpoonup> nat"

definition small_sys :: "small_os reactor_sys" where
  "small_sys =
     \<lparr>rs_os = \<lparr>os_send = (\<lambda>fd ds fl w. (-1, EAGAIN, w)), os_recv = (\<lambda>fd len w. (-1, [], EAGAIN, w)),
        os_poll = (\<lambda>fd ein eout w. (-1, \<lparr>pf_in = False, pf_out = False, pf_err = False\<rparr>, w)), os_MSG_MORE = 0\<rparr>,
      rs_fl = \<lparr>fl_read = (\<lambda>fd len w. (-1, [], EAGAIN, w)), fl_write = (\<lambda>fd ds w. (-1, EAGAIN, w)), fl_getfl = (\<lambda>fd w. (2, w)),
        fl_setfl = (\<lambda>fd flags w. (0, w)), fl_nodelay = (\<lambda>fd w. (0, w)), fl_O_NONBLOCK = 0x800\<rparr>,
      rs_accept = (\<lambda>fd w. if 7 \<in> so_open w then (-1, w) else (7, w\<lparr>so_open := insert 7 (so_open w)\<rparr>)),
      rs_close = (\<lambda>fd w. \<lparr>so_open = so_open w - {fd}, so_reg = (so_reg w)(fd := None)\<rparr>),
      rs_shutdown = (\<lambda>fd w. w),
      rs_epoll_create = (\<lambda>w. if 4 \<in> so_open w then (-1, w) else (4, w\<lparr>so_open := insert 4 (so_open w)\<rparr>)),
      rs_epoll_ctl = (\<lambda>epollfd op fd evs p w. if fd \<in> so_open w then (0, False, w\<lparr>so_reg := (so_reg w)(fd \<mapsto> p)\<rparr>) else (-1, False, w)),
      rs_epoll_wait = (\<lambda>epollfd m w. (1, (case so_reg w 3 of None \<Rightarrow> [] | Some p \<Rightarrow> [\<lparr>ee_ptr = p, ee_in = True, ee_out = False, ee_err = False\<rparr>]), w)),
      rs_sha1 = toy_sha1, rs_base64 = toy_base64, rs_mem = mem_unlimited\<rparr>"

interpretation small: reactor_os small_sys so_open so_reg
proof
  fix epollfd :: int and m w nfds events and w' :: small_os
  assume "rs_epoll_wait small_sys epollfd m w = (nfds, events, w')"
  then show "so_open w' = so_open w \<and> so_reg w' = so_reg w \<and> (\<exists>fds. distinct fds \<and> map (so_reg w) fds = map (Some \<circ> ee_ptr) events)"
    by (cases "so_reg w 3") (auto simp: small_sys_def intro: exI [of _ "[]"] exI [of _ "[3]"])
qed (auto simp: small_sys_def split: if_splits)

definition small_start :: small_os where
  "small_start = \<lparr>so_open = {0, 1, 2, 3}, so_reg = Map.empty\<rparr>"

definition small_reactor :: "small_os reactor_state" where
  "small_reactor = snd (the (reactor_start small_sys 3 small_start))"


section \<open>The two servers treat a connection alike\<close>

text \<open>A system whose \<open>poll\<close> reports what \<open>epoll_wait\<close> reported.\<close>

definition polled :: "epoll_event \<Rightarrow> 'o os_calls \<Rightarrow> 'o os_calls" where
  "polled ev os = os\<lparr>os_poll := (\<lambda>fd ein eout w. (1, \<lparr>pf_in = ee_in ev, pf_out = ee_out ev, pf_err = ee_err ev\<rparr>, w))\<rparr>"

lemma polled_callbacks [simp]: "echo_callbacks (polled ev os) = echo_callbacks os"
  by (simp add: echo_callbacks_def polled_def echo_recv_callback_def [abs_def] echo_send_callback_def [abs_def] cong: if_cong)

lemma polled_poll: "os_poll (polled ev os) fd ein eout w = (1, \<lparr>pf_in = ee_in ev, pf_out = ee_out ev, pf_err = ee_err ev\<rparr>, w)"
  by (simp add: polled_def)

lemma set_os_same [simp]: "set_os (se_os (ec_user_data ctx)) ctx = ctx" "set_os w (set_os v ctx) = set_os w ctx" "se_os (ec_user_data (set_os w ctx)) = w"
  by (simp_all add: set_os_def)

lemma echo_event_cases:
  "echo_event f fd ctx w = (case must_be_zero (f (set_os w ctx)) (Go, set_os w ctx) of
     (Go, c) \<Rightarrow> Some (Inr 0, EchoWebSocketHandler fd c, se_os (ec_user_data c))
   | (Crash e, c) \<Rightarrow> Some (Inl e, EchoWebSocketHandler fd c, se_os (ec_user_data c))
   | (Hang, c) \<Rightarrow> None
   | (_, c) \<Rightarrow> Some (Inr (-1), EchoWebSocketHandler fd c, se_os (ec_user_data c)))"
  by (auto simp: echo_event_def must_be_zero_def split: option.split sum.split)

lemma handle_echo_event:
  assumes "communicate_step (polled ev (rs_os sys)) events (set_os w ctx) = (s, c)" "ee_in ev \<or> ee_out ev \<or> ee_err ev"
  shows "handle_event sys ev (EchoWebSocketHandler fd ctx) w =
    (case s of
       Crash f \<Rightarrow> Some (Inl f, EchoWebSocketHandler fd c, se_os (ec_user_data c))
     | Hang \<Rightarrow> None
     | Go \<Rightarrow> Some (Inr False, EchoWebSocketHandler fd c, se_os (ec_user_data c))
     | _ \<Rightarrow> Some (Inr True, EchoWebSocketHandler fd (if ee_in ev \<or> ee_out ev then c else ctx), se_os (ec_user_data c)))"
proof -
  let ?recv = "wslay_event_recv (echo_callbacks (rs_os sys))" and ?send = "wslay_event_send (echo_callbacks (rs_os sys))"
  obtain s1 c1 where r: "(if ee_in ev then must_be_zero (?recv (set_os w ctx)) (Go, set_os w ctx) else (Go, set_os w ctx)) = (s1, c1)" by fastforce
  obtain s2 c2 where t: "(if ee_out ev then must_be_zero (?send c1) (Go, c1) else (Go, c1)) = (s2, c2)" by fastforce
  have step: "communicate_step (polled ev (rs_os sys)) events (set_os w ctx) =
      andthen (s1, c1) (\<lambda>ctx2. andthen (if ee_out ev then must_be_zero (?send ctx2) (Go, ctx2) else (Go, ctx2))
        (\<lambda>ctx3. if ee_err ev then (Return (-1), ctx3) else (Go, ctx3)))"
    by (simp only: communicate_step_def polled_poll polled_callbacks Let_def set_os_same prod.case pollfd.select_convs r) simp
  show ?thesis
  proof (cases "s1 = Go")
    case False
    then have "s = s1" "c = c1" "ee_in ev" using assms(1) r unfolding step by (simp_all add: andthen_def split: step.splits if_splits)
    then show ?thesis using r False by (cases s1) (simp_all add: handle_event_def echo_event_cases)
  next
    case s1: True
    have rd: "(if ee_in ev then on_read_event sys (EchoWebSocketHandler fd ctx) w else Some (Inr 0, EchoWebSocketHandler fd ctx, w)) =
        Some (Inr 0, EchoWebSocketHandler fd (if ee_in ev then c1 else ctx), se_os (ec_user_data c1))"
      using r s1 by (auto simp: echo_event_cases split: if_splits)
    have c1: "set_os (se_os (ec_user_data c1)) (if ee_in ev then c1 else ctx) = c1" using r by (auto split: if_splits)
    have go: "andthen (s2, c2) (\<lambda>ctx3. if ee_err ev then (Return (-1), ctx3) else (Go, ctx3)) = (s, c)"
      using assms(1) s1 t unfolding step by (simp add: andthen_def)
    show ?thesis
    proof (cases "s2 = Go")
      case False
      then have "s = s2" "c = c2" "ee_out ev" using go t by (simp_all add: andthen_def split: step.splits if_splits)
      then show ?thesis using t False c1 unfolding handle_event_def rd by (cases s2) (simp_all add: echo_event_cases)
    next
      case True
      have "(if ee_out ev then on_write_event sys (EchoWebSocketHandler fd (if ee_in ev then c1 else ctx)) (se_os (ec_user_data c1))
          else Some (Inr 0, EchoWebSocketHandler fd (if ee_in ev then c1 else ctx), se_os (ec_user_data c1))) =
          Some (Inr 0, EchoWebSocketHandler fd (if ee_in ev \<or> ee_out ev then c2 else ctx), se_os (ec_user_data c2))"
        using t True c1 by (auto simp: echo_event_cases split: if_splits)
      then show ?thesis using go True assms(2) unfolding handle_event_def rd by (auto simp: andthen_def split: if_splits)
    qed
  qed
qed

text \<open>C13. On an established connection the server with one process for all, \<open>echoserv.cc\<close>, does what the server with one process for each,
  \<open>fork-echoserv.c\<close>, does in a round of its loop: the same calls of the library in the same order. Where that round goes on, and the connection
  wants to read or write, the handler stays, registered for what it wants; where the round fails or nothing is wanted any more, where the other process would leave, the handler
  is deleted and its descriptor shut down and closed.\<close>

theorem reactor_event_is_communicate_step:
  assumes "re_heap st (ee_ptr ev) = Some (EchoWebSocketHandler fd ctx)"
    and "communicate_step (polled ev (rs_os sys)) events (set_os (re_os st) ctx) = (s, ctx')"
    and "ee_in ev \<or> ee_out ev \<or> ee_err ev"
  defines "h \<equiv> EchoWebSocketHandler fd ctx'" and "w' \<equiv> se_os (ec_user_data ctx')"
  shows "reactor_event sys epollfd ev st =
    (case s of
       Crash f \<Rightarrow> (Crash f, st\<lparr>re_heap := (re_heap st)(ee_ptr ev \<mapsto> h), re_os := w'\<rparr>)
     | Hang \<Rightarrow> (Hang, st)
     | Go \<Rightarrow>
         if wslay_event_want_read ctx' \<or> wslay_event_want_write ctx'
         then (Go, st\<lparr>re_heap := (re_heap st)(ee_ptr ev \<mapsto> h),
                 re_os := snd (snd (rs_epoll_ctl sys epollfd EPOLL_CTL_MOD fd (wslay_event_want_read ctx', wslay_event_want_write ctx') (ee_ptr ev) w'))\<rparr>)
         else (Go, st\<lparr>re_heap := (re_heap st)(ee_ptr ev := None), re_os := rs_close sys fd (rs_shutdown sys fd w')\<rparr>)
     | _ \<Rightarrow> (Go, st\<lparr>re_heap := (re_heap st)(ee_ptr ev := None), re_os := rs_close sys fd (rs_shutdown sys fd w')\<rparr>))"
  using handle_echo_event [OF assms(2,3), of fd] assms(1)
  by (auto simp: reactor_event_def Let_def h_def w'_def ctl_epollev_def split: step.splits prod.splits if_splits)


definition echo_on_7 :: "small_os Session wslay_event_context" where
  "echo_on_7 = (fresh_context mem_unlimited \<lparr>se_fd = 7, se_os = small_start\<rparr>)\<lparr>ec_server := True\<rparr>"

theorem reactor_event_is_communicate_step_witness:
  "\<exists>s c. communicate_step (polled \<lparr>ee_ptr = 1, ee_in = True, ee_out = False, ee_err = True\<rparr> (rs_os small_sys)) (True, False) echo_on_7 = (s, c) \<and>
    reactor_event small_sys 4 \<lparr>ee_ptr = 1, ee_in = True, ee_out = False, ee_err = True\<rparr>
        \<lparr>re_heap = [1 \<mapsto> EchoWebSocketHandler 7 echo_on_7], re_next = 2, re_os = small_start\<rparr> =
      (case s of
         Crash f \<Rightarrow> (Crash f, \<lparr>re_heap = [1 \<mapsto> EchoWebSocketHandler 7 c], re_next = 2, re_os = se_os (ec_user_data c)\<rparr>)
       | Hang \<Rightarrow> (Hang, \<lparr>re_heap = [1 \<mapsto> EchoWebSocketHandler 7 echo_on_7], re_next = 2, re_os = small_start\<rparr>)
       | Go \<Rightarrow> (if wslay_event_want_read c \<or> wslay_event_want_write c
           then (Go, \<lparr>re_heap = [1 \<mapsto> EchoWebSocketHandler 7 c], re_next = 2, re_os = snd (snd (rs_epoll_ctl small_sys 4 EPOLL_CTL_MOD 7
             (wslay_event_want_read c, wslay_event_want_write c) 1 (se_os (ec_user_data c))))\<rparr>)
           else (Go, \<lparr>re_heap = Map.empty, re_next = 2, re_os = rs_close small_sys 7 (rs_shutdown small_sys 7 (se_os (ec_user_data c)))\<rparr>))
       | _ \<Rightarrow> (Go, \<lparr>re_heap = Map.empty, re_next = 2, re_os = rs_close small_sys 7 (rs_shutdown small_sys 7 (se_os (ec_user_data c)))\<rparr>))"
proof -
  let ?ev = "\<lparr>ee_ptr = 1, ee_in = True, ee_out = False, ee_err = True\<rparr>"
  let ?st = "\<lparr>re_heap = [1 \<mapsto> EchoWebSocketHandler 7 echo_on_7], re_next = 2, re_os = small_start\<rparr>"
  have same: "set_os (re_os ?st) echo_on_7 = echo_on_7" by (simp add: echo_on_7_def fresh_context_def set_os_def)
  obtain s c where c: "communicate_step (polled ?ev (rs_os small_sys)) (True, False) echo_on_7 = (s, c)" by fastforce
  then have c': "communicate_step (polled ?ev (rs_os small_sys)) (True, False) (set_os (re_os ?st) echo_on_7) = (s, c)" by (simp only: same)
  have "re_heap ?st (ee_ptr ?ev) = Some (EchoWebSocketHandler 7 echo_on_7)" by simp
  from reactor_event_is_communicate_step [OF this c', of 4] show ?thesis
    by (intro exI [of _ s] exI [of _ c] conjI c) (simp split: step.split)
qed

section \<open>The handshake of the other server\<close>

context file_os begin

lemma recv_headers_ends:
  assumes "ok w" "length headers \<le> 8192"
  shows "\<exists>r bs w'. recv_headers fl fd headers w = Some (r, headers @ bs, w') \<and> ok w' \<and> wire w' = wire w \<and> stream w = bs @ stream w' \<and> (r = 0 \<or> r = -1)"
  using assms
proof (induction "8193 - length headers" arbitrary: headers w rule: less_induct)
  case less
  obtain r bs e w1 where rd: "fl_read fl fd 4096 w = (r, bs, e, w1)" by (metis prod_cases4)
  note k = read_ok [OF less.prems(1) rd]
  let ?new = "headers @ bs"
  consider "r = -1" | "r = 0" | "0 < r" "8192 < length ?new" | "0 < r" "\<not> 8192 < length ?new" using k by linarith
  then show ?case
  proof cases
    case 1
    then show ?thesis using k by (subst recv_headers.simps)
      (intro exI [of _ "if e = EWOULDBLOCK \<or> e = EAGAIN then 0 else -1"] exI [of _ "[]"] exI [of _ w1], simp add: rd)
  next
    case 2
    then show ?thesis using k by (subst recv_headers.simps) (intro exI [of _ "-1"] exI [of _ "[]"] exI [of _ w1], simp add: rd)
  next
    case 3
    then show ?thesis using k by (subst recv_headers.simps) (intro exI [of _ "-1"] exI [of _ bs] exI [of _ w1], simp add: rd)
  next
    case 4
    then have d: "8193 - length ?new < 8193 - length headers" using k less.prems(2) by simp
    have u: "recv_headers fl fd headers w = recv_headers fl fd ?new w1" using 4 k by (subst recv_headers.simps) (simp add: rd)
    obtain r' bs' w' where n: "recv_headers fl fd ?new w1 = Some (r', ?new @ bs', w')" "ok w'" "wire w' = wire w1" "stream w1 = bs' @ stream w'" "r' = 0 \<or> r' = -1"
      using less.hyps [OF d] k 4(2) by (metis not_less)
    then show ?thesis using u k by (intro exI [of _ r'] exI [of _ "bs @ bs'"] exI [of _ w']) simp
  qed
qed

lemma send_resheaders_ends:
  assumes "ok w" "off \<le> length res"
  shows "\<exists>r w' part. send_resheaders fl fd res off w = Some (r, off + length part, w') \<and> ok w' \<and> stream w' = stream w \<and>
    wire w' = wire w @ part \<and> prefix part (drop off res) \<and> (r = 0 \<or> r = -1)"
  using assms
proof (induction "length res - off" arbitrary: off w rule: less_induct)
  case less
  show ?case
  proof (cases "length res - off = 0")
    case True
    then show ?thesis using less.prems by (subst send_resheaders.simps) (intro exI [of _ 0] exI [of _ w] exI [of _ "[]"], simp)
  next
    case False
    obtain r e w1 where wr: "fl_write fl fd (drop off res) w = (r, e, w1)" by (metis prod_cases3)
    have ds: "drop off res \<noteq> []" using False by simp
    note k = write_ok [OF less.prems(1) ds wr]
    show ?thesis
    proof (cases "r = -1")
      case True
      then show ?thesis using k False by (subst send_resheaders.simps)
        (intro exI [of _ "if e = EAGAIN \<or> e = EWOULDBLOCK then 0 else -1"] exI [of _ w1] exI [of _ "[]"], simp add: wr)
    next
      case go: False
      then have r: "0 < r" "nat r \<le> length res - off" "wire w1 = wire w @ take (nat r) (drop off res)" using k by simp_all
      then have d: "length res - (off + nat r) < length res - off" "off + nat r \<le> length res" using False by linarith+
      obtain r' w' part where n: "send_resheaders fl fd res (off + nat r) w1 = Some (r', off + nat r + length part, w')" "ok w'" "stream w' = stream w1"
          "wire w' = wire w1 @ part" "prefix part (drop (off + nat r) res)" "r' = 0 \<or> r' = -1"
        using less.hyps [OF d(1) _ d(2)] k by blast
      have u: "send_resheaders fl fd res off w = send_resheaders fl fd res (off + nat r) w1"
        using False go by (subst send_resheaders.simps) (simp add: wr)
      have "drop off res = take (nat r) (drop off res) @ drop (off + nat r) res" by (metis append_take_drop_id drop_drop add.commute)
      then have "prefix (take (nat r) (drop off res) @ part) (drop off res)" using n(5) by (metis same_prefix_prefix)
      then show ?thesis
        using u n r k by (intro exI [of _ r'] exI [of _ w'] exI [of _ "take (nat r) (drop off res) @ part"]) simp
    qed
  qed
qed

end

text \<open>The lines before the key.\<close>

definition before_key :: "byte list \<Rightarrow> byte list \<Rightarrow> byte list \<Rightarrow> byte list" where
  "before_key host service path =
     request_head path @ http_lines [host_line host service, ascii ''Upgrade: websocket'', ascii ''Connection: Upgrade''] @ CRLF"

lemma find_sub_inside: "s = a @ pat @ b \<Longrightarrow> find_sub pat s \<noteq> None"
  by (auto simp: find_sub_None occurs_def intro!: exI [of _ "length a"])

lemma check_request_client:
  assumes "one_line host" "one_line service" "one_line path" "one_line key"
    and "find_sub (ascii ''Sec-WebSocket-Key: '') (client_request host service path key) = Some (length (before_key host service path))"
  shows "check_request sha1 base64 (client_request host service path key @ early) ak = Some (create_acceptkey sha1 base64 key)"
proof -
  let ?k = "ascii ''Sec-WebSocket-Key: ''" and ?b = "before_key host service path"
  let ?s = "client_request host service path key @ early"
  have s: "?s = (?b @ ?k) @ key @ CRLF @ ascii ''Sec-WebSocket-Version: 13'' @ CRLF @ CRLF @ early"
    by (simp add: client_request_def before_key_def request_head_def host_line_def)
  have e: "find_from ?s (CRLF @ CRLF) 0 \<noteq> None"
    using find_sub_append [OF request_end(1) [OF assms(1-4)], of early] by (simp add: find_from_0 del: find_sub.simps)
  have "find_sub (ascii ''Upgrade: websocket'' @ CRLF) ?s \<noteq> None"
    by (rule find_sub_inside [of _ "request_head path @ CRLF @ host_line host service @ CRLF" _
          "ascii ''Connection: Upgrade'' @ CRLF @ ?k @ key @ CRLF @ ascii ''Sec-WebSocket-Version: 13'' @ CRLF @ CRLF @ early"])
      (simp add: request_lines)
  moreover have "find_sub (ascii ''Connection: Upgrade'' @ CRLF) ?s \<noteq> None"
    by (rule find_sub_inside [of _ "request_head path @ CRLF @ host_line host service @ CRLF @ ascii ''Upgrade: websocket'' @ CRLF" _
          "?k @ key @ CRLF @ ascii ''Sec-WebSocket-Version: 13'' @ CRLF @ CRLF @ early"])
      (simp add: request_lines)
  ultimately have uc: "find_from ?s (ascii ''Upgrade: websocket'' @ CRLF) 0 \<noteq> None" "find_from ?s (ascii ''Connection: Upgrade'' @ CRLF) 0 \<noteq> None"
    by (simp_all only: find_from_0 not_False_eq_True)
  have k: "find_from ?s ?k 0 = Some (length ?b)" unfolding find_from_0 using find_sub_append [OF assms(5)] .
  have l: "length ?b + 19 = length (?b @ ?k)" by (simp add: ascii_def)
  have crlf: "find_sub CRLF (key @ CRLF @ ascii ''Sec-WebSocket-Version: 13'' @ CRLF @ CRLF @ early) = Some (length key)"
    using find_sub_skip [of CR key "[LF]"] assms(4) by (simp del: find_sub.simps) (simp add: find_sub_here [of CRLF, simplified])
  have f: "find_from ?s CRLF (length (?b @ ?k)) = Some (length (?b @ ?k) + length key)"
    unfolding s find_from_append crlf by simp
  have key: "substr ?s (length (?b @ ?k)) (map_option (\<lambda>e. e - length (?b @ ?k)) (Some (length (?b @ ?k) + length key))) = key"
    unfolding s by (simp add: substr_def)
  show ?thesis
    unfolding check_request_def using e uc by (simp only: k option.case l Let_def f key) simp
qed


lemma check_request_waits:
  assumes "find_sub (CRLF @ CRLF) headers = None"
  shows "check_request sha1 base64 headers ak = Some ak"
  by (simp only: check_request_def find_from_0 assms) simp

text \<open>C14. The first two handlers of \<open>echoserv.cc\<close> take the request of \<open>testclient.cc\<close>, in whatever pieces it comes, over any number of events. A read event
  ends, with the bytes that came in appended to the headers; the check refuses nothing: the event fails only where reading did. Once the request is whole, the accept key is the one that
  the client expects, and the next handler, for the same descriptor, has the response to send; until then the handler waits for more. The bytes that came in
  after the request are nowhere any more. Each write event ends, and what it writes continues the response.\<close>

theorem handlers_take_request:
  assumes "file_os (rs_fl sys) stream wire ok" "ok w"
    and "one_line host" "one_line service" "one_line path" "one_line key" "base64_ok (rs_base64 sys)" "sha1_ok (rs_sha1 sys)"
    and "request = client_request host service path key" "response = handshake_response (create_acceptkey (rs_sha1 sys) (rs_base64 sys) key)"
    and "find_sub (ascii ''Sec-WebSocket-Key: '') request = Some (length (before_key host service path))"
    and "headers @ stream w = request @ early" "length headers \<le> 8192" "find_sub (CRLF @ CRLF) headers = None"
  shows "\<exists>r got ak w'. on_read_event sys (HttpHandshakeRecvHandler fd headers []) w = Some (Inr r, HttpHandshakeRecvHandler fd (headers @ got) ak, w') \<and>
    stream w = got @ stream w' \<and> wire w' = wire w \<and> recv_headers (rs_fl sys) fd headers w = Some (r, headers @ got, w') \<and>
    (if r = 0 \<and> prefix request (headers @ got)
     then next_handler sys (HttpHandshakeRecvHandler fd (headers @ got) ak) w' =
       (Inr (Some (HttpHandshakeSendHandler fd response 0)), HttpHandshakeRecvHandler (-1) (headers @ got) ak, w')
     else ak = []) \<and>
    (\<forall>off \<le> length response. \<exists>r part v. on_write_event sys (HttpHandshakeSendHandler fd response off) w' =
       Some (Inr r, HttpHandshakeSendHandler fd response (off + length part), v) \<and> wire v = wire w' @ part \<and> prefix part (drop off response))"
proof -
  obtain r got w' where rd: "recv_headers (rs_fl sys) fd headers w = Some (r, headers @ got, w')" "ok w'" "wire w' = wire w" "stream w = got @ stream w'" "r = 0 \<or> r = -1"
    using file_os.recv_headers_ends [OF assms(1,2,13)] by blast
  have sends: "\<exists>r part v. on_write_event sys (HttpHandshakeSendHandler fd response off) w' =
       Some (Inr r, HttpHandshakeSendHandler fd response (off + length part), v) \<and> wire v = wire w' @ part \<and> prefix part (drop off response)"
    if off: "off \<le> length response" for off
  proof -
    obtain q v part where "send_resheaders (rs_fl sys) fd response off w' = Some (q, off + length part, v)" "wire v = wire w' @ part" "prefix part (drop off response)"
      using file_os.send_resheaders_ends [OF assms(1) rd(2) off, of fd] by blast
    then show ?thesis by auto
  qed
  define ak where "ak = (if r = 0 \<and> prefix request (headers @ got) then create_acceptkey (rs_sha1 sys) (rs_base64 sys) key else [])"
  have check: "r = 0 \<Longrightarrow> check_request (rs_sha1 sys) (rs_base64 sys) (headers @ got) [] = Some ak"
  proof (cases "prefix request (headers @ got)")
    case True
    assume "r = 0"
    obtain z where z: "headers @ got = request @ z" using True by (auto simp: prefix_def)
    show ?thesis
      using check_request_client [OF assms(3-6) assms(11) [unfolded assms(9)]] True \<open>r = 0\<close> unfolding z ak_def by (simp add: assms(9))
  next
    case False
    have "prefix (headers @ got) (request @ early)" using assms(12) rd(4) by (intro prefixI [of _ _ "stream w'"]) simp
    moreover have "prefix request (request @ early)" by simp
    ultimately have "prefix (headers @ got) request" using False prefix_same_cases by blast
    moreover have "headers @ got \<noteq> request" using False by auto
    ultimately have "strict_prefix (headers @ got) request" by (rule strict_prefixI)
    then obtain z where z: "request = (headers @ got) @ z" "z \<noteq> []" by (auto simp: strict_prefix_def prefix_def)
    have "find_sub (CRLF @ CRLF) (headers @ got) = None"
    proof (rule ccontr)
      assume "find_sub (CRLF @ CRLF) (headers @ got) \<noteq> None"
      then obtain i where i: "find_sub (CRLF @ CRLF) (headers @ got) = Some i" by blast
      have "i + 4 \<le> length (headers @ got)" using find_sub_bound [OF i] by simp
      moreover have "i = length request - 4" using find_sub_append [OF i, of z] request_end(1) [OF assms(3-6)] z(1) assms(9) by simp
      moreover have "length request = length (headers @ got) + length z" "0 < length z" using z by simp_all
      ultimately show False by linarith
    qed
    from check_request_waits [OF this] show ?thesis using False by (simp add: ak_def)
  qed
  have on_read: "on_read_event sys (HttpHandshakeRecvHandler fd headers []) w = Some (Inr r, HttpHandshakeRecvHandler fd (headers @ got) ak, w')"
    using rd(1,5) check by (auto simp: ak_def)
  have "create_acceptkey (rs_sha1 sys) (rs_base64 sys) key \<noteq> []"
    using key_chars(3) [OF assms(7), of "rs_sha1 sys (key @ WS_GUID)"] assms(8) by (auto simp: create_acceptkey_def sha1_ok_def)
  then have "if r = 0 \<and> prefix request (headers @ got)
     then next_handler sys (HttpHandshakeRecvHandler fd (headers @ got) ak) w' =
       (Inr (Some (HttpHandshakeSendHandler fd response 0)), HttpHandshakeRecvHandler (-1) (headers @ got) ak, w')
     else ak = []"
    by (simp add: ak_def assms(10))
  then show ?thesis using on_read rd sends by blast
qed


text \<open>The scripted connection, not blocking, with the rest of a system around it.\<close>

definition pair_sys :: "(scripted_data_feed \<times> scripted_data_feed) reactor_sys" where
  "pair_sys =
     \<lparr>rs_os = duplex_os,
      rs_fl = pair_calls\<lparr>fl_read := (\<lambda>fd len w. case fl_read pair_calls fd len w of (r, bs, e, w') \<Rightarrow> (if r = 0 then -1 else r, bs, e, w'))\<rparr>,
      rs_accept = (\<lambda>fd w. (-1, w)), rs_close = (\<lambda>fd w. w), rs_shutdown = (\<lambda>fd w. w), rs_epoll_create = (\<lambda>w. (4, w)),
      rs_epoll_ctl = (\<lambda>epollfd op fd evs p w. (0, False, w)), rs_epoll_wait = (\<lambda>epollfd m w. (-1, [], w)),
      rs_sha1 = toy_sha1, rs_base64 = toy_base64, rs_mem = mem_unlimited\<rparr>"

lemma pair_sys_files: "file_os (rs_fl pair_sys) (df_stream \<circ> fst) (df_wire \<circ> snd) duplex_ok"
proof
  fix w fd len r bs e w'
  assume ok: "duplex_ok w" and "fl_read (rs_fl pair_sys) fd len w = (r, bs, e, w')"
  then obtain r0 where rd: "fl_read pair_calls fd len w = (r0, bs, e, w')" "r = (if r0 = 0 then -1 else r0)"
    by (auto simp: pair_sys_def split: prod.splits)
  show "duplex_ok w' \<and> (df_wire \<circ> snd) w' = (df_wire \<circ> snd) w \<and> -1 \<le> r \<and> r \<le> int len \<and> length bs = nat r \<and>
      (df_stream \<circ> fst) w = bs @ (df_stream \<circ> fst) w'"
    using pair_client.read_ok [OF ok rd(1)] rd(2) by auto
next
  fix w fd ds r e w'
  assume "duplex_ok w" "ds \<noteq> []" "fl_write (rs_fl pair_sys) fd ds w = (r, e, w')"
  then show "duplex_ok w' \<and> (df_stream \<circ> fst) w' = (df_stream \<circ> fst) w \<and>
      (r = -1 \<and> (df_wire \<circ> snd) w' = (df_wire \<circ> snd) w \<or> 0 < r \<and> nat r \<le> length ds \<and> (df_wire \<circ> snd) w' = (df_wire \<circ> snd) w @ take (nat r) ds)"
    using pair_client.write_ok [of w ds fd r e w'] by (simp add: pair_sys_def)
qed (auto simp: pair_sys_def pair_calls_def)

theorem handlers_take_request_witness:
  "\<exists>r got ak w'. on_read_event pair_sys (HttpHandshakeRecvHandler 7 [] []) (connection some_request [100, 43] []) =
      Some (Inr r, HttpHandshakeRecvHandler 7 got ak, w') \<and> some_request = got @ (df_stream \<circ> fst) w'"
proof -
  note c = connection_ok [of some_request "[100, 43]" "[]"] some_request_facts
  have lines: "one_line (ascii ''h'')" "one_line (ascii ''80'')" "one_line (ascii ''/'')" by code_simp+
  have first: "find_sub (ascii ''Sec-WebSocket-Key: '') some_request = Some (length (before_key (ascii ''h'') (ascii ''80'') (ascii ''/'')))"
    by code_simp
  have "one_line (replicate 24 (0x41 :: byte))" by simp
  note h = handlers_take_request [OF pair_sys_files _ lines this _ _ some_request_def refl first, where headers = "[]" and early = "[]" and fd = 7
      and w = "connection some_request [100, 43] []"]
  have "\<exists>r got ak w'. on_read_event pair_sys (HttpHandshakeRecvHandler 7 [] []) (connection some_request [100, 43] []) =
      Some (Inr r, HttpHandshakeRecvHandler 7 ([] @ got) ak, w') \<and> (df_stream \<circ> fst) (connection some_request [100, 43] []) = got @ (df_stream \<circ> fst) w'"
    using h c toy_ok by (simp only: append_Nil append_Nil2 find_sub.simps) (simp add: pair_sys_def, blast)
  then show ?thesis using c by (simp only: append_Nil) simp
qed

text \<open>The header fields are not looked for at the beginning of a line: a name in the path of the request is taken for the field.\<close>

lemma key_in_path:
  "check_request toy_sha1 toy_base64 (client_request (ascii ''h'') (ascii ''80'') (ascii ''/?Sec-WebSocket-Key: x'') (replicate 24 0x41)) [] =
     Some (create_acceptkey toy_sha1 toy_base64 (ascii ''x HTTP/1.1''))"
  by code_simp

end
