(* ===== verification/Wslay_Network.thy ===== *)
theory Wslay_Network
  imports Wslay_Handshake
begin

text \<open>
  How the examples get their sockets: \<open>create_listen_socket\<close> of \<open>examples/fork-echoserv.c\<close> and \<open>examples/echoserv.cc\<close>,
  \<open>connect_to\<close> of \<open>examples/testclient.cc\<close>, and \<open>serve\<close>, the loop of \<open>examples/fork-echoserv.c\<close> around \<open>accept\<close> and \<open>fork\<close>.

  \<^item> An address of \<open>getaddrinfo\<close> is a value of a type \<open>'a\<close>; the call returns its result and the list of them.
  \<^item> \<open>nw_connect\<close> and \<open>nw_accept\<close> are repeated while they fail with \<open>EINTR\<close>, as the code does.
\<close>

section \<open>Sockets\<close>

record ('a, 'o) network =
  nw_getaddrinfo :: "'o \<Rightarrow> int \<times> 'a list \<times> 'o"
  nw_socket :: "'a \<Rightarrow> 'o \<Rightarrow> int \<times> 'o"
  nw_reuseaddr :: "int \<Rightarrow> 'o \<Rightarrow> int \<times> 'o"
  nw_bind :: "int \<Rightarrow> 'a \<Rightarrow> 'o \<Rightarrow> int \<times> 'o"
  nw_listen :: "int \<Rightarrow> int \<Rightarrow> 'o \<Rightarrow> int \<times> 'o"
  nw_connect :: "int \<Rightarrow> 'a \<Rightarrow> 'o \<Rightarrow> int \<times> 'o"
  nw_accept :: "int \<Rightarrow> 'o \<Rightarrow> int \<times> 'o"
  nw_shutdown :: "int \<Rightarrow> 'o \<Rightarrow> 'o"
  nw_close :: "int \<Rightarrow> 'o \<Rightarrow> 'o"
  nw_fork :: "'o \<Rightarrow> int \<times> 'o"

text \<open>The loop over the addresses, with the \<open>sfd\<close> of the one before.\<close>

fun bind_first :: "('a, 'o) network \<Rightarrow> 'a list \<Rightarrow> int \<Rightarrow> 'o \<Rightarrow> int \<times> 'o" where
  "bind_first nw [] sfd w = (sfd, w)"
| "bind_first nw (rp # rps) sfd w =
     (case nw_socket nw rp w of (sfd', w1) \<Rightarrow>
        if sfd' = -1 then bind_first nw rps sfd' w1
        else (case nw_reuseaddr nw sfd' w1 of (r, w2) \<Rightarrow>
          if r = -1 then bind_first nw rps sfd' w2
          else (case nw_bind nw sfd' rp w2 of (r', w3) \<Rightarrow>
            if r' = 0 then (sfd', w3) else bind_first nw rps sfd' (nw_close nw sfd' w3))))"

definition create_listen_socket :: "('a, 'o) network \<Rightarrow> 'o \<Rightarrow> int \<times> 'o" where
  "create_listen_socket nw w =
     (case nw_getaddrinfo nw w of
        (r, res, w1) \<Rightarrow>
          if r \<noteq> 0 then (-1, w1)
          else (case bind_first nw res (-1) w1 of (sfd, w2) \<Rightarrow>
            (case nw_listen nw sfd 16 w2 of (l, w3) \<Rightarrow> if l = -1 then (-1, nw_close nw sfd w3) else (sfd, w3))))"

fun connect_first :: "('a, 'o) network \<Rightarrow> 'a list \<Rightarrow> int \<Rightarrow> 'o \<Rightarrow> int \<times> 'o" where
  "connect_first nw [] fd w = (fd, w)"
| "connect_first nw (rp # rps) fd w =
     (case nw_socket nw rp w of (fd', w1) \<Rightarrow>
        if fd' = -1 then connect_first nw rps fd' w1
        else (case nw_connect nw fd' rp w1 of (r, w2) \<Rightarrow>
          if r = 0 then (fd', w2) else connect_first nw rps (-1) (nw_close nw fd' w2)))"

definition connect_to :: "('a, 'o) network \<Rightarrow> 'o \<Rightarrow> int \<times> 'o" where
  "connect_to nw w =
     (case nw_getaddrinfo nw w of (r, res, w1) \<Rightarrow> if r \<noteq> 0 then (-1, w1) else connect_first nw res (-1) w1)"

section \<open>A process for each connection\<close>

text \<open>A round of \<open>serve\<close>, in the process that \<open>fork\<close> returns to: \<open>Inl\<close> is the exit status of a process that ends, \<open>Inr\<close> the
  state in which the loop goes on. \<open>serve_connection\<close> is \<open>communicate\<close> on the connection.\<close>

definition serve_round ::
    "('a, 'o) network \<Rightarrow> (int \<Rightarrow> 'o \<Rightarrow> ((fault + int) \<times> 'o) option) \<Rightarrow> int \<Rightarrow> 'o \<Rightarrow> ((fault + int) \<times> 'o + 'o) option" where
  "serve_round nw serve_connection sfd w =
     (case nw_accept nw sfd w of (fd, w1) \<Rightarrow>
        if fd = -1 then Some (Inr w1)
        else (case nw_fork nw w1 of (r, w2) \<Rightarrow>
          if r = -1 then Some (Inr (nw_close nw fd w2))
          else if r = 0 then
            (case serve_connection fd w2 of
               None \<Rightarrow> None
             | Some (Inl f, w3) \<Rightarrow> Some (Inl (Inl f, w3))
             | Some (Inr res, w3) \<Rightarrow> Some (Inl (Inr (if res = 0 then 0 else 1), nw_close nw fd (nw_shutdown nw fd w3))))
          else Some (Inr w2)))"

partial_function (option) serve ::
    "('a, 'o) network \<Rightarrow> (int \<Rightarrow> 'o \<Rightarrow> ((fault + int) \<times> 'o) option) \<Rightarrow> int \<Rightarrow> 'o \<Rightarrow> ((fault + int) \<times> 'o) option" where
  "serve nw serve_connection sfd w =
     (case serve_round nw serve_connection sfd w of
        None \<Rightarrow> None
      | Some (Inl res) \<Rightarrow> Some res
      | Some (Inr w') \<Rightarrow> serve nw serve_connection sfd w')"

section \<open>The contract\<close>

text \<open>The descriptors that the process has open: \<open>opn\<close>. A new descriptor was not open, and nothing but \<open>close\<close> closes one.\<close>

locale sockets =
  fixes nw :: "('a, 'o) network" and opn :: "'o \<Rightarrow> int set"
  assumes addr_ok: "nw_getaddrinfo nw w = (r, res, w') \<Longrightarrow> opn w' = opn w"
    and socket_ok: "nw_socket nw rp w = (fd, w') \<Longrightarrow> fd = -1 \<and> opn w' = opn w \<or> fd \<noteq> -1 \<and> fd \<notin> opn w \<and> opn w' = insert fd (opn w)"
    and reuse_ok: "nw_reuseaddr nw fd w = (r, w') \<Longrightarrow> opn w' = opn w"
    and bind_ok: "nw_bind nw fd rp w = (r, w') \<Longrightarrow> opn w' = opn w"
    and listen_ok: "nw_listen nw fd n w = (r, w') \<Longrightarrow> opn w' = opn w \<and> (r \<noteq> -1 \<longrightarrow> fd \<in> opn w)"
    and connect_ok: "nw_connect nw fd rp w = (r, w') \<Longrightarrow> opn w' = opn w"
    and close_ok: "opn (nw_close nw fd w) = opn w - {fd}"
    and shutdown_ok: "opn (nw_shutdown nw fd w) = opn w"
    and accept_ok: "nw_accept nw fd w = (c, w') \<Longrightarrow> c = -1 \<and> opn w' = opn w \<or> c \<noteq> -1 \<and> c \<notin> opn w \<and> opn w' = insert c (opn w)"
    and fork_ok: "nw_fork nw w = (r, w') \<Longrightarrow> opn w' = opn w"
begin

text \<open>\<open>connect_to\<close> leaves open what it returns, and nothing else.\<close>

lemma connect_first_opn:
  "connect_first nw rps fd w = (fd', w') \<Longrightarrow> fd = -1 \<Longrightarrow> -1 \<notin> opn w \<Longrightarrow> fd' \<notin> opn w \<and> opn w' = opn w \<union> ({fd'} - {-1})"
proof (induction rps arbitrary: fd w)
  case (Cons rp rps)
  obtain s w1 where s: "nw_socket nw rp w = (s, w1)" by fastforce
  obtain r w2 where c: "nw_connect nw s rp w1 = (r, w2)" by fastforce
  note so = socket_ok [OF s] and co = connect_ok [OF c]
  show ?case
  proof (cases "s = -1")
    case True
    then show ?thesis using Cons.IH [of "-1" w1] Cons.prems so by (simp add: s)
  next
    case False
    then have o: "s \<notin> opn w" "opn w2 = insert s (opn w)" using so co by auto
    show ?thesis
    proof (cases "r = 0")
      case True
      then show ?thesis using Cons.prems False o by (auto simp: s c)
    next
      case r: False
      have cl: "opn (nw_close nw s w2) = opn w" using close_ok o by auto
      have "connect_first nw rps (-1) (nw_close nw s w2) = (fd', w')" using Cons.prems False r by (simp add: s c)
      from Cons.IH [OF this refl] show ?thesis using Cons.prems(3) unfolding cl by blast
    qed
  qed
qed auto

lemma connect_to_opn:
  assumes "connect_to nw w = (fd, w')" "-1 \<notin> opn w"
  shows "fd \<notin> opn w \<and> opn w' = opn w \<union> ({fd} - {-1})"
proof -
  obtain r res w1 where a: "nw_getaddrinfo nw w = (r, res, w1)" by (metis prod_cases3)
  show ?thesis
    using connect_first_opn [of res "-1" w1 fd w'] assms addr_ok [OF a] by (auto simp: connect_to_def a split: if_splits)
qed

text \<open>So does \<open>create_listen_socket\<close> where no \<open>setsockopt\<close> fails: a socket after which it failed is neither closed nor used.\<close>

lemma bind_first_opn:
  assumes "\<And>fd w. fst (nw_reuseaddr nw fd w) \<noteq> -1"
  shows "bind_first nw rps sfd w = (sfd', w') \<Longrightarrow> sfd \<notin> opn w \<Longrightarrow> -1 \<notin> opn w \<Longrightarrow>
    sfd' \<notin> opn w \<and> (opn w' = opn w \<or> sfd' \<noteq> -1 \<and> opn w' = insert sfd' (opn w))"
proof (induction rps arbitrary: sfd w)
  case (Cons rp rps)
  obtain s w1 where s: "nw_socket nw rp w = (s, w1)" by fastforce
  obtain r w2 where u: "nw_reuseaddr nw s w1 = (r, w2)" by fastforce
  obtain b w3 where b: "nw_bind nw s rp w2 = (b, w3)" by fastforce
  have r: "r \<noteq> -1" using assms [of s w1] by (simp add: u)
  note so = socket_ok [OF s] and o3 = reuse_ok [OF u] bind_ok [OF b]
  show ?case
  proof (cases "s = -1")
    case True
    then have "bind_first nw rps (-1) w1 = (sfd', w')" "opn w1 = opn w" using Cons.prems(1) so by (simp_all add: s)
    then show ?thesis using Cons.IH [of "-1" w1] Cons.prems(3) by simp
  next
    case False
    then have o: "s \<notin> opn w" "opn w3 = insert s (opn w)" using so o3 by auto
    show ?thesis
    proof (cases "b = 0")
      case True
      then show ?thesis using Cons.prems False r o by (auto simp: s u b)
    next
      case nb: False
      have cl: "opn (nw_close nw s w3) = opn w" using close_ok o by auto
      have "bind_first nw rps s (nw_close nw s w3) = (sfd', w')" using Cons.prems False r nb by (simp add: s u b)
      from Cons.IH [OF this] show ?thesis using Cons.prems(3) o(1) unfolding cl by blast
    qed
  qed
qed auto

lemma create_listen_socket_opn:
  assumes "\<And>fd w. fst (nw_reuseaddr nw fd w) \<noteq> -1" "create_listen_socket nw w = (fd, w')" "-1 \<notin> opn w"
  shows "fd \<notin> opn w \<and> opn w' = opn w \<union> ({fd} - {-1})"
proof -
  obtain r res w1 where a: "nw_getaddrinfo nw w = (r, res, w1)" by (metis prod_cases3)
  obtain s w2 where b: "bind_first nw res (-1) w1 = (s, w2)" by fastforce
  obtain l w3 where l: "nw_listen nw s 16 w2 = (l, w3)" by fastforce
  have o: "s \<notin> opn w" "opn w2 = opn w \<or> s \<noteq> -1 \<and> opn w2 = insert s (opn w)"
    using bind_first_opn [OF assms(1) b] addr_ok [OF a] assms(3) by auto
  show ?thesis
    using assms(2,3) o listen_ok [OF l] close_ok [of s w3] addr_ok [OF a] by (auto simp: create_listen_socket_def a b l split: if_splits)
qed

end

end
