(* ===== verification/Wslay_Network_Props.thy ===== *)
theory Wslay_Network_Props
  imports Wslay_Network
begin

text \<open>
  What the parent process of \<open>examples/fork-echoserv.c\<close> does with its descriptors.
\<close>

text \<open>The states of the loop of \<open>serve\<close>, with the number of connections that were accepted and handed to a child.\<close>

definition hands_over :: "('a, 'o) network \<Rightarrow> int \<Rightarrow> 'o \<Rightarrow> bool" where
  "hands_over nw sfd w = (case nw_accept nw sfd w of (fd, w1) \<Rightarrow> fd \<noteq> -1 \<and> fst (nw_fork nw w1) \<noteq> -1)"

inductive serves :: "('a, 'o) network \<Rightarrow> (int \<Rightarrow> 'o \<Rightarrow> ((fault + int) \<times> 'o) option) \<Rightarrow> int \<Rightarrow> 'o \<Rightarrow> nat \<Rightarrow> 'o \<Rightarrow> bool"
  for nw serve_connection sfd w0 where
  start: "serves nw serve_connection sfd w0 0 w0"
| round: "serves nw serve_connection sfd w0 n w \<Longrightarrow> serve_round nw serve_connection sfd w = Some (Inr w') \<Longrightarrow>
    serves nw serve_connection sfd w0 (if hands_over nw sfd w then Suc n else n) w'"

context sockets begin

text \<open>In the parent the descriptor of the connection stays open.\<close>

lemma serve_round_opn:
  assumes "serve_round nw sc sfd w = Some (Inr w')"
  shows "\<exists>fd. fd \<notin> opn w \<and> opn w' = (if hands_over nw sfd w then insert fd (opn w) else opn w) \<or> opn w' = opn w \<and> \<not> hands_over nw sfd w"
proof -
  obtain fd w1 where a: "nw_accept nw sfd w = (fd, w1)" by fastforce
  obtain r w2 where f: "nw_fork nw w1 = (r, w2)" by fastforce
  note o = accept_ok [OF a] fork_ok [OF f]
  have k: "hands_over nw sfd w \<longleftrightarrow> fd \<noteq> -1 \<and> r \<noteq> -1" by (simp add: hands_over_def a f)
  consider "fd = -1" "w' = w1" | "fd \<noteq> -1" "r = -1" "w' = nw_close nw fd w2" | "fd \<noteq> -1" "r \<noteq> -1" "w' = w2"
    using assms by (auto simp: serve_round_def a f split: if_splits option.splits sum.splits)
  then show ?thesis
  proof cases
    case 2
    then show ?thesis using o k close_ok [of fd w2] by auto
  qed (use o k in auto)
qed

lemma serves_opn:
  "serves nw sc sfd w n w' \<Longrightarrow> finite (opn w) \<Longrightarrow> finite (opn w') \<and> card (opn w') = card (opn w) + n"
proof (induction rule: serves.induct)
  case (round n v v')
  then show ?case using serve_round_opn [OF round.hyps(2)] by auto
qed simp

end

lemma serves_serve: "serves nw sc sfd w n w' \<Longrightarrow> serve nw sc sfd w = serve nw sc sfd w'"
proof (induction rule: serves.induct)
  case (round n v v')
  then show ?case by (subst (asm) (2) serve.simps) simp
qed simp

text \<open>C40. The parent keeps every connection. Whenever the loop of \<open>serve\<close> has handed \<open>n\<close> connections to children, the parent has \<open>n\<close> more
  descriptors open than at the start: it never closes its copy of the descriptor that it accepted, so that the peer does not see the end of
  the connection when the child closes its own, and the process runs out of descriptors after a number of connections that does not depend on how long
  each of them lasted.\<close>

theorem serve_keeps_connections:
  assumes "sockets nw opn" "serves nw serve_connection sfd w n w'" "finite (opn w)"
  shows "card (opn w') = card (opn w) + n \<and> serve nw serve_connection sfd w = serve nw serve_connection sfd w'"
  using sockets.serves_opn [OF assms] serves_serve [OF assms(2)] by simp

text \<open>A network on which everything succeeds. The state is the list of the descriptors that are open.\<close>

definition new_fd :: "int list \<Rightarrow> int" where
  "new_fd fds = 1 + foldr max fds 0"

lemma new_fd: "new_fd fds \<notin> set fds" "new_fd fds \<noteq> -1"
proof -
  have "0 \<le> foldr max fds 0 \<and> (\<forall>x \<in> set fds. x \<le> foldr max fds 0)" by (induction fds) auto
  then show "new_fd fds \<notin> set fds" "new_fd fds \<noteq> -1" by (auto simp: new_fd_def)
qed

definition open_network :: "(nat, int list) network" where
  "open_network =
     \<lparr>nw_getaddrinfo = (\<lambda>fds. (0, [0], fds)), nw_socket = (\<lambda>rp fds. (new_fd fds, new_fd fds # fds)),
      nw_reuseaddr = (\<lambda>fd fds. (0, fds)), nw_bind = (\<lambda>fd rp fds. (0, fds)),
      nw_listen = (\<lambda>fd n fds. (if fd \<in> set fds then 0 else -1, fds)), nw_connect = (\<lambda>fd rp fds. (0, fds)),
      nw_accept = (\<lambda>fd fds. (new_fd fds, new_fd fds # fds)), nw_shutdown = (\<lambda>fd fds. fds),
      nw_close = (\<lambda>fd fds. removeAll fd fds), nw_fork = (\<lambda>fds. (1, fds))\<rparr>"

interpretation open_net: sockets open_network set
  by unfold_locales (auto simp: open_network_def new_fd split: if_splits)

text \<open>Two connections later.\<close>

theorem serve_keeps_connections_witness:
  "serves open_network (\<lambda>fd w. Some (Inr 0, w)) 3 [3] 2 [5, 4, 3] \<and> card (set [5, 4, 3 :: int]) = card (set [3 :: int]) + 2"
proof -
  let ?s = "serves open_network (\<lambda>fd w. Some (Inr 0, w)) 3 [3]"
  have r: "serve_round open_network (\<lambda>fd w. Some (Inr 0, w)) 3 fds = Some (Inr (new_fd fds # fds))" "hands_over open_network 3 fds" for fds
    by (simp_all add: serve_round_def hands_over_def open_network_def new_fd)
  have "?s (Suc 0) (new_fd [3] # [3])" using serves.round [OF serves.start r(1)] r(2) by simp
  from serves.round [OF this r(1)] have "?s 2 (new_fd (new_fd [3] # [3]) # new_fd [3] # [3])" using r(2) by (simp add: numeral_2_eq_2)
  then have s: "?s 2 [5, 4, 3]" by (simp add: new_fd_def)
  then show ?thesis using serve_keeps_connections [OF open_net.sockets_axioms s] by simp
qed

end
