(* ===== verification/Wslay_Client.thy ===== *)
theory Wslay_Client
  imports Wslay_Network Wslay_Client_Handshake
begin

text \<open>
  The WebSocket side of \<open>examples/testclient.cc\<close>: the class \<open>WebSocketClient\<close> with its callbacks, and \<open>communicate\<close>, which connects, does
  the handshake, reads what came with the response and then follows \<open>epoll\<close>.

  \<^item> \<open>wslay_event_context_client_init\<close>, which the example calls, is \<open>wslay_client_new\<close> in this library. \<open>set_callbacks\<close> calls a function that the library
    declares and does not define; it is modelled as documented: the calls that follow get the new callbacks.
  \<^item> \<open>casecntjson\<close>, a global variable, is kept with the client.
  \<^item> \<open>epoll\<close> watches one descriptor: an event is the two flags that the code looks at.
\<close>

section \<open>The client\<close>

record 'o WebSocketClient =
  wc_fd :: int
  wc_body :: "byte list"
  wc_body_off :: nat
  wc_casecntjson :: "byte list"
  wc_os :: 'o

record ('a, 'o) client_sys =
  cs_os :: "'o os_calls"
  cs_fl :: "'o file_calls"
  cs_nw :: "('a, 'o) network"
  cs_rnd :: "nat \<Rightarrow> 'o \<Rightarrow> byte list \<times> 'o"
  cs_epoll_create :: "'o \<Rightarrow> int \<times> 'o"
  cs_epoll_ctl :: "int \<Rightarrow> bool \<Rightarrow> int \<Rightarrow> bool \<times> bool \<Rightarrow> 'o \<Rightarrow> int \<times> 'o"
  cs_epoll_wait :: "int \<Rightarrow> nat \<Rightarrow> 'o \<Rightarrow> int \<times> (bool \<times> bool) list \<times> 'o"
  cs_sha1 :: "byte list \<Rightarrow> byte list"
  cs_base64 :: "byte list \<Rightarrow> byte list"
  cs_mem :: allocator

definition set_client_os :: "'o \<Rightarrow> 'o WebSocketClient wslay_event_context \<Rightarrow> 'o WebSocketClient wslay_event_context" where
  "set_client_os w ctx = ctx\<lparr>ec_user_data := (ec_user_data ctx)\<lparr>wc_os := w\<rparr>\<rparr>"

section \<open>The callbacks\<close>

definition client_send_data :: "'o os_calls \<Rightarrow> 'o WebSocketClient \<Rightarrow> byte list \<Rightarrow> int \<Rightarrow> int \<times> errno \<times> 'o" where
  "client_send_data os ws ds flags =
     (let sflags = (if flags AND WSLAY_MSG_MORE \<noteq> 0 then os_MSG_MORE os else 0) in os_send os (wc_fd ws) ds sflags (wc_os ws))"

text \<open>\<open>memcpy\<close> copies from the beginning of \<open>body_\<close>.\<close>

definition feed_body :: "nat \<Rightarrow> 'o WebSocketClient \<Rightarrow> int \<times> byte list \<times> 'o WebSocketClient" where
  "feed_body len ws =
     (if wc_body_off ws < length (wc_body ws) then
        let wlen = min len (length (wc_body ws) - wc_body_off ws)
        in (int wlen, take wlen (wc_body ws), ws\<lparr>wc_body_off := wc_body_off ws + wlen\<rparr>)
      else (0, [], ws))"

definition client_recv_data :: "'o os_calls \<Rightarrow> 'o WebSocketClient \<Rightarrow> nat \<Rightarrow> int \<times> byte list \<times> errno \<times> 'o" where
  "client_recv_data os ws len = os_recv os (wc_fd ws) len (wc_os ws)"

definition client_send_callback ::
    "'o os_calls \<Rightarrow> byte list \<Rightarrow> int \<Rightarrow> bool \<Rightarrow> 'o WebSocketClient wslay_event_context \<Rightarrow> int \<times> 'o WebSocketClient wslay_event_context" where
  "client_send_callback os ds flags user_data_sending ctx =
     (case client_send_data os (ec_user_data ctx) ds flags of
        (r, errno, w) \<Rightarrow>
          (let ctx1 = set_client_os w ctx
           in (r, if r = -1 then
                    if errno = EAGAIN \<or> errno = EWOULDBLOCK then wslay_event_set_error ctx1 (wslay_error_code WSLAY_ERR_WOULDBLOCK)
                    else wslay_event_set_error ctx1 (wslay_error_code WSLAY_ERR_CALLBACK_FAILURE)
                  else ctx1)))"

definition client_recv_callback ::
    "'o os_calls \<Rightarrow> nat \<Rightarrow> int \<Rightarrow> 'o WebSocketClient wslay_event_context \<Rightarrow> int \<times> byte list \<times> 'o WebSocketClient wslay_event_context" where
  "client_recv_callback os len flags ctx =
     (case client_recv_data os (ec_user_data ctx) len of
        (r, bs, errno, w) \<Rightarrow>
          (let ctx1 = set_client_os w ctx
           in if r = -1 then
                (r, bs, if errno = EAGAIN \<or> errno = EWOULDBLOCK then wslay_event_set_error ctx1 (wslay_error_code WSLAY_ERR_WOULDBLOCK)
                        else wslay_event_set_error ctx1 (wslay_error_code WSLAY_ERR_CALLBACK_FAILURE))
              else if r = 0 then (-1, bs, wslay_event_set_error ctx1 (wslay_error_code WSLAY_ERR_CALLBACK_FAILURE))
              else (r, bs, ctx1)))"

definition feed_body_callback ::
    "nat \<Rightarrow> int \<Rightarrow> 'o WebSocketClient wslay_event_context \<Rightarrow> int \<times> byte list \<times> 'o WebSocketClient wslay_event_context" where
  "feed_body_callback len flags ctx = (case feed_body len (ec_user_data ctx) of (r, bs, ws) \<Rightarrow> (r, bs, ctx\<lparr>ec_user_data := ws\<rparr>))"

definition client_genmask_callback ::
    "(nat \<Rightarrow> 'o \<Rightarrow> byte list \<times> 'o) \<Rightarrow> nat \<Rightarrow> 'o WebSocketClient wslay_event_context
       \<Rightarrow> int \<times> byte list \<times> 'o WebSocketClient wslay_event_context" where
  "client_genmask_callback rnd len ctx = (case rnd len (wc_os (ec_user_data ctx)) of (buf, w) \<Rightarrow> (0, buf, set_client_os w ctx))"

definition client_on_msg_recv_callback :: "wslay_event_on_msg_recv_arg \<Rightarrow> 'u wslay_event_context \<Rightarrow> 'u wslay_event_context" where
  "client_on_msg_recv_callback arg ctx =
     (if \<not> wslay_is_ctrl_frame (mr_opcode arg) then
        let msgarg = \<lparr>em_opcode = mr_opcode arg, em_msg = (case mr_msg arg of None \<Rightarrow> [] | Some ds \<Rightarrow> ds), em_msg_length = mr_msg_length arg\<rparr>
        in snd (wslay_event_queue_msg ctx msgarg)
      else ctx)"

definition get_casecnt_on_msg_recv_callback ::
    "wslay_event_on_msg_recv_arg \<Rightarrow> 'o WebSocketClient wslay_event_context \<Rightarrow> 'o WebSocketClient wslay_event_context" where
  "get_casecnt_on_msg_recv_callback arg ctx =
     (if mr_opcode arg = WSLAY_TEXT_FRAME then
        ctx\<lparr>ec_user_data := (ec_user_data ctx)
          \<lparr>wc_casecntjson := take (unat (mr_msg_length arg)) (case mr_msg arg of None \<Rightarrow> [] | Some ds \<Rightarrow> ds)\<rparr>\<rparr>
      else ctx)"

type_synonym 'o client_on_msg =
  "(wslay_event_on_msg_recv_arg \<Rightarrow> 'o WebSocketClient wslay_event_context \<Rightarrow> 'o WebSocketClient wslay_event_context) option"

definition client_callbacks ::
    "'o os_calls \<Rightarrow> (nat \<Rightarrow> 'o \<Rightarrow> byte list \<times> 'o) \<Rightarrow> 'o client_on_msg \<Rightarrow> 'o WebSocketClient wslay_event_context wslay_event_callbacks" where
  "client_callbacks os rnd on_msg =
     \<lparr>ev_recv_callback = client_recv_callback os, ev_send_callback = client_send_callback os,
      ev_genmask_callback = client_genmask_callback rnd, ev_on_frame_recv_start_callback = None,
      ev_on_frame_recv_chunk_callback = None, ev_on_frame_recv_end_callback = None,
      ev_on_msg_recv_callback = on_msg, ev_read_callback = (\<lambda>cb len src ctx. (-1, [], False, ctx))\<rparr>"

text \<open>Those of the first call, on the bytes that came with the response.\<close>

definition feeding_callbacks ::
    "'o os_calls \<Rightarrow> (nat \<Rightarrow> 'o \<Rightarrow> byte list \<times> 'o) \<Rightarrow> 'o client_on_msg \<Rightarrow> 'o WebSocketClient wslay_event_context wslay_event_callbacks" where
  "feeding_callbacks os rnd on_msg = (client_callbacks os rnd on_msg)\<lparr>ev_recv_callback := feed_body_callback\<rparr>"

section \<open>The event loop\<close>

text \<open>\<open>None\<close> is the exit of the process.\<close>

definition client_ctl_epollev ::
    "('a, 'o) client_sys \<Rightarrow> int \<Rightarrow> bool \<Rightarrow> 'o WebSocketClient wslay_event_context \<Rightarrow> 'o WebSocketClient wslay_event_context option" where
  "client_ctl_epollev cs epollfd add ctx =
     (case cs_epoll_ctl cs epollfd add (wc_fd (ec_user_data ctx)) (wslay_event_want_read ctx, wslay_event_want_write ctx) (wc_os (ec_user_data ctx)) of
        (r, w) \<Rightarrow> if r = -1 then None else Some (set_client_os w ctx))"

fun client_events ::
    "'u wslay_event_context wslay_event_callbacks \<Rightarrow> (bool \<times> bool) list \<Rightarrow> 'u wslay_event_context \<Rightarrow> step \<times> 'u wslay_event_context" where
  "client_events cbs [] ctx = (Go, ctx)"
| "client_events cbs ((ein, eout) # events) ctx =
     andthen (if ein then must_be_zero (wslay_event_recv cbs ctx) (Go, ctx) else (Go, ctx))
       (\<lambda>ctx1. andthen (if eout then must_be_zero (wslay_event_send cbs ctx1) (Go, ctx1) else (Go, ctx1))
       (client_events cbs events))"

datatype client_end = Returned int | Exited | Faulted fault

definition client_round ::
    "('a, 'o) client_sys \<Rightarrow> 'o client_on_msg \<Rightarrow> int \<Rightarrow> 'o WebSocketClient wslay_event_context
       \<Rightarrow> (client_end option \<times> 'o WebSocketClient wslay_event_context) option" where
  "client_round cs on_msg epollfd ctx =
     (case cs_epoll_wait cs epollfd 1 (wc_os (ec_user_data ctx)) of
        (nfds, events, w) \<Rightarrow>
          (let ctx1 = set_client_os w ctx
           in if nfds = -1 then Some (Some (Returned (-1)), ctx1)
              else (case client_events (client_callbacks (cs_os cs) (cs_rnd cs) on_msg) (take (nat nfds) events) ctx1 of
                      (Go, ctx2) \<Rightarrow>
                        (case client_ctl_epollev cs epollfd False ctx2 of None \<Rightarrow> Some (Some Exited, ctx2) | Some ctx3 \<Rightarrow> Some (None, ctx3))
                    | (Crash f, ctx2) \<Rightarrow> Some (Some (Faulted f), ctx2)
                    | (Hang, ctx2) \<Rightarrow> None
                    | (_, ctx2) \<Rightarrow> Some (Some (Returned (-1)), ctx2))))"

partial_function (option) client_loop ::
    "('a, 'o) client_sys \<Rightarrow> 'o client_on_msg \<Rightarrow> int \<Rightarrow> 'o WebSocketClient wslay_event_context
       \<Rightarrow> (client_end \<times> 'o WebSocketClient wslay_event_context) option" where
  "client_loop cs on_msg epollfd ctx =
     (if wslay_event_want_read ctx \<or> wslay_event_want_write ctx then
        (case client_round cs on_msg epollfd ctx of
           None \<Rightarrow> None
         | Some (Some e, ctx') \<Rightarrow> Some (e, ctx')
         | Some (None, ctx') \<Rightarrow> client_loop cs on_msg epollfd ctx')
      else Some (Returned 0, ctx))"

text \<open>The destructor: the connection is shut down and closed.\<close>

definition client_close :: "('a, 'o) client_sys \<Rightarrow> 'o WebSocketClient wslay_event_context \<Rightarrow> 'o WebSocketClient" where
  "client_close cs ctx =
     (let ws = ec_user_data ctx in ws\<lparr>wc_os := nw_close (cs_nw cs) (wc_fd ws) (nw_shutdown (cs_nw cs) (wc_fd ws) (wc_os ws))\<rparr>)"

text \<open>A process that exits runs no destructor.\<close>

definition client_done ::
    "('a, 'o) client_sys \<Rightarrow> client_end \<times> 'o WebSocketClient wslay_event_context \<Rightarrow> client_end \<times> byte list \<times> 'o" where
  "client_done cs = (\<lambda>(e, ctx).
     (let ws = (if e = Exited then ec_user_data ctx else client_close cs ctx) in (e, wc_casecntjson ws, wc_os ws)))"

text \<open>From the construction of the client on.\<close>

definition client_run ::
    "('a, 'o) client_sys \<Rightarrow> 'o client_on_msg \<Rightarrow> 'o WebSocketClient \<Rightarrow> (client_end \<times> byte list \<times> 'o) option" where
  "client_run cs on_msg ws =
     (case wslay_client_new (cs_mem cs) ws of
        None \<Rightarrow> Some (Faulted NullDereference, wc_casecntjson ws, wc_os ws)
      | Some ctx \<Rightarrow>
          (case wslay_event_recv (feeding_callbacks (cs_os cs) (cs_rnd cs) on_msg) ctx of
             None \<Rightarrow> None
           | Some (Inl f, ctx1) \<Rightarrow> Some (client_done cs (Faulted f, ctx1))
           | Some (Inr r, ctx1) \<Rightarrow>
               if r = -1 then Some (client_done cs (Returned (-1), ctx1))
               else (case cs_epoll_create cs (wc_os (ec_user_data ctx1)) of
                 (epollfd, w) \<Rightarrow>
                   if epollfd = -1 then Some (client_done cs (Returned (-1), set_client_os w ctx1))
                   else (case client_ctl_epollev cs epollfd True (set_client_os w ctx1) of
                           None \<Rightarrow> Some (client_done cs (Exited, set_client_os w ctx1))
                         | Some ctx2 \<Rightarrow> map_option (client_done cs) (client_loop cs on_msg epollfd ctx2)))))"

definition client_communicate ::
    "('a, 'o) client_sys \<Rightarrow> byte list \<Rightarrow> byte list \<Rightarrow> byte list \<Rightarrow> 'o client_on_msg \<Rightarrow> byte list \<Rightarrow> 'o \<Rightarrow> (client_end \<times> byte list \<times> 'o) option" where
  "client_communicate cs host service path on_msg casecntjson w =
     (case connect_to (cs_nw cs) w of
        (fd, w1) \<Rightarrow>
          if fd = -1 then Some (Returned (-1), casecntjson, w1)
          else (case client_http_handshake (cs_fl cs) (cs_rnd cs) (cs_sha1 cs) (cs_base64 cs) fd host service path w1 of
                  None \<Rightarrow> None
                | Some (r, body, w2) \<Rightarrow>
                    if r = -1 then Some (Returned (-1), casecntjson, nw_close (cs_nw cs) fd w2)
                    else (case make_non_block (cs_fl cs) fd w2 of (nb, w3) \<Rightarrow>
                      (case fl_nodelay (cs_fl cs) fd w3 of (so, w4) \<Rightarrow>
                        if so = -1 then Some (Returned (-1), casecntjson, w4)
                        else client_run cs on_msg \<lparr>wc_fd = fd, wc_body = body, wc_body_off = 0, wc_casecntjson = casecntjson, wc_os = w4\<rparr>))))"

section \<open>The test run\<close>

text \<open>\<open>strtol\<close> gives the number and whether \<open>errno\<close> is \<open>ERANGE\<close>; the result is stored in an \<open>int\<close>.\<close>

definition get_casecnt ::
    "('a, 'o) client_sys \<Rightarrow> (byte list \<Rightarrow> int \<times> bool) \<Rightarrow> byte list \<Rightarrow> byte list \<Rightarrow> byte list \<Rightarrow> 'o \<Rightarrow> (client_end \<times> byte list \<times> 'o) option" where
  "get_casecnt cs strtol host service casecntjson w =
     (case client_communicate cs host service (ascii ''/getCaseCount'') (Some get_casecnt_on_msg_recv_callback) casecntjson w of
        None \<Rightarrow> None
      | Some (Returned r, json, w') \<Rightarrow>
          if r = -1 then Some (Returned (-1), json, w')
          else (case strtol (takeWhile (\<lambda>b. b \<noteq> 0) json) of
                  (n, erange) \<Rightarrow> Some (Returned (if erange then -1 else sint (word_of_int n :: 32 word)), json, w'))
      | Some (e, json, w') \<Rightarrow> Some (e, json, w'))"

text \<open>\<open>%d\<close> of a number that is not negative.\<close>

fun decimal :: "nat \<Rightarrow> byte list" where
  "decimal n = (if n < 10 then [0x30 + of_nat n] else decimal (n div 10) @ [0x30 + of_nat (n mod 10)])"

declare decimal.simps [simp del]

definition run_testcase ::
    "('a, 'o) client_sys \<Rightarrow> byte list \<Rightarrow> byte list \<Rightarrow> nat \<Rightarrow> byte list \<Rightarrow> 'o \<Rightarrow> (client_end \<times> byte list \<times> 'o) option" where
  "run_testcase cs host service casenum casecntjson w =
     client_communicate cs host service (ascii ''/runCase?case='' @ decimal casenum @ ascii ''&agent=wslay'') (Some client_on_msg_recv_callback) casecntjson w"

definition update_reports ::
    "('a, 'o) client_sys \<Rightarrow> byte list \<Rightarrow> byte list \<Rightarrow> byte list \<Rightarrow> 'o \<Rightarrow> (client_end \<times> byte list \<times> 'o) option" where
  "update_reports cs host service casecntjson w = client_communicate cs host service (ascii ''/updateReports?&agent=wslay'') None casecntjson w"

text \<open>The cases \<open>i\<close> to \<open>casecnt\<close>: a case that fails does not stop the run.\<close>

function run_cases ::
    "('a, 'o) client_sys \<Rightarrow> byte list \<Rightarrow> byte list \<Rightarrow> nat \<Rightarrow> nat \<Rightarrow> byte list \<Rightarrow> 'o \<Rightarrow> (client_end \<times> byte list \<times> 'o) option" where
  "run_cases cs host service i casecnt json w =
     (if i \<le> casecnt then
        (case run_testcase cs host service i json w of
           None \<Rightarrow> None
         | Some (Returned r, json', w') \<Rightarrow> run_cases cs host service (Suc i) casecnt json' w'
         | Some (e, json', w') \<Rightarrow> Some (e, json', w'))
      else Some (Returned 0, json, w))"
  by pat_completeness auto
termination
  by (relation "measure (\<lambda>(cs, host, service, i, casecnt, json, w). Suc casecnt - i)") auto

declare run_cases.simps [simp del]

definition client_main ::
    "('a, 'o) client_sys \<Rightarrow> (byte list \<Rightarrow> int \<times> bool) \<Rightarrow> byte list \<Rightarrow> byte list \<Rightarrow> 'o \<Rightarrow> (client_end \<times> byte list \<times> 'o) option" where
  "client_main cs strtol host service w =
     (case get_casecnt cs strtol host service [] w of
        None \<Rightarrow> None
      | Some (Returned casecnt, json, w1) \<Rightarrow>
          if casecnt = -1 then Some (Exited, json, w1)
          else (case run_cases cs host service 1 (nat casecnt) json w1 of
                  None \<Rightarrow> None
                | Some (Returned r, json2, w2) \<Rightarrow>
                    (case update_reports cs host service json2 w2 of
                       None \<Rightarrow> None
                     | Some (Returned u, json3, w3) \<Rightarrow> Some (if u = -1 then Exited else Returned 0, json3, w3)
                     | Some e \<Rightarrow> Some e)
                | Some e \<Rightarrow> Some e)
      | Some e \<Rightarrow> Some e)"

end
