(* ===== verification/Wslay_Client_Descriptors.thy ===== *)
theory Wslay_Client_Descriptors
  imports Wslay_Client Wslay_Event_World Wslay_Event_Props
begin

text \<open>
  The descriptors of \<open>examples/testclient.cc\<close>: what a call of \<open>communicate\<close> opens, and what it leaves open.
\<close>

section \<open>The contract\<close>

locale client_host = sockets "cs_nw cs" opn
  for cs :: "('a, 'o) client_sys" and opn :: "'o \<Rightarrow> int set" +
  assumes fl_read_ok: "fl_read (cs_fl cs) fd len w = (r, bs, e, w') \<Longrightarrow> opn w' = opn w"
    and fl_write_ok: "fl_write (cs_fl cs) fd ds w = (r, e, w') \<Longrightarrow> opn w' = opn w"
    and fl_getfl_ok: "fl_getfl (cs_fl cs) fd w = (r, w') \<Longrightarrow> opn w' = opn w"
    and fl_setfl_ok: "fl_setfl (cs_fl cs) fd flags w = (r, w') \<Longrightarrow> opn w' = opn w"
    and fl_nodelay_ok: "fl_nodelay (cs_fl cs) fd w = (r, w') \<Longrightarrow> opn w' = opn w"
    and send_opn: "os_send (cs_os cs) fd ds fl w = (r, e, w') \<Longrightarrow> opn w' = opn w"
    and recv_opn: "os_recv (cs_os cs) fd len w = (r, bs, e, w') \<Longrightarrow> opn w' = opn w"
    and rnd_opn: "cs_rnd cs len w = (bs, w') \<Longrightarrow> opn w' = opn w"
    and epoll_create_opn: "cs_epoll_create cs w = (fd, w') \<Longrightarrow> fd = -1 \<and> opn w' = opn w \<or> fd \<noteq> -1 \<and> fd \<notin> opn w \<and> opn w' = insert fd (opn w)"
    and epoll_ctl_opn: "cs_epoll_ctl cs epollfd add fd evs w = (r, w') \<Longrightarrow> opn w' = opn w"
    and epoll_wait_opn: "cs_epoll_wait cs epollfd n w = (r, events, w') \<Longrightarrow> opn w' = opn w"

text \<open>The callbacks for messages that the client uses.\<close>

definition client_on_msg_ok :: "'o client_on_msg \<Rightarrow> bool" where
  "client_on_msg_ok on_msg \<longleftrightarrow>
     on_msg = None \<or> on_msg = Some client_on_msg_recv_callback \<or> on_msg = Some get_casecnt_on_msg_recv_callback"

text \<open>The descriptors of a client: its connection is \<open>fd\<close>, and \<open>D\<close> are open.\<close>

definition client_has :: "('o \<Rightarrow> int set) \<Rightarrow> int \<Rightarrow> int set \<Rightarrow> 'o WebSocketClient \<Rightarrow> bool" where
  "client_has opn fd D ws \<longleftrightarrow> wc_fd ws = fd \<and> opn (wc_os ws) = D"

lemma client_on_msg_echo: "client_on_msg_recv_callback arg ctx = echo_on_msg_recv_callback arg ctx"
  by (simp add: client_on_msg_recv_callback_def echo_on_msg_recv_callback_def)

lemma client_send_app: "client_send_callback os ds fl u ctx = (r, ctx') \<Longrightarrow> app_only ctx ctx'"
  by (auto simp: client_send_callback_def app_only_def set_client_os_def wslay_event_set_error_def Let_def split: prod.splits if_splits)

lemma client_recv_app: "client_recv_callback os len fl ctx = (r, bs, ctx') \<Longrightarrow> app_only ctx ctx'"
  by (auto simp: client_recv_callback_def app_only_def set_client_os_def wslay_event_set_error_def Let_def split: prod.splits if_splits)

lemma feed_body_app: "feed_body_callback len fl ctx = (r, bs, ctx') \<Longrightarrow> app_only ctx ctx'"
  by (auto simp: feed_body_callback_def app_only_def split: prod.splits)

lemma client_genmask_app: "client_genmask_callback rnd len ctx = (r, key, ctx') \<Longrightarrow> app_only ctx ctx'"
  by (auto simp: client_genmask_callback_def app_only_def set_client_os_def split: prod.splits)

text \<open>What the callbacks do to the data of the client.\<close>

lemma client_send_os:
  assumes "client_send_callback os ds fl u ctx = (r, ctx')"
  shows "\<exists>e sfl w. os_send os (wc_fd (ec_user_data ctx)) ds sfl (wc_os (ec_user_data ctx)) = (r, e, w) \<and>
    ec_user_data ctx' = (ec_user_data ctx)\<lparr>wc_os := w\<rparr>"
proof -
  define sfl where "sfl = (if fl AND WSLAY_MSG_MORE \<noteq> 0 then os_MSG_MORE os else 0)"
  obtain r0 e w where o: "os_send os (wc_fd (ec_user_data ctx)) ds sfl (wc_os (ec_user_data ctx)) = (r0, e, w)" by (metis prod_cases3)
  have "r = r0 \<and> ec_user_data ctx' = (ec_user_data ctx)\<lparr>wc_os := w\<rparr>"
    using assms unfolding client_send_callback_def client_send_data_def Let_def sfl_def [symmetric] o
    by (auto simp: set_client_os_def wslay_event_set_error_def split: if_splits)
  then show ?thesis using o by blast
qed

lemma client_recv_os:
  assumes "client_recv_callback os len fl ctx = (r, bs, ctx')"
  shows "\<exists>r0 e w. os_recv os (wc_fd (ec_user_data ctx)) len (wc_os (ec_user_data ctx)) = (r0, bs, e, w) \<and>
    r = (if r0 = 0 then -1 else r0) \<and> ec_user_data ctx' = (ec_user_data ctx)\<lparr>wc_os := w\<rparr>"
proof -
  obtain r0 bs0 e w where o: "os_recv os (wc_fd (ec_user_data ctx)) len (wc_os (ec_user_data ctx)) = (r0, bs0, e, w)" by (metis prod_cases4)
  have "bs = bs0 \<and> r = (if r0 = 0 then -1 else r0) \<and> ec_user_data ctx' = (ec_user_data ctx)\<lparr>wc_os := w\<rparr>"
    using assms unfolding client_recv_callback_def client_recv_data_def Let_def o
    by (auto simp: set_client_os_def wslay_event_set_error_def split: if_splits)
  then show ?thesis using o by blast
qed

lemma client_genmask_os:
  "client_genmask_callback rnd len ctx = (r, key, ctx') \<Longrightarrow> r = 0 \<and> (\<exists>w. rnd len (wc_os (ec_user_data ctx)) = (key, w) \<and> ec_user_data ctx' = (ec_user_data ctx)\<lparr>wc_os := w\<rparr>)"
  by (auto simp: client_genmask_callback_def set_client_os_def split: prod.splits)

lemma feed_body_os: "feed_body_callback len fl ctx = (r, bs, ctx') \<Longrightarrow> wc_fd (ec_user_data ctx') = wc_fd (ec_user_data ctx) \<and> wc_os (ec_user_data ctx') = wc_os (ec_user_data ctx)"
  by (auto simp: feed_body_callback_def feed_body_def Let_def split: if_splits)

section \<open>What the library leaves alone\<close>

context client_host begin

lemma callbacks_world:
  assumes "client_on_msg_ok on_msg" "cbs = client_callbacks (cs_os cs) (cs_rnd cs) on_msg \<or> cbs = feeding_callbacks (cs_os cs) (cs_rnd cs) on_msg"
  shows "event_world cbs (client_has opn fd D)"
proof
  let ?P = "client_has opn fd D"
  fix ctx ctx' :: "'o WebSocketClient wslay_event_context"
  note cb = client_callbacks_def feeding_callbacks_def
  show "app_only ctx ctx' \<and> ?P (ec_user_data ctx')" if P: "?P (ec_user_data ctx)" and r: "ev_recv_callback cbs len fl ctx = (r, bs, ctx')" for len fl r bs
  proof -
    consider "client_recv_callback (cs_os cs) len fl ctx = (r, bs, ctx')" | "feed_body_callback len fl ctx = (r, bs, ctx')"
      using r assms(2) by (auto simp: cb)
    then show ?thesis
    proof cases
      case 1
      obtain r0 e w where "os_recv (cs_os cs) (wc_fd (ec_user_data ctx)) len (wc_os (ec_user_data ctx)) = (r0, bs, e, w)"
          "ec_user_data ctx' = (ec_user_data ctx)\<lparr>wc_os := w\<rparr>" using client_recv_os [OF 1] by blast
      then show ?thesis using client_recv_app [OF 1] recv_opn P by (simp add: client_has_def)
    next
      case 2
      then show ?thesis using feed_body_app [OF 2] feed_body_os [OF 2] P by (simp add: client_has_def)
    qed
  qed
  show "app_only ctx ctx' \<and> ?P (ec_user_data ctx')" if P: "?P (ec_user_data ctx)" and r: "ev_send_callback cbs ds fl b ctx = (r, ctx')" for ds fl b r
  proof -
    have s: "client_send_callback (cs_os cs) ds fl b ctx = (r, ctx')" using r assms(2) by (auto simp: cb)
    obtain e sfl w where "os_send (cs_os cs) (wc_fd (ec_user_data ctx)) ds sfl (wc_os (ec_user_data ctx)) = (r, e, w)"
        "ec_user_data ctx' = (ec_user_data ctx)\<lparr>wc_os := w\<rparr>" using client_send_os [OF s] by blast
    then show ?thesis using client_send_app [OF s] send_opn P by (simp add: client_has_def)
  qed
  show "app_only ctx ctx' \<and> ?P (ec_user_data ctx')" if P: "?P (ec_user_data ctx)" and r: "ev_genmask_callback cbs len ctx = (r, key, ctx')" for len r key
  proof -
    have s: "client_genmask_callback (cs_rnd cs) len ctx = (r, key, ctx')" using r assms(2) by (auto simp: cb)
    obtain w where "cs_rnd cs len (wc_os (ec_user_data ctx)) = (key, w)" "ec_user_data ctx' = (ec_user_data ctx)\<lparr>wc_os := w\<rparr>"
      using client_genmask_os [OF s] by blast
    then show ?thesis using client_genmask_app [OF s] rnd_opn P by (simp add: client_has_def)
  qed
  show "world_ok ?P (k c ctx)" if "ev_on_msg_recv_callback cbs = Some k" "world_ok ?P ctx" for k c
  proof -
    have "k = client_on_msg_recv_callback \<or> k = get_casecnt_on_msg_recv_callback"
      using that(1) assms by (auto simp: cb client_on_msg_ok_def)
    then show ?thesis
    proof
      assume "k = client_on_msg_recv_callback"
      then show ?thesis using world_part [OF echo_msg_keeps] that(2) by (simp add: client_on_msg_echo)
    next
      assume "k = get_casecnt_on_msg_recv_callback"
      then show ?thesis using that(2) by (simp add: get_casecnt_on_msg_recv_callback_def world_ok_def client_has_def)
    qed
  qed
qed (use assms(2) in \<open>auto simp: client_callbacks_def feeding_callbacks_def app_only_def\<close>)

section \<open>The handshake\<close>

lemma send_handshake_opn:
  assumes "send_http_handshake (cs_fl cs) fd req off w = Some (r, w')"
  shows "opn w' = opn w"
proof -
  have "fl = cs_fl cs \<longrightarrow> opn (snd res) = opn v" if "send_http_handshake fl fd req off v = Some res" for fl off v res
    using that
  proof (rule send_http_handshake.raw_induct [rotated], intro impI)
    fix f fl' fd' req' off' v' res'
    assume IH: "\<And>a b c d e y. f a b c d e = Some y \<Longrightarrow> a = cs_fl cs \<longrightarrow> opn (snd y) = opn e" and fl: "fl' = cs_fl cs"
      and eq: "(if off' < length req' then (case fl_write fl' fd' (drop off' req') v' of
          (r, e, w') \<Rightarrow> if r = -1 then Some (-1, w') else f fl' fd' req' (off' + nat r) w') else Some (0, v')) = Some res'"
    obtain r e w1 where wr: "fl_write (cs_fl cs) fd' (drop off' req') v' = (r, e, w1)" by (metis prod_cases3)
    from eq [unfolded fl wr prod.case]
    consider "snd res' = v'" | "snd res' = w1" | "f (cs_fl cs) fd' req' (off' + nat r) w1 = Some res'" by (auto split: if_splits)
    then show "opn (snd res') = opn v'"
    proof cases
      case 3
      from IH [OF this] show ?thesis using fl_write_ok [OF wr] by simp
    qed (use fl_write_ok [OF wr] in simp_all)
  qed
  from this [OF assms] show ?thesis by simp
qed

lemma recv_handshake_opn:
  assumes "recv_http_handshake (cs_fl cs) fd hds w = Some (r, res, w')"
  shows "opn w' = opn w"
proof -
  have "fl = cs_fl cs \<longrightarrow> opn (snd (snd y)) = opn v" if "recv_http_handshake fl fd hds v = Some y" for fl hds v y
    using that
  proof (rule recv_http_handshake.raw_induct [rotated], intro impI)
    fix f fl' fd' hds' v' y'
    assume IH: "\<And>a b c d y. f a b c d = Some y \<Longrightarrow> a = cs_fl cs \<longrightarrow> opn (snd (snd y)) = opn d" and fl: "fl' = cs_fl cs"
      and eq: "(case fl_read fl' fd' 4096 v' of
        (r, bs, e, w') \<Rightarrow>
          if r \<le> 0 then Some (-1, hds', w')
          else (let resheader' = hds' @ take (nat r) bs
                in if find_from resheader' (CRLF @ CRLF) 0 \<noteq> None then Some (0, resheader', w')
                   else if length resheader' > 8192 then Some (-1, resheader', w')
                   else f fl' fd' resheader' w')) = Some y'"
    obtain r bs e w1 where rd: "fl_read (cs_fl cs) fd' 4096 v' = (r, bs, e, w1)" by (metis prod_cases4)
    define h1 where "h1 = hds' @ take (nat r) bs"
    from eq [unfolded fl rd prod.case Let_def, folded h1_def]
    consider "snd (snd y') = w1" | "f (cs_fl cs) fd' h1 w1 = Some y'" by (auto split: if_splits)
    then show "opn (snd (snd y')) = opn v'"
    proof cases
      case 2
      from IH [OF this] show ?thesis using fl_read_ok [OF rd] by simp
    qed (use fl_read_ok [OF rd] in simp)
  qed
  from this [OF assms] show ?thesis by simp
qed

lemma handshake_opn:
  assumes "client_http_handshake (cs_fl cs) (cs_rnd cs) sha1 base64 fd host service path w = Some (r, body, w')"
  shows "opn w' = opn w"
proof -
  obtain bs w1 where b: "cs_rnd cs 16 w = (bs, w1)" by fastforce
  define req where "req = takeWhile (\<lambda>b. b \<noteq> 0) (take 4095 (client_request host service path (base64 bs)))"
  obtain s w2 where s: "send_http_handshake (cs_fl cs) fd req 0 w1 = Some (s, w2)"
    using assms unfolding client_http_handshake_def b prod.case Let_def req_def [symmetric] by (auto split: option.splits)
  have w2: "opn w2 = opn w" using rnd_opn [OF b] send_handshake_opn [OF s] by simp
  note a = assms [unfolded client_http_handshake_def b prod.case Let_def, folded req_def, unfolded s option.case prod.case]
  show ?thesis
  proof (cases "s = -1")
    case True
    then show ?thesis using a w2 by simp
  next
    case False
    then obtain q res w3 where q: "recv_http_handshake (cs_fl cs) fd [] w2 = Some (q, res, w3)" using a by (auto split: option.splits)
    have "w' = w3" using a False unfolding q by (auto split: if_splits option.splits)
    then show ?thesis using recv_handshake_opn [OF q] w2 by simp
  qed
qed

lemma non_block_opn:
  assumes "make_non_block (cs_fl cs) fd w = (n, w')"
  shows "opn w' = opn w"
proof -
  obtain flags w1 where g: "fl_getfl (cs_fl cs) fd w = (flags, w1)" by fastforce
  obtain r w2 where s: "fl_setfl (cs_fl cs) fd (flags OR fl_O_NONBLOCK (cs_fl cs)) w1 = (r, w2)" by fastforce
  have "w' = (if flags = -1 then w1 else w2)" using assms by (auto simp: make_non_block_def g s split: if_splits)
  then show ?thesis using fl_getfl_ok [OF g] fl_setfl_ok [OF s] by auto
qed

section \<open>The event loop\<close>

lemma set_os_world [simp]:
  "world_ok (client_has opn fd D) (set_client_os w ctx) \<longleftrightarrow>
     wc_fd (ec_user_data ctx) = fd \<and> opn w = D \<and> \<not> wslay_event_config_get_no_buffering ctx"
  by (simp add: world_ok_def client_has_def set_client_os_def)

lemma ctl_world:
  assumes "client_ctl_epollev cs epollfd add ctx = Some c" "world_ok (client_has opn fd D) ctx"
  shows "world_ok (client_has opn fd D) c"
proof -
  obtain r w where r: "cs_epoll_ctl cs epollfd add (wc_fd (ec_user_data ctx)) (wslay_event_want_read ctx, wslay_event_want_write ctx)
      (wc_os (ec_user_data ctx)) = (r, w)" by fastforce
  then have "c = set_client_os w ctx" using assms(1) by (auto simp: client_ctl_epollev_def split: if_splits)
  then show ?thesis using assms(2) epoll_ctl_opn [OF r] by (simp add: world_ok_def client_has_def set_client_os_def)
qed

lemma zero_world:
  "world_ok P ctx \<Longrightarrow> (\<And>r c. res = Some (r, c) \<Longrightarrow> world_ok P c) \<Longrightarrow> world_ok P (snd (must_be_zero res (s, ctx)))"
  by (auto simp: must_be_zero_def split: option.split sum.split)

lemma events_world:
  assumes "event_world cbs P"
  shows "world_ok P ctx \<Longrightarrow> world_ok P (snd (client_events cbs events ctx))"
proof (induction events arbitrary: ctx)
  case (Cons ev events)
  obtain ein eout where ev: "ev = (ein, eout)" by fastforce
  note keeps = event_world.recv_keeps_world [OF assms] event_world.send_keeps_world [OF assms]
  show ?case
    unfolding ev client_events.simps using Cons.prems
    by (intro andthen_inv [where J = "world_ok P"] Cons.IH) (auto intro!: zero_world dest: keeps)
qed simp

lemma round_world:
  assumes "client_on_msg_ok on_msg" "world_ok (client_has opn fd D) ctx" "client_round cs on_msg epollfd ctx = Some (e, c)"
  shows "world_ok (client_has opn fd D) c \<and> (\<forall>r. e = Some (Returned r) \<longrightarrow> r = -1)"
proof -
  obtain nfds events w where p: "cs_epoll_wait cs epollfd 1 (wc_os (ec_user_data ctx)) = (nfds, events, w)" by (metis prod_cases3)
  have c1: "world_ok (client_has opn fd D) (set_client_os w ctx)"
    using assms(2) epoll_wait_opn [OF p] by simp (simp add: world_ok_def client_has_def)
  let ?cbs = "client_callbacks (cs_os cs) (cs_rnd cs) on_msg"
  obtain s c2 where ev: "client_events ?cbs (take (nat nfds) events) (set_client_os w ctx) = (s, c2)" by fastforce
  have c2: "world_ok (client_has opn fd D) c2"
    using events_world [OF callbacks_world [OF assms(1) disjI1 [OF refl]] c1, of "take (nat nfds) events"] by (simp add: ev)
  note r = assms(3) [unfolded client_round_def p prod.case Let_def ev]
  show ?thesis
  proof (cases "nfds = -1")
    case True
    then show ?thesis using r c1 by auto
  next
    case False
    then show ?thesis using r c2 ctl_world [OF _ c2] by (auto split: step.splits option.splits)
  qed
qed

lemma loop_world:
  assumes "client_on_msg_ok on_msg" "world_ok (client_has opn fd D) ctx" "client_loop cs on_msg epollfd ctx = Some (e, c)"
  shows "world_ok (client_has opn fd D) c \<and> (\<forall>r. e = Returned r \<longrightarrow> r = 0 \<or> r = -1)"
proof -
  have "cs' = cs \<longrightarrow> client_on_msg_ok on_msg' \<longrightarrow> world_ok (client_has opn fd D) d \<longrightarrow>
      world_ok (client_has opn fd D) (snd y) \<and> (\<forall>r. fst y = Returned r \<longrightarrow> r = 0 \<or> r = -1)"
    if "client_loop cs' on_msg' epollfd d = Some y" for cs' on_msg' d y
    using that
  proof (rule client_loop.raw_induct [rotated], intro impI)
    fix f cs' on_msg' epollfd' d y
    assume IH: "\<And>a b e d y. f a b e d = Some y \<Longrightarrow> a = cs \<longrightarrow> client_on_msg_ok b \<longrightarrow> world_ok (client_has opn fd D) d \<longrightarrow>
        world_ok (client_has opn fd D) (snd y) \<and> (\<forall>r. fst y = Returned r \<longrightarrow> r = 0 \<or> r = -1)"
      and c: "cs' = cs" "client_on_msg_ok on_msg'" "world_ok (client_has opn fd D) d"
      and eq: "(if wslay_event_want_read d \<or> wslay_event_want_write d then
          (case client_round cs' on_msg' epollfd' d of None \<Rightarrow> None
           | Some (Some e, ctx') \<Rightarrow> Some (e, ctx')
           | Some (None, ctx') \<Rightarrow> f cs' on_msg' epollfd' ctx')
        else Some (Returned 0, d)) = Some y"
    show "world_ok (client_has opn fd D) (snd y) \<and> (\<forall>r. fst y = Returned r \<longrightarrow> r = 0 \<or> r = -1)"
    proof (cases "wslay_event_want_read d \<or> wslay_event_want_write d")
      case True
      then obtain o' d1 where r: "client_round cs on_msg' epollfd' d = Some (o', d1)" using eq unfolding c(1) by (auto split: option.splits)
      note d1 = round_world [OF c(2,3) r]
      show ?thesis
      proof (cases o')
        case None
        then have "f cs on_msg' epollfd' d1 = Some y" using eq True unfolding c(1) by (simp add: r)
        from IH [OF this] c(2) d1 show ?thesis by blast
      next
        case (Some e1)
        then have "y = (e1, d1)" using eq True unfolding c(1) by (simp add: r)
        then show ?thesis using d1 Some by auto
      qed
    qed (use eq c in auto)
  qed
  from this [OF assms(3)] assms(1,2) show ?thesis by simp
qed

section \<open>A call of communicate\<close>

text \<open>The descriptor of \<open>epoll\<close> stays open.\<close>

lemma close_opn: "opn (wc_os (client_close cs ctx)) = opn (wc_os (ec_user_data ctx)) - {wc_fd (ec_user_data ctx)}"
  using close_ok shutdown_ok by (simp add: client_close_def Let_def)

lemma done_opn:
  "client_done cs (e, c) = (Returned r, json, w') \<Longrightarrow> e = Returned r \<and> opn w' = opn (wc_os (ec_user_data c)) - {wc_fd (ec_user_data c)}"
  using close_opn [of c] by (auto simp: client_done_def Let_def split: if_splits)

lemma run_opn:
  assumes "client_on_msg_ok on_msg" "client_run cs on_msg ws = Some (Returned r, json, w')"
  shows "r = -1 \<and> opn w' = opn (wc_os ws) - {wc_fd ws} \<or>
    (r = 0 \<or> r = -1) \<and> (\<exists>x. x \<notin> opn (wc_os ws) \<and> opn w' = insert x (opn (wc_os ws)) - {wc_fd ws})"
proof -
  let ?fd = "wc_fd ws" and ?D = "opn (wc_os ws)"
  obtain ctx where ctx: "wslay_client_new (cs_mem cs) ws = Some ctx" using assms(2) by (auto simp: client_run_def split: option.splits)
  then have w: "world_ok (client_has opn ?fd ?D) ctx"
    by (auto simp: wslay_client_new_def context_new_eq world_ok_def client_has_def fresh_context_def wslay_event_config_get_no_buffering_def split: if_splits)
  note run = assms(2) [unfolded client_run_def ctx option.case]
  obtain res ctx1 where r: "wslay_event_recv (feeding_callbacks (cs_os cs) (cs_rnd cs) on_msg) ctx = Some (res, ctx1)"
    using run by (auto split: option.splits)
  have c1: "world_ok (client_has opn ?fd ?D) ctx1"
    by (rule event_world.recv_keeps_world [OF callbacks_world [OF assms(1) disjI2 [OF refl]] r w])
  obtain q where q: "res = Inr q" using run by (cases res) (auto simp: r dest: done_opn)
  obtain epollfd v where e: "cs_epoll_create cs (wc_os (ec_user_data ctx1)) = (epollfd, v)" by fastforce
  note run1 = run [unfolded r q option.case prod.case sum.case e]
  consider "q = -1" | "q \<noteq> -1" "epollfd = -1" | "q \<noteq> -1" "epollfd \<noteq> -1" by blast
  then show ?thesis
  proof cases
    case 1
    then have "client_done cs (Returned (-1), ctx1) = (Returned r, json, w')" using run1 by simp
    from done_opn [OF this] show ?thesis using c1 by (simp add: world_ok_def client_has_def)
  next
    case 2
    have "world_ok (client_has opn ?fd ?D) (set_client_os v ctx1)"
      using c1 epoll_create_opn [OF e] 2(2) by simp (auto simp: world_ok_def client_has_def)
    moreover have "client_done cs (Returned (-1), set_client_os v ctx1) = (Returned r, json, w')" using run1 2 by simp
    from done_opn [OF this] have "r = -1" "opn w' = opn (wc_os (ec_user_data (set_client_os v ctx1))) - {wc_fd (ec_user_data (set_client_os v ctx1))}"
      by simp_all
    ultimately show ?thesis by (simp add: world_ok_def client_has_def)
  next
    case 3
    have x: "epollfd \<notin> ?D" "world_ok (client_has opn ?fd (insert epollfd ?D)) (set_client_os v ctx1)"
      using c1 epoll_create_opn [OF e] 3(2) by (auto simp: world_ok_def client_has_def set_client_os_def)
    have "client_ctl_epollev cs epollfd True (set_client_os v ctx1) \<noteq> None"
    proof
      assume "client_ctl_epollev cs epollfd True (set_client_os v ctx1) = None"
      then have "client_done cs (Exited, set_client_os v ctx1) = (Returned r, json, w')" using run1 3 by simp
      from done_opn [OF this] show False by simp
    qed
    then obtain c2 where c2: "client_ctl_epollev cs epollfd True (set_client_os v ctx1) = Some c2" by blast
    then obtain e3 c3 where l: "client_loop cs on_msg epollfd c2 = Some (e3, c3)" "client_done cs (e3, c3) = (Returned r, json, w')"
      using run1 3 by auto
    note c3 = loop_world [OF assms(1) ctl_world [OF c2 x(2)] l(1)]
    from done_opn [OF l(2)] c3 have "r = 0 \<or> r = -1" "opn w' = insert epollfd ?D - {?fd}" by (auto simp: world_ok_def client_has_def)
    then show ?thesis using x(1) by blast
  qed
qed

lemma communicate_opn:
  assumes "client_on_msg_ok on_msg" "client_communicate cs host service path on_msg json w = Some (Returned r, json', w')" "-1 \<notin> opn w"
  shows "r = -1 \<and> opn w' = opn w \<or> (r = 0 \<or> r = -1) \<and> (\<exists>x. x \<notin> opn w \<and> opn w' = insert x (opn w))"
proof -
  obtain fd w1 where c: "connect_to (cs_nw cs) w = (fd, w1)" by fastforce
  have o1: "fd \<notin> opn w" "opn w1 = opn w \<union> ({fd} - {-1})" using connect_to_opn [OF c assms(3)] by simp_all
  note com = assms(2) [unfolded client_communicate_def c prod.case]
  show ?thesis
  proof (cases "fd = -1")
    case True
    then show ?thesis using com o1 by auto
  next
    case False
    obtain q body w2 where h: "client_http_handshake (cs_fl cs) (cs_rnd cs) (cs_sha1 cs) (cs_base64 cs) fd host service path w1 = Some (q, body, w2)"
      using com False by (auto split: option.splits)
    obtain nb w3 where nb: "make_non_block (cs_fl cs) fd w2 = (nb, w3)" by fastforce
    obtain so w4 where so: "fl_nodelay (cs_fl cs) fd w3 = (so, w4)" by fastforce
    have o: "opn w2 = insert fd (opn w)" "opn w4 = insert fd (opn w)"
      using o1 False handshake_opn [OF h] non_block_opn [OF nb] fl_nodelay_ok [OF so] by auto
    note com' = com [unfolded h nb so option.case prod.case]
    let ?ws = "\<lparr>wc_fd = fd, wc_body = body, wc_body_off = 0, wc_casecntjson = json, wc_os = w4\<rparr>"
    consider "q = -1" | "q \<noteq> -1" "so = -1" | "q \<noteq> -1" "so \<noteq> -1" by blast
    then show ?thesis
    proof cases
      case 1
      then have "r = -1" "w' = nw_close (cs_nw cs) fd w2" using com' False by simp_all
      then show ?thesis using o(1) o1(1) close_ok [of fd w2] by simp
    next
      case 2
      then have "r = -1" "w' = w4" using com' False by simp_all
      then show ?thesis using o(2) o1(1) by blast
    next
      case 3
      then have "client_run cs on_msg ?ws = Some (Returned r, json', w')" using com' False by simp
      from run_opn [OF assms(1) this]
      consider "r = -1" "opn w' = insert fd (opn w) - {fd}"
        | x where "r = 0 \<or> r = -1" "x \<notin> insert fd (opn w)" "opn w' = insert x (insert fd (opn w)) - {fd}" by (auto simp: o(2))
      then show ?thesis
      proof cases
        case 2
        then have "opn w' = insert x (opn w)" using o1(1) by auto
        then show ?thesis using 2 by blast
      qed (use o1(1) in simp)
    qed
  qed
qed

end

end
