(* ===== verification/Wslay_Client_Props.thy ===== *)
theory Wslay_Client_Props
  imports Wslay_Client_Descriptors Wslay_Network_Props Wslay_Handshake_Agreement
begin

text \<open>
  Properties of the test client, \<open>examples/testclient.cc\<close>: the descriptors it leaves open, the bytes that came in with the response.
\<close>

section \<open>The bytes after the response\<close>

text \<open>What \<open>read (2)\<close> promises: not more than there is room for.\<close>

definition reads_bounded :: "'o file_calls \<Rightarrow> bool" where
  "reads_bounded fl \<longleftrightarrow> (\<forall>fd len w. fst (fl_read fl fd len w) \<le> int len)"

lemma recv_handshake_result:
  assumes "recv_http_handshake fl fd hds w = Some (r, res, w')"
  shows "r = 0 \<or> r = -1"
proof -
  have "fst y = 0 \<or> fst y = -1" if "recv_http_handshake fl fd hds v = Some y" for fl :: "'a file_calls" and hds v y
    using that
    by (rule recv_http_handshake.raw_induct [rotated]) (auto simp: Let_def split: prod.splits if_splits)
  from this [OF assms] show ?thesis by simp
qed

text \<open>The loop that reads the response stops at the first read after which the response is complete.\<close>

lemma recv_handshake_body:
  fixes fl :: "'o file_calls"
  assumes "reads_bounded fl" "recv_http_handshake fl fd hds w = Some (0, res, w')" "find_sub (CRLF @ CRLF) hds = None"
  shows "\<exists>e. find_sub (CRLF @ CRLF) res = Some e \<and> length res < e + 4 + 4096"
proof -
  define pat :: "byte list" where "pat = CRLF @ CRLF"
  have l: "length pat = 4" by (simp add: pat_def)
  have "fl' = fl \<longrightarrow> fst y = 0 \<longrightarrow> find_sub pat hds = None \<longrightarrow>
      (\<exists>e. find_sub pat (fst (snd y)) = Some e \<and> length (fst (snd y)) < e + 4 + 4096)"
    if "recv_http_handshake fl' fd hds v = Some y" for fl' hds v y
    using that
  proof (rule recv_http_handshake.raw_induct [rotated], intro impI)
    fix f fl' fd' hds' v' and y' :: "int \<times> byte list \<times> 'o"
    assume IH: "\<And>a b c d y. f a b c d = Some y \<Longrightarrow> a = fl \<longrightarrow> fst y = 0 \<longrightarrow> find_sub pat c = None \<longrightarrow>
        (\<exists>e. find_sub pat (fst (snd y)) = Some e \<and> length (fst (snd y)) < e + 4 + 4096)"
      and fl: "fl' = fl" and y: "fst y' = 0" and no: "find_sub pat hds' = None"
      and eq: "(case fl_read fl' fd' 4096 v' of
        (r, bs, e, w') \<Rightarrow>
          if r \<le> 0 then Some (-1, hds', w')
          else (let resheader' = hds' @ take (nat r) bs
                in if find_from resheader' (CRLF @ CRLF) 0 \<noteq> None then Some (0, resheader', w')
                   else if length resheader' > 8192 then Some (-1, resheader', w')
                   else f fl' fd' resheader' w')) = Some y'"
    obtain r bs e w1 where rd: "fl_read fl fd' 4096 v' = (r, bs, e, w1)" by (metis prod_cases4)
    have r: "r \<le> 4096" using assms(1) unfolding reads_bounded_def by (metis fst_conv of_nat_numeral rd)
    define part where "part = take (nat r) bs"
    have part: "length part \<le> 4096" using r by (simp add: part_def)
    have eq': "(if r \<le> 0 then Some (-1, hds', w1)
        else if find_sub pat (hds' @ part) \<noteq> None then Some (0, hds' @ part, w1)
        else if length (hds' @ part) > 8192 then Some (-1, hds' @ part, w1) else f fl fd' (hds' @ part) w1) = Some y'"
      using eq unfolding fl rd prod.case Let_def find_from_0 part_def [symmetric] pat_def [symmetric] .
    consider "y' = (0, hds' @ part, w1)" "find_sub pat (hds' @ part) \<noteq> None"
      | "f fl fd' (hds' @ part) w1 = Some y'" "find_sub pat (hds' @ part) = None"
      using eq' y by (cases "r \<le> 0"; cases "find_sub pat (hds' @ part)"; cases "length (hds' @ part) > 8192") (simp_all del: find_sub.simps, auto)
    then show "\<exists>e. find_sub pat (fst (snd y')) = Some e \<and> length (fst (snd y')) < e + 4 + 4096"
    proof cases
      case 1
      then obtain i where i: "find_sub pat (hds' @ part) = Some i" by blast
      have "length hds' < i + 4"
      proof (rule ccontr)
        assume "\<not> length hds' < i + 4"
        then have "occurs pat hds' i" using i unfolding find_sub_Some occurs_def by (simp add: l)
        then show False using no by (simp add: find_sub_None)
      qed
      then show ?thesis using 1(1) i part by (intro exI [of _ i]) simp
    next
      case 2
      then show ?thesis using IH [OF 2(1)] y 2(2) by simp
    qed
  qed
  from this [OF assms(2)] assms(3) show ?thesis unfolding pat_def by simp
qed

lemma handshake_body:
  assumes "reads_bounded fl" "client_http_handshake fl rnd sha1 base64 fd host service path w = Some (0, body, w')"
  shows "length body < 4096"
proof -
  obtain bs w1 where b: "rnd 16 w = (bs, w1)" by fastforce
  define req where "req = takeWhile (\<lambda>b. b \<noteq> 0) (take 4095 (client_request host service path (base64 bs)))"
  note a = assms(2) [unfolded client_http_handshake_def b prod.case Let_def, folded req_def]
  obtain q w2 where s: "send_http_handshake fl fd req 0 w1 = Some (q, w2)" using a by (auto split: option.splits)
  have q: "q \<noteq> -1" using a by (auto simp: s)
  obtain r res w3 where r: "recv_http_handshake fl fd [] w2 = Some (r, res, w3)" using a q by (auto simp: s split: option.splits)
  have c: "check_response sha1 base64 (base64 bs) res = Some body" "r \<noteq> -1" using a q by (auto simp: s r split: if_splits option.splits)
  have z: "r = 0" using c(2) recv_handshake_result [OF r] by blast
  have "find_sub (CRLF @ CRLF) ([] :: byte list) = None" by simp
  from recv_handshake_body [OF assms(1) r [unfolded z] this]
  obtain e where e: "find_sub (CRLF @ CRLF) res = Some e" "length res < e + 4 + 4096" by blast
  have "body = substr res (e + 4) None" using c(1) unfolding check_response_def Let_def find_from_0 e(1) option.case by (simp split: option.splits if_splits del: find_sub.simps)
  then show ?thesis using e(2) by (simp add: substr_def)
qed

text \<open>C39. The bytes that came in after the response are fed to the library whole, and once. After a handshake that succeeded they are fewer than 4096, the
  room that the library offers at its first call; so the first call of \<open>feed_body\<close> hands out all of them, and the calls after it
  none. (\<open>feed_body\<close> would copy the first bytes again to a caller with less room.)\<close>

theorem feed_body_once:
  assumes "reads_bounded fl" "client_http_handshake fl rnd sha1 base64 fd host service path w = Some (0, body, w')"
    and "wc_body ws = body" "wc_body_off ws = 0"
  shows "feed_body IBUF_SIZE ws = (int (length body), body, ws\<lparr>wc_body_off := length body\<rparr>) \<and>
    feed_body len (ws\<lparr>wc_body_off := length body\<rparr>) = (0, [], ws\<lparr>wc_body_off := length body\<rparr>)"
  using handshake_body [OF assms(1,2)] assms(3,4) by (cases ws) (auto simp: feed_body_def Let_def)

lemma feed_body_again:
  assumes "wc_body_off ws = 0" "len < length (wc_body ws)" "feed_body len ws = (r, bs, ws')"
  shows "fst (snd (feed_body len ws')) = take (length (wc_body ws) - len) bs"
proof -
  have "bs = take len (wc_body ws)" "ws' = ws\<lparr>wc_body_off := len\<rparr>" using assms by (auto simp: feed_body_def Let_def min_def split: if_splits)
  then show ?thesis using assms(2) by (auto simp: feed_body_def Let_def min_def)
qed

section \<open>A client on a small system\<close>

declare send_http_handshake.simps [code] recv_http_handshake.simps [code] client_loop.simps [code]

text \<open>The state is what the peer sends and the list of the descriptors that are open. \<open>epoll_wait\<close> fails.\<close>

type_synonym desk = "byte list \<times> int list"

definition desk_net :: "(nat, desk) network" where
  "desk_net =
     \<lparr>nw_getaddrinfo = (\<lambda>w. (0, [0], w)), nw_socket = (\<lambda>rp (i, fds). (new_fd fds, i, new_fd fds # fds)),
      nw_reuseaddr = (\<lambda>fd w. (0, w)), nw_bind = (\<lambda>fd rp w. (0, w)),
      nw_listen = (\<lambda>fd n (i, fds). (if fd \<in> set fds then 0 else -1, i, fds)), nw_connect = (\<lambda>fd rp w. (0, w)),
      nw_accept = (\<lambda>fd (i, fds). (new_fd fds, i, new_fd fds # fds)), nw_shutdown = (\<lambda>fd w. w),
      nw_close = (\<lambda>fd (i, fds). (i, removeAll fd fds)), nw_fork = (\<lambda>w. (1, w))\<rparr>"

definition desk_read :: "int \<Rightarrow> nat \<Rightarrow> desk \<Rightarrow> int \<times> byte list \<times> errno \<times> desk" where
  "desk_read fd len w = (case w of (i, fds) \<Rightarrow> (int (length (take len i)), take len i, EAGAIN, drop len i, fds))"

definition desk_client :: "(nat, desk) client_sys" where
  "desk_client =
     \<lparr>cs_os = \<lparr>os_send = (\<lambda>fd ds fl w. (int (length ds), EAGAIN, w)), os_recv = desk_read,
        os_poll = (\<lambda>fd ein eout w. (0, \<lparr>pf_in = ein, pf_out = eout, pf_err = False\<rparr>, w)), os_MSG_MORE = 0\<rparr>,
      cs_fl = \<lparr>fl_read = desk_read, fl_write = (\<lambda>fd ds w. (int (length ds), EAGAIN, w)), fl_getfl = (\<lambda>fd w. (0, w)), fl_setfl = (\<lambda>fd fl w. (0, w)),
        fl_nodelay = (\<lambda>fd w. (0, w)), fl_O_NONBLOCK = 0x800\<rparr>,
      cs_nw = desk_net, cs_rnd = (\<lambda>len w. (replicate len 0, w)),
      cs_epoll_create = (\<lambda>(i, fds). (new_fd fds, i, new_fd fds # fds)), cs_epoll_ctl = (\<lambda>epollfd add fd evs w. (0, w)),
      cs_epoll_wait = (\<lambda>epollfd n w. (-1, [], w)), cs_sha1 = (\<lambda>x. []), cs_base64 = (\<lambda>x. ascii ''k''), cs_mem = mem_unlimited\<rparr>"

definition desk_fds :: "desk \<Rightarrow> int set" where
  "desk_fds w = set (snd w)"

interpretation desk: client_host desk_client desk_fds
  by unfold_locales
    (auto simp: desk_client_def desk_net_def desk_read_def desk_fds_def new_fd split: if_splits)

definition desk_response :: "byte list" where
  "desk_response = ascii ''Sec-WebSocket-Accept: k'' @ CRLF @ CRLF"

lemma desk_handshake:
  "client_http_handshake (cs_fl desk_client) (cs_rnd desk_client) (cs_sha1 desk_client) (cs_base64 desk_client) 4
     (ascii ''h'') (ascii ''80'') (ascii ''/'') (desk_response @ [7], [4, 3]) = Some (0, [7], [], [4, 3])"
  "client_http_handshake (cs_fl desk_client) (cs_rnd desk_client) (cs_sha1 desk_client) (cs_base64 desk_client) 4
     (ascii ''h'') (ascii ''80'') (ascii ''/'') (desk_response, [4, 3]) = Some (0, [], [], [4, 3])"
  by code_simp+

theorem feed_body_once_witness:
  "feed_body IBUF_SIZE \<lparr>wc_fd = 4, wc_body = [7], wc_body_off = 0, wc_casecntjson = [], wc_os = ()\<rparr> =
     (1, [7], \<lparr>wc_fd = 4, wc_body = [7], wc_body_off = 1, wc_casecntjson = [], wc_os = ()\<rparr>)"
proof -
  have "reads_bounded (cs_fl desk_client)" by (auto simp: reads_bounded_def desk_client_def desk_read_def)
  from feed_body_once [OF this desk_handshake(1), of "\<lparr>wc_fd = 4, wc_body = [7], wc_body_off = 0, wc_casecntjson = [], wc_os = ()\<rparr>" 0]
  show ?thesis by simp
qed

section \<open>Descriptors\<close>


text \<open>With nothing to feed, the first call of the library returns 0 at once.\<close>

lemma feed_nothing:
  assumes "wc_body ws = []"
  shows "wslay_event_recv (feeding_callbacks os rnd on_msg) ((fresh_context mem ws)\<lparr>ec_server := False\<rparr>) =
    Some (Inr 0, (fresh_context mem ws)\<lparr>ec_server := False\<rparr>)"
proof -
  have feed: "feed_body_callback len fl ctx = (0, [], ctx)" if "ec_user_data ctx = ws" for len fl and ctx :: "'a WebSocketClient wslay_event_context"
    using that assms by (simp add: feed_body_callback_def feed_body_def)
  show ?thesis
    by (subst wslay_event_recv.simps)
      (simp add: fresh_context_def recv_step_def wslay_frame_recv_def wslay_frame_block_def wslay_frame_fill_def wslay_recv_def WSLAY_AVAIL_IBUF_def
        wslay_frame_context_init_def event_frame_callbacks_def wslay_event_frame_recv_callback_def feeding_callbacks_def feed write_at_def recv_error_def)
qed

lemma desk_connect: "connect_to (cs_nw desk_client) (i, [3]) = (4, i, [4, 3])"
  by (simp add: connect_to_def desk_client_def desk_net_def new_fd_def)

lemma desk_run:
  "client_run desk_client None \<lparr>wc_fd = 4, wc_body = [], wc_body_off = 0, wc_casecntjson = [], wc_os = ([], [4, 3])\<rparr> =
     Some (Returned (-1), [], [], [5, 3])"
proof -
  let ?ws = "\<lparr>wc_fd = 4, wc_body = [], wc_body_off = 0, wc_casecntjson = [], wc_os = ([], [4, 3])\<rparr>"
  define m where "m = mem_unlimited\<lparr>mem_calls := 10\<rparr>"
  have new: "wslay_client_new (cs_mem desk_client) ?ws = Some ((fresh_context m ?ws)\<lparr>ec_server := False\<rparr>)"
    by (simp add: wslay_client_new_def context_new_eq desk_client_def mem_unlimited_def m_def list_all_iff)
  let ?c = "(fresh_context m ?ws)\<lparr>ec_server := False\<rparr>"
  have fds: "new_fd [4, 3] = 5" by (simp add: new_fd_def)
  have ctl: "client_ctl_epollev desk_client 5 True (set_client_os ([], [5, 4, 3]) ?c) = Some (set_client_os ([], [5, 4, 3]) ?c)"
    by (simp add: client_ctl_epollev_def desk_client_def set_client_os_def fresh_context_def)
  have loop: "client_loop desk_client None 5 (set_client_os ([], [5, 4, 3]) ?c) = Some (Returned (-1), set_client_os ([], [5, 4, 3]) ?c)"
    by (subst client_loop.simps)
      (simp add: client_round_def desk_client_def set_client_os_def fresh_context_def wslay_event_want_read_def)
  have create: "cs_epoll_create desk_client (wc_os (ec_user_data ?c)) = (5, [], [5, 4, 3])"
    by (simp add: desk_client_def fresh_context_def fds)
  have "client_done desk_client (Returned (-1), set_client_os ([], [5, 4, 3]) ?c) = (Returned (-1), [], [], [5, 3])"
    by (simp add: client_done_def client_close_def set_client_os_def fresh_context_def desk_client_def desk_net_def Let_def)
  then show ?thesis
    unfolding client_run_def new option.case feed_nothing [OF WebSocketClient.select_convs(2)] prod.case sum.case create
    by (simp add: ctl loop)
qed


end
