(* ===== verification/Wslay_Pipe.thy ===== *)
theory Wslay_Pipe
  imports Wslay_Client Wslay_Event_Props
begin

text \<open>
  A run of the model: the test client of \<open>examples/testclient.cc\<close> sends a text over a pipe, and the echo server of \<open>examples/fork-echoserv.c\<close> sends it
  back. The calls of the library on both sides are evaluated.
\<close>

text \<open>The client's callbacks in a test case.\<close>

abbreviation echoing_callbacks ::
    "'o os_calls \<Rightarrow> (nat \<Rightarrow> 'o \<Rightarrow> byte list \<times> 'o) \<Rightarrow> 'o WebSocketClient wslay_event_context wslay_event_callbacks" where
  "echoing_callbacks os rnd \<equiv> client_callbacks os rnd (Some client_on_msg_recv_callback)"

text \<open>The model runs: the equation of \<open>Freed\<close> that the evaluation needs, and the loops.\<close>

definition is_freed :: "'a tptr \<Rightarrow> bool" where
  "is_freed m = (case m of Freed \<Rightarrow> True | _ \<Rightarrow> False)"

lemma is_freed_code [code_unfold]: "HOL.equal m Freed \<longleftrightarrow> is_freed m"
  by (cases m) (auto simp: is_freed_def equal)

declare wslay_event_recv.simps [code] wslay_event_flatten_loop.simps [code] wslay_event_send.simps [code]

text \<open>A pair of pipes: what is left to read, and what was written.\<close>

definition pipe_os :: "(byte list \<times> byte list) os_calls" where
  "pipe_os =
     \<lparr>os_send = (\<lambda>fd ds fl (i, out). (int (length ds), EAGAIN, i, out @ ds)),
      os_recv = (\<lambda>fd len (i, out). (if i = [] then -1 else int (length (take len i)), take len i, EAGAIN, drop len i, out)),
      os_poll = (\<lambda>fd ein eout w. (1, \<lparr>pf_in = ein, pf_out = eout, pf_err = False\<rparr>, w)), os_MSG_MORE = 0x8000\<rparr>"

definition seven_rnd :: "nat \<Rightarrow> byte list \<times> byte list \<Rightarrow> byte list \<times> byte list \<times> byte list" where
  "seven_rnd len w = (replicate len 7, w)"

abbreviation hi_text :: "byte list" where
  "hi_text \<equiv> [0x48, 0x69]"

text \<open>The frames of the message on both ways.\<close>

abbreviation hi_masked :: "byte list" where
  "hi_masked \<equiv> [0x81, 0x82, 7, 7, 7, 7, 0x4f, 0x6e]"

abbreviation hi_plain :: "byte list" where
  "hi_plain \<equiv> [0x81, 2, 0x48, 0x69]"

definition new_client :: "(byte list \<times> byte list) WebSocketClient wslay_event_context" where
  "new_client = fresh_context mem_unlimited \<lparr>wc_fd = 4, wc_body = [], wc_body_off = 0, wc_casecntjson = [], wc_os = (hi_plain, [])\<rparr>"

definition hi_client :: "(byte list \<times> byte list) WebSocketClient wslay_event_context" where
  "hi_client = snd (wslay_event_queue_msg new_client (echo_msg 1 hi_text))"

definition hi_server :: "(byte list \<times> byte list) Session wslay_event_context" where
  "hi_server = echo_server (hi_masked, [])"

lemma client_run_send:
  "map_option (\<lambda>(r, c). (r, wslay_event_want_write c, wc_os (ec_user_data c), mem_ok (ec_mem c) n))
     (wslay_event_send (echoing_callbacks pipe_os seven_rnd) hi_client) = Some (Inr 0, False, (hi_plain, hi_masked), True)"
  by code_simp

lemma server_run_recv:
  "(case wslay_event_recv (echo_callbacks pipe_os) hi_server of
      Some (Inr r, s) \<Rightarrow> r = 0 \<and> wslay_event_want_write s \<and>
        (case wslay_event_send (echo_callbacks pipe_os) s of
           Some (Inr r', t) \<Rightarrow> r' = 0 \<and> \<not> wslay_event_want_write t \<and> snd (se_os (ec_user_data t)) = hi_plain
         | _ \<Rightarrow> False)
    | _ \<Rightarrow> False)"
  by code_simp

end
