(* ===== verification/Wslay_Round_Trip.thy ===== *)
theory Wslay_Round_Trip
  imports Wslay_Pipe Wslay_Client_Descriptors Wslay_Fragment_Props
begin

text \<open>
  The test client and the echo server together: a message that the client sends comes back to it.
\<close>

section \<open>The client on a socket\<close>

text \<open>The socket of the client and its source of random bytes.\<close>

locale client_link = socket os wire stream ok
  for os :: "'o os_calls" and wire :: "'o \<Rightarrow> byte list" and stream :: "'o \<Rightarrow> byte list" and ok :: "'o \<Rightarrow> bool" +
  fixes rnd :: "nat \<Rightarrow> 'o \<Rightarrow> byte list \<times> 'o"
  assumes rnd_ok: "ok w \<Longrightarrow> rnd len w = (bs, w') \<Longrightarrow> ok w' \<and> wire w' = wire w \<and> length bs = len"

abbreviation of_client :: "('o \<Rightarrow> 'a) \<Rightarrow> 'o WebSocketClient \<Rightarrow> 'a" where
  "of_client f ws \<equiv> f (wc_os ws)"

lemma client_recv_keeps:
  "client_recv_callback os len fl ctx = (r, bs, ctx') \<Longrightarrow> recv_part ctx' = recv_part ctx \<and> send_part ctx' = send_part ctx"
  by (auto simp: client_recv_callback_def set_client_os_def wslay_event_set_error_def Let_def split: prod.splits if_splits)

context client_link begin

lemma client_out: "event_out (client_callbacks os rnd on_msg) (of_client wire) (of_client ok)"
proof
  fix w ds fl u r w'
  assume ok: "of_client ok (ec_user_data w)" and "send_callback (event_frame_callbacks (client_callbacks os rnd on_msg)) ds fl u w = (r, w')"
  then have "client_send_callback os ds fl u w = (r, w')"
    by (simp add: event_frame_callbacks_def wslay_event_frame_send_callback_def client_callbacks_def)
  from client_send_os [OF this] obtain e sfl v where o: "os_send os (wc_fd (ec_user_data w)) ds sfl (wc_os (ec_user_data w)) = (r, e, v)"
      "ec_user_data w' = (ec_user_data w)\<lparr>wc_os := v\<rparr>" by blast
  show "of_client ok (ec_user_data w')"
    "0 < r \<Longrightarrow> nat r \<le> length ds \<and> of_client wire (ec_user_data w') = of_client wire (ec_user_data w) @ take (nat r) ds"
    "r \<le> 0 \<Longrightarrow> of_client wire (ec_user_data w') = of_client wire (ec_user_data w)"
    using os_ok [OF ok o(1)] os_some [OF ok o(1)] os_none [OF ok o(1)] o(2) by auto
next
  fix w m key w'
  assume ok: "of_client ok (ec_user_data w)" and "genmask_callback (event_frame_callbacks (client_callbacks os rnd on_msg)) 4 w = (m, key, w')"
  then have "client_genmask_callback rnd 4 w = (m, key, w')"
    by (simp add: event_frame_callbacks_def wslay_event_frame_genmask_callback_def client_callbacks_def)
  from client_genmask_os [OF this] obtain v where "rnd 4 (wc_os (ec_user_data w)) = (key, v)" "ec_user_data w' = (ec_user_data w)\<lparr>wc_os := v\<rparr>" by blast
  then show "of_client ok (ec_user_data w') \<and> of_client wire (ec_user_data w') = of_client wire (ec_user_data w) \<and> length key \<le> 4 \<and> (m = 0 \<longrightarrow> length key = 4)"
    using rnd_ok [OF ok] by simp
qed (auto simp: client_callbacks_def dest: client_send_app client_genmask_app)

lemma client_peer: "event_peer (echoing_callbacks os rnd) (of_client stream) (of_client ok)"
proof
  fix w len flags r bs w'
  assume ok: "of_client ok (ec_user_data w)" and "recv_callback (event_frame_callbacks (echoing_callbacks os rnd)) len flags w = (r, bs, w')"
  then have "client_recv_callback os len flags w = (r, bs, w')"
    by (simp add: event_frame_callbacks_def wslay_event_frame_recv_callback_def client_callbacks_def)
  from client_recv_os [OF this] obtain r0 e v where o: "os_recv os (wc_fd (ec_user_data w)) len (wc_os (ec_user_data w)) = (r0, bs, e, v)"
      "r = (if r0 = 0 then -1 else r0)" "ec_user_data w' = (ec_user_data w)\<lparr>wc_os := v\<rparr>" by blast
  show "of_client ok (ec_user_data w')" "length bs \<le> len \<and> r \<le> int len"
    "0 < r \<Longrightarrow> length bs = nat r \<and> of_client stream (ec_user_data w) = bs @ of_client stream (ec_user_data w')"
    "r \<le> 0 \<Longrightarrow> of_client stream (ec_user_data w') = of_client stream (ec_user_data w)"
    using rd.os_ok [OF ok o(1)] rd.os_bound [OF ok o(1)] rd.os_some [OF ok o(1)] rd.os_none [OF ok o(1)] o(2,3) by (auto split: if_splits)
qed (auto simp: client_callbacks_def client_on_msg_echo echo_msg_keeps quiet_def dest: client_recv_keeps)

end

section \<open>There and back\<close>

text \<open>A frame that is a whole data message.\<close>

lemma whole_frame:
  assumes "frame_out srv f" "data_opcode (fr_opcode f)"
  shows "msg_frames (\<not> srv) (fr_opcode f) [f]" "payloads [f] = fr_payload f" "wire_bytes [f] = rfc_frame f"
  using assms by (auto simp: frame_out_def wire_bytes_def)

text \<open>The server at rest.\<close>

definition echo_idle :: "('o \<Rightarrow> byte list) \<Rightarrow> ('o \<Rightarrow> byte list) \<Rightarrow> ('o \<Rightarrow> bool) \<Rightarrow> 'o Session wslay_event_context \<Rightarrow> bool" where
  "echo_idle wire stream ok srv \<longleftrightarrow> session_ok wire ok srv \<and> between_messages (echo_stream stream) (echo_ok ok) srv \<and> can_queue srv \<and>
     ec_server srv \<and> ec_omsg srv = None \<and> ob_ctrl (outbox_of srv) = [] \<and> ob_data (outbox_of srv) = []"

lemma echo_returns:
  assumes "socket os wire stream ok" "echo_idle wire stream ok srv" "data_opcode op" "length p < 2 ^ 63" "op = 1 \<longrightarrow> utf8_text p"
    and "frame_out False f" "fr_opcode f = op" "fr_payload f = p" "length p \<le> unat (ec_max_recv_msg_length srv)"
    and "window (ec_frame_ctx srv) @ echo_stream stream (ec_user_data srv) = rfc_frame f"
    and "wslay_event_recv (echo_callbacks os) srv = Some (Inr 0, s)" "wslay_event_want_write s"
    and "wslay_event_send (echo_callbacks os) s = Some (Inr 0, t)" "\<not> wslay_event_want_write t"
  shows "\<exists>g. frame_out True g \<and> fr_opcode g = op \<and> fr_payload g = p \<and>
    wire (se_os (ec_user_data t)) = wire (se_os (ec_user_data srv)) @ rfc_frame g"
proof -
  have os: "socket_os os stream ok" using assms(1) by (simp add: socket_def)
  have id: "session_ok wire ok srv" "between_messages (echo_stream stream) (echo_ok ok) srv" "can_queue srv" "ec_server srv"
    "ec_omsg srv = None" "ob_ctrl (outbox_of srv) = []" "ob_data (outbox_of srv) = []" using assms(2) by (simp_all add: echo_idle_def)
  note w = whole_frame [OF assms(6), unfolded assms(7,8), OF assms(3)]
  have "receiving (echo_stream stream) (echo_ok ok) op [f] 0 [] [] srv"
    by (rule between_messages_receiving [OF id(2)]) (use w id(4) assms(3,9,10) in simp_all)
  from echo_recv_outcome [OF os this id(3)] assms(5)
  have "outbox_of s = outbox_of srv \<or> outbox_of s = outbox_put (whole_msg (echo_msg op p)) (outbox_of srv)"
    by (auto simp: out_of_input_def assms(8,11))
  then have "echoed os wire op p (wire (se_os (ec_user_data srv))) s"
    using echo_nothing_sends [OF assms(1) id(1,5-7) assms(11)] assms(12)
      echo_put_sends [OF assms(1) id(1) assms(3,4) id(3,5-7) assms(11)] by blast
  then show ?thesis using assms(13,14) by (auto simp: echoed_def)
qed

text \<open>C5. A message comes back. The test client has one text or binary message queued and nothing else to send, and its \<open>wslay_event_send\<close>
  reports that all is written; the echo server, at rest, has exactly those bytes ahead, its \<open>wslay_event_recv\<close> leaves it something to write and
  its \<open>wslay_event_send\<close> reports that all is written; the client has exactly what the server wrote ahead. Then the client's
  \<open>wslay_event_recv\<close> hands \<open>on_msg_recv_callback\<close> the message it sent, with the same opcode, once and whole, or stops inside it
  for want of input: whatever the mask of the client was and however the network cut the bytes on both ways.\<close>

theorem echo_round_trip:
  assumes "client_link cos cwire cstream cok rnd" "socket os wire stream ok"
    and "data_opcode op" "length p < 2 ^ 63" "op = 2 \<or> utf8_text p"
    and "sending (of_client cwire) (of_client cok) [] ctx" "script ctx = [whole_msg (echo_msg op p)]" "ec_omsg ctx = None" "\<not> ec_server ctx"
    and "wslay_event_send (echoing_callbacks cos rnd) ctx = Some (Inr 0, d)" "\<not> wslay_event_want_write d"
    and "echo_idle wire stream ok srv" "length p \<le> unat (ec_max_recv_msg_length srv)"
    and "window (ec_frame_ctx srv) @ echo_stream stream (ec_user_data srv) = of_client cwire (ec_user_data d)"
    and "wslay_event_recv (echo_callbacks os) srv = Some (Inr 0, s)" "wslay_event_want_write s"
    and "wslay_event_send (echo_callbacks os) s = Some (Inr 0, t)" "\<not> wslay_event_want_write t"
    and "between_messages (of_client cstream) (of_client cok) d" "\<not> ec_server d" "length p \<le> unat (ec_max_recv_msg_length d)"
    and "echo_stream wire (ec_user_data t) = echo_stream wire (ec_user_data srv) @ window (ec_frame_ctx d) @ of_client cstream (ec_user_data d)"
  shows "\<exists>c. message_received (echoing_callbacks cos rnd) client_on_msg_recv_callback (of_client cstream) (of_client cok) op p [] d c"
proof -
  note m = echo_msg_frame [OF assms(3,4)]
  obtain f where f: "frame_of False (whole_msg (echo_msg op p)) f" "of_client cwire (ec_user_data d) = rfc_frame f"
    using single_message_sent [OF client_link.client_out [OF assms(1), of "Some client_on_msg_recv_callback"] assms(6,7) m(1,2) assms(8)] assms(9-11) by auto
  have ff: "frame_out False f" "fr_opcode f = op" "fr_payload f = p" using frame_of_out [OF f(1)] m(4) [OF f(1)] by simp_all
  have u: "op = 1 \<longrightarrow> utf8_text p" using assms(5) by auto
  obtain g where g: "frame_out True g" "fr_opcode g = op" "fr_payload g = p"
      "echo_stream wire (ec_user_data t) = echo_stream wire (ec_user_data srv) @ rfc_frame g"
    using echo_returns [OF assms(2,12,3,4) u ff assms(13) assms(14) [unfolded f(2)] assms(15-18)] by blast
  note w = whole_frame [OF g(1), unfolded g(2,3), OF assms(3)]
  have "receiving (of_client cstream) (of_client cok) op [g] 0 [] [] d"
    by (rule between_messages_receiving [OF assms(19)]) (use w assms(3,20-22) g(4) in simp_all)
  moreover have "ev_on_msg_recv_callback (echoing_callbacks cos rnd) = Some client_on_msg_recv_callback" by (simp add: client_callbacks_def)
  ultimately obtain c where "message_received (echoing_callbacks cos rnd) client_on_msg_recv_callback (of_client cstream) (of_client cok) op (whole [g] 0 []) [] d c"
    using event_peer.recv_message_loop [OF client_link.client_peer [OF assms(1)]] by blast
  then show ?thesis by (auto simp: whole_def g(3))
qed

section \<open>The run of the pipes\<close>

interpretation pipe: client_link pipe_os snd fst "\<lambda>_. True" seven_rnd
  by unfold_locales (auto simp: pipe_os_def seven_rnd_def min_def split: if_splits)

lemma queue_msg_view: "outbox_inv ctx \<Longrightarrow> in_view (snd (wslay_event_queue_msg ctx arg)) = in_view ctx"
  using arg_cong [OF queue_msg_outbox_only [unfolded outbox_only_def], of ctx in_view arg] by (simp add: sans_outbox_def in_view_def)

lemma client_start:
  "sending (of_client snd) (of_client (\<lambda>_. True)) [] hi_client" "script hi_client = [whole_msg (echo_msg 1 hi_text)]"
  "ec_omsg hi_client = None" "in_view hi_client = in_view new_client"
proof -
  let ?m = "echo_msg 1 hi_text"
  have new: "can_queue new_client" "ec_omsg new_client = None" "outbox_inv new_client" "ob_ctrl (outbox_of new_client) = []" "ob_data (outbox_of new_client) = []"
    by (simp_all add: new_client_def fresh_context_def mem_unlimited_def can_queue_def outbox_inv_def outbox_of_def wslay_event_is_msg_queueable_def)
  have s: "sending (of_client snd) (of_client (\<lambda>_. True)) [] new_client"
    using new by (intro fresh_sending) (simp_all add: new_client_def fresh_context_def)
  have n: "\<not> wslay_is_ctrl_frame (em_opcode ?m)" by (simp add: echo_msg_def wslay_is_ctrl_frame_def)
  note q = queue_msg_open [OF new(1), of ?m, folded hi_client_def]
  show "sending (of_client snd) (of_client (\<lambda>_. True)) [] hi_client"
    by (rule sending_queue_msg [OF s _ prod.collapse [symmetric], of ?m, folded hi_client_def]) (rule echo_msg_sound, simp_all add: data_opcode_def)
  have "ob_open (outbox_of hi_client)" using q(2) n by (simp add: can_queue_def)
  then have "\<not> close_queued hi_client" using open_not_closing by blast
  then show "script hi_client = [whole_msg ?m]"
    using q(1,3) n new by (simp add: script_outbox outbox_put_def Let_def whole_msg_def is_close_def echo_msg_def)
  show "ec_omsg hi_client = None" using q(3) n new(2) by simp
  show "in_view hi_client = in_view new_client" using queue_msg_view [OF new(3)] by (simp add: hi_client_def)
qed

lemma hi_server_idle: "echo_idle snd fst (\<lambda>_. True) hi_server"
proof -
  have "session_ok snd (\<lambda>_. True) hi_server"
    unfolding hi_server_def session_ok_def
    using echo_server_wire [where ok = "\<lambda>_. True" and wire = snd, of "(hi_masked, [])"] echo_server_receiver [where ok = "\<lambda>_. True"] by simp
  moreover have "between_messages (echo_stream fst) (echo_ok (\<lambda>_. True)) hi_server"
    using echo_server_ready(1) init_window(1)
    by (auto simp: between_messages_def hi_server_def echo_server_simps idle_def wslay_event_config_get_no_buffering_def frame_boundary_def wslay_frame_context_init_def)
  ultimately show ?thesis
    using echo_server_ready(2) by (simp add: echo_idle_def hi_server_def) (simp add: echo_server_simps outbox_of_def)
qed

text \<open>Sending leaves a receiver between two messages.\<close>

lemma between_messages_view:
  assumes "in_view d = in_view ctx" "between_messages stream ok ctx" "ok (ec_user_data d)" "\<And>n. mem_ok (ec_mem d) n"
  shows "between_messages stream ok d" "ec_server d = ec_server ctx" "ec_max_recv_msg_length d = ec_max_recv_msg_length ctx"
    "window (ec_frame_ctx d) = window (ec_frame_ctx ctx)"
proof -
  have v: "ec_imsgs d = ec_imsgs ctx" "ec_imsg d = ec_imsg ctx" "ec_ipayloadlen d = ec_ipayloadlen ctx" "ec_ipayloadoff d = ec_ipayloadoff ctx"
    "ec_config d = ec_config ctx" "ec_read_enabled d = ec_read_enabled ctx" "frame_in_part (ec_frame_ctx d) = frame_in_part (ec_frame_ctx ctx)"
    "ec_server d = ec_server ctx" "ec_max_recv_msg_length d = ec_max_recv_msg_length ctx"
    using assms(1) by (simp_all add: in_view_def)
  have i: "imsg_get d = imsg_get ctx" by (simp add: imsg_get_def v)
  have f: "fc_inv (ec_frame_ctx d) = fc_inv (ec_frame_ctx ctx)" "frame_boundary (ec_frame_ctx d) = frame_boundary (ec_frame_ctx ctx)"
    "window (ec_frame_ctx d) = window (ec_frame_ctx ctx)"
    using v(7) by (simp_all add: frame_in_part_def fc_inv_def frame_boundary_def window_def)
  show "between_messages stream ok d"
    using assms(2-4) by (simp add: between_messages_def idle_def i v f wslay_event_config_get_no_buffering_def)
  show "ec_server d = ec_server ctx" "ec_max_recv_msg_length d = ec_max_recv_msg_length ctx" by (rule v)+
  show "window (ec_frame_ctx d) = window (ec_frame_ctx ctx)" by (rule f)
qed

lemma case_run: "(case res of Some (Inr r, s) \<Rightarrow> P r s | _ \<Rightarrow> False) \<Longrightarrow> \<exists>r s. res = Some (Inr r, s) \<and> P r s"
  by (auto split: option.split_asm prod.split_asm sum.split_asm)

theorem echo_round_trip_witness:
  "\<exists>d c. wslay_event_send (echoing_callbacks pipe_os seven_rnd) hi_client = Some (Inr 0, d) \<and>
    message_received (echoing_callbacks pipe_os seven_rnd) client_on_msg_recv_callback (of_client fst) (of_client (\<lambda>_. True)) 1 hi_text [] d c"
proof -
  let ?cbs = "echoing_callbacks pipe_os seven_rnd"
  obtain d where d: "wslay_event_send ?cbs hi_client = Some (Inr 0, d)" "\<not> wslay_event_want_write d" "wc_os (ec_user_data d) = (hi_plain, hi_masked)"
    using client_run_send by auto
  have mem: "mem_ok (ec_mem d) n" for n using client_run_send [of n] d(1) by simp
  obtain s t where st: "wslay_event_recv (echo_callbacks pipe_os) hi_server = Some (Inr 0, s)" "wslay_event_want_write s"
      "wslay_event_send (echo_callbacks pipe_os) s = Some (Inr 0, t)" "\<not> wslay_event_want_write t" "snd (se_os (ec_user_data t)) = hi_plain"
    using case_run [OF server_run_recv] by (elim exE conjE) (drule case_run, blast)
  have "in_view d = in_view hi_client"
    using event_out.send_loop [OF pipe.client_out [of "Some client_on_msg_recv_callback"] client_start(1,2)] d(1) by (auto simp: send_outcome_def)
  then have v: "in_view d = in_view new_client" by (simp only: client_start(4))
  have b: "between_messages (of_client fst) (of_client (\<lambda>_. True)) new_client"
    using init_window(1) echo_server_ready(1) [of "()"]
    by (auto simp: between_messages_def idle_def new_client_def fresh_context_def fresh_imsg_def mem_unlimited_def imsg_get_def echo_server_def
        wslay_event_config_get_no_buffering_def frame_boundary_def wslay_frame_context_init_def)
  note k = between_messages_view [OF v b _ mem]
  have n: "\<not> ec_server new_client" "ec_max_recv_msg_length new_client = - 1" "window (ec_frame_ctx new_client) = []"
    using init_window(2) by (simp_all add: new_client_def fresh_context_def)
  have c: "\<not> ec_server hi_client" using client_start(4) n(1) by (simp add: in_view_def)
  have h: "window (ec_frame_ctx hi_server) = []" "se_os (ec_user_data hi_server) = (hi_masked, [])" "ec_max_recv_msg_length hi_server = - 1"
    using init_window(2) by (simp_all add: hi_server_def echo_server_simps)
  have u: "utf8_text hi_text" by (rule utf8_accepted_texts) code_simp
  have "\<exists>c. message_received ?cbs client_on_msg_recv_callback (of_client fst) (of_client (\<lambda>_. True)) 1 hi_text [] d c"
    by (intro echo_round_trip [OF pipe.client_link_axioms pipe.socket_axioms _ _ _ client_start(1-3) c d(1,2) hi_server_idle _ _ st(1-4)])
      (use u k n h d(3) st(5) max_length [of 2] in \<open>simp_all add: data_opcode_def\<close>)
  then show ?thesis using d(1) by blast
qed

end
