(* ===== verification/Wslay_Servers.thy ===== *)
theory Wslay_Servers
  imports Wslay_Network Wslay_Reactor
begin

text \<open>
  The two servers as programs: \<open>main\<close> of \<open>examples/fork-echoserv.c\<close> and of \<open>examples/echoserv.cc\<close>, from the listening socket on.
  The result is the exit status of the process that ends, a child that served its connection included.
\<close>

datatype server_end = Exit_Failure | Exit_Status int | Server_Fault fault

fun end_of :: "fault + int \<Rightarrow> server_end" where
  "end_of (Inl f) = Server_Fault f"
| "end_of (Inr r) = Exit_Status r"

definition fork_main ::
    "('a, 'o) network \<Rightarrow> 'o os_calls \<Rightarrow> 'o file_calls \<Rightarrow> (byte list \<Rightarrow> byte list) \<Rightarrow> (byte list \<Rightarrow> byte list) \<Rightarrow> allocator \<Rightarrow> byte list
       \<Rightarrow> 'o \<Rightarrow> (server_end \<times> 'o) option" where
  "fork_main nw os fl sha1 base64 mem junk w =
     (case create_listen_socket nw w of
        (sfd, w1) \<Rightarrow>
          if sfd = -1 then Some (Exit_Failure, w1)
          else map_option (\<lambda>(res, w2). (end_of res, w2)) (serve nw (\<lambda>fd. communicate os fl sha1 base64 mem fd junk) sfd w1))"

definition reactor_main :: "('a, 'o) network \<Rightarrow> 'o reactor_sys \<Rightarrow> 'o \<Rightarrow> server_end option" where
  "reactor_main nw sys w =
     (case create_listen_socket nw w of
        (sfd, w1) \<Rightarrow>
          if sfd = -1 then Some Exit_Failure
          else (case reactor sys sfd w1 of
                  None \<Rightarrow> Some Exit_Failure
                | Some run \<Rightarrow> map_option (\<lambda>(res, st). end_of res) run))"

end
