(* ===== verification/Spec2Isabelle.thy ===== *)
theory Spec2Isabelle
  imports Wslay_Session_Props Wslay_Fragment_Props Wslay_Handshake_Props Wslay_Reactor_Props Wslay_Network_Props Wslay_Client_Props Wslay_Round_Trip Wslay_Servers
begin

text \<open>
  A verification of wslay, a C library for the WebSocket protocol (RFC 6455), and of the three programs that come with it.

  \<^bold>\<open>The program.\<close> The library has two layers. The frame layer (\<open>src/wslay/frame.c\<close>) writes and parses one frame at a time through the
  application's callbacks; a callback that blocks leaves it in the middle of a frame, and the next call goes on there. The event layer
  (\<open>src/wslay/event.c\<close>) builds messages of frames: \<open>wslay_event_recv\<close> assembles them, checks UTF-8 with the automaton of
  \<open>src/wslay/utf8.c\<close>, answers pings and closes, and calls the application; \<open>wslay_event_send\<close> sends what was queued in the linked queues of
  \<open>src/wslay/queue.h\<close>, control messages first. \<open>src/wslay/context.c\<close> makes the contexts. The examples put an HTTP handshake and an event loop
  around the library: a server with a process for each connection (\<open>examples/fork-echoserv.c\<close>), a server that serves all
  connections in one loop (\<open>examples/echoserv.cc\<close>), and a test client (\<open>examples/testclient.cc\<close>).

  \<^bold>\<open>How it is modelled.\<close> A C struct is a record and a function a function on it, with the names of the source; a long function is cut into one definition for each block.
  Fields of fixed width that the peer controls are words and wrap; pointers into arrays are offsets; a pointer to a heap block says whether the
  block is live, and the use of a freed or null one is a \<open>fault\<close>, a result like any other. The application's callbacks, the system calls, the
  allocator (\<open>talloc2\<close>, a submodule whose sources are not in the repository) and the functions of nettle are parameters. What the code relies on of
  them is stated by locales, each interpreted on the model's definitions or on a scripted system.

  \<^item> Components of the library: \<open>Wslay_Prelude\<close> (machine types, arrays, byte order, the allocator), \<open>Wslay_Queue\<close> (\<open>queue.h\<close>, the cells on a heap), \<open>Wslay_Utf8\<close>
    (\<open>utf8.c\<close>, \<open>utf8.h\<close>), \<open>Wslay_Api\<close> (\<open>wslay.h\<close>), \<open>Wslay_Frame\<close> (\<open>frame.h\<close>, \<open>frame.c\<close>), \<open>Wslay_Event\<close> (\<open>event.h\<close>, the queueing functions and accessors of
    \<open>event.c\<close>), \<open>Wslay_Event_Recv\<close> and \<open>Wslay_Event_Send\<close> (the two loops of \<open>event.c\<close>), \<open>Wslay_Context\<close> (\<open>context.h\<close>, \<open>context.c\<close>).
  \<^item> The frame layer, proved: \<open>Wslay_Rfc6455\<close> has the reference, a frame as a record and its bytes \<open>rfc_frame\<close>; \<open>Wslay_Frame_Recv\<close> (contract \<open>byte_source\<close>) and
    \<open>Wslay_Frame_Send\<close> (contract \<open>byte_sink\<close>) show that the parser and the writer are its inverse and its implementation however the bytes
    are cut; \<open>Wslay_Frame_Props\<close> has the properties. \<open>Wslay_Test_Feed\<close> instantiates both contracts with the callbacks of \<open>tests/frame.c\<close>.
  \<^item> Receiving, proved: \<open>Wslay_Event_App\<close> (contracts \<open>event_app\<close>, \<open>event_peer\<close>), \<open>Wslay_Event_Inbox\<close>, \<open>Wslay_Event_Assembly\<close>, \<open>Wslay_Event_Message\<close>, \<open>Wslay_Event_Control\<close>,
    \<open>Wslay_Event_Termination\<close>; properties in \<open>Wslay_Event_Props\<close>.
  \<^item> Sending, proved: \<open>Wslay_Event_Outbox\<close> (an abstract outbox that the queueing functions refine), \<open>Wslay_Event_Sending\<close> (contract \<open>event_out\<close>; \<open>script\<close> is the order of
    what goes out), \<open>Wslay_Event_Fragments\<close> (contract \<open>event_feed\<close>), \<open>Wslay_Event_Invariant\<close>, \<open>Wslay_Event_Wire\<close> (what is on the wire at any time),
    \<open>Wslay_Event_World\<close> (properties of \<open>user_data\<close>); properties in \<open>Wslay_Session_Props\<close> and \<open>Wslay_Fragment_Props\<close>, the latter on the application of \<open>tests/event.c\<close>
    (\<open>Wslay_Test_Event\<close>).
  \<^item> \<open>examples/fork-echoserv.c\<close>: \<open>Wslay_Echo\<close> and \<open>Wslay_Echo_Loop\<close> (callbacks and loop of \<open>communicate\<close>; contracts \<open>socket_os\<close>, \<open>socket_send\<close>, \<open>socket\<close>), \<open>Wslay_Http\<close> (C strings and
    \<open>std::string\<close>), \<open>Wslay_Handshake\<close> (the HTTP handshake; contract \<open>file_os\<close>), \<open>Wslay_Network\<close> (\<open>create_listen_socket\<close>, \<open>serve\<close>; contract
    \<open>sockets\<close>), \<open>Wslay_Servers\<close> (\<open>main\<close>).
  \<^item> \<open>examples/testclient.cc\<close>: \<open>Wslay_Client_Handshake\<close>, \<open>Wslay_Client\<close> (the class, the loop, the test run), \<open>Wslay_Client_Descriptors\<close> (contract \<open>client_host\<close>), \<open>Wslay_Client_Props\<close>.
  \<^item> \<open>examples/echoserv.cc\<close>: \<open>Wslay_Reactor\<close> (the handlers, the reactor with its heap of objects), \<open>Wslay_Reactor_Safety\<close> and \<open>Wslay_Reactor_Steps\<close> (contract \<open>reactor_os\<close> and the invariant),
    \<open>Wslay_Reactor_Props\<close>.
  \<^item> Together: \<open>Wslay_Handshake_Agreement\<close>, \<open>Wslay_Handshake_Props\<close> (server and client agree on the handshake) \<open>Wslay_Pipe\<close> (a run) and \<open>Wslay_Round_Trip\<close> (a message of the client comes back to
    it).

  \<^bold>\<open>What is shown.\<close> \<open>wslay_frame_recv\<close> decodes RFC 6455 frames byte for byte and rejects exactly the forbidden headers; \<open>wslay_frame_send\<close> produces
  them. A message reaches the application of the other side once and whole, whatever the fragments, masks and cuts of the network. Both loops
  of the event layer end, what goes out is at any time a sequence of whole valid frames and a part of one more, with nothing after a close frame.
  Control frames, protocol errors, invalid UTF-8 and close codes are answered as the standard asks. The handshakes end and agree. The reactor neither uses a deleted
  handler nor loses or shares a descriptor. Where the code does otherwise than it means to, the property states
  what it does: the second message in a slot uses a freed queue; an unmasked frame after a masked one is masked; the reply to our own close
  makes \<open>wslay_event_recv\<close> fail; an empty end of a source is not noticed; a request without a terminator is read beyond its end; the client
  leaves a descriptor open for each call, and the parent of the forking server one for each connection.

  \<^bold>\<open>Loops and bounds.\<close> A loop that need not end is a \<open>partial_function (option)\<close>, \<open>None\<close> if it does not; no operation has fuel. \<open>wslay_event_recv\<close>, \<open>wslay_event_send\<close>, the loop over the chunks, the
  destructor of the queue and the handshakes are proved to end. The loops of the programs (\<open>communicate_loop\<close>, \<open>serve\<close>, \<open>reactor_loop\<close>, \<open>client_loop\<close>) run as long as their peers do; the rounds of the
  servers are proved to end, and properties of the loops hold in every state that is reached. Payloads that are echoed are assumed shorter than \<open>2 ^ 63\<close> bytes, as RFC 6455 demands.

  \<^bold>\<open>Not modelled.\<close> The CUnit suites (\<open>tests/\<close>), apart from the callbacks they pass to the library: they assert, and have no behaviour of their own. \<open>talloc2\<close>, nettle, the C library and the system: parameters.
  \<open>wslay_event_config_set_callbacks\<close>: declared and never defined. Messages to the terminal, the signal dispositions of the three \<open>main\<close> functions, and the retries after \<open>EINTR\<close>, which
  are part of the calls. The random choice of masks: any four bytes. The functions that \<open>examples/echoserv.cc\<close> repeats from the other examples (\<open>create_listen_socket\<close>, \<open>make_non_block\<close>,
  \<open>create_acceptkey\<close>) are modelled once. Interleaving of threads: the library has none, and the processes share nothing but their sockets.
\<close>

end
